(* ===== verification/Prelude.thy ===== *)
theory Prelude
  imports Main "HOL-Library.Word" "HOL-Library.Char_ord" "HOL-Library.List_Lexorder"
begin

text \<open>
  What every component theory shares: the Rust types the program is written with, the operations
  of the Rust standard library it calls on them, and the generic lemmas about them.

  A Rust \<open>str\<close> is the list of its UTF-8 bytes (an Isabelle \<open>char\<close> is one byte), so \<open>len()\<close> is
  \<open>length\<close>, a byte offset is a list index, and the bytewise order of \<open>List_Lexorder\<close> is Rust's
  order on strings. Operations that look at Unicode scalar values read the bytes: the White\_Space
  characters of Unicode are recognised by their encodings (\<open>ws_len\<close>). \<open>u32\<close> and \<open>u64\<close> are words,
  whose arithmetic wraps as a release build's does; \<open>usize\<close> offsets and counts, which are bounded by
  the length of a string in memory, are \<open>nat\<close>.
\<close>

section \<open>Types and rule collections\<close>

type_synonym u32 = "32 word"
type_synonym u64 = "64 word"
type_synonym str = "char list"

named_theorems range_specs \<open>what a range operation covers\<close>
named_theorems note_simps \<open>parsing what was printed\<close>
named_theorems tiling_intros \<open>introduction rules for diffs that tile their inputs\<close>

abbreviation u32_MAX :: u32 where
  "u32_MAX \<equiv> - 1"

section \<open>Machine integers\<close>

lemma u32_suc_unat: "(a::u32) < b \<Longrightarrow> unat (a + 1) = Suc (unat a)"
  by unat_arith

lemma u32_pred_unat: "(a::u32) < b \<Longrightarrow> unat (b - 1) = unat b - 1"
  by unat_arith

lemma u32_less_eq_pred: "(a::u32) < b \<Longrightarrow> l \<le> b - 1 \<longleftrightarrow> l < b"
  by unat_arith

lemma u32_suc_less_eq: "(a::u32) < b \<Longrightarrow> a + 1 \<le> l \<longleftrightarrow> a < l"
  by unat_arith

lemma u32_suc_eq: "(a::u32) < b \<Longrightarrow> b = a + 1 \<longleftrightarrow> unat b = Suc (unat a)"
  by unat_arith

lemma unat_u32_bound [simp]: "unat (w::u32) < 4294967296"
  using unsigned_less [of w] by simp

lemma unat_u32_le_bound: "n \<le> unat (w::u32) \<Longrightarrow> n < 4294967296"
  using unat_u32_bound [of w] by linarith

lemma unat_of_nat_u32: "n < 4294967296 \<Longrightarrow> unat (of_nat n :: u32) = n"
  by (simp add: unsigned_of_nat take_bit_nat_eq_self)

lemma of_nat_u32_inject:
  "(of_nat m :: u32) = of_nat n \<Longrightarrow> m < 4294967296 \<Longrightarrow> n < 4294967296 \<Longrightarrow> m = n"
  by (metis unat_of_nat_u32)

section \<open>Lists\<close>

lemma strict_sorted_remdups_adj:
  "sorted (xs :: 'a :: linorder list) \<Longrightarrow> sorted_wrt (<) (remdups_adj xs)"
proof (induction xs rule: remdups_adj.induct)
  case (3 x y xs)
  then show ?case
    by (auto simp: less_le split: if_splits dest: order.antisym intro: order.trans)
qed simp_all

lemma sorted_takeWhile_mem:
  "sorted (map f xs) \<Longrightarrow> x \<in> set xs \<Longrightarrow> f x < e \<Longrightarrow> x \<in> set (takeWhile (\<lambda>y. f y < e) xs)"
  by (induction xs) (auto intro: order.strict_trans1)

end
