(* ===== verification/Line_Range.thy ===== *)
theory Line_Range
  imports Prelude
begin

text \<open>
  Line ranges (\<open>src/authorship/authorship_log.rs\<close>, \<open>enum LineRange\<close> and its \<open>impl\<close>): the set of
  lines an attestation covers, kept as single lines and inclusive ranges over \<open>u32\<close>.
\<close>

section \<open>The data type and its operations\<close>

datatype LineRange = Single u32 | Range u32 u32

fun LineRange_contains :: "LineRange \<Rightarrow> u32 \<Rightarrow> bool" where
  "LineRange_contains (Single l) line = (l = line)"
| "LineRange_contains (Range start end') line = (start \<le> line \<and> line \<le> end')"

fun LineRange_overlaps :: "LineRange \<Rightarrow> LineRange \<Rightarrow> bool" where
  "LineRange_overlaps (Single l1) (Single l2) = (l1 = l2)"
| "LineRange_overlaps (Single l) (Range start end') = (start \<le> l \<and> l \<le> end')"
| "LineRange_overlaps (Range start end') (Single l) = (start \<le> l \<and> l \<le> end')"
| "LineRange_overlaps (Range start1 end1) (Range start2 end2) = (start1 \<le> end2 \<and> start2 \<le> end1)"

fun LineRange_remove :: "LineRange \<Rightarrow> LineRange \<Rightarrow> LineRange list" where
  "LineRange_remove (Single l) (Single r) = (if l = r then [] else [Single l])"
| "LineRange_remove (Single l) (Range start end') =
     (if start \<le> l \<and> l \<le> end' then [] else [Single l])"
| "LineRange_remove (Range start end') (Single r) =
     (if r < start \<or> end' < r then [Range start end']
      else if r = start \<and> r = end' then []
      else if r = start then [Range (start + 1) end']
      else if r = end' then [Range start (end' - 1)]
      else [Range start (r - 1), Range (r + 1) end'])"
| "LineRange_remove (Range start1 end1) (Range start2 end2) =
     (if end1 < start2 \<or> end2 < start1 then [Range start1 end1]
      else (if start1 < start2 then [Range start1 (start2 - 1)] else []) @
           (if end2 < end1 then [Range (end2 + 1) end1] else []))"

definition close_run :: "u32 \<Rightarrow> u32 \<Rightarrow> LineRange" where
  "close_run current_start current_end =
     (if current_start = current_end then Single current_start else Range current_start current_end)"

fun compress_loop :: "u32 \<Rightarrow> u32 \<Rightarrow> u32 list \<Rightarrow> LineRange list" where
  "compress_loop current_start current_end [] = [close_run current_start current_end]"
| "compress_loop current_start current_end (line # lines) =
     (if line = current_end + 1 then compress_loop current_start line lines
      else close_run current_start current_end # compress_loop line line lines)"

fun LineRange_compress_lines :: "u32 list \<Rightarrow> LineRange list" where
  "LineRange_compress_lines [] = []"
| "LineRange_compress_lines (line # lines) = compress_loop line line lines"

fun LineRange_expand :: "LineRange \<Rightarrow> u32 list" where
  "LineRange_expand (Single l) = [l]"
| "LineRange_expand (Range start end') = map of_nat [unat start..<Suc (unat end')]"

definition apply_offset :: "u32 \<Rightarrow> int \<Rightarrow> u32 \<Rightarrow> u32 option" where
  "apply_offset insertion_point offset line =
     (if insertion_point \<le> line
      then let shifted = uint line + offset
           in if 0 \<le> shifted \<and> shifted \<le> uint u32_MAX then Some (word_of_int shifted) else None
      else Some line)"

fun LineRange_shift :: "u32 \<Rightarrow> int \<Rightarrow> LineRange \<Rightarrow> LineRange option" where
  "LineRange_shift insertion_point offset (Single l) =
     (case apply_offset insertion_point offset l of
        None \<Rightarrow> None
      | Some new_line \<Rightarrow> Some (Single new_line))"
| "LineRange_shift insertion_point offset (Range start end') =
     (case apply_offset insertion_point offset start of
        None \<Rightarrow> None
      | Some new_start \<Rightarrow>
          (case apply_offset insertion_point offset end' of
             None \<Rightarrow> None
           | Some new_end \<Rightarrow>
               (if new_start \<le> new_end then Some (close_run new_start new_end) else None)))"

section \<open>The lines a list of ranges covers\<close>

fun wf_range :: "LineRange \<Rightarrow> bool" where
  "wf_range (Single l) = True"
| "wf_range (Range start end') = (start \<le> end')"

definition covers :: "LineRange list \<Rightarrow> u32 \<Rightarrow> bool" where
  "covers rs l = list_ex (\<lambda>r. LineRange_contains r l) rs"

lemma covers_simps [simp]:
  "\<not> covers [] l"
  "covers (r # rs) l \<longleftrightarrow> LineRange_contains r l \<or> covers rs l"
  "covers (rs @ qs) l \<longleftrightarrow> covers rs l \<or> covers qs l"
  by (auto simp: covers_def)

lemma covers_concat: "covers (concat rss) l \<longleftrightarrow> (\<exists>rs \<in> set rss. covers rs l)"
  by (induction rss) auto

lemma covers_iff_mem: "covers rs l \<longleftrightarrow> (\<exists>r \<in> set rs. LineRange_contains r l)"
  by (simp add: covers_def list_ex_iff)

lemma LineRange_remove_covers [range_specs]:
  "covers (LineRange_remove r t) l \<longleftrightarrow> LineRange_contains r l \<and> \<not> LineRange_contains t l"
proof (cases "(r, t)" rule: LineRange_remove.cases)
  case (3 start end' s)
  then show ?thesis
    by (cases "s < start \<or> end' < s")
      (auto, unat_arith+)
next
  case (4 start1 end1 start2 end2)
  then show ?thesis
    by (auto simp: u32_less_eq_pred u32_suc_less_eq)
qed auto

lemma LineRange_remove_wf:
  "wf_range r \<Longrightarrow> list_all wf_range (LineRange_remove r t)"
  by (cases "(r, t)" rule: LineRange_remove.cases) (auto, unat_arith+)

lemma LineRange_overlaps_iff:
  assumes "wf_range r" and "wf_range t"
  shows "LineRange_overlaps r t \<longleftrightarrow> (\<exists>l. LineRange_contains r l \<and> LineRange_contains t l)"
  using assms
proof (cases "(r, t)" rule: LineRange_remove.cases)
  case (4 start1 end1 start2 end2)
  with assms have "start1 \<le> end2 \<and> start2 \<le> end1 \<longleftrightarrow>
      LineRange_contains r (max start1 start2) \<and> LineRange_contains t (max start1 start2)"
    by auto
  with 4 show ?thesis by fastforce
qed auto

lemma set_LineRange_expand: "set (LineRange_expand r) = {l. LineRange_contains r l}"
proof (cases r)
  case (Range a b)
  have "l \<in> of_nat ` {unat a..<Suc (unat b)}" if "a \<le> l" "l \<le> b" for l
    using that by (intro image_eqI [of _ _ "unat l"]) (auto simp: word_le_nat_alt)
  moreover have "a \<le> of_nat n \<and> of_nat n \<le> b" if "unat a \<le> n" "n < Suc (unat b)" for n
  proof -
    have "unat (of_nat n :: u32) = n"
      using that unat_u32_le_bound [of n b] by (simp add: unat_of_nat_u32)
    with that show ?thesis by (simp add: word_le_nat_alt)
  qed
  ultimately show ?thesis using Range by (auto simp del: upt_Suc)
qed auto

lemma LineRange_expand_distinct: "distinct (LineRange_expand r)"
proof (cases r)
  case (Range a b)
  have "inj_on (of_nat :: nat \<Rightarrow> u32) {unat a..<Suc (unat b)}"
  proof (rule inj_onI)
    fix x y
    assume "x \<in> {unat a..<Suc (unat b)}" "y \<in> {unat a..<Suc (unat b)}"
      and eq: "(of_nat x :: u32) = of_nat y"
    then have "x < 4294967296" "y < 4294967296"
      using unat_u32_le_bound [of x b] unat_u32_le_bound [of y b] by simp_all
    with eq show "x = y" by (rule of_nat_u32_inject)
  qed
  then show ?thesis using Range by (simp add: distinct_map del: upt_Suc)
qed simp

section \<open>Compressing a sorted list of lines\<close>

lemma close_run_expand:
  "LineRange_expand (close_run a b) = LineRange_expand (Range a b)"
  by (simp add: close_run_def)

lemma close_run_contains [simp]:
  "LineRange_contains (close_run a b) l \<longleftrightarrow> a \<le> l \<and> l \<le> b"
  by (auto simp: close_run_def)

lemma expand_run_snoc:
  assumes "a \<le> e" and "e < (l :: u32)" and "l = e + 1"
  shows "LineRange_expand (Range a l) = LineRange_expand (Range a e) @ [l]"
proof -
  have "unat l = Suc (unat e)" using assms by (simp add: u32_suc_unat)
  moreover have "unat a \<le> unat e" using assms by (simp add: word_le_nat_alt)
  moreover have "of_nat (Suc (unat e)) = l" using calculation(1) [symmetric] by simp
  ultimately show ?thesis by simp
qed

lemma compress_loop_expand:
  assumes "a \<le> e" and "sorted_wrt (<) (e # ls)"
  shows "concat (map LineRange_expand (compress_loop a e ls)) = LineRange_expand (Range a e) @ ls"
  using assms
proof (induction a e ls rule: compress_loop.induct)
  case (1 a e)
  then show ?case by (simp add: close_run_expand del: LineRange_expand.simps)
next
  case (2 a e line lines)
  show ?case
  proof (cases "line = e + 1")
    case True
    with 2 have "concat (map LineRange_expand (compress_loop a line lines)) =
        LineRange_expand (Range a line) @ lines"
      by (intro "2.IH"(1)) auto
    with True 2 show ?thesis
      using expand_run_snoc [of a e line] by (simp del: LineRange_expand.simps)
  next
    case False
    with 2 have "concat (map LineRange_expand (compress_loop line line lines)) =
        LineRange_expand (Range line line) @ lines"
      by (intro "2.IH"(2)) auto
    with False show ?thesis by (simp add: close_run_expand)
  qed
qed

lemma compress_lines_expand:
  "sorted_wrt (<) ls \<Longrightarrow> concat (map LineRange_expand (LineRange_compress_lines ls)) = ls"
  by (cases ls) (simp_all add: compress_loop_expand)

lemma covers_iff_expand: "covers rs l \<longleftrightarrow> l \<in> set (concat (map LineRange_expand rs))"
  by (induction rs) (auto simp: set_LineRange_expand)

lemma covers_compress_lines [range_specs]:
  "sorted_wrt (<) ls \<Longrightarrow> covers (LineRange_compress_lines ls) l \<longleftrightarrow> l \<in> set ls"
  by (simp add: covers_iff_expand compress_lines_expand)

fun first_line :: "LineRange \<Rightarrow> u32" where
  "first_line (Single l) = l"
| "first_line (Range start end') = start"

fun last_line :: "LineRange \<Rightarrow> u32" where
  "last_line (Single l) = l"
| "last_line (Range start end') = end'"

text \<open>Canonical ranges: non-empty, in increasing order, with a gap between two neighbours.\<close>

definition canonical_ranges :: "LineRange list \<Rightarrow> bool" where
  "canonical_ranges rs \<longleftrightarrow> list_all wf_range rs \<and>
     sorted_wrt (\<lambda>r q. Suc (unat (last_line r)) < unat (first_line q)) rs"

lemma close_run_ends [simp]:
  "first_line (close_run a e) = a" "last_line (close_run a e) = e"
  "wf_range (close_run a e) \<longleftrightarrow> a \<le> e"
  by (auto simp: close_run_def)

lemma compress_loop_lower:
  "a \<le> e \<Longrightarrow> sorted_wrt (<) (e # ls) \<Longrightarrow> q \<in> set (compress_loop a e ls) \<Longrightarrow> a \<le> first_line q"
proof (induction a e ls rule: compress_loop.induct)
  case (2 a e line lines)
  then show ?case by (auto split: if_splits dest!: "2.IH" intro: order.trans less_imp_le)
qed simp

lemma compress_loop_canonical:
  "a \<le> e \<Longrightarrow> sorted_wrt (<) (e # ls) \<Longrightarrow> canonical_ranges (compress_loop a e ls)"
proof (induction a e ls rule: compress_loop.induct)
  case (2 a e line lines)
  show ?case
  proof (cases "line = e + 1")
    case True
    with 2 show ?thesis by (auto intro: order.strict_implies_order order.trans less_imp_le)
  next
    case False
    with 2 have IH: "canonical_ranges (compress_loop line line lines)" by auto
    have "Suc (unat e) < unat (first_line q)" if "q \<in> set (compress_loop line line lines)" for q
    proof -
      from that 2 have "line \<le> first_line q" by (intro compress_loop_lower) auto
      moreover have "Suc (unat e) < unat line"
        using False 2 by (auto simp: u32_suc_eq word_less_nat_alt)
      ultimately show ?thesis by (simp add: word_le_nat_alt)
    qed
    with False IH 2 show ?thesis by (simp add: canonical_ranges_def)
  qed
qed (simp add: canonical_ranges_def)

lemma compress_lines_canonical:
  "sorted_wrt (<) ls \<Longrightarrow> canonical_ranges (LineRange_compress_lines ls)"
  by (cases ls) (simp add: canonical_ranges_def, simp add: compress_loop_canonical)

section \<open>The interface of line ranges\<close>

text \<open>
  What the clients of line ranges rely on: a range knows the lines it contains, can be cut by
  another, expanded to its lines, and rebuilt from sorted lines. Normalising and subtracting lists
  of ranges are correct for every such type.
\<close>

locale line_range_ops =
  fixes contains :: "'r \<Rightarrow> u32 \<Rightarrow> bool"
    and remove :: "'r \<Rightarrow> 'r \<Rightarrow> 'r list"
    and expand :: "'r \<Rightarrow> u32 list"
    and compress :: "u32 list \<Rightarrow> 'r list"
  assumes remove_law: "list_ex (\<lambda>q. contains q l) (remove r t) \<longleftrightarrow> contains r l \<and> \<not> contains t l"
    and expand_law: "set (expand r) = {l. contains r l}"
    and compress_law: "sorted_wrt (<) ls \<Longrightarrow> list_ex (\<lambda>q. contains q l) (compress ls) \<longleftrightarrow> l \<in> set ls"
begin

lemma remove_from_all_law:
  "list_ex (\<lambda>q. contains q l) (concat (map (\<lambda>r. remove r t) rs)) \<longleftrightarrow>
     list_ex (\<lambda>q. contains q l) rs \<and> \<not> contains t l"
  by (induction rs) (auto simp: remove_law)

lemma subtract_law:
  "list_ex (\<lambda>q. contains q l) (fold (\<lambda>t rs. concat (map (\<lambda>r. remove r t) rs)) ts rs) \<longleftrightarrow>
     list_ex (\<lambda>q. contains q l) rs \<and> \<not> list_ex (\<lambda>q. contains q l) ts"
  by (induction ts arbitrary: rs) (auto simp: remove_from_all_law)

lemma normalize_law:
  "list_ex (\<lambda>q. contains q l) (compress (remdups_adj (sort (concat (map expand rs))))) \<longleftrightarrow>
     list_ex (\<lambda>q. contains q l) rs"
proof -
  have "sorted_wrt (<) (remdups_adj (sort (concat (map expand rs))))"
    by (rule strict_sorted_remdups_adj) simp
  from compress_law [OF this, of l] show ?thesis by (simp add: expand_law) (auto simp: list_ex_iff)
qed

end

interpretation lr: line_range_ops LineRange_contains LineRange_remove LineRange_expand LineRange_compress_lines
proof
  show "list_ex (\<lambda>q. LineRange_contains q l) (LineRange_remove r t) \<longleftrightarrow>
      LineRange_contains r l \<and> \<not> LineRange_contains t l" for l r t
    using LineRange_remove_covers [of r t l] by (simp add: covers_def)
  show "set (LineRange_expand r) = {l. LineRange_contains r l}" for r
    by (rule set_LineRange_expand)
  show "list_ex (\<lambda>q. LineRange_contains q l) (LineRange_compress_lines ls) \<longleftrightarrow> l \<in> set ls"
    if "sorted_wrt (<) ls" for l ls
    using covers_compress_lines [OF that, of l] by (simp add: covers_def)
qed

section \<open>Properties\<close>

text \<open>Removing a range from a range leaves exactly the lines of the first that the second does
  not contain, on every branch of \<open>LineRange::remove\<close> and at the ends of \<open>u32\<close>: no line is lost
  or invented by the \<open>+ 1\<close> and \<open>- 1\<close> of the split.
\<close>

theorem remove_exact:
  "covers (LineRange_remove r t) l \<longleftrightarrow> LineRange_contains r l \<and> \<not> LineRange_contains t l"
  by (rule LineRange_remove_covers)

text \<open>Compressing a strictly sorted list of line numbers loses nothing: expanding the ranges gives
  the list back, in order. The ranges are canonical: non-empty, increasing, and never adjacent, so
  no two of them could be one.
\<close>

theorem compress_lines_roundtrip:
  assumes "sorted_wrt (<) ls"
  shows "concat (map LineRange_expand (LineRange_compress_lines ls)) = ls \<and>
    canonical_ranges (LineRange_compress_lines ls)"
  using assms by (simp add: compress_lines_expand compress_lines_canonical)

theorem compress_lines_roundtrip_witness:
  "LineRange_compress_lines [1, 2, 3, 7] = [Range 1 3, Single 7] \<and>
   concat (map LineRange_expand (LineRange_compress_lines [1, 2, 3, 7])) = [1, 2, 3, 7] \<and>
   canonical_ranges (LineRange_compress_lines [1, 2, 3, 7])"
proof -
  have "sorted_wrt (<) [1, 2, 3, 7 :: u32]" by simp
  from compress_lines_roundtrip [OF this] show ?thesis
    by (simp add: close_run_def)
qed

end
