(* ===== verification/Rust_Str.thy ===== *)
theory Rust_Str
  imports Prelude
begin

text \<open>
  The operations of Rust's \<open>str\<close> the program calls, over UTF-8 byte lists: prefixes, splitting,
  lines, trimming of Unicode white space, parsing and printing of \<open>u32\<close>; with the lemmas that make
  printing and parsing inverse to each other.
\<close>

section \<open>Prefixes, suffixes and splitting\<close>

abbreviation newline :: char where "newline \<equiv> CHR 0x0A"
abbreviation carriage_return :: char where "carriage_return \<equiv> CHR 0x0D"

definition starts_with :: "str \<Rightarrow> str \<Rightarrow> bool" where
  "starts_with s p = (take (length p) s = p)"

definition ends_with :: "str \<Rightarrow> str \<Rightarrow> bool" where
  "ends_with s p = (length p \<le> length s \<and> drop (length s - length p) s = p)"

definition strip_prefix :: "str \<Rightarrow> str \<Rightarrow> str option" where
  "strip_prefix s p = (if starts_with s p then Some (drop (length p) s) else None)"

text \<open>\<open>str::find\<close> with an ASCII character: the byte offset of its first occurrence.\<close>

fun find_char :: "char \<Rightarrow> str \<Rightarrow> nat option" where
  "find_char c [] = None"
| "find_char c (x # xs) = (if x = c then Some 0 else map_option Suc (find_char c xs))"

text \<open>\<open>str::split_once\<close>: the parts before and after the first occurrence of the separator.\<close>

fun split_once :: "str \<Rightarrow> str \<Rightarrow> (str \<times> str) option" where
  "split_once p [] = (if p = [] then Some ([], []) else None)"
| "split_once p (x # xs) =
     (if starts_with (x # xs) p then Some ([], drop (length p) (x # xs))
      else map_option (\<lambda>(a, b). (x # a, b)) (split_once p xs))"

text \<open>\<open>str::split\<close> with an ASCII character: always at least one part.\<close>

fun split_char :: "char \<Rightarrow> str \<Rightarrow> str list" where
  "split_char c [] = [[]]"
| "split_char c (x # xs) =
     (if x = c then [] # split_char c xs
      else case split_char c xs of [] \<Rightarrow> [[x]] | y # ys \<Rightarrow> (x # y) # ys)"

fun join :: "str \<Rightarrow> str list \<Rightarrow> str" where
  "join sep [] = []"
| "join sep [x] = x"
| "join sep (x # xs) = x @ sep @ join sep xs"

text \<open>\<open>str::lines\<close>: split after every newline, then drop a final newline and a carriage return
  before it.\<close>

fun split_inclusive :: "str \<Rightarrow> str list" where
  "split_inclusive [] = []"
| "split_inclusive (x # xs) =
     (if x = newline then [x] # split_inclusive xs
      else case split_inclusive xs of [] \<Rightarrow> [[x]] | y # ys \<Rightarrow> (x # y) # ys)"

definition strip_eol :: "str \<Rightarrow> str" where
  "strip_eol line =
     (if line \<noteq> [] \<and> last line = newline
      then let body = butlast line
           in if body \<noteq> [] \<and> last body = carriage_return then butlast body else body
      else line)"

definition str_lines :: "str \<Rightarrow> str list" where
  "str_lines s = map strip_eol (split_inclusive s)"

section \<open>White space\<close>

text \<open>The UTF-8 encodings of the characters with the Unicode property White\_Space.\<close>

definition ws_encodings :: "str list" where
  "ws_encodings =
     [[CHR 0x09], [CHR 0x0A], [CHR 0x0B], [CHR 0x0C], [CHR 0x0D], [CHR 0x20],
      [CHR 0xC2, CHR 0x85], [CHR 0xC2, CHR 0xA0], [CHR 0xE1, CHR 0x9A, CHR 0x80],
      [CHR 0xE2, CHR 0x80, CHR 0x80], [CHR 0xE2, CHR 0x80, CHR 0x81], [CHR 0xE2, CHR 0x80, CHR 0x82],
      [CHR 0xE2, CHR 0x80, CHR 0x83], [CHR 0xE2, CHR 0x80, CHR 0x84], [CHR 0xE2, CHR 0x80, CHR 0x85],
      [CHR 0xE2, CHR 0x80, CHR 0x86], [CHR 0xE2, CHR 0x80, CHR 0x87], [CHR 0xE2, CHR 0x80, CHR 0x88],
      [CHR 0xE2, CHR 0x80, CHR 0x89], [CHR 0xE2, CHR 0x80, CHR 0x8A], [CHR 0xE2, CHR 0x80, CHR 0xA8],
      [CHR 0xE2, CHR 0x80, CHR 0xA9], [CHR 0xE2, CHR 0x80, CHR 0xAF], [CHR 0xE2, CHR 0x81, CHR 0x9F],
      [CHR 0xE3, CHR 0x80, CHR 0x80]]"

text \<open>The number of bytes of the white-space character a string starts (ends) with; 0 for none.\<close>

definition ws_len :: "str \<Rightarrow> nat" where
  "ws_len s = (case find (\<lambda>w. starts_with s w) ws_encodings of None \<Rightarrow> 0 | Some w \<Rightarrow> length w)"

definition ws_end_len :: "str \<Rightarrow> nat" where
  "ws_end_len s = (case find (\<lambda>w. ends_with s w) ws_encodings of None \<Rightarrow> 0 | Some w \<Rightarrow> length w)"

lemma ws_encodings_nonempty: "w \<in> set ws_encodings \<Longrightarrow> w \<noteq> []"
  by (auto simp: ws_encodings_def)

lemma find_Some_mem: "find P xs = Some x \<Longrightarrow> x \<in> set xs \<and> P x"
  by (induction xs) (auto split: if_splits)

lemma ws_len_le: "ws_len s \<le> length s"
proof (cases "find (\<lambda>w. starts_with s w) ws_encodings")
  case (Some w)
  then have "take (length w) s = w" using find_Some_mem by (fastforce simp: starts_with_def)
  then have "length w \<le> length s" by (metis length_take min.cobounded1 min_def linear)
  with Some show ?thesis by (simp add: ws_len_def)
qed (simp add: ws_len_def)

lemma ws_end_len_le: "ws_end_len s \<le> length s"
proof (cases "find (\<lambda>w. ends_with s w) ws_encodings")
  case (Some w)
  then have "length w \<le> length s" using find_Some_mem by (fastforce simp: ends_with_def)
  with Some show ?thesis by (simp add: ws_end_len_def)
qed (simp add: ws_end_len_def)

function trim_start :: "str \<Rightarrow> str" where
  "trim_start s = (if ws_len s = 0 then s else trim_start (drop (ws_len s) s))"
  by pat_completeness auto
termination
proof (relation "measure length")
  fix s :: str
  assume "ws_len s \<noteq> 0"
  then show "(drop (ws_len s) s, s) \<in> measure length"
    using ws_len_le [of s] by (cases s) auto
qed simp

function trim_end :: "str \<Rightarrow> str" where
  "trim_end s = (if ws_end_len s = 0 then s else trim_end (take (length s - ws_end_len s) s))"
  by pat_completeness auto
termination
proof (relation "measure length")
  fix s :: str
  assume "ws_end_len s \<noteq> 0"
  then show "(take (length s - ws_end_len s) s, s) \<in> measure length"
    using ws_end_len_le [of s] by auto
qed simp

declare trim_start.simps [simp del] trim_end.simps [simp del]

definition trim :: "str \<Rightarrow> str" where
  "trim s = trim_end (trim_start s)"

text \<open>Every character of the string is white space.\<close>

definition all_whitespace :: "str \<Rightarrow> bool" where
  "all_whitespace s = (trim_start s = [])"

text \<open>\<open>str::split_whitespace\<close>: the maximal runs without white space.\<close>

fun word_span :: "str \<Rightarrow> str \<times> str" where
  "word_span [] = ([], [])"
| "word_span (x # xs) =
     (if ws_len (x # xs) \<noteq> 0 then ([], x # xs)
      else let (w, rest) = word_span xs in (x # w, rest))"

lemma word_span_length: "length (snd (word_span s)) \<le> length s"
  by (induction s) (auto simp: Let_def split: prod.splits)

lemma trim_start_length: "length (trim_start s) \<le> length s"
proof (induction s rule: trim_start.induct)
  case (1 s)
  then show ?case by (subst trim_start.simps) (auto intro: le_trans)
qed

lemma ws_len_trim_start: "ws_len (trim_start s) = 0"
proof (induction s rule: trim_start.induct)
  case (1 s)
  then show ?case by (cases "ws_len s = 0") (simp_all add: trim_start.simps [of s])
qed

function split_whitespace :: "str \<Rightarrow> str list" where
  "split_whitespace s =
     (let t = trim_start s
      in if t = [] then [] else fst (word_span t) # split_whitespace (snd (word_span t)))"
  by pat_completeness auto
termination
proof (relation "measure length")
  fix s t :: str
  assume t: "t = trim_start s" "t \<noteq> []"
  then obtain x xs where "t = x # xs" by (meson neq_Nil_conv)
  moreover have "ws_len t = 0" using t by (simp add: ws_len_trim_start)
  ultimately have "length (snd (word_span t)) \<le> length xs"
    using word_span_length [of xs] by (auto split: prod.splits)
  with \<open>t = x # xs\<close> t trim_start_length [of s]
  show "(snd (word_span t), s) \<in> measure length"
    by simp
qed simp

declare split_whitespace.simps [simp del]

section \<open>Decimal numbers\<close>

definition digit_val :: "char \<Rightarrow> nat option" where
  "digit_val c = (if 48 \<le> (of_char c :: nat) \<and> (of_char c :: nat) \<le> 57 then Some (of_char c - 48) else None)"

fun parse_digits :: "nat \<Rightarrow> str \<Rightarrow> nat option" where
  "parse_digits acc [] = Some acc"
| "parse_digits acc (c # cs) =
     (case digit_val c of
        None \<Rightarrow> None
      | Some d \<Rightarrow> if acc * 10 + d < 2 ^ 32 then parse_digits (acc * 10 + d) cs else None)"

text \<open>\<open>str::parse::<u32>\<close>: an optional plus sign, then at least one digit; \<open>None\<close> is the error.\<close>

definition parse_u32 :: "str \<Rightarrow> u32 option" where
  "parse_u32 s =
     (let body = (case s of [] \<Rightarrow> [] | c # cs \<Rightarrow> if c = CHR ''+'' then cs else s)
      in if body = [] then None else map_option of_nat (parse_digits 0 body))"

definition digit_chr :: "nat \<Rightarrow> char" where
  "digit_chr d = char_of (48 + d)"

fun show_nat :: "nat \<Rightarrow> str" where
  "show_nat n = (if n < 10 then [digit_chr n] else show_nat (n div 10) @ [digit_chr (n mod 10)])"

declare show_nat.simps [simp del]

definition u32_to_string :: "u32 \<Rightarrow> str" where
  "u32_to_string w = show_nat (unat w)"

section \<open>Lemmas on splitting\<close>

lemma starts_with_append [simp]: "starts_with (p @ s) p"
  by (simp add: starts_with_def)

lemma strip_prefix_append [simp]: "strip_prefix (p @ s) p = Some s"
  by (simp add: strip_prefix_def)

lemma starts_with_iff: "starts_with s p \<longleftrightarrow> (\<exists>t. s = p @ t)"
  by (auto simp: starts_with_def) (metis append_take_drop_id)

lemma find_char_append [note_simps]: "c \<notin> set s \<Longrightarrow> find_char c (s @ c # t) = Some (length s)"
  by (induction s) auto

lemma find_char_None: "find_char c s = None \<longleftrightarrow> c \<notin> set s"
  by (induction s) auto

lemma find_char_Some_split:
  "find_char c s = Some n \<Longrightarrow> s = take n s @ c # drop (Suc n) s \<and> c \<notin> set (take n s)"
  by (induction s arbitrary: n) (auto split: if_splits)

lemma split_char_nonempty [simp]: "split_char c s \<noteq> []"
  by (induction s) (auto split: list.splits)

lemma split_char_single: "c \<notin> set s \<Longrightarrow> split_char c s = [s]"
  by (induction s) auto

lemma split_char_append [note_simps]:
  "c \<notin> set s \<Longrightarrow> split_char c (s @ c # t) = s # split_char c t"
  by (induction s) auto

lemma split_char_join [note_simps]:
  "xs \<noteq> [] \<Longrightarrow> list_all (\<lambda>x. c \<notin> set x) xs \<Longrightarrow> split_char c (join [c] xs) = xs"
  by (induction "[c]" xs rule: join.induct) (simp_all add: split_char_single split_char_append)

lemma split_once_append_char:
  "c \<notin> set s \<Longrightarrow> split_once [c] (s @ c # t) = Some (s, t)"
  by (induction s) (auto simp: starts_with_def)

lemma split_once_Some: "split_once p s = Some (a, b) \<Longrightarrow> s = a @ p @ b"
proof (induction s arbitrary: a)
  case (Cons x xs)
  show ?case
  proof (cases "starts_with (x # xs) p")
    case True
    with Cons.prems have "a = []" "b = drop (length p) (x # xs)" by auto
    moreover have "take (length p) (x # xs) = p" using True by (simp only: starts_with_def)
    ultimately show ?thesis by (metis append_Nil append_take_drop_id)
  next
    case False
    with Cons show ?thesis by (auto split: prod.splits)
  qed
qed (auto split: if_splits)

section \<open>Lemmas on lines\<close>

lemma split_inclusive_line:
  "newline \<notin> set l \<Longrightarrow> split_inclusive (l @ newline # t) = (l @ [newline]) # split_inclusive t"
  by (induction l) auto

lemma split_inclusive_last: "newline \<notin> set l \<Longrightarrow> l \<noteq> [] \<Longrightarrow> split_inclusive l = [l]"
proof (induction l)
  case (Cons x xs)
  then show ?case by (cases xs) auto
qed simp

definition plain_line :: "str \<Rightarrow> bool" where
  "plain_line l \<longleftrightarrow> newline \<notin> set l \<and> (l = [] \<or> last l \<noteq> carriage_return)"

lemma strip_eol_line: "plain_line l \<Longrightarrow> strip_eol (l @ [newline]) = l"
  by (auto simp: strip_eol_def plain_line_def)

lemma strip_eol_last: "newline \<notin> set l \<Longrightarrow> strip_eol l = l"
  by (auto simp: strip_eol_def dest: last_in_set)

lemma str_lines_line [note_simps]:
  "plain_line l \<Longrightarrow> str_lines (l @ newline # t) = l # str_lines t"
  by (simp add: str_lines_def split_inclusive_line strip_eol_line plain_line_def)

lemma str_lines_Nil [simp]: "str_lines [] = []"
  by (simp add: str_lines_def)

lemma str_lines_last: "newline \<notin> set l \<Longrightarrow> l \<noteq> [] \<Longrightarrow> str_lines l = [l]"
  by (simp add: str_lines_def split_inclusive_last strip_eol_last)

lemma str_lines_eq_Nil [simp]: "str_lines s = [] \<longleftrightarrow> s = []"
  by (cases s) (simp_all add: str_lines_def split: list.split)

lemma split_at_char:
  "c \<in> set s \<Longrightarrow> \<exists>a b. s = a @ c # b \<and> c \<notin> set a"
  by (rule split_list_first)

lemma join_str_lines:
  assumes "carriage_return \<notin> set s" and "s = [] \<or> last s \<noteq> newline"
  shows "join [newline] (str_lines s) = s"
  using assms
proof (induction "length s" arbitrary: s rule: less_induct)
  case less
  show ?case
  proof (cases "newline \<in> set s")
    case False
    then show ?thesis by (cases "s = []") (simp_all add: str_lines_last)
  next
    case True
    from split_at_char [OF this]
    obtain a b where s: "s = a @ newline # b" and a: "newline \<notin> set a" by blast
    have b: "b \<noteq> []" "last b \<noteq> newline" "carriage_return \<notin> set b"
      using less.prems unfolding s by (simp_all split: if_splits)
    have "plain_line a" using a less.prems(1) last_in_set [of a] unfolding s plain_line_def
      by (metis Un_iff set_append)
    moreover have "join [newline] (str_lines b) = b"
      using b s by (intro less.hyps) simp_all
    moreover have "str_lines b \<noteq> []"
      using b(1) by simp
    ultimately show ?thesis
      unfolding s by (cases "str_lines b") (simp_all add: str_lines_line)
  qed
qed

section \<open>Lemmas on trimming\<close>

lemma ws_end_len_plain:
  assumes "s \<noteq> []" and "last s \<notin> set (map last ws_encodings)"
  shows "ws_end_len s = 0"
proof -
  have "\<not> ends_with s w" if "w \<in> set ws_encodings" for w
  proof
    assume "ends_with s w"
    then have "s = take (length s - length w) s @ w"
      unfolding ends_with_def by (metis append_take_drop_id)
    then have "last s = last w"
      using ws_encodings_nonempty [OF that] by (metis last_appendR)
    with that assms show False by auto
  qed
  then have "find (\<lambda>w. ends_with s w) ws_encodings = None"
    by (simp add: find_None_iff)
  then show ?thesis by (simp add: ws_end_len_def)
qed

lemma trim_end_id: "ws_end_len s = 0 \<Longrightarrow> trim_end s = s"
  by (simp add: trim_end.simps)

lemma trim_end_length: "length (trim_end s) \<le> length s"
proof (induction s rule: trim_end.induct)
  case (1 s)
  then show ?case by (cases "ws_end_len s = 0") (auto simp: trim_end.simps [of s])
qed

lemma trim_end_shorter: "ws_end_len s \<noteq> 0 \<Longrightarrow> length (trim_end s) < length s"
  using ws_end_len_le [of s] trim_end_length [of "take (length s - ws_end_len s) s"]
  by (simp add: trim_end.simps [of s])

lemma last_drop_Suc: "s \<noteq> [] \<Longrightarrow> drop (length s - Suc 0) s = [last s]"
  by (induction s rule: rev_induct) simp_all

lemma trim_end_fixed: "trim_end s = s \<longleftrightarrow> ws_end_len s = 0"
  by (metis less_irrefl trim_end_id trim_end_shorter)

lemma ends_with_last: "s \<noteq> [] \<Longrightarrow> ends_with s [last s]"
  by (simp add: ends_with_def last_drop_Suc Suc_le_eq)

lemma ws_end_len_single:
  assumes "s \<noteq> []" and "[last s] \<in> set ws_encodings"
  shows "ws_end_len s \<noteq> 0"
proof -
  have "find (\<lambda>w. ends_with s w) ws_encodings \<noteq> None"
    using assms ends_with_last by (auto simp: find_None_iff)
  then show ?thesis
    using find_Some_mem ws_encodings_nonempty
    by (fastforce simp: ws_end_len_def split: option.splits)
qed

lemma trim_end_idem [simp]: "trim_end (trim_end s) = trim_end s"
proof (induction s rule: trim_end.induct)
  case (1 s)
  then show ?case by (cases "ws_end_len s = 0") (simp_all add: trim_end.simps [of s])
qed

section \<open>Lemmas on numbers\<close>

lemma of_char_digit_chr: "d < 10 \<Longrightarrow> (of_char (digit_chr d) :: nat) = 48 + d"
  by (simp add: digit_chr_def)

lemma digit_val_digit_chr [simp]: "d < 10 \<Longrightarrow> digit_val (digit_chr d) = Some d"
  by (simp add: digit_val_def of_char_digit_chr)

lemma parse_digits_append:
  "parse_digits acc (s @ t) =
     (case parse_digits acc s of None \<Rightarrow> None | Some acc' \<Rightarrow> parse_digits acc' t)"
  by (induction s arbitrary: acc) (auto split: option.splits)

lemma parse_digits_show_nat: "n < 2 ^ 32 \<Longrightarrow> parse_digits 0 (show_nat n) = Some n"
proof (induction n rule: show_nat.induct)
  case (1 n)
  show ?case
  proof (cases "n < 10")
    case True
    with 1 show ?thesis by (simp add: show_nat.simps [of n])
  next
    case False
    with 1 have "parse_digits 0 (show_nat (n div 10)) = Some (n div 10)" by simp
    with False 1 show ?thesis
      by (simp add: show_nat.simps [of n] parse_digits_append)
  qed
qed

lemma show_nat_nonempty [simp]: "show_nat n \<noteq> []"
  by (simp add: show_nat.simps [of n])

definition is_digit :: "char \<Rightarrow> bool" where
  "is_digit c \<longleftrightarrow> 48 \<le> (of_char c :: nat) \<and> (of_char c :: nat) \<le> 57"

lemma show_nat_digits: "c \<in> set (show_nat n) \<Longrightarrow> is_digit c"
proof (induction n rule: show_nat.induct)
  case (1 n)
  then show ?case
    by (cases "n < 10") (auto simp: show_nat.simps [of n] of_char_digit_chr is_digit_def)
qed

lemma u32_to_string_digits: "c \<in> set (u32_to_string w) \<Longrightarrow> is_digit c"
  by (auto simp: u32_to_string_def dest: show_nat_digits)

lemma not_digit_chars [simp]:
  "\<not> is_digit (CHR '','')" "\<not> is_digit (CHR ''-'')" "\<not> is_digit (CHR '' '')"
  "\<not> is_digit newline" "\<not> is_digit carriage_return" "\<not> is_digit (CHR ''+'')"
  by (simp_all add: is_digit_def)

lemma parse_u32_to_string [note_simps]: "parse_u32 (u32_to_string w) = Some w"
proof -
  obtain c cs where s: "u32_to_string w = c # cs"
    by (cases "u32_to_string w") (auto simp: u32_to_string_def)
  then have "c \<noteq> CHR ''+''" using u32_to_string_digits [of c w] by auto
  with s have "parse_u32 (u32_to_string w) = map_option of_nat (parse_digits 0 (u32_to_string w))"
    by (simp add: parse_u32_def)
  then show ?thesis by (simp add: u32_to_string_def parse_digits_show_nat)
qed

lemma digit_not_ws_end: "is_digit c \<Longrightarrow> c \<notin> set (map last ws_encodings)"
  by (auto simp: ws_encodings_def is_digit_def)

end
