(* ===== verification/Authorship_Log.thy ===== *)
theory Authorship_Log
  imports Line_Range Rust_Str
begin

text \<open>
  The authorship log: agents, prompts, humans and sessions (\<open>src/authorship/authorship_log.rs\<close>),
  the attestations of one commit and the lookup of a line's author
  (\<open>src/authorship/authorship_log_serialization.rs\<close>, \<open>src/authorship/working_log.rs\<close>).
  A \<open>BTreeMap\<close> or \<open>HashMap\<close> is a partial map; the attestation entries keep their order, which
  decides which entry wins.
\<close>

section \<open>Data\<close>

record AgentId =
  ag_tool :: str
  ag_id :: str
  ag_model :: str

record Author =
  au_username :: str
  au_email :: str

record HumanRecord =
  hr_author :: str

record PromptRecord =
  pr_agent_id :: AgentId
  pr_human_author :: "str option"
  pr_messages_url :: "str option"
  pr_total_additions :: u32
  pr_total_deletions :: u32
  pr_accepted_lines :: u32
  pr_overriden_lines :: u32
  pr_custom_attributes :: "(str \<rightharpoonup> str) option"

record SessionRecord =
  se_agent_id :: AgentId
  se_trace_models :: "str \<rightharpoonup> str"
  se_human_author :: "str option"
  se_custom_attributes :: "(str \<rightharpoonup> str) option"

record AttestationEntry =
  ae_hash :: str
  ae_line_ranges :: "LineRange list"

record FileAttestation =
  fa_file_path :: str
  fa_entries :: "AttestationEntry list"

record AuthorshipMetadata =
  md_schema_version :: str
  md_git_ai_version :: "str option"
  md_base_commit_sha :: str
  md_prompts :: "str \<rightharpoonup> PromptRecord"
  md_humans :: "str \<rightharpoonup> HumanRecord"
  md_sessions :: "str \<rightharpoonup> SessionRecord"

record AuthorshipLog =
  al_attestations :: "FileAttestation list"
  al_metadata :: AuthorshipMetadata

definition AUTHORSHIP_LOG_VERSION :: str where
  "AUTHORSHIP_LOG_VERSION = ''authorship/3.0.0''"

text \<open>The version string is fixed by the build; it is a parameter.\<close>

definition AuthorshipMetadata_new :: "str \<Rightarrow> AuthorshipMetadata" where
  "AuthorshipMetadata_new git_ai_version =
     \<lparr>md_schema_version = AUTHORSHIP_LOG_VERSION, md_git_ai_version = Some git_ai_version,
      md_base_commit_sha = [], md_prompts = Map.empty, md_humans = Map.empty,
      md_sessions = Map.empty\<rparr>"

definition AuthorshipLog_new :: "str \<Rightarrow> AuthorshipLog" where
  "AuthorshipLog_new git_ai_version =
     \<lparr>al_attestations = [], al_metadata = AuthorshipMetadata_new git_ai_version\<rparr>"

section \<open>Attestation entries and files\<close>

definition remove_line_ranges :: "LineRange list \<Rightarrow> AttestationEntry \<Rightarrow> AttestationEntry" where
  "remove_line_ranges to_remove entry =
     entry\<lparr>ae_line_ranges :=
       fold (\<lambda>remove_range current_ranges.
               concat (map (\<lambda>existing_range. LineRange_remove existing_range remove_range) current_ranges))
         to_remove (ae_line_ranges entry)\<rparr>"

definition shift_line_ranges :: "u32 \<Rightarrow> int \<Rightarrow> AttestationEntry \<Rightarrow> AttestationEntry" where
  "shift_line_ranges insertion_point offset entry =
     entry\<lparr>ae_line_ranges :=
       List.map_filter (LineRange_shift insertion_point offset) (ae_line_ranges entry)\<rparr>"

definition FileAttestation_new :: "str \<Rightarrow> FileAttestation" where
  "FileAttestation_new file_path = \<lparr>fa_file_path = file_path, fa_entries = []\<rparr>"

definition add_entry :: "AttestationEntry \<Rightarrow> FileAttestation \<Rightarrow> FileAttestation" where
  "add_entry entry file = file\<lparr>fa_entries := fa_entries file @ [entry]\<rparr>"

text \<open>\<open>get_or_create_file\<close> returns a mutable reference to the first attestation of the file,
  appended when there is none; the model takes what the caller does with it as a function.\<close>

fun update_first :: "('a \<Rightarrow> bool) \<Rightarrow> ('a \<Rightarrow> 'a) \<Rightarrow> 'a list \<Rightarrow> 'a list" where
  "update_first P f [] = []"
| "update_first P f (x # xs) = (if P x then f x # xs else x # update_first P f xs)"

definition get_or_create_file ::
  "str \<Rightarrow> (FileAttestation \<Rightarrow> FileAttestation) \<Rightarrow> FileAttestation list \<Rightarrow> FileAttestation list" where
  "get_or_create_file file f attestations =
     (let exists = list_ex (\<lambda>a. fa_file_path a = file) attestations;
          attestations' = (if exists then attestations else attestations @ [FileAttestation_new file])
      in update_first (\<lambda>a. fa_file_path a = file) f attestations')"

section \<open>Sessions and their trace models\<close>

abbreviation trace_sep :: str where "trace_sep \<equiv> ''::''"

definition agent_id_for_author :: "SessionRecord \<Rightarrow> str \<Rightarrow> AgentId" where
  "agent_id_for_author session author_id =
     (case split_once trace_sep author_id of
        None \<Rightarrow> se_agent_id session
      | Some (_, trace_id) \<Rightarrow>
          (case se_trace_models session trace_id of
             None \<Rightarrow> se_agent_id session
           | Some model \<Rightarrow> (se_agent_id session)\<lparr>ag_model := model\<rparr>))"

definition record_trace_model :: "str \<Rightarrow> str \<Rightarrow> SessionRecord \<Rightarrow> SessionRecord" where
  "record_trace_model trace_id model session =
     session\<lparr>se_trace_models :=
       (case se_trace_models session trace_id of
          None \<Rightarrow> (se_trace_models session)(trace_id \<mapsto> model)
        | Some _ \<Rightarrow> se_trace_models session)\<rparr>"

text \<open>\<open>merge_from\<close> records every trace of the other session; the traces are distinct keys of a
  map, so the order in which they are visited does not matter.\<close>

definition merge_from :: "SessionRecord \<Rightarrow> SessionRecord \<Rightarrow> SessionRecord" where
  "merge_from session other =
     session\<lparr>se_trace_models := se_trace_models other ++ se_trace_models session\<rparr>"

definition referenced_traces :: "str list \<Rightarrow> str \<rightharpoonup> str set" where
  "referenced_traces author_ids =
     fold (\<lambda>author_id referenced.
             case split_once trace_sep author_id of
               None \<Rightarrow> referenced
             | Some (session_id, trace_id) \<Rightarrow>
                 referenced(session_id \<mapsto>
                   insert trace_id (case referenced session_id of None \<Rightarrow> {} | Some ts \<Rightarrow> ts)))
       author_ids Map.empty"

definition retain_referenced_trace_models ::
  "str list \<Rightarrow> (str \<rightharpoonup> SessionRecord) \<Rightarrow> (str \<rightharpoonup> SessionRecord)" where
  "retain_referenced_trace_models author_ids sessions =
     (let referenced = referenced_traces author_ids
      in (\<lambda>session_id. map_option (\<lambda>session. session\<lparr>se_trace_models :=
            (\<lambda>trace_id. case referenced session_id of
                None \<Rightarrow> None
              | Some traces \<Rightarrow> if trace_id \<in> traces then se_trace_models session trace_id else None)\<rparr>)
          (sessions session_id)))"

definition to_prompt_record_for_author :: "SessionRecord \<Rightarrow> str \<Rightarrow> PromptRecord" where
  "to_prompt_record_for_author session author_id =
     \<lparr>pr_agent_id = agent_id_for_author session author_id,
      pr_human_author = se_human_author session, pr_messages_url = None,
      pr_total_additions = 0, pr_total_deletions = 0, pr_accepted_lines = 0,
      pr_overriden_lines = 0, pr_custom_attributes = se_custom_attributes session\<rparr>"

definition AuthorshipLog_retain_referenced_trace_models :: "AuthorshipLog \<Rightarrow> AuthorshipLog" where
  "AuthorshipLog_retain_referenced_trace_models log =
     log\<lparr>al_metadata := (al_metadata log)\<lparr>md_sessions :=
       retain_referenced_trace_models
         (map ae_hash (concat (map fa_entries (al_attestations log))))
         (md_sessions (al_metadata log))\<rparr>\<rparr>"

section \<open>Looking a line up\<close>

text \<open>
  What the lookup asks of the repository: the commits whose notes mention a string
  (\<open>notes_api::search_notes\<close>), the log of a commit (\<open>notes_api::read_authorship\<close>), both answered
  by running git; and the NFC normalisation of a path, a function of the crate
  \<open>unicode_normalization\<close>.
\<close>

record Repository =
  rp_search_notes :: "str \<Rightarrow> str list"
  rp_read_authorship :: "str \<Rightarrow> AuthorshipLog option"

definition find_file_attestation ::
  "(str \<Rightarrow> str) \<Rightarrow> AuthorshipLog \<Rightarrow> str \<Rightarrow> FileAttestation option" where
  "find_file_attestation nfc log file =
     (case find (\<lambda>f. fa_file_path f = file) (al_attestations log) of
        Some f \<Rightarrow> Some f
      | None \<Rightarrow> find (\<lambda>f. nfc (fa_file_path f) = nfc file) (al_attestations log))"

definition foreign_prompt :: "Repository \<Rightarrow> str \<Rightarrow> PromptRecord option" where
  "foreign_prompt repo hash =
     (case rp_search_notes repo ([CHR 0x22] @ hash @ [CHR 0x22]) of
        [] \<Rightarrow> None
      | latest_sha # _ \<Rightarrow>
          (case rp_read_authorship repo latest_sha of
             None \<Rightarrow> None
           | Some authorship_log \<Rightarrow> md_prompts (al_metadata authorship_log) hash))"

type_synonym prompt_cache = "str \<rightharpoonup> PromptRecord option"
type_synonym line_author = "Author \<times> str option \<times> PromptRecord option"

abbreviation named_author :: "str \<Rightarrow> Author" where
  "named_author name \<equiv> \<lparr>au_username = name, au_email = []\<rparr>"

text \<open>The loop over the entries, latest first, with the cache it fills.\<close>

fun attribution_loop ::
  "Repository \<Rightarrow> AuthorshipMetadata \<Rightarrow> u32 \<Rightarrow> AttestationEntry list \<Rightarrow> prompt_cache
     \<Rightarrow> line_author option \<times> prompt_cache" where
  "attribution_loop repo md line [] cache = (None, cache)"
| "attribution_loop repo md line (entry # entries) cache =
     (if \<not> covers (ae_line_ranges entry) line then attribution_loop repo md line entries cache
      else if starts_with (ae_hash entry) ''h_'' then
        (case md_humans md (ae_hash entry) of
           Some human_record \<Rightarrow>
             (Some (named_author (hr_author human_record), Some (ae_hash entry), None), cache)
         | None \<Rightarrow> attribution_loop repo md line entries cache)
      else if starts_with (ae_hash entry) ''s_'' then
        (let session_key = (case split_once trace_sep (ae_hash entry) of
                              None \<Rightarrow> ae_hash entry | Some (key, _) \<Rightarrow> key)
         in case md_sessions md session_key of
              Some session_record \<Rightarrow>
                (Some (named_author (ag_tool (se_agent_id session_record)), Some (ae_hash entry),
                       Some (to_prompt_record_for_author session_record (ae_hash entry))), cache)
            | None \<Rightarrow> attribution_loop repo md line entries cache)
      else
        (case md_prompts md (ae_hash entry) of
           Some prompt_record \<Rightarrow>
             (Some (named_author (ag_tool (pr_agent_id prompt_record)), Some (ae_hash entry),
                    Some prompt_record), cache)
         | None \<Rightarrow>
             (let (prompt_record, cache') =
                (case cache (ae_hash entry) of
                   Some cached_result \<Rightarrow> (cached_result, cache)
                 | None \<Rightarrow>
                     (let result = foreign_prompt repo (ae_hash entry)
                      in (result, cache(ae_hash entry \<mapsto> result))))
              in case prompt_record of
                   Some prompt_record \<Rightarrow>
                     (Some (named_author (ag_tool (pr_agent_id prompt_record)), Some (ae_hash entry),
                            Some prompt_record), cache')
                 | None \<Rightarrow> attribution_loop repo md line entries cache')))"

definition get_line_attribution ::
  "(str \<Rightarrow> str) \<Rightarrow> Repository \<Rightarrow> AuthorshipLog \<Rightarrow> str \<Rightarrow> u32 \<Rightarrow> prompt_cache
     \<Rightarrow> line_author option \<times> prompt_cache" where
  "get_line_attribution nfc repo log file line cache =
     (case find_file_attestation nfc log file of
        None \<Rightarrow> (None, cache)
      | Some file_attestation \<Rightarrow>
          attribution_loop repo (al_metadata log) line (rev (fa_entries file_attestation)) cache)"

section \<open>Lemmas: entries\<close>

text \<open>The lines a list of entries attests for a hash.\<close>

definition attested :: "AttestationEntry list \<Rightarrow> str \<Rightarrow> u32 \<Rightarrow> bool" where
  "attested entries hash l = list_ex (\<lambda>e. ae_hash e = hash \<and> covers (ae_line_ranges e) l) entries"

lemma remove_line_ranges_covers [range_specs]:
  "covers (ae_line_ranges (remove_line_ranges ts e)) l \<longleftrightarrow>
     covers (ae_line_ranges e) l \<and> \<not> covers ts l"
  by (simp add: remove_line_ranges_def covers_def lr.subtract_law)

lemma update_first_append_miss:
  "\<not> list_ex P xs \<Longrightarrow> update_first P f (xs @ [y]) = (if P y then xs @ [f y] else xs @ [y])"
  by (induction xs) auto

lemma find_update_first:
  "list_ex P xs \<Longrightarrow> (\<And>x. P x \<Longrightarrow> P (f x)) \<Longrightarrow>
     find P (update_first P f xs) = map_option f (find P xs)"
  by (induction xs) auto

lemma find_update_first_other:
  "(\<And>x. P x \<Longrightarrow> \<not> Q x \<and> \<not> Q (f x)) \<Longrightarrow> find Q (update_first P f xs) = find Q xs"
  by (induction xs) auto

lemma find_append: "find P (xs @ ys) = (case find P xs of None \<Rightarrow> find P ys | Some x \<Rightarrow> Some x)"
  by (induction xs) auto

lemma find_None_list_ex: "\<not> list_ex P xs \<Longrightarrow> find P xs = None"
  by (induction xs) auto

abbreviation attestation_of :: "str \<Rightarrow> FileAttestation list \<Rightarrow> FileAttestation option" where
  "attestation_of file \<equiv> find (\<lambda>a. fa_file_path a = file)"

lemma attestation_of_get_or_create:
  assumes "\<And>a. fa_file_path (f a) = fa_file_path a"
  shows "attestation_of file (get_or_create_file file f atts) =
     Some (f (case attestation_of file atts of None \<Rightarrow> FileAttestation_new file | Some a \<Rightarrow> a))"
proof (cases "list_ex (\<lambda>a. fa_file_path a = file) atts")
  case True
  then obtain a where "attestation_of file atts = Some a"
    by (metis (mono_tags, lifting) find_None_iff list_ex_iff option.exhaust)
  with True assms show ?thesis
    by (simp add: get_or_create_file_def find_update_first)
next
  case False
  with assms show ?thesis
    by (simp add: get_or_create_file_def update_first_append_miss find_append find_None_list_ex
        FileAttestation_new_def)
qed

lemma attestation_of_get_or_create_other:
  assumes "\<And>a. fa_file_path (f a) = fa_file_path a" and "other \<noteq> file"
  shows "attestation_of other (get_or_create_file file f atts) = attestation_of other atts"
  using assms
  by (simp add: get_or_create_file_def find_update_first_other find_append FileAttestation_new_def
      split: option.split)

section \<open>Lemmas: sessions\<close>

lemma record_trace_model_apply:
  "se_trace_models (record_trace_model t m s) =
     (\<lambda>t'. if t' = t \<and> se_trace_models s t = None then Some m else se_trace_models s t')"
  by (auto simp: record_trace_model_def split: option.splits)

lemma record_trace_model_fields [simp]:
  "se_agent_id (record_trace_model t m s) = se_agent_id s"
  "se_human_author (record_trace_model t m s) = se_human_author s"
  "se_custom_attributes (record_trace_model t m s) = se_custom_attributes s"
  by (simp_all add: record_trace_model_def)

text \<open>The loop of \<open>merge_from\<close>, over any enumeration of the other session's traces, computes
  the map merge the definition writes.\<close>

lemma merge_from_loop:
  assumes "map_of kvs = se_trace_models other" and "distinct (map fst kvs)"
  shows "fold (\<lambda>(t, m). record_trace_model t m) kvs s = merge_from s other"
proof -
  have "fold (\<lambda>(t, m). record_trace_model t m) kvs s =
      s\<lparr>se_trace_models := map_of kvs ++ se_trace_models s\<rparr>"
    using assms(2)
  proof (induction kvs arbitrary: s)
    case (Cons kv kvs)
    then obtain t m where kv: "kv = (t, m)" and t: "t \<notin> dom (map_of kvs)"
      by (cases kv) (auto simp: dom_map_of_conv_image_fst)
    have "map_of kvs ++ se_trace_models (record_trace_model t m s) =
        map_of (kv # kvs) ++ se_trace_models s"
      using t by (auto simp: kv record_trace_model_apply map_add_def domIff split: option.splits)
    moreover have "record_trace_model t m s\<lparr>se_trace_models := x\<rparr> = s\<lparr>se_trace_models := x\<rparr>" for x
      by (simp add: record_trace_model_def)
    moreover have "fold (\<lambda>(t, m). record_trace_model t m) kvs (record_trace_model t m s) =
        record_trace_model t m s\<lparr>se_trace_models :=
          map_of kvs ++ se_trace_models (record_trace_model t m s)\<rparr>"
      using Cons by simp
    ultimately have "fold (\<lambda>(t, m). record_trace_model t m) kvs (record_trace_model t m s) =
        s\<lparr>se_trace_models := map_of (kv # kvs) ++ se_trace_models s\<rparr>" by metis
    then show ?case by (simp only: kv fold_simps comp_apply case_prod_conv)
  qed simp
  with assms(1) show ?thesis by (simp add: merge_from_def)
qed

lemma referenced_traces_fold:
  "t \<in> (case fold (\<lambda>author_id referenced.
             case split_once trace_sep author_id of
               None \<Rightarrow> referenced
             | Some (session_id, trace_id) \<Rightarrow>
                 referenced(session_id \<mapsto>
                   insert trace_id (case referenced session_id of None \<Rightarrow> {} | Some ts \<Rightarrow> ts)))
       ids m s of None \<Rightarrow> {} | Some ts \<Rightarrow> ts) \<longleftrightarrow>
     t \<in> (case m s of None \<Rightarrow> {} | Some ts \<Rightarrow> ts) \<or> (\<exists>a \<in> set ids. split_once trace_sep a = Some (s, t))"
proof (induction ids arbitrary: m)
  case (Cons a ids)
  show ?case
    by (cases "split_once trace_sep a") (auto simp: Cons.IH split: prod.splits)
qed simp

lemma retain_referenced_trace_models_apply:
  "retain_referenced_trace_models ids sessions sid =
     map_option (\<lambda>s. s\<lparr>se_trace_models := se_trace_models s |`
       {t. \<exists>a \<in> set ids. split_once trace_sep a = Some (sid, t)}\<rparr>) (sessions sid)"
proof -
  have eq: "(\<lambda>t. case referenced_traces ids sid of None \<Rightarrow> None
      | Some traces \<Rightarrow> if t \<in> traces then se_trace_models s t else None) =
      se_trace_models s |` {t. \<exists>a \<in> set ids. split_once trace_sep a = Some (sid, t)}" for s
  proof
    fix t
    show "(case referenced_traces ids sid of None \<Rightarrow> None
        | Some traces \<Rightarrow> if t \<in> traces then se_trace_models s t else None) =
        (se_trace_models s |` {t. \<exists>a \<in> set ids. split_once trace_sep a = Some (sid, t)}) t"
      using referenced_traces_fold [of t ids Map.empty sid]
      by (auto simp: referenced_traces_def restrict_map_def split: option.splits)
  qed
  show ?thesis by (simp only: retain_referenced_trace_models_def Let_def eq)
qed

section \<open>Lemmas: the lookup\<close>

fun first_some :: "'a option list \<Rightarrow> 'a option" where
  "first_some [] = None"
| "first_some (None # xs) = first_some xs"
| "first_some (Some x # xs) = Some x"

text \<open>What one entry resolves to, without a cache.\<close>

definition resolve_hash :: "Repository \<Rightarrow> AuthorshipMetadata \<Rightarrow> str \<Rightarrow> line_author option" where
  "resolve_hash repo md hash =
     (if starts_with hash ''h_'' then
        map_option (\<lambda>h. (named_author (hr_author h), Some hash, None)) (md_humans md hash)
      else if starts_with hash ''s_'' then
        map_option (\<lambda>s. (named_author (ag_tool (se_agent_id s)), Some hash,
                         Some (to_prompt_record_for_author s hash)))
          (md_sessions md (case split_once trace_sep hash of None \<Rightarrow> hash | Some (key, _) \<Rightarrow> key))
      else
        map_option (\<lambda>p. (named_author (ag_tool (pr_agent_id p)), Some hash, Some p))
          (case md_prompts md hash of Some p \<Rightarrow> Some p | None \<Rightarrow> foreign_prompt repo hash))"

definition cache_ok :: "Repository \<Rightarrow> prompt_cache \<Rightarrow> bool" where
  "cache_ok repo cache \<longleftrightarrow> (\<forall>h r. cache h = Some r \<longrightarrow> r = foreign_prompt repo h)"

lemma cache_okD: "cache_ok repo cache \<Longrightarrow> cache h = Some r \<Longrightarrow> r = foreign_prompt repo h"
  by (simp add: cache_ok_def)

lemma cache_ok_empty [simp]: "cache_ok repo Map.empty"
  by (simp add: cache_ok_def)

lemma cache_ok_fill: "cache_ok repo cache \<Longrightarrow> cache_ok repo (cache(h \<mapsto> foreign_prompt repo h))"
  by (simp add: cache_ok_def)

lemma attribution_loop_spec:
  "cache_ok repo cache \<Longrightarrow>
     fst (attribution_loop repo md line entries cache) =
       first_some (map (\<lambda>e. if covers (ae_line_ranges e) line then resolve_hash repo md (ae_hash e)
                            else None) entries) \<and>
     cache_ok repo (snd (attribution_loop repo md line entries cache))"
proof (induction entries arbitrary: cache)
  case (Cons entry entries)
  let ?h = "ae_hash entry" and ?cov = "covers (ae_line_ranges entry) line"
  note IH = Cons.IH [OF Cons.prems] and fill = Cons.IH [OF cache_ok_fill [OF Cons.prems, of ?h]]
  consider "\<not> ?cov" | "?cov" "starts_with ?h ''h_'' \<or> starts_with ?h ''s_''"
    | p where "?cov" "\<not> starts_with ?h ''h_''" "\<not> starts_with ?h ''s_''" "md_prompts md ?h = Some p"
    | "?cov" "\<not> starts_with ?h ''h_''" "\<not> starts_with ?h ''s_''" "md_prompts md ?h = None"
    by blast
  then show ?case
  proof cases
    case 2
    with IH Cons.prems show ?thesis by (auto simp: resolve_hash_def Let_def split: option.split)
  next
    case 4
    show ?thesis
    proof (cases "cache ?h")
      case (Some r)
      then have "r = foreign_prompt repo ?h" using Cons.prems by (rule cache_okD [rotated])
      with 4 Some IH Cons.prems show ?thesis by (simp add: resolve_hash_def split: option.split)
    next
      case None
      with 4 fill cache_ok_fill [OF Cons.prems, of ?h] show ?thesis
        by (cases "foreign_prompt repo ?h")
          (simp_all add: resolve_hash_def Let_def del: fun_upd_apply)
    qed
  qed (use IH Cons.prems in \<open>simp_all add: resolve_hash_def\<close>)
qed simp

lemma agent_id_for_author_retained:
  assumes "hash \<in> set ids" and "split_once trace_sep hash = Some (sid, t)"
  shows "agent_id_for_author (s\<lparr>se_trace_models := se_trace_models s |`
      {t. \<exists>a \<in> set ids. split_once trace_sep a = Some (sid, t)}\<rparr>) hash = agent_id_for_author s hash"
proof -
  have "t \<in> {t. \<exists>a \<in> set ids. split_once trace_sep a = Some (sid, t)}" using assms by blast
  with assms show ?thesis
    by (cases "se_trace_models s t") (simp_all add: agent_id_for_author_def)
qed

lemma agent_id_for_author_plain:
  "split_once trace_sep hash = None \<Longrightarrow> agent_id_for_author s hash = se_agent_id s"
  by (simp add: agent_id_for_author_def)

text \<open>The record a session entry of the log resolves to does not change.\<close>

lemma to_prompt_record_retained:
  assumes "hash \<in> set ids"
    and "retain_referenced_trace_models ids sessions
        (case split_once trace_sep hash of None \<Rightarrow> hash | Some (key, _) \<Rightarrow> key) = Some s'"
    and "sessions (case split_once trace_sep hash of None \<Rightarrow> hash | Some (key, _) \<Rightarrow> key) = Some s"
  shows "to_prompt_record_for_author s' hash = to_prompt_record_for_author s hash \<and>
    se_agent_id s' = se_agent_id s"
proof (cases "split_once trace_sep hash")
  case None
  with assms show ?thesis
    by (auto simp: retain_referenced_trace_models_apply to_prompt_record_for_author_def
        agent_id_for_author_plain)
next
  case (Some kt)
  then obtain sid t where "split_once trace_sep hash = Some (sid, t)" by (cases kt) auto
  with assms show ?thesis
    using agent_id_for_author_retained [OF assms(1)]
    by (auto simp: retain_referenced_trace_models_apply to_prompt_record_for_author_def)
qed

lemma attribution_loop_retained:
  assumes "ae_hash ` set es \<subseteq> set ids"
    and "md_humans md' = md_humans md" and "md_prompts md' = md_prompts md"
    and "md_sessions md' = retain_referenced_trace_models ids (md_sessions md)"
  shows "attribution_loop repo md' line es cache = attribution_loop repo md line es cache"
  using assms(1)
proof (induction es arbitrary: cache)
  case (Cons e es)
  let ?key = "case split_once trace_sep (ae_hash e) of None \<Rightarrow> ae_hash e | Some (key, _) \<Rightarrow> key"
  have h: "ae_hash e \<in> set ids" and IH: "\<And>cache. attribution_loop repo md' line es cache =
      attribution_loop repo md line es cache"
    using Cons by auto
  show ?case
  proof (cases "md_sessions md ?key")
    case None
    then have "md_sessions md' ?key = None"
      using assms(4) by (simp add: retain_referenced_trace_models_apply)
    with None IH assms(2,3) show ?thesis by (simp only: attribution_loop.simps Let_def option.case)
  next
    case (Some s)
    then obtain s' where s': "md_sessions md' ?key = Some s'"
      using assms(4) by (simp add: retain_referenced_trace_models_apply)
    have "to_prompt_record_for_author s' (ae_hash e) = to_prompt_record_for_author s (ae_hash e)"
      "se_agent_id s' = se_agent_id s"
      using to_prompt_record_retained [of "ae_hash e" ids "md_sessions md" s' s] h Some s' assms(4)
      by simp_all
    with Some s' IH assms(2,3) show ?thesis by (simp only: attribution_loop.simps Let_def option.case)
  qed
qed simp

lemma retained_fields [simp]:
  "al_attestations (AuthorshipLog_retain_referenced_trace_models log) = al_attestations log"
  "md_humans (al_metadata (AuthorshipLog_retain_referenced_trace_models log)) =
     md_humans (al_metadata log)"
  "md_prompts (al_metadata (AuthorshipLog_retain_referenced_trace_models log)) =
     md_prompts (al_metadata log)"
  "md_sessions (al_metadata (AuthorshipLog_retain_referenced_trace_models log)) =
     retain_referenced_trace_models (map ae_hash (concat (map fa_entries (al_attestations log))))
       (md_sessions (al_metadata log))"
  by (simp_all add: AuthorshipLog_retain_referenced_trace_models_def)

lemma find_file_attestation_mem:
  "find_file_attestation nfc log file = Some fa \<Longrightarrow> fa \<in> set (al_attestations log)"
  by (auto simp: find_file_attestation_def split: option.splits dest!: find_Some_mem)

lemma retain_preserves_lookup:
  "get_line_attribution nfc repo (AuthorshipLog_retain_referenced_trace_models log) file line cache =
   get_line_attribution nfc repo log file line cache"
proof -
  have same: "find_file_attestation nfc (AuthorshipLog_retain_referenced_trace_models log) file =
      find_file_attestation nfc log file"
    by (simp add: find_file_attestation_def cong: option.case_cong)
  show ?thesis
  proof (cases "find_file_attestation nfc log file")
    case (Some fa)
    then have "ae_hash ` set (rev (fa_entries fa)) \<subseteq>
        set (map ae_hash (concat (map fa_entries (al_attestations log))))"
      using find_file_attestation_mem by fastforce
    from attribution_loop_retained [OF this] Some same show ?thesis
      by (simp only: get_line_attribution_def retained_fields option.case)
  qed (simp add: get_line_attribution_def same)
qed

section \<open>Properties\<close>

text \<open>
  C30. Looking a line up returns what the latest entry of the file that covers the line and can be
  resolved says, known humans, sessions, local and foreign prompts alike; later entries that cover
  the line but resolve to nothing are skipped. A cache that holds only true answers does not change
  the result, and the lookup keeps it so.
\<close>

theorem lookup_latest_wins:
  assumes "cache_ok repo cache"
  shows "fst (get_line_attribution nfc repo log file line cache) =
      (case find_file_attestation nfc log file of
         None \<Rightarrow> None
       | Some fa \<Rightarrow> first_some (map (\<lambda>e. if covers (ae_line_ranges e) line
                       then resolve_hash repo (al_metadata log) (ae_hash e) else None)
                     (rev (fa_entries fa)))) \<and>
    cache_ok repo (snd (get_line_attribution nfc repo log file line cache))"
  using assms attribution_loop_spec [OF assms]
  by (simp add: get_line_attribution_def split: option.split)

definition example_log :: AuthorshipLog where
  "example_log =
     \<lparr>al_attestations =
        [\<lparr>fa_file_path = ''a.rs'',
          fa_entries = [\<lparr>ae_hash = ''h_1'', ae_line_ranges = [Range 1 9]\<rparr>,
                        \<lparr>ae_hash = ''s_1::t_1'', ae_line_ranges = [Range 2 4]\<rparr>]\<rparr>],
      al_metadata = (AuthorshipMetadata_new ''1'')
        \<lparr>md_humans := [''h_1'' \<mapsto> \<lparr>hr_author = ''Al''\<rparr>],
         md_sessions := [''s_1'' \<mapsto>
           \<lparr>se_agent_id = \<lparr>ag_tool = ''codex'', ag_id = ''x'', ag_model = ''m''\<rparr>,
            se_trace_models = [''t_1'' \<mapsto> ''m1''], se_human_author = None,
            se_custom_attributes = None\<rparr>]\<rparr>\<rparr>"

definition no_repo :: Repository where
  "no_repo = \<lparr>rp_search_notes = (\<lambda>_. []), rp_read_authorship = (\<lambda>_. None)\<rparr>"

theorem lookup_latest_wins_witness:
  "cache_ok no_repo Map.empty \<and>
   map_option fst (fst (get_line_attribution id no_repo example_log ''a.rs'' 3 Map.empty)) =
     Some (named_author ''codex'') \<and>
   map_option fst (fst (get_line_attribution id no_repo example_log ''a.rs'' 5 Map.empty)) =
     Some (named_author ''Al'')"
  using lookup_latest_wins [OF cache_ok_empty, of id no_repo example_log "''a.rs''" 3]
    lookup_latest_wins [OF cache_ok_empty, of id no_repo example_log "''a.rs''" 5]
  by (simp add: example_log_def find_file_attestation_def resolve_hash_def starts_with_def
      covers_def AuthorshipMetadata_new_def)

text \<open>Bounding the trace metadata of a new note to the traces its attestations reference changes
  no attribution: every lookup on the finalized log answers, caches included, as on the log before.
\<close>

theorem retain_trace_models_preserves_lookup:
  "get_line_attribution nfc repo (AuthorshipLog_retain_referenced_trace_models log) file line cache =
   get_line_attribution nfc repo log file line cache"
  by (rule retain_preserves_lookup)

end
