(* ===== verification/Note_Format.thy ===== *)
theory Note_Format
  imports Authorship_Log "HOL-Library.Multiset"
begin

text \<open>
  The text format of an authorship note (\<open>src/authorship/authorship_log_serialization.rs\<close>):
  an attestation section (a line per file, an indented line per entry), a divider, and the metadata
  as JSON. The JSON codec is serde\_json's, a parameter of the model: \<open>to_json\<close> may fail, and
  \<open>from_json\<close> is its reader.
\<close>

section \<open>Printing\<close>

datatype note_error =
    MissingDivider
  | EntryWithoutFile
  | InvalidEntry str
  | BadNumber str
  | BadJson
  | FormatError
  | SlicePanic

definition print_line_range :: "LineRange \<Rightarrow> str" where
  "print_line_range range' =
     (case range' of
        Single line \<Rightarrow> u32_to_string line
      | Range start end' \<Rightarrow> u32_to_string start @ ''-'' @ u32_to_string end')"

definition format_line_ranges :: "LineRange list \<Rightarrow> str" where
  "format_line_ranges ranges = join '','' (map print_line_range (sort_key first_line ranges))"

definition needs_quoting :: "str \<Rightarrow> bool" where
  "needs_quoting path = (CHR '' '' \<in> set path \<or> CHR 0x09 \<in> set path \<or> newline \<in> set path)"

abbreviation quote :: char where "quote \<equiv> CHR 0x22"
abbreviation divider :: str where "divider \<equiv> ''---''"

definition print_path :: "str \<Rightarrow> str" where
  "print_path path = (if needs_quoting path then quote # path @ [quote] else path)"

definition print_entry :: "AttestationEntry \<Rightarrow> str" where
  "print_entry entry = ''  '' @ ae_hash entry @ '' '' @ format_line_ranges (ae_line_ranges entry)"

definition print_file :: "FileAttestation \<Rightarrow> str" where
  "print_file file =
     print_path (fa_file_path file) @ [newline] @
     concat (map (\<lambda>entry. print_entry entry @ [newline]) (fa_entries file))"

definition serialize_to_string ::
  "(AuthorshipMetadata \<Rightarrow> str option) \<Rightarrow> AuthorshipLog \<Rightarrow> note_error + str" where
  "serialize_to_string to_json log =
     (let output = concat (map print_file (al_attestations log)) @ divider @ [newline]
      in case to_json (al_metadata log) of
           None \<Rightarrow> Inl FormatError
         | Some json_str \<Rightarrow> Inr (output @ json_str))"

section \<open>Parsing\<close>

fun parse_range_parts :: "str list \<Rightarrow> note_error + LineRange list" where
  "parse_range_parts [] = Inr []"
| "parse_range_parts (part # parts) =
     (if part = [] then parse_range_parts parts
      else case find_char (CHR ''-'') part of
        Some dash_pos \<Rightarrow>
          (case parse_u32 (take dash_pos part) of
             None \<Rightarrow> Inl (BadNumber (take dash_pos part))
           | Some start \<Rightarrow>
               (case parse_u32 (drop (dash_pos + 1) part) of
                  None \<Rightarrow> Inl (BadNumber (drop (dash_pos + 1) part))
                | Some end' \<Rightarrow>
                    (case parse_range_parts parts of
                       Inl e \<Rightarrow> Inl e
                     | Inr ranges \<Rightarrow> Inr (Range start end' # ranges))))
      | None \<Rightarrow>
          (case parse_u32 part of
             None \<Rightarrow> Inl (BadNumber part)
           | Some line \<Rightarrow>
               (case parse_range_parts parts of
                  Inl e \<Rightarrow> Inl e
                | Inr ranges \<Rightarrow> Inr (Single line # ranges))))"

definition parse_line_ranges :: "str \<Rightarrow> note_error + LineRange list" where
  "parse_line_ranges input = parse_range_parts (split_char (CHR '','') input)"

text \<open>A finished file is kept only when it has entries.\<close>

definition flush_file :: "FileAttestation list \<Rightarrow> FileAttestation option \<Rightarrow> FileAttestation list" where
  "flush_file attestations current_file =
     (case current_file of
        None \<Rightarrow> attestations
      | Some file \<Rightarrow> if fa_entries file = [] then attestations else attestations @ [file])"

text \<open>A path line is unquoted by slicing \<open>line[1..line.len() - 1]\<close>, which panics on a line that
  is one quotation mark.\<close>

definition parse_path :: "str \<Rightarrow> note_error + str" where
  "parse_path line =
     (if starts_with line [quote] \<and> ends_with line [quote]
      then if length line < 2 then Inl SlicePanic else Inr (take (length line - 2) (drop 1 line))
      else Inr line)"

definition parse_entry :: "str \<Rightarrow> note_error + AttestationEntry" where
  "parse_entry entry_line =
     (case find_char (CHR '' '') entry_line of
        None \<Rightarrow> Inl (InvalidEntry entry_line)
      | Some space_pos \<Rightarrow>
          (case parse_line_ranges (drop (space_pos + 1) entry_line) of
             Inl e \<Rightarrow> Inl e
           | Inr line_ranges \<Rightarrow>
               Inr \<lparr>ae_hash = take space_pos entry_line, ae_line_ranges = line_ranges\<rparr>))"

fun attestation_loop ::
  "FileAttestation list \<Rightarrow> FileAttestation option \<Rightarrow> str list \<Rightarrow> note_error + FileAttestation list" where
  "attestation_loop attestations current_file [] = Inr (flush_file attestations current_file)"
| "attestation_loop attestations current_file (raw # lines) =
     (let line = trim_end raw
      in if line = [] then attestation_loop attestations current_file lines
         else case strip_prefix line ''  '' of
           Some entry_line \<Rightarrow>
             (case parse_entry entry_line of
                Inl e \<Rightarrow> Inl e
              | Inr entry \<Rightarrow>
                  (case current_file of
                     None \<Rightarrow> Inl EntryWithoutFile
                   | Some file \<Rightarrow>
                       attestation_loop attestations (Some (add_entry entry file)) lines))
         | None \<Rightarrow>
             (case parse_path line of
                Inl e \<Rightarrow> Inl e
              | Inr file_path \<Rightarrow>
                  attestation_loop (flush_file attestations current_file)
                    (Some (FileAttestation_new file_path)) lines))"

definition parse_attestation_section :: "str list \<Rightarrow> note_error + FileAttestation list" where
  "parse_attestation_section lines = attestation_loop [] None lines"

text \<open>Old session records carry one model for every trace of their note; reading a note records
  it for the traces the attestations name.\<close>

definition materialize_trace ::
  "AttestationEntry \<Rightarrow> (str \<rightharpoonup> SessionRecord) \<Rightarrow> (str \<rightharpoonup> SessionRecord)" where
  "materialize_trace entry sessions =
     (case split_once trace_sep (ae_hash entry) of
        None \<Rightarrow> sessions
      | Some (session_id, trace_id) \<Rightarrow>
          (case sessions session_id of
             None \<Rightarrow> sessions
           | Some session \<Rightarrow>
               sessions(session_id \<mapsto>
                 record_trace_model trace_id (ag_model (se_agent_id session)) session)))"

definition materialize_traces ::
  "FileAttestation list \<Rightarrow> AuthorshipMetadata \<Rightarrow> AuthorshipMetadata" where
  "materialize_traces attestations metadata =
     metadata\<lparr>md_sessions :=
       fold materialize_trace (concat (map fa_entries attestations)) (md_sessions metadata)\<rparr>"

definition deserialize_from_string ::
  "(str \<Rightarrow> AuthorshipMetadata option) \<Rightarrow> str \<Rightarrow> note_error + AuthorshipLog" where
  "deserialize_from_string from_json content =
     (let lines = str_lines content
      in case dropWhile (\<lambda>line. line \<noteq> divider) lines of
           [] \<Rightarrow> Inl MissingDivider
         | _ # json_lines \<Rightarrow>
             (case parse_attestation_section (takeWhile (\<lambda>line. line \<noteq> divider) lines) of
                Inl e \<Rightarrow> Inl e
              | Inr attestations \<Rightarrow>
                  (case from_json (join [newline] json_lines) of
                     None \<Rightarrow> Inl BadJson
                   | Some metadata \<Rightarrow>
                       Inr \<lparr>al_attestations = attestations,
                            al_metadata = materialize_traces attestations metadata\<rparr>)))"

section \<open>Lemmas: line ranges\<close>

lemma print_line_range_chars:
  assumes "c \<in> set (print_line_range r)"
  shows "is_digit c \<or> c = CHR ''-''"
  using assms u32_to_string_digits by (auto simp: print_line_range_def split: LineRange.splits)

lemma u32_to_string_nonempty [simp]: "u32_to_string w \<noteq> []"
  by (simp add: u32_to_string_def)

lemma dash_not_in_number [simp]: "CHR ''-'' \<notin> set (u32_to_string w)"
  using u32_to_string_digits not_digit_chars(2) by blast

lemma print_line_range_nonempty [simp]: "print_line_range r \<noteq> []"
  by (simp add: print_line_range_def split: LineRange.split)

lemma comma_not_in_range [simp]: "CHR '','' \<notin> set (print_line_range r)"
  using print_line_range_chars [of "CHR '',''" r] by auto

lemma parse_print_range_part [note_simps]:
  "parse_range_parts (print_line_range r # parts) =
     (case parse_range_parts parts of Inl e \<Rightarrow> Inl e | Inr rs \<Rightarrow> Inr (r # rs))"
proof (cases r)
  case (Single l)
  have "find_char (CHR ''-'') (u32_to_string l) = None" by (simp add: find_char_None)
  with Single show ?thesis
    by (simp add: print_line_range_def parse_u32_to_string split: sum.split)
next
  case (Range a b)
  have "find_char (CHR ''-'') (u32_to_string a @ CHR ''-'' # u32_to_string b) =
      Some (length (u32_to_string a))"
    by (simp add: find_char_append)
  with Range show ?thesis
    by (simp add: print_line_range_def parse_u32_to_string split: sum.split)
qed

lemma parse_print_range_parts: "parse_range_parts (map print_line_range rs) = Inr rs"
  by (induction rs) (simp_all add: parse_print_range_part del: parse_range_parts.simps(2))

lemma parse_format_line_ranges [note_simps]:
  assumes "rs \<noteq> []"
  shows "parse_line_ranges (format_line_ranges rs) = Inr (sort_key first_line rs)"
proof -
  let ?ps = "map print_line_range (sort_key first_line rs)"
  have "?ps \<noteq> []" using assms by (metis length_0_conv length_map length_sort)
  then have "split_char (CHR '','') (join '','' ?ps) = ?ps"
    by (rule split_char_join) (simp add: list_all_iff)
  then show ?thesis
    by (simp add: parse_line_ranges_def format_line_ranges_def parse_print_range_parts)
qed

lemma join_nonempty_last:
  "xs \<noteq> [] \<Longrightarrow> last xs \<noteq> [] \<Longrightarrow> join sep xs \<noteq> [] \<and> last (join sep xs) = last (last xs)"
  by (induction sep xs rule: join.induct) auto

lemma last_u32_to_string: "is_digit (last (u32_to_string w))"
  by (rule u32_to_string_digits [of _ w]) simp

lemma last_print_line_range: "is_digit (last (print_line_range r))"
  by (cases r) (simp_all add: print_line_range_def last_u32_to_string)

lemma format_line_ranges_last:
  assumes "rs \<noteq> []"
  shows "format_line_ranges rs \<noteq> [] \<and> is_digit (last (format_line_ranges rs))"
proof -
  let ?ps = "map print_line_range (sort_key first_line rs)"
  have ps: "?ps \<noteq> []" using assms by (metis length_0_conv length_map length_sort)
  then have "last ?ps \<in> range print_line_range"
    by (metis (no_types, lifting) last_map list.map_disc_iff rangeI)
  then obtain r where "last ?ps = print_line_range r" by auto
  with join_nonempty_last [OF ps, of "'',''"] show ?thesis
    by (simp add: format_line_ranges_def last_print_line_range)
qed

lemma set_join_subset: "set (join sep xs) \<subseteq> set sep \<union> \<Union> (set ` set xs)"
  by (induction sep xs rule: join.induct) auto

lemma format_line_ranges_chars:
  "c \<in> set (format_line_ranges rs) \<Longrightarrow> is_digit c \<or> c = CHR ''-'' \<or> c = CHR '',''"
  using set_join_subset [of "'',''" "map print_line_range (sort_key first_line rs)"]
    print_line_range_chars by (fastforce simp: format_line_ranges_def)

section \<open>Lemmas: the attestation section\<close>

definition path_ok :: "str \<Rightarrow> bool" where
  "path_ok path \<longleftrightarrow> newline \<notin> set path \<and>
     (needs_quoting path \<or>
      path \<noteq> [] \<and> ws_end_len path = 0 \<and> path \<noteq> divider \<and>
      \<not> (starts_with path [quote] \<and> ends_with path [quote]))"

definition entry_ok :: "AttestationEntry \<Rightarrow> bool" where
  "entry_ok entry \<longleftrightarrow> CHR '' '' \<notin> set (ae_hash entry) \<and> newline \<notin> set (ae_hash entry) \<and>
     ae_line_ranges entry \<noteq> []"

definition file_ok :: "FileAttestation \<Rightarrow> bool" where
  "file_ok file \<longleftrightarrow> path_ok (fa_file_path file) \<and> fa_entries file \<noteq> [] \<and> list_all entry_ok (fa_entries file)"

definition sorted_entry :: "AttestationEntry \<Rightarrow> AttestationEntry" where
  "sorted_entry entry = entry\<lparr>ae_line_ranges := sort_key first_line (ae_line_ranges entry)\<rparr>"

definition sorted_file :: "FileAttestation \<Rightarrow> FileAttestation" where
  "sorted_file file = file\<lparr>fa_entries := map sorted_entry (fa_entries file)\<rparr>"

lemma print_entry_last:
  assumes "entry_ok e"
  shows "print_entry e \<noteq> [] \<and> is_digit (last (print_entry e))"
  using assms format_line_ranges_last [of "ae_line_ranges e"]
  by (simp add: entry_ok_def print_entry_def)

lemma trim_end_print_entry: "entry_ok e \<Longrightarrow> trim_end (print_entry e) = print_entry e"
  by (intro trim_end_id ws_end_len_plain) (use print_entry_last digit_not_ws_end in blast)+

lemma parse_print_entry [note_simps]:
  assumes "entry_ok e"
  shows "\<exists>body. strip_prefix (print_entry e) ''  '' = Some body \<and> parse_entry body = Inr (sorted_entry e)"
proof -
  let ?body = "ae_hash e @ CHR '' '' # format_line_ranges (ae_line_ranges e)"
  have "print_entry e = ''  '' @ ?body" by (simp add: print_entry_def)
  then have "strip_prefix (print_entry e) ''  '' = Some ?body" by (simp only: strip_prefix_append)
  moreover have "parse_entry ?body = Inr (sorted_entry e)"
    using assms
    by (simp add: parse_entry_def entry_ok_def find_char_append parse_format_line_ranges sorted_entry_def)
  ultimately show ?thesis by blast
qed

lemma attestation_loop_entry:
  assumes "entry_ok e"
  shows "attestation_loop atts (Some f) (print_entry e # rest) =
     attestation_loop atts (Some (add_entry (sorted_entry e) f)) rest"
proof -
  obtain body where "strip_prefix (print_entry e) ''  '' = Some body"
    and "parse_entry body = Inr (sorted_entry e)"
    using parse_print_entry [OF assms] by blast
  then show ?thesis
    using print_entry_last [OF assms] by (simp add: Let_def trim_end_print_entry [OF assms])
qed

lemma attestation_loop_entries:
  "list_all entry_ok es \<Longrightarrow>
     attestation_loop atts (Some f) (map print_entry es @ rest) =
     attestation_loop atts (Some (f\<lparr>fa_entries := fa_entries f @ map sorted_entry es\<rparr>)) rest"
proof (induction es arbitrary: f)
  case (Cons e es)
  then show ?case
    by (simp add: attestation_loop_entry add_entry_def del: attestation_loop.simps(2))
qed simp

lemma quote_not_ws_end: "quote \<notin> set (map last ws_encodings)"
  by (simp add: ws_encodings_def)

lemma print_path_ok:
  assumes "path_ok p"
  shows "trim_end (print_path p) = print_path p" "print_path p \<noteq> []"
    "strip_prefix (print_path p) ''  '' = None" "parse_path (print_path p) = Inr p"
    "print_path p \<noteq> divider"
proof -
  show "trim_end (print_path p) = print_path p"
  proof (cases "needs_quoting p")
    case True
    have "ws_end_len (quote # p @ [quote]) = 0"
      by (rule ws_end_len_plain) (use quote_not_ws_end in simp_all)
    with True show ?thesis by (simp add: print_path_def trim_end_id)
  next
    case False
    with assms show ?thesis by (simp add: print_path_def path_ok_def trim_end_id)
  qed
  show "print_path p \<noteq> []" "print_path p \<noteq> divider"
    using assms by (auto simp: print_path_def path_ok_def)
  show "parse_path (print_path p) = Inr p"
    using assms by (auto simp: parse_path_def print_path_def path_ok_def starts_with_def ends_with_def)
  have "hd (print_path p) \<noteq> CHR '' ''"
    using assms \<open>print_path p \<noteq> []\<close>
    by (auto simp: print_path_def needs_quoting_def dest: hd_in_set)
  then show "strip_prefix (print_path p) ''  '' = None"
    using \<open>print_path p \<noteq> []\<close>
    by (cases "print_path p") (auto simp: strip_prefix_def starts_with_def)
qed

lemma attestation_loop_file:
  assumes "file_ok f"
  shows "attestation_loop atts cur (print_path (fa_file_path f) # map print_entry (fa_entries f) @ rest) =
     attestation_loop (flush_file atts cur) (Some (sorted_file f)) rest"
proof -
  have "attestation_loop atts cur (print_path (fa_file_path f) # map print_entry (fa_entries f) @ rest) =
      attestation_loop (flush_file atts cur) (Some (FileAttestation_new (fa_file_path f)))
        (map print_entry (fa_entries f) @ rest)"
    using assms print_path_ok [of "fa_file_path f"] by (simp add: file_ok_def Let_def)
  also have "\<dots> = attestation_loop (flush_file atts cur) (Some (sorted_file f)) rest"
    using assms
    by (cases f) (simp add: attestation_loop_entries file_ok_def FileAttestation_new_def sorted_file_def)
  finally show ?thesis .
qed

definition file_lines :: "FileAttestation \<Rightarrow> str list" where
  "file_lines f = print_path (fa_file_path f) # map print_entry (fa_entries f)"

lemma flush_sorted_file: "file_ok f \<Longrightarrow> flush_file atts (Some (sorted_file f)) = atts @ [sorted_file f]"
  by (simp add: flush_file_def file_ok_def sorted_file_def)

lemma attestation_loop_files:
  assumes "list_all file_ok fs"
  shows "attestation_loop atts cur (concat (map file_lines fs)) =
     Inr (flush_file atts cur @ map sorted_file fs)"
  using assms
proof (induction fs arbitrary: atts cur)
  case (Cons f fs)
  then have "attestation_loop atts cur (concat (map file_lines (f # fs))) =
      attestation_loop (flush_file atts cur) (Some (sorted_file f)) (concat (map file_lines fs))"
    using attestation_loop_file [of f atts cur "concat (map file_lines fs)"]
    by (simp add: file_lines_def del: attestation_loop.simps)
  with Cons show ?case by (simp add: flush_sorted_file del: attestation_loop.simps)
qed simp

section \<open>Lemmas: the whole note\<close>

lemma plain_print_path: "path_ok p \<Longrightarrow> plain_line (print_path p)"
proof -
  assume p: "path_ok p"
  have "newline \<notin> set (print_path p)" using p by (auto simp: print_path_def path_ok_def)
  moreover have "last (print_path p) \<noteq> carriage_return"
    using print_path_ok(1,2) [OF p] ws_end_len_single [of "print_path p"]
    by (auto simp: trim_end_fixed ws_encodings_def)
  ultimately show ?thesis by (simp add: plain_line_def)
qed

lemma plain_print_entry: "entry_ok e \<Longrightarrow> plain_line (print_entry e)"
proof -
  assume e: "entry_ok e"
  have "newline \<notin> set (print_entry e)"
    using e format_line_ranges_chars [of newline "ae_line_ranges e"]
    by (auto simp: print_entry_def entry_ok_def)
  then show ?thesis
    using print_entry_last [OF e] not_digit_chars(5) by (metis plain_line_def)
qed

lemma str_lines_block:
  "list_all plain_line ls \<Longrightarrow>
     str_lines (concat (map (\<lambda>l. l @ [newline]) ls) @ rest) = ls @ str_lines rest"
  by (induction ls) (simp_all add: str_lines_line)

lemma print_file_block: "print_file f = concat (map (\<lambda>l. l @ [newline]) (file_lines f))"
  by (simp add: print_file_def file_lines_def comp_def)

lemma print_files_block:
  "concat (map print_file fs) = concat (map (\<lambda>l. l @ [newline]) (concat (map file_lines fs)))"
  by (induction fs) (simp_all add: print_file_block)

lemma file_lines_plain: "file_ok f \<Longrightarrow> list_all plain_line (file_lines f)"
  by (auto simp: file_lines_def file_ok_def list_all_iff plain_print_path plain_print_entry)

lemma print_entry_not_divider: "print_entry e \<noteq> divider"
  by (simp add: print_entry_def)

lemma file_lines_not_divider: "file_ok f \<Longrightarrow> l \<in> set (file_lines f) \<Longrightarrow> l \<noteq> divider"
  using print_path_ok(5) print_entry_not_divider unfolding file_lines_def file_ok_def
  by (metis (no_types, lifting) ex_map_conv set_ConsD)

lemma note_lines:
  assumes "list_all file_ok fs"
  shows "str_lines (concat (map print_file fs) @ divider @ newline # json) =
     concat (map file_lines fs) @ divider # str_lines json"
proof -
  have "list_all plain_line (concat (map file_lines fs))"
    using assms file_lines_plain by (auto simp: list_all_iff)
  moreover have "str_lines (divider @ newline # json) = divider # str_lines json"
    by (rule str_lines_line) (simp add: plain_line_def)
  ultimately show ?thesis by (simp only: print_files_block str_lines_block)
qed

lemma takeWhile_not_divider:
  assumes "list_all file_ok fs"
  shows "takeWhile (\<lambda>l. l \<noteq> divider) (concat (map file_lines fs) @ divider # rest) =
      concat (map file_lines fs)"
    and "dropWhile (\<lambda>l. l \<noteq> divider) (concat (map file_lines fs) @ divider # rest) = divider # rest"
proof -
  have "\<And>l. l \<in> set (concat (map file_lines fs)) \<Longrightarrow> l \<noteq> divider"
    using assms file_lines_not_divider by (fastforce simp: list_all_iff)
  then show "takeWhile (\<lambda>l. l \<noteq> divider) (concat (map file_lines fs) @ divider # rest) =
      concat (map file_lines fs)"
    and "dropWhile (\<lambda>l. l \<noteq> divider) (concat (map file_lines fs) @ divider # rest) = divider # rest"
    by (simp_all only: takeWhile_append2 dropWhile_append2 takeWhile.simps dropWhile.simps
        not_True_eq_False if_False append_Nil2 simp_thms)
qed

lemma deserialize_printed:
  assumes "list_all file_ok fs" and "carriage_return \<notin> set json" and "json = [] \<or> last json \<noteq> newline"
    and "from_json json = Some md"
  shows "deserialize_from_string from_json (concat (map print_file fs) @ divider @ newline # json) =
     Inr \<lparr>al_attestations = map sorted_file fs,
          al_metadata = materialize_traces (map sorted_file fs) md\<rparr>"
proof -
  have "parse_attestation_section (concat (map file_lines fs)) = Inr (map sorted_file fs)"
    using attestation_loop_files [OF assms(1), of "[]" None]
    by (simp add: parse_attestation_section_def flush_file_def)
  moreover have "join [newline] (str_lines json) = json" by (rule join_str_lines) fact+
  ultimately show ?thesis
    using assms(4)
    by (simp only: deserialize_from_string_def Let_def note_lines [OF assms(1)]
        takeWhile_not_divider [OF assms(1)] list.case sum.case option.case)
qed

section \<open>Properties\<close>

text \<open>C9. Writing an authorship note and reading it back gives the same log, with the ranges of
  every entry in ascending order and the models of the traces the entries name recorded in their
  sessions. It holds for notes whose files have entries with ranges and whose paths and hashes
  the line format can carry, and for a JSON codec that reads back the metadata it wrote.\<close>

theorem note_roundtrip:
  assumes "list_all file_ok (al_attestations log)"
    and "to_json (al_metadata log) = Some json" and "from_json json = Some (al_metadata log)"
    and "carriage_return \<notin> set json" and "json = [] \<or> last json \<noteq> newline"
  shows "\<exists>note. serialize_to_string to_json log = Inr note \<and>
     deserialize_from_string from_json note =
       Inr \<lparr>al_attestations = map sorted_file (al_attestations log),
            al_metadata = materialize_traces (map sorted_file (al_attestations log)) (al_metadata log)\<rparr>"
  using deserialize_printed [OF assms(1,4,5), of from_json, OF assms(3)] assms(2)
  by (simp add: serialize_to_string_def)

definition example_note :: AuthorshipLog where
  "example_note = \<lparr>al_attestations =
       [\<lparr>fa_file_path = ''src/my file.rs'',
         fa_entries = [\<lparr>ae_hash = ''s_1::t_2'', ae_line_ranges = [Range 7 9, Single 2]\<rparr>]\<rparr>],
     al_metadata = al_metadata example_log\<rparr>"

theorem note_roundtrip_witness:
  "\<exists>note. serialize_to_string (\<lambda>_. Some ''{}'') example_note = Inr note \<and>
     deserialize_from_string (\<lambda>_. Some (al_metadata example_note)) note =
       Inr \<lparr>al_attestations = map sorted_file (al_attestations example_note),
            al_metadata = materialize_traces (map sorted_file (al_attestations example_note))
              (al_metadata example_note)\<rparr>"
  by (rule note_roundtrip [where json = "''{}''"])
    (simp_all add: example_note_def file_ok_def path_ok_def entry_ok_def needs_quoting_def)

text \<open>The reader of a note's range list inverts its writer up to the order of the ranges:
  every list of ranges, printed and parsed again, comes back in ascending order of first lines and
  as the same multiset.\<close>

theorem parse_line_ranges_format:
  "\<exists>sorted. parse_line_ranges (format_line_ranges rs) = Inr sorted \<and> sorted = sort_key first_line rs \<and>
     mset sorted = mset rs"
proof (cases "rs = []")
  case True
  then show ?thesis by (simp add: parse_line_ranges_def format_line_ranges_def)
next
  case False
  then show ?thesis by (simp add: parse_format_line_ranges)
qed

text \<open>A path line that is a single quotation mark makes the reader of a note panic, whatever
  follows the divider: the unquoting slice \<open>line[1..line.len() - 1]\<close> has its start after its end.\<close>

theorem lone_quote_panics:
  "deserialize_from_string from_json ([quote, newline] @ divider @ newline # json) = Inl SlicePanic"
proof -
  have "str_lines ([quote, newline] @ divider @ newline # json) = [quote] # divider # str_lines json"
    using str_lines_line [of "[quote]" "divider @ newline # json"] str_lines_line [of divider json]
    by (simp add: plain_line_def)
  moreover have "trim_end [quote] = [quote]"
    by (intro trim_end_id ws_end_len_plain) (use quote_not_ws_end in simp_all)
  then have "parse_attestation_section [[quote]] = Inl SlicePanic"
    by (simp add: parse_attestation_section_def Let_def strip_prefix_def starts_with_def
        parse_path_def ends_with_def)
  ultimately show ?thesis by (simp add: deserialize_from_string_def)
qed



end
