(* ===== verification/Attribution_Data.thy ===== *)
theory Attribution_Data
  imports Prelude
begin

text \<open>
  The two kinds of attribution the tracker keeps (\<open>src/authorship/attribution_tracker.rs\<close>):
  \<open>Attribution\<close>, a half-open range of bytes, and \<open>LineAttribution\<close>, an inclusive range of lines.
  A timestamp is a \<open>u128\<close> of milliseconds that is only stored and compared: a \<open>nat\<close>.
\<close>

record Attribution =
  at_start :: nat
  at_end :: nat
  at_author_id :: str
  at_ts :: nat

record LineAttribution =
  la_start_line :: u32
  la_end_line :: u32
  la_author_id :: str
  la_overrode :: "str option"

definition INITIAL_ATTRIBUTION_TS :: nat where
  "INITIAL_ATTRIBUTION_TS = 42"

definition LineAttribution_new :: "u32 \<Rightarrow> u32 \<Rightarrow> str \<Rightarrow> str option \<Rightarrow> LineAttribution" where
  "LineAttribution_new start_line end_line author_id overrode =
     \<lparr>la_start_line = start_line, la_end_line = end_line, la_author_id = author_id,
      la_overrode = overrode\<rparr>"

definition LineAttribution_line_count :: "LineAttribution \<Rightarrow> u32" where
  "LineAttribution_line_count a =
     (if la_end_line a < la_start_line a then 0 else la_end_line a - la_start_line a + 1)"

definition LineAttribution_is_empty :: "LineAttribution \<Rightarrow> bool" where
  "LineAttribution_is_empty a = (la_end_line a < la_start_line a)"

definition LineAttribution_overlaps :: "LineAttribution \<Rightarrow> u32 \<Rightarrow> u32 \<Rightarrow> bool" where
  "LineAttribution_overlaps a start_line end_line =
     (la_start_line a \<le> end_line \<and> start_line \<le> la_end_line a)"

definition LineAttribution_intersection :: "LineAttribution \<Rightarrow> u32 \<Rightarrow> u32 \<Rightarrow> (u32 \<times> u32) option" where
  "LineAttribution_intersection a start_line end_line =
     (let overlap_start = max (la_start_line a) start_line;
          overlap_end = min (la_end_line a) end_line
      in if overlap_start \<le> overlap_end then Some (overlap_start, overlap_end) else None)"

definition Attribution_new :: "nat \<Rightarrow> nat \<Rightarrow> str \<Rightarrow> nat \<Rightarrow> Attribution" where
  "Attribution_new start end' author_id ts =
     \<lparr>at_start = start, at_end = end', at_author_id = author_id, at_ts = ts\<rparr>"

definition Attribution_is_empty :: "Attribution \<Rightarrow> bool" where
  "Attribution_is_empty a = (at_end a \<le> at_start a)"

definition Attribution_overlaps :: "Attribution \<Rightarrow> nat \<Rightarrow> nat \<Rightarrow> bool" where
  "Attribution_overlaps a start end' = (at_start a < end' \<and> start < at_end a)"

definition Attribution_intersection :: "Attribution \<Rightarrow> nat \<Rightarrow> nat \<Rightarrow> (nat \<times> nat) option" where
  "Attribution_intersection a start end' =
     (let overlap_start = max (at_start a) start; overlap_end = min (at_end a) end'
      in if overlap_start < overlap_end then Some (overlap_start, overlap_end) else None)"

section \<open>Coverage\<close>

definition line_attributed :: "LineAttribution \<Rightarrow> u32 \<Rightarrow> bool" where
  "line_attributed a l \<longleftrightarrow> la_start_line a \<le> l \<and> l \<le> la_end_line a"

definition byte_attributed :: "Attribution \<Rightarrow> nat \<Rightarrow> bool" where
  "byte_attributed a p \<longleftrightarrow> at_start a \<le> p \<and> p < at_end a"

lemma Attribution_new_simps [simp]:
  "at_start (Attribution_new s e au ts) = s" "at_end (Attribution_new s e au ts) = e"
  "at_author_id (Attribution_new s e au ts) = au" "at_ts (Attribution_new s e au ts) = ts"
  by (simp_all add: Attribution_new_def)

lemma LineAttribution_new_simps [simp]:
  "la_start_line (LineAttribution_new s e au ov) = s" "la_end_line (LineAttribution_new s e au ov) = e"
  "la_author_id (LineAttribution_new s e au ov) = au" "la_overrode (LineAttribution_new s e au ov) = ov"
  by (simp_all add: LineAttribution_new_def)

lemma Attribution_intersection_spec:
  "Attribution_intersection a s e = Some (i, j) \<Longrightarrow>
     i < j \<and> (i \<le> p \<and> p < j \<longleftrightarrow> byte_attributed a p \<and> s \<le> p \<and> p < e)"
  by (auto simp: Attribution_intersection_def byte_attributed_def Let_def split: if_splits)

lemma Attribution_intersection_None:
  "Attribution_intersection a s e = None \<Longrightarrow> \<not> (byte_attributed a p \<and> s \<le> p \<and> p < e)"
  by (auto simp: Attribution_intersection_def byte_attributed_def Let_def split: if_splits)

lemma LineAttribution_intersection_spec:
  "LineAttribution_intersection a s e = Some (i, j) \<Longrightarrow>
     i \<le> j \<and> (i \<le> l \<and> l \<le> j \<longleftrightarrow> line_attributed a l \<and> s \<le> l \<and> l \<le> e)"
  by (auto simp: LineAttribution_intersection_def line_attributed_def Let_def split: if_splits)

end
