(* ===== verification/Hunk_Shift.thy ===== *)
theory Hunk_Shift
  imports Authorship_Log Attribution_Data
begin

text \<open>
  Moving attributions through a diff (\<open>src/authorship/hunk_shift.rs\<close>): the hunks of a
  zero-context diff cut the old file into preserved segments, each with an offset, and the line
  ranges of an attestation or a line attribution are clipped to the segments and shifted.
  \<open>u32\<close> arithmetic wraps; the running \<open>i64\<close> offset is an \<open>int\<close>, as a sum of differences of two \<open>u32\<close>
  counts stays far from the ends of \<open>i64\<close>.
\<close>

section \<open>Hunk headers\<close>

record DiffHunk =
  hk_old_start :: u32
  hk_old_count :: u32
  hk_new_start :: u32
  hk_new_count :: u32

definition parse_range_spec :: "str \<Rightarrow> (u32 \<times> u32) option" where
  "parse_range_spec spec =
     (case split_once '','' spec of
        Some (start_str, count_str) \<Rightarrow>
          (case parse_u32 start_str of
             None \<Rightarrow> None
           | Some start \<Rightarrow>
               (case parse_u32 count_str of
                  None \<Rightarrow> None
                | Some count \<Rightarrow> Some (start, count)))
      | None \<Rightarrow>
          (case parse_u32 spec of
             None \<Rightarrow> None
           | Some start \<Rightarrow> Some (start, 1)))"

definition parse_hunk_header :: "str \<Rightarrow> DiffHunk option" where
  "parse_hunk_header line =
     (let parts = split_whitespace line
      in if length parts < 4 \<or> parts ! 0 \<noteq> ''@@'' then None
         else case parse_range_spec (dropWhile (\<lambda>c. c = CHR ''-'') (parts ! 1)) of
           None \<Rightarrow> None
         | Some (old_start, old_count) \<Rightarrow>
             (case parse_range_spec (dropWhile (\<lambda>c. c = CHR ''+'') (parts ! 2)) of
                None \<Rightarrow> None
              | Some (new_start, new_count) \<Rightarrow>
                  Some \<lparr>hk_old_start = old_start, hk_old_count = old_count,
                        hk_new_start = new_start, hk_new_count = new_count\<rparr>))"

section \<open>Preserved segments\<close>

type_synonym segment = "u32 \<times> u32 \<times> int"

definition saturating_pred :: "u32 \<Rightarrow> u32" where
  "saturating_pred n = (if n = 0 then 0 else n - 1)"

definition push_segment :: "int \<Rightarrow> u32 \<Rightarrow> DiffHunk \<Rightarrow> segment list" where
  "push_segment offset prev_old_end hunk =
     (if prev_old_end < hk_old_start hunk + 1
      then let seg_end = (if hk_old_count hunk = 0 then hk_old_start hunk
                          else saturating_pred (hk_old_start hunk))
           in if prev_old_end \<le> seg_end then [(prev_old_end, seg_end, offset)] else []
      else [])"

fun preserved_loop :: "int \<Rightarrow> u32 \<Rightarrow> DiffHunk list \<Rightarrow> segment list" where
  "preserved_loop offset prev_old_end [] = [(prev_old_end, u32_MAX, offset)]"
| "preserved_loop offset prev_old_end (hunk # hunks) =
     push_segment offset prev_old_end hunk @
     preserved_loop (offset + (uint (hk_new_count hunk) - uint (hk_old_count hunk)))
       (if hk_old_count hunk = 0 then hk_old_start hunk + 1
        else hk_old_start hunk + hk_old_count hunk)
       hunks"

definition build_preserved_segments :: "DiffHunk list \<Rightarrow> segment list" where
  "build_preserved_segments hunks = preserved_loop 0 1 hunks"

text \<open>One pass of the inner loops: the part of a line range inside a segment, at its new place.\<close>

definition clip_shift :: "u32 \<Rightarrow> u32 \<Rightarrow> segment \<Rightarrow> (u32 \<times> u32) option" where
  "clip_shift range_start range_end seg =
     (case seg of (seg_start, seg_end, seg_offset) \<Rightarrow>
        let overlap_start = max range_start seg_start; overlap_end = min range_end seg_end
        in if overlap_start \<le> overlap_end
           then Some (word_of_int (max 1 (uint overlap_start + seg_offset)),
                      word_of_int (max 1 (uint overlap_end + seg_offset)))
           else None)"

definition range_bounds :: "LineRange \<Rightarrow> u32 \<times> u32" where
  "range_bounds range' = (case range' of Single l \<Rightarrow> (l, l) | Range s e \<Rightarrow> (s, e))"

definition shift_ranges :: "segment list \<Rightarrow> LineRange list \<Rightarrow> LineRange list" where
  "shift_ranges segments line_ranges =
     concat (map (\<lambda>range'. case range_bounds range' of (range_start, range_end) \<Rightarrow>
       map (\<lambda>(new_start, new_end). close_run new_start new_end)
         (List.map_filter (clip_shift range_start range_end) segments)) line_ranges)"

definition apply_hunk_shifts_to_attestation_entries ::
  "AttestationEntry list \<Rightarrow> DiffHunk list \<Rightarrow> AttestationEntry list" where
  "apply_hunk_shifts_to_attestation_entries entries hunks =
     (if hunks = [] then entries
      else let segments = build_preserved_segments hunks
           in List.map_filter (\<lambda>entry.
                let new_ranges = shift_ranges segments (ae_line_ranges entry)
                in if new_ranges \<noteq> []
                   then Some \<lparr>ae_hash = ae_hash entry, ae_line_ranges = new_ranges\<rparr> else None) entries)"

definition apply_hunk_shifts_to_file_attestation ::
  "FileAttestation \<Rightarrow> DiffHunk list \<Rightarrow> FileAttestation option" where
  "apply_hunk_shifts_to_file_attestation file hunks =
     (let entries = apply_hunk_shifts_to_attestation_entries (fa_entries file) hunks
      in if entries = [] then None
         else Some \<lparr>fa_file_path = fa_file_path file, fa_entries = entries\<rparr>)"

definition apply_hunk_shifts_to_line_attributions ::
  "LineAttribution list \<Rightarrow> DiffHunk list \<Rightarrow> LineAttribution list" where
  "apply_hunk_shifts_to_line_attributions attrs hunks =
     (if hunks = [] then attrs
      else let segments = build_preserved_segments hunks
           in concat (map (\<lambda>attr.
                map (\<lambda>(new_start, new_end).
                    \<lparr>la_start_line = new_start, la_end_line = new_end,
                     la_author_id = la_author_id attr, la_overrode = la_overrode attr\<rparr>)
                  (List.map_filter (clip_shift (la_start_line attr) (la_end_line attr)) segments)) attrs))"

section \<open>Specification: where a diff puts a line\<close>

definition hunk_deletes :: "DiffHunk \<Rightarrow> u32 \<Rightarrow> bool" where
  "hunk_deletes h l \<longleftrightarrow> uint (hk_old_start h) \<le> uint l \<and>
     uint l < uint (hk_old_start h) + uint (hk_old_count h)"

definition hunk_before :: "DiffHunk \<Rightarrow> u32 \<Rightarrow> bool" where
  "hunk_before h l \<longleftrightarrow>
     (if hk_old_count h = 0 then hk_old_start h < l
      else uint (hk_old_start h) + uint (hk_old_count h) \<le> uint l)"

definition deleted :: "DiffHunk list \<Rightarrow> u32 \<Rightarrow> bool" where
  "deleted hunks l = list_ex (\<lambda>h. hunk_deletes h l) hunks"

text \<open>The new number of an old line: the old one plus what the hunks before it add and remove.\<close>

definition new_line :: "DiffHunk list \<Rightarrow> u32 \<Rightarrow> int" where
  "new_line hunks l = uint l +
     sum_list (map (\<lambda>h. if hunk_before h l then uint (hk_new_count h) - uint (hk_old_count h) else 0) hunks)"

text \<open>The hunks of a diff: in order, disjoint, and inside the range of \<open>u32\<close>. \<open>prev\<close> is the first
  line after the hunks already passed.\<close>

fun ordered_hunks :: "int \<Rightarrow> DiffHunk list \<Rightarrow> bool" where
  "ordered_hunks prev [] = True"
| "ordered_hunks prev (h # hs) =
     (if hk_old_count h = 0
      then prev \<le> uint (hk_old_start h) + 1 \<and> uint (hk_old_start h) + 1 \<le> uint u32_MAX \<and>
           ordered_hunks (uint (hk_old_start h) + 1) hs
      else prev \<le> uint (hk_old_start h) \<and>
           uint (hk_old_start h) + uint (hk_old_count h) \<le> uint u32_MAX \<and>
           ordered_hunks (uint (hk_old_start h) + uint (hk_old_count h)) hs)"

definition valid_hunks :: "DiffHunk list \<Rightarrow> bool" where
  "valid_hunks hunks = ordered_hunks 1 hunks"

text \<open>Line \<open>m\<close> of the new file is the old line \<open>l\<close>, kept by the diff.\<close>

definition carried :: "DiffHunk list \<Rightarrow> u32 \<Rightarrow> u32 \<Rightarrow> bool" where
  "carried hunks l m \<longleftrightarrow> 1 \<le> l \<and> \<not> deleted hunks l \<and> uint m = new_line hunks l"

section \<open>Lemmas: segments\<close>

lemma uint_u32_MAX [simp]: "uint u32_MAX = 4294967295"
  by (simp add: unsigned_minus_1_eq_mask mask_eq_exp_minus_1)

lemma uint_u32_add: "uint a + uint b \<le> 4294967295 \<Longrightarrow> uint (a + b :: u32) = uint a + uint b"
  by (simp add: uint_word_ariths)

lemma uint_u32_le_max: "uint (a :: u32) \<le> 4294967295"
  using uint_lt2p [of a] by simp

lemma u32_zero_iff: "(a :: u32) = 0 \<longleftrightarrow> uint a = 0"
  by (simp add: word_uint_eq_iff)

lemma uint_u32_pos: "(a :: u32) \<noteq> 0 \<Longrightarrow> 0 < uint a"
  by (simp add: u32_zero_iff order.not_eq_order_implies_strict)

lemmas u32_uint = word_le_def word_less_def

lemma uint_saturating_pred: "0 < uint a \<Longrightarrow> uint (saturating_pred a) = uint a - 1"
  using uint_u32_le_max [of a] by (auto simp: saturating_pred_def uint_word_ariths)

lemma deleted_Cons [simp]: "deleted (h # hs) l \<longleftrightarrow> hunk_deletes h l \<or> deleted hs l"
  by (simp add: deleted_def)

lemma new_line_Cons:
  "new_line (h # hs) l =
     new_line hs l + (if hunk_before h l then uint (hk_new_count h) - uint (hk_old_count h) else 0)"
  by (simp add: new_line_def)

lemma before_hunks:
  "ordered_hunks p hs \<Longrightarrow> uint l < p \<Longrightarrow> \<not> deleted hs l \<and> new_line hs l = uint l"
proof (induction hs arbitrary: p)
  case (Cons h hs)
  show ?case
  proof (cases "hk_old_count h = 0")
    case True
    with Cons.prems have "\<not> deleted hs l \<and> new_line hs l = uint l" by (intro Cons.IH [of "uint (hk_old_start h) + 1"]) auto
    with True Cons.prems show ?thesis
      by (auto simp: new_line_Cons hunk_deletes_def hunk_before_def u32_uint)
  next
    case False
    then have "0 < uint (hk_old_count h)" by (rule uint_u32_pos)
    moreover from this False Cons.prems have "\<not> deleted hs l \<and> new_line hs l = uint l"
      by (intro Cons.IH [of "uint (hk_old_start h) + uint (hk_old_count h)"]) auto
    ultimately show ?thesis
      using False Cons.prems by (auto simp: new_line_Cons hunk_deletes_def hunk_before_def)
  qed
qed (simp add: deleted_def new_line_def)

definition in_segment :: "u32 \<Rightarrow> int \<Rightarrow> segment \<Rightarrow> bool" where
  "in_segment l offset seg = (case seg of (s, e, d) \<Rightarrow> s \<le> l \<and> l \<le> e \<and> d = offset)"

text \<open>The lines a hunk step pushes: those from \<open>prev\<close> to the one before the hunk.\<close>

lemma pushed_segment:
  assumes "uint prev \<le> uint (hk_old_start h) + (if hk_old_count h = 0 then 1 else 0)"
    and "uint (hk_old_start h) + 1 \<le> 4294967295"
  shows "list_ex (in_segment l d) (push_segment off prev h) \<longleftrightarrow>
     uint prev \<le> uint l \<and> d = off \<and>
     (uint prev = 0 \<and> uint l = 0 \<and> uint (hk_old_start h) = 0 \<or>
      uint l < uint (hk_old_start h) + (if hk_old_count h = 0 then 1 else 0))"
proof -
  have n: "uint (hk_old_start h + 1) = uint (hk_old_start h) + 1"
    using assms(2) by (simp add: uint_u32_add)
  show ?thesis
  proof (cases "hk_old_count h = 0")
    case True
    with assms n show ?thesis by (auto simp: push_segment_def in_segment_def u32_uint)
  next
    case False
    note c = this
    show ?thesis
    proof (cases "hk_old_start h = 0")
      case True
      with assms False show ?thesis
        by (auto simp: push_segment_def in_segment_def u32_uint saturating_pred_def)
    next
      case False
      then have "uint (saturating_pred (hk_old_start h)) = uint (hk_old_start h) - 1"
        by (intro uint_saturating_pred uint_u32_pos)
      with assms n False c uint_u32_pos [OF False] show ?thesis by (auto simp: push_segment_def in_segment_def u32_uint)
    qed
  qed
qed

lemma preserved_loop_spec:
  assumes "ordered_hunks (uint prev) hs" and "1 \<le> uint prev"
  shows "list_ex (in_segment l d) (preserved_loop off prev hs) \<longleftrightarrow>
     prev \<le> l \<and> \<not> deleted hs l \<and> d = off + (new_line hs l - uint l)"
  using assms
proof (induction hs arbitrary: off prev)
  case Nil
  then show ?case
    by (auto simp: in_segment_def deleted_def new_line_def u32_uint uint_u32_le_max)
next
  case (Cons h hs)
  let ?next = "if hk_old_count h = 0 then hk_old_start h + 1 else hk_old_start h + hk_old_count h"
  have le: "uint prev \<le> uint (hk_old_start h) + (if hk_old_count h = 0 then 1 else 0)"
    using Cons.prems by (simp split: if_splits)
  have n: "uint ?next = uint (hk_old_start h) + (if hk_old_count h = 0 then 1 else uint (hk_old_count h))"
    using Cons.prems by (simp add: uint_u32_add split: if_splits)
  have s: "uint (hk_old_start h) + 1 \<le> 4294967295"
    using Cons.prems uint_u32_pos [of "hk_old_count h"] by (simp split: if_splits)
  have o: "ordered_hunks (uint ?next) hs" "1 \<le> uint ?next"
    using Cons.prems n le uint_u32_pos [of "hk_old_count h"] by (auto split: if_splits)
  have lt: "uint l < uint ?next \<Longrightarrow> \<not> deleted hs l \<and> new_line hs l = uint l"
    using before_hunks [OF o(1)] by blast
  have b: "hunk_before h l \<longleftrightarrow> uint ?next \<le> uint l"
    using n by (auto simp: hunk_before_def u32_uint)
  have "list_ex (in_segment l d) (preserved_loop off prev (h # hs)) \<longleftrightarrow>
     uint prev \<le> uint l \<and> d = off \<and>
       uint l < uint (hk_old_start h) + (if hk_old_count h = 0 then 1 else 0) \<or>
     uint ?next \<le> uint l \<and> \<not> deleted hs l \<and>
       d = off + (uint (hk_new_count h) - uint (hk_old_count h)) + (new_line hs l - uint l)"
    using Cons.prems(2)
    by (simp only: preserved_loop.simps list_ex_append pushed_segment [OF le s] Cons.IH [OF o] word_le_def)
      auto
  also have "\<dots> \<longleftrightarrow> prev \<le> l \<and> \<not> deleted (h # hs) l \<and> d = off + (new_line (h # hs) l - uint l)"
    using lt n le uint_u32_pos [of "hk_old_count h"]
    by (cases "uint ?next \<le> uint l")
      (auto simp: new_line_Cons b hunk_deletes_def word_le_def split: if_splits)
  finally show ?case .
qed

lemma new_line_lower:
  assumes "ordered_hunks p hs" and "p \<le> uint l" and "\<not> deleted hs l"
  shows "p \<le> new_line hs l"
  using assms
proof (induction hs arbitrary: p)
  case (Cons h hs)
  let ?len = "if hk_old_count h = 0 then 1 else uint (hk_old_count h)"
  let ?p = "uint (hk_old_start h) + ?len"
  have o: "ordered_hunks ?p hs" using Cons.prems(1) by (simp split: if_splits)
  have b: "hunk_before h l \<longleftrightarrow> ?p \<le> uint l" by (auto simp: hunk_before_def u32_uint)
  show ?case
  proof (cases "?p \<le> uint l")
    case True
    with Cons.prems o have "?p \<le> new_line hs l" by (intro Cons.IH) auto
    moreover have "p + uint (hk_old_count h) \<le> ?p" using Cons.prems(1) by (simp split: if_splits)
    moreover have "new_line (h # hs) l = new_line hs l + (uint (hk_new_count h) - uint (hk_old_count h))"
      using True b by (simp add: new_line_Cons)
    ultimately show ?thesis using uint_ge_0 [of "hk_new_count h"] by linarith
  next
    case False
    with before_hunks [OF o, of l] Cons.prems(2) b show ?thesis by (simp add: new_line_Cons)
  qed
qed (simp add: new_line_def)

lemma segment_offsets:
  assumes "valid_hunks hunks"
  shows "list_ex (in_segment l (uint m - uint l)) (build_preserved_segments hunks) \<longleftrightarrow> carried hunks l m"
  using preserved_loop_spec [of 1 hunks l "uint m - uint l" 0] assms
  by (auto simp: build_preserved_segments_def valid_hunks_def carried_def)

section \<open>Lemmas: clipping and shifting\<close>

text \<open>A shift that stays inside the line numbers.\<close>

definition shift_fits :: "segment list \<Rightarrow> u32 \<Rightarrow> bool" where
  "shift_fits segs l = list_all (\<lambda>(s, e, d). s \<le> l \<and> l \<le> e \<longrightarrow> 1 \<le> uint l + d \<and> uint l + d \<le> 4294967295) segs"

lemma uint_word_of_int_u32:
  "0 \<le> i \<Longrightarrow> i \<le> 4294967295 \<Longrightarrow> uint (word_of_int i :: u32) = i"
  by (simp add: uint_word_of_int)

lemma clip_shift_spec:
  assumes "\<And>l. a \<le> l \<Longrightarrow> l \<le> b \<Longrightarrow> shift_fits [seg] l"
  shows "(\<exists>x y. clip_shift a b seg = Some (x, y) \<and> x \<le> m \<and> m \<le> y) \<longleftrightarrow>
     (\<exists>l. a \<le> l \<and> l \<le> b \<and> in_segment l (uint m - uint l) seg)"
proof (cases seg)
  case (fields s e d)
  let ?x = "max a s" and ?y = "min b e"
  show ?thesis
  proof (cases "?x \<le> ?y")
    case True
    then have fx: "1 \<le> uint ?x + d" "uint ?x + d \<le> 4294967295"
      and fy: "1 \<le> uint ?y + d" "uint ?y + d \<le> 4294967295"
      using assms [of ?x] assms [of ?y] fields by (auto simp: shift_fits_def)
    have c: "(\<exists>x y. clip_shift a b seg = Some (x, y) \<and> x \<le> m \<and> m \<le> y) \<longleftrightarrow>
        uint ?x + d \<le> uint m \<and> uint m \<le> uint ?y + d"
    proof -
      have "clip_shift a b seg = Some (word_of_int (uint ?x + d), word_of_int (uint ?y + d))"
        using True fields fx(1) fy(1) by (simp only: clip_shift_def Let_def prod.case if_True max_absorb2)
      moreover have "uint (word_of_int (uint ?x + d) :: u32) = uint ?x + d"
        "uint (word_of_int (uint ?y + d) :: u32) = uint ?y + d"
        using fx fy by (intro uint_word_of_int_u32; linarith)+
      ultimately show ?thesis by (simp only: word_le_def option.inject prod.inject) auto
    qed
    show ?thesis
    proof
      assume "\<exists>x y. clip_shift a b seg = Some (x, y) \<and> x \<le> m \<and> m \<le> y"
      with c have m: "uint ?x + d \<le> uint m" "uint m \<le> uint ?y + d" by blast+
      let ?l = "word_of_int (uint m - d) :: u32"
      have "0 \<le> uint ?x" "uint ?y \<le> 4294967295" by (simp, rule uint_u32_le_max)
      with m have l: "uint ?l = uint m - d" by (intro uint_word_of_int_u32) linarith+
      with m have "?x \<le> ?l" "?l \<le> ?y" unfolding word_le_def by linarith+
      with l fields have "a \<le> ?l \<and> ?l \<le> b \<and> in_segment ?l (uint m - uint ?l) seg"
        by (simp add: in_segment_def)
      then show "\<exists>l. a \<le> l \<and> l \<le> b \<and> in_segment l (uint m - uint l) seg" by blast
    next
      assume "\<exists>l. a \<le> l \<and> l \<le> b \<and> in_segment l (uint m - uint l) seg"
      then obtain l where "?x \<le> l" "l \<le> ?y" "d = uint m - uint l"
        using fields by (auto simp: in_segment_def)
      then show "\<exists>x y. clip_shift a b seg = Some (x, y) \<and> x \<le> m \<and> m \<le> y"
        unfolding c by (simp only: word_le_def) linarith
    qed
  next
    case False
    then have "clip_shift a b seg = None" using fields by (simp add: clip_shift_def)
    moreover have "\<not> (a \<le> l \<and> l \<le> b \<and> s \<le> l \<and> l \<le> e)" for l using False by auto
    ultimately show ?thesis using fields by (auto simp: in_segment_def)
  qed
qed

lemma clip_shifts_spec:
  assumes "\<And>l. a \<le> l \<Longrightarrow> l \<le> b \<Longrightarrow> shift_fits segs l"
  shows "(\<exists>(x, y) \<in> set (List.map_filter (clip_shift a b) segs). x \<le> m \<and> m \<le> y) \<longleftrightarrow>
     (\<exists>l. a \<le> l \<and> l \<le> b \<and> list_ex (in_segment l (uint m - uint l)) segs)"
proof -
  have "(\<exists>(x, y) \<in> set (List.map_filter (clip_shift a b) segs). x \<le> m \<and> m \<le> y) \<longleftrightarrow>
      (\<exists>seg \<in> set segs. \<exists>x y. clip_shift a b seg = Some (x, y) \<and> x \<le> m \<and> m \<le> y)"
    by (force simp: List.map_filter_def)
  also have "\<dots> \<longleftrightarrow> (\<exists>seg \<in> set segs. \<exists>l. a \<le> l \<and> l \<le> b \<and> in_segment l (uint m - uint l) seg)"
    using assms by (intro bex_cong refl clip_shift_spec) (auto simp: shift_fits_def list_all_iff)
  finally show ?thesis by (auto simp: list_ex_iff)
qed

lemma contains_range_bounds:
  "LineRange_contains r l \<longleftrightarrow> fst (range_bounds r) \<le> l \<and> l \<le> snd (range_bounds r)"
  by (cases r) (auto simp: range_bounds_def)

lemma covers_shift_ranges [range_specs]:
  assumes "\<And>l. covers rs l \<Longrightarrow> shift_fits segs l"
  shows "covers (shift_ranges segs rs) m \<longleftrightarrow>
     (\<exists>l. covers rs l \<and> list_ex (in_segment l (uint m - uint l)) segs)"
  using assms
proof (induction rs)
  case (Cons r rs)
  obtain a b where ab: "range_bounds r = (a, b)" by fastforce
  have "covers (map (\<lambda>(x, y). close_run x y) xs) m \<longleftrightarrow> (\<exists>(x, y) \<in> set xs. x \<le> m \<and> m \<le> y)" for xs
    by (force simp: covers_iff_mem)
  moreover have "shift_fits segs l" if "a \<le> l" "l \<le> b" for l
    using that ab Cons.prems [of l] by (simp add: contains_range_bounds)
  ultimately have "covers (map (\<lambda>(x, y). close_run x y) (List.map_filter (clip_shift a b) segs)) m \<longleftrightarrow>
      (\<exists>l. a \<le> l \<and> l \<le> b \<and> list_ex (in_segment l (uint m - uint l)) segs)"
    using clip_shifts_spec by simp
  moreover have "covers (shift_ranges segs rs) m \<longleftrightarrow>
      (\<exists>l. covers rs l \<and> list_ex (in_segment l (uint m - uint l)) segs)"
    using Cons by simp
  ultimately show ?case
    using ab by (auto simp: shift_ranges_def contains_range_bounds)
qed (simp add: shift_ranges_def)

lemma shift_fits_hunks:
  assumes "valid_hunks hunks" and "deleted hunks l \<or> new_line hunks l \<le> 4294967295"
  shows "shift_fits (build_preserved_segments hunks) l"
  unfolding shift_fits_def list_all_iff
proof (clarify)
  fix s e d assume "(s, e, d) \<in> set (build_preserved_segments hunks)" and "s \<le> l" and "l \<le> e"
  then have "list_ex (in_segment l d) (preserved_loop 0 1 hunks)"
    by (auto simp: in_segment_def list_ex_iff build_preserved_segments_def)
  then have "1 \<le> l" "\<not> deleted hunks l" "uint l + d = new_line hunks l"
    using preserved_loop_spec [of 1 hunks l d 0] assms(1) by (auto simp: valid_hunks_def)
  moreover have "1 \<le> uint l" using \<open>1 \<le> l\<close> by (simp add: word_le_def)
  ultimately show "1 \<le> uint l + d \<and> uint l + d \<le> 4294967295"
    using assms new_line_lower [of 1 hunks l] by (simp add: valid_hunks_def)
qed

definition authored :: "LineAttribution list \<Rightarrow> str \<Rightarrow> str option \<Rightarrow> u32 \<Rightarrow> bool" where
  "authored attrs author overrode l =
     list_ex (\<lambda>a. la_author_id a = author \<and> la_overrode a = overrode \<and> line_attributed a l) attrs"

text \<open>A line a diff can move: it has a number, and so has the line it becomes.\<close>

definition movable :: "DiffHunk list \<Rightarrow> u32 \<Rightarrow> bool" where
  "movable hunks l \<longleftrightarrow> 1 \<le> l \<and> (deleted hunks l \<or> new_line hunks l \<le> 4294967295)"

lemma carried_Nil: "1 \<le> l \<Longrightarrow> carried [] l m \<longleftrightarrow> m = l"
  by (auto simp: carried_def deleted_def new_line_def word_uint_eq_iff)

lemma attested_shift:
  assumes "valid_hunks hunks" and "\<And>l. attested entries hash l \<Longrightarrow> movable hunks l" and "hunks \<noteq> []"
  shows "attested (apply_hunk_shifts_to_attestation_entries entries hunks) hash m \<longleftrightarrow>
     (\<exists>l. attested entries hash l \<and> carried hunks l m)"
proof -
  let ?segs = "build_preserved_segments hunks"
  have cov: "covers (shift_ranges ?segs (ae_line_ranges e)) m \<longleftrightarrow>
      (\<exists>l. covers (ae_line_ranges e) l \<and> carried hunks l m)"
    if "e \<in> set entries" "ae_hash e = hash" for e
  proof -
    have "shift_fits ?segs l" if "covers (ae_line_ranges e) l" for l
      using assms(1) assms(2) [of l] that \<open>e \<in> set entries\<close> \<open>ae_hash e = hash\<close>
      by (intro shift_fits_hunks) (auto simp: attested_def movable_def list_ex_iff)
    then show ?thesis by (simp add: covers_shift_ranges segment_offsets [OF assms(1)])
  qed
  have "attested (apply_hunk_shifts_to_attestation_entries entries hunks) hash m \<longleftrightarrow>
      (\<exists>e \<in> set entries. ae_hash e = hash \<and> covers (shift_ranges ?segs (ae_line_ranges e)) m)"
    using assms(3)
    by (force simp: attested_def apply_hunk_shifts_to_attestation_entries_def List.map_filter_def
        list_ex_iff Let_def)
  also have "\<dots> \<longleftrightarrow> (\<exists>e \<in> set entries. ae_hash e = hash \<and>
      (\<exists>l. covers (ae_line_ranges e) l \<and> carried hunks l m))"
    using cov by (intro bex_cong conj_cong refl) simp
  finally show ?thesis by (auto simp: attested_def list_ex_iff)
qed

lemma authored_concat:
  "authored (concat (map f xs)) author ov m \<longleftrightarrow> (\<exists>x \<in> set xs. authored (f x) author ov m)"
  by (induction xs) (auto simp: authored_def)

lemma authored_pieces:
  "authored (map (\<lambda>(x, y). \<lparr>la_start_line = x, la_end_line = y, la_author_id = au, la_overrode = o'\<rparr>) ps)
     author ov m \<longleftrightarrow> au = author \<and> o' = ov \<and> (\<exists>(x, y) \<in> set ps. x \<le> m \<and> m \<le> y)"
  by (induction ps) (auto simp: authored_def line_attributed_def)

lemma authored_shift:
  assumes "valid_hunks hunks" and "\<And>l. authored attrs author ov l \<Longrightarrow> movable hunks l" and "hunks \<noteq> []"
  shows "authored (apply_hunk_shifts_to_line_attributions attrs hunks) author ov m \<longleftrightarrow>
     (\<exists>l. authored attrs author ov l \<and> carried hunks l m)"
proof -
  let ?clips = "\<lambda>a. List.map_filter (clip_shift (la_start_line a) (la_end_line a)) (build_preserved_segments hunks)"
  have cov: "(\<exists>(x, y) \<in> set (?clips a). x \<le> m \<and> m \<le> y) \<longleftrightarrow>
      (\<exists>l. line_attributed a l \<and> carried hunks l m)"
    if "a \<in> set attrs" "la_author_id a = author" "la_overrode a = ov" for a
  proof -
    have "shift_fits (build_preserved_segments hunks) l"
      if "la_start_line a \<le> l" "l \<le> la_end_line a" for l
      using assms(1) assms(2) [of l] that \<open>a \<in> set attrs\<close> \<open>la_author_id a = author\<close> \<open>la_overrode a = ov\<close>
      by (intro shift_fits_hunks) (auto simp: authored_def line_attributed_def movable_def list_ex_iff)
    then show ?thesis
      by (simp add: clip_shifts_spec segment_offsets [OF assms(1)] line_attributed_def)
  qed
  have "authored (apply_hunk_shifts_to_line_attributions attrs hunks) author ov m \<longleftrightarrow>
      (\<exists>a \<in> set attrs. la_author_id a = author \<and> la_overrode a = ov \<and>
         (\<exists>(x, y) \<in> set (?clips a). x \<le> m \<and> m \<le> y))"
    using assms(3)
    by (simp add: apply_hunk_shifts_to_line_attributions_def authored_concat authored_pieces cong: bex_cong)
  also have "\<dots> \<longleftrightarrow> (\<exists>a \<in> set attrs. la_author_id a = author \<and> la_overrode a = ov \<and>
      (\<exists>l. line_attributed a l \<and> carried hunks l m))"
    using cov by (intro bex_cong conj_cong refl) simp
  finally show ?thesis by (auto simp: authored_def list_ex_iff)
qed

section \<open>Properties\<close>

text \<open>C3. Shifting attestation entries through the hunks of a diff moves every attested line to
  exactly the place the diff puts it: a line of the new file is attested for a hash if and only if
  it is an old line, attested for that hash, that no hunk deletes. It holds for hunks in order and
  disjoint, as a diff has them, and lines whose old and new numbers are in \<open>1..=u32::MAX\<close>.\<close>

theorem attestation_entries_follow_diff:
  assumes "valid_hunks hunks" and "\<And>l. attested entries hash l \<Longrightarrow> movable hunks l"
  shows "attested (apply_hunk_shifts_to_attestation_entries entries hunks) hash m \<longleftrightarrow>
     (\<exists>l. attested entries hash l \<and> carried hunks l m)"
proof (cases "hunks = []")
  case True
  with assms(2) show ?thesis
    by (auto simp: apply_hunk_shifts_to_attestation_entries_def movable_def carried_Nil)
qed (rule attested_shift [OF assms])

definition example_hunks :: "DiffHunk list" where
  "example_hunks = [\<lparr>hk_old_start = 2, hk_old_count = 0, hk_new_start = 3, hk_new_count = 3\<rparr>,
     \<lparr>hk_old_start = 5, hk_old_count = 2, hk_new_start = 8, hk_new_count = 0\<rparr>]"

theorem attestation_entries_follow_diff_witness:
  "attested (apply_hunk_shifts_to_attestation_entries
      [\<lparr>ae_hash = ''h'', ae_line_ranges = [Range 2 9]\<rparr>] example_hunks) ''h'' 10 \<longleftrightarrow>
   (\<exists>l. attested [\<lparr>ae_hash = ''h'', ae_line_ranges = [Range 2 9]\<rparr>] ''h'' l \<and> carried example_hunks l 10)"
proof (rule attestation_entries_follow_diff)
  show "valid_hunks example_hunks" by (simp add: valid_hunks_def example_hunks_def)
  fix l assume "attested [\<lparr>ae_hash = ''h'', ae_line_ranges = [Range 2 9]\<rparr>] ''h'' l"
  then have "2 \<le> uint l" "uint l \<le> 9" by (simp_all add: attested_def word_le_def)
  then show "movable example_hunks l"
    by (simp add: movable_def example_hunks_def new_line_def word_le_def)
qed

text \<open>Shifting line attributions through the hunks of a diff gives a line of the new file
  exactly the authors (and the overridden authors) its old line had, and none to an inserted line.\<close>

lemma line_attributions_follow_diff:
  assumes "valid_hunks hunks" and "\<And>l. authored attrs author ov l \<Longrightarrow> movable hunks l"
  shows "authored (apply_hunk_shifts_to_line_attributions attrs hunks) author ov m \<longleftrightarrow>
     (\<exists>l. authored attrs author ov l \<and> carried hunks l m)"
proof (cases "hunks = []")
  case True
  with assms(2) show ?thesis
    by (auto simp: apply_hunk_shifts_to_line_attributions_def movable_def carried_Nil)
qed (rule authored_shift [OF assms])

end
