(* ===== verification/Conflict_Resolution.thy ===== *)
theory Conflict_Resolution
  imports Authorship_Log
begin

text \<open>
  Authorship of a commit that resolves a conflict (\<open>src/authorship/conflict_resolution.rs\<close>): the
  log carried over from the original commit, its lines shifted, is merged with the log of the
  resolution, which may only speak for lines the first log does not cover.
\<close>

section \<open>Operations\<close>

definition normalize_line_ranges :: "LineRange list \<Rightarrow> LineRange list" where
  "normalize_line_ranges ranges =
     LineRange_compress_lines (remdups_adj (sort (concat (map LineRange_expand ranges))))"

fun subtract_loop :: "LineRange list \<Rightarrow> LineRange list \<Rightarrow> LineRange list" where
  "subtract_loop remaining [] = remaining"
| "subtract_loop remaining (covered_range # covered) =
     (let remaining' = concat (map (\<lambda>range'. LineRange_remove range' covered_range) remaining)
      in if remaining' = [] then remaining' else subtract_loop remaining' covered)"

definition subtract_line_ranges :: "LineRange list \<Rightarrow> LineRange list \<Rightarrow> LineRange list" where
  "subtract_line_ranges ranges covered = normalize_line_ranges (subtract_loop ranges covered)"

definition collect_coverage ::
  "FileAttestation \<Rightarrow> (str \<rightharpoonup> LineRange list) \<Rightarrow> (str \<rightharpoonup> LineRange list)" where
  "collect_coverage attestation coverage =
     coverage(fa_file_path attestation \<mapsto>
       (case coverage (fa_file_path attestation) of None \<Rightarrow> [] | Some ranges \<Rightarrow> ranges) @
       concat (map ae_line_ranges (fa_entries attestation)))"

definition line_coverage_by_file :: "AuthorshipLog \<Rightarrow> (str \<rightharpoonup> LineRange list)" where
  "line_coverage_by_file log =
     (\<lambda>file. map_option normalize_line_ranges
        (fold collect_coverage (al_attestations log) Map.empty file))"

definition attestation_metadata_key :: "str \<Rightarrow> str" where
  "attestation_metadata_key hash =
     (case split_once ''::'' hash of None \<Rightarrow> hash | Some (key, _) \<Rightarrow> key)"

definition log_keys :: "AuthorshipLog \<Rightarrow> str list" where
  "log_keys log =
     map (\<lambda>entry. attestation_metadata_key (ae_hash entry)) (concat (map fa_entries (al_attestations log)))"

definition retain_referenced_metadata :: "AuthorshipLog \<Rightarrow> AuthorshipLog" where
  "retain_referenced_metadata log =
     (let keys = log_keys log;
          human_keys = filter (\<lambda>key. starts_with key ''h_'') keys;
          session_keys = filter (\<lambda>key. \<not> starts_with key ''h_'' \<and> starts_with key ''s_'') keys;
          prompt_keys = filter (\<lambda>key. \<not> starts_with key ''h_'' \<and> \<not> starts_with key ''s_'') keys;
          metadata = al_metadata log
      in log\<lparr>al_metadata := metadata\<lparr>
           md_prompts := md_prompts metadata |` set prompt_keys,
           md_humans := md_humans metadata |` set human_keys,
           md_sessions := md_sessions metadata |` set session_keys\<rparr>\<rparr>)"

definition uncovered_entries ::
  "(str \<rightharpoonup> LineRange list) \<Rightarrow> FileAttestation \<Rightarrow> FileAttestation" where
  "uncovered_entries shifted_coverage attestation =
     (let covered = (case shifted_coverage (fa_file_path attestation) of None \<Rightarrow> [] | Some rs \<Rightarrow> rs)
      in attestation\<lparr>fa_entries :=
           filter (\<lambda>entry. ae_line_ranges entry \<noteq> [])
             (map (\<lambda>entry. entry\<lparr>ae_line_ranges := subtract_line_ranges (ae_line_ranges entry) covered\<rparr>)
               (fa_entries attestation))\<rparr>)"

definition filter_resolution_log_to_uncovered_lines ::
  "AuthorshipLog \<Rightarrow> AuthorshipLog \<Rightarrow> AuthorshipLog" where
  "filter_resolution_log_to_uncovered_lines resolution_log shifted_log =
     (let shifted_coverage = line_coverage_by_file shifted_log
      in retain_referenced_metadata (resolution_log\<lparr>al_attestations :=
           filter (\<lambda>attestation. fa_entries attestation \<noteq> [])
             (map (uncovered_entries shifted_coverage) (al_attestations resolution_log))\<rparr>))"

definition merge_entry :: "AttestationEntry \<Rightarrow> AttestationEntry list \<Rightarrow> AttestationEntry list" where
  "merge_entry source_entry entries =
     (if list_ex (\<lambda>entry. ae_hash entry = ae_hash source_entry) entries
      then update_first (\<lambda>entry. ae_hash entry = ae_hash source_entry)
             (\<lambda>target_entry. target_entry\<lparr>ae_line_ranges :=
                normalize_line_ranges (ae_line_ranges target_entry @ ae_line_ranges source_entry)\<rparr>)
             entries
      else entries @ [source_entry\<lparr>ae_line_ranges := normalize_line_ranges (ae_line_ranges source_entry)\<rparr>])"

definition merge_attestation :: "FileAttestation \<Rightarrow> FileAttestation list \<Rightarrow> FileAttestation list" where
  "merge_attestation source_attestation attestations =
     get_or_create_file (fa_file_path source_attestation)
       (\<lambda>target. target\<lparr>fa_entries := fold merge_entry (fa_entries source_attestation) (fa_entries target)\<rparr>)
       attestations"

definition merge_file_attestations :: "AuthorshipLog \<Rightarrow> AuthorshipLog \<Rightarrow> AuthorshipLog" where
  "merge_file_attestations target source =
     target\<lparr>al_attestations := fold merge_attestation (al_attestations source) (al_attestations target)\<rparr>"

definition merge_sessions ::
  "(str \<rightharpoonup> SessionRecord) \<Rightarrow> (str \<rightharpoonup> SessionRecord) \<Rightarrow> (str \<rightharpoonup> SessionRecord)" where
  "merge_sessions target source =
     (\<lambda>key. case (target key, source key) of
        (Some existing, Some record) \<Rightarrow> Some (merge_from existing record)
      | (Some existing, None) \<Rightarrow> Some existing
      | (None, record) \<Rightarrow> record)"

definition merge_authorship_metadata :: "AuthorshipLog \<Rightarrow> AuthorshipLog \<Rightarrow> AuthorshipLog" where
  "merge_authorship_metadata target source =
     (let t = al_metadata target; s = al_metadata source
      in target\<lparr>al_metadata := t\<lparr>
           md_prompts := md_prompts s ++ md_prompts t,
           md_humans := md_humans s ++ md_humans t,
           md_sessions := merge_sessions (md_sessions t) (md_sessions s)\<rparr>\<rparr>)"

definition merge_conflict_resolution_authorship ::
  "str \<Rightarrow> AuthorshipLog option \<Rightarrow> AuthorshipLog \<Rightarrow> str \<Rightarrow> AuthorshipLog" where
  "merge_conflict_resolution_authorship git_ai_version existing_shifted_log resolution_log commit_sha =
     (let merged = (case existing_shifted_log of None \<Rightarrow> AuthorshipLog_new git_ai_version | Some log \<Rightarrow> log);
          resolution_log' = filter_resolution_log_to_uncovered_lines resolution_log merged;
          merged' = merge_authorship_metadata (merge_file_attestations merged resolution_log') resolution_log'
      in merged'\<lparr>al_metadata := (al_metadata merged')\<lparr>md_base_commit_sha := commit_sha\<rparr>\<rparr>)"

section \<open>Lemmas: ranges\<close>

lemma covers_normalize [range_specs]: "covers (normalize_line_ranges rs) l \<longleftrightarrow> covers rs l"
  by (simp add: normalize_line_ranges_def covers_def lr.normalize_law)

lemma subtract_loop_fold:
  "subtract_loop rs ts = fold (\<lambda>t rs. concat (map (\<lambda>r. LineRange_remove r t) rs)) ts rs"
proof (induction ts arbitrary: rs)
  case (Cons t ts)
  have "fold (\<lambda>t rs. concat (map (\<lambda>r. LineRange_remove r t) rs)) ts [] = []" by (induction ts) simp_all
  with Cons.IH show ?case
    by (cases "concat (map (\<lambda>r. LineRange_remove r t) rs) = []") (simp_all del: concat_eq_Nil_conv)
qed simp

lemma covers_subtract [range_specs]:
  "covers (subtract_line_ranges rs ts) l \<longleftrightarrow> covers rs l \<and> \<not> covers ts l"
  unfolding subtract_line_ranges_def covers_normalize subtract_loop_fold
  unfolding covers_def by (rule lr.subtract_law)

section \<open>Lemmas: attestations\<close>

text \<open>The lines of a file that a log attests for a hash.\<close>

definition log_attested :: "FileAttestation list \<Rightarrow> str \<Rightarrow> str \<Rightarrow> u32 \<Rightarrow> bool" where
  "log_attested atts file hash l =
     list_ex (\<lambda>a. fa_file_path a = file \<and> attested (fa_entries a) hash l) atts"

definition line_covered :: "FileAttestation list \<Rightarrow> str \<Rightarrow> u32 \<Rightarrow> bool" where
  "line_covered atts file l =
     list_ex (\<lambda>a. fa_file_path a = file \<and> list_ex (\<lambda>e. covers (ae_line_ranges e) l) (fa_entries a)) atts"

lemma attested_simps [simp]:
  "\<not> attested [] h l"
  "attested (e # es) h l \<longleftrightarrow> ae_hash e = h \<and> covers (ae_line_ranges e) l \<or> attested es h l"
  "attested (es @ fs) h l \<longleftrightarrow> attested es h l \<or> attested fs h l"
  by (simp_all add: attested_def)

lemma log_attested_simps [simp]:
  "\<not> log_attested [] f h l"
  "log_attested (a # as) f h l \<longleftrightarrow> fa_file_path a = f \<and> attested (fa_entries a) h l \<or> log_attested as f h l"
  "log_attested (as @ bs) f h l \<longleftrightarrow> log_attested as f h l \<or> log_attested bs f h l"
  by (simp_all add: log_attested_def)

lemma line_covered_iff: "line_covered atts file l \<longleftrightarrow> (\<exists>h. log_attested atts file h l)"
  by (auto simp: line_covered_def log_attested_def attested_def list_ex_iff)

lemma collect_coverage_fold:
  "covers (case fold collect_coverage atts m file of None \<Rightarrow> [] | Some rs \<Rightarrow> rs) l \<longleftrightarrow>
     covers (case m file of None \<Rightarrow> [] | Some rs \<Rightarrow> rs) l \<or> line_covered atts file l"
proof (induction atts arbitrary: m)
  case (Cons a atts)
  have "covers (concat (map ae_line_ranges es)) l \<longleftrightarrow> list_ex (\<lambda>e. covers (ae_line_ranges e) l) es" for es
    by (induction es) auto
  with Cons.IH show ?case by (auto simp: collect_coverage_def line_covered_def)
qed (simp add: line_covered_def)

lemma line_coverage_by_file_spec:
  "covers (case line_coverage_by_file log file of None \<Rightarrow> [] | Some rs \<Rightarrow> rs) l \<longleftrightarrow>
     line_covered (al_attestations log) file l"
  using collect_coverage_fold [of "al_attestations log" Map.empty "file" l]
  by (cases "fold collect_coverage (al_attestations log) Map.empty file")
    (simp_all add: line_coverage_by_file_def covers_normalize)

lemma attested_uncovered:
  "attested (fa_entries (uncovered_entries coverage a)) h l \<longleftrightarrow>
     attested (fa_entries a) h l \<and>
     \<not> covers (case coverage (fa_file_path a) of None \<Rightarrow> [] | Some rs \<Rightarrow> rs) l"
proof -
  let ?c = "case coverage (fa_file_path a) of None \<Rightarrow> [] | Some rs \<Rightarrow> rs"
  have "attested (filter (\<lambda>e. ae_line_ranges e \<noteq> [])
      (map (\<lambda>e. e\<lparr>ae_line_ranges := subtract_line_ranges (ae_line_ranges e) ?c\<rparr>) es)) h l \<longleftrightarrow>
      attested es h l \<and> \<not> covers ?c l" for es
  proof (induction es)
    case (Cons e es)
    have "subtract_line_ranges (ae_line_ranges e) ?c = [] \<Longrightarrow> \<not> (covers (ae_line_ranges e) l \<and> \<not> covers ?c l)"
      using covers_subtract [of "ae_line_ranges e" ?c l] by simp
    with Cons show ?case by (auto simp: covers_subtract)
  qed simp
  then show ?thesis by (simp add: uncovered_entries_def)
qed

lemma uncovered_entries_path [simp]: "fa_file_path (uncovered_entries c a) = fa_file_path a"
  by (simp add: uncovered_entries_def)

lemma retain_metadata_attestations [simp]:
  "al_attestations (retain_referenced_metadata log) = al_attestations log"
  by (simp add: retain_referenced_metadata_def Let_def)

lemma log_attested_filtered:
  "log_attested (al_attestations (filter_resolution_log_to_uncovered_lines res shifted)) f h l \<longleftrightarrow>
     log_attested (al_attestations res) f h l \<and> \<not> line_covered (al_attestations shifted) f l"
proof -
  have "log_attested (filter (\<lambda>a. fa_entries a \<noteq> [])
      (map (uncovered_entries (line_coverage_by_file shifted)) atts)) f h l \<longleftrightarrow>
      log_attested atts f h l \<and> \<not> line_covered (al_attestations shifted) f l" for atts
  proof (induction atts)
    case (Cons a atts)
    let ?a = "uncovered_entries (line_coverage_by_file shifted) a"
    have "attested (fa_entries ?a) h l \<longleftrightarrow>
        attested (fa_entries a) h l \<and> \<not> line_covered (al_attestations shifted) (fa_file_path a) l"
      by (simp add: attested_uncovered line_coverage_by_file_spec)
    with Cons show ?case by (cases "fa_entries ?a = []") auto
  qed simp
  then show ?thesis by (simp add: filter_resolution_log_to_uncovered_lines_def Let_def)
qed

lemma attested_merge_entry:
  "attested (merge_entry e es) h l \<longleftrightarrow> attested es h l \<or> ae_hash e = h \<and> covers (ae_line_ranges e) l"
proof (cases "list_ex (\<lambda>x. ae_hash x = ae_hash e) es")
  case True
  then have "attested (update_first (\<lambda>x. ae_hash x = ae_hash e)
      (\<lambda>x. x\<lparr>ae_line_ranges := normalize_line_ranges (ae_line_ranges x @ ae_line_ranges e)\<rparr>) es) h l \<longleftrightarrow>
      attested es h l \<or> ae_hash e = h \<and> covers (ae_line_ranges e) l"
    by (induction es) (auto simp: covers_normalize)
  with True show ?thesis by (simp add: merge_entry_def)
qed (simp add: merge_entry_def covers_normalize)

lemma attested_merge_entries:
  "attested (fold merge_entry es fs) h l \<longleftrightarrow> attested fs h l \<or> attested es h l"
  by (induction es arbitrary: fs) (auto simp: attested_merge_entry)

lemma log_attested_update_first:
  assumes "\<And>a. fa_file_path (f a) = fa_file_path a"
    and "\<And>a. attested (fa_entries (f a)) h l \<longleftrightarrow> attested (fa_entries a) h l \<or> X"
    and "list_ex (\<lambda>a. fa_file_path a = p) atts"
  shows "log_attested (update_first (\<lambda>a. fa_file_path a = p) f atts) file h l \<longleftrightarrow>
     log_attested atts file h l \<or> file = p \<and> X"
  using assms(3) by (induction atts) (auto simp: assms(1,2))

lemma log_attested_merge:
  "log_attested (merge_attestation a atts) file h l \<longleftrightarrow>
     log_attested atts file h l \<or> file = fa_file_path a \<and> attested (fa_entries a) h l"
proof -
  let ?f = "\<lambda>t. t\<lparr>fa_entries := fold merge_entry (fa_entries a) (fa_entries t)\<rparr>"
  let ?atts = "if list_ex (\<lambda>x. fa_file_path x = fa_file_path a) atts then atts
     else atts @ [FileAttestation_new (fa_file_path a)]"
  have "log_attested (update_first (\<lambda>x. fa_file_path x = fa_file_path a) ?f ?atts) file h l \<longleftrightarrow>
      log_attested ?atts file h l \<or> file = fa_file_path a \<and> attested (fa_entries a) h l"
    by (rule log_attested_update_first) (simp_all add: attested_merge_entries FileAttestation_new_def)
  also have "log_attested ?atts file h l \<longleftrightarrow> log_attested atts file h l"
    by (simp add: FileAttestation_new_def)
  finally show ?thesis by (simp add: merge_attestation_def get_or_create_file_def)
qed

lemma log_attested_merge_all:
  "log_attested (fold merge_attestation bs atts) file h l \<longleftrightarrow>
     log_attested atts file h l \<or> log_attested bs file h l"
  by (induction bs arbitrary: atts) (auto simp: log_attested_merge)

section \<open>Lemmas: metadata\<close>

text \<open>A log is closed when the metadata has a record for the key of every entry.\<close>

definition key_known :: "AuthorshipMetadata \<Rightarrow> str \<Rightarrow> bool" where
  "key_known md key \<longleftrightarrow>
     (if starts_with key ''h_'' then md_humans md key \<noteq> None
      else if starts_with key ''s_'' then md_sessions md key \<noteq> None
      else md_prompts md key \<noteq> None)"

definition metadata_closed :: "AuthorshipLog \<Rightarrow> bool" where
  "metadata_closed log = list_all (key_known (al_metadata log)) (log_keys log)"

definition has_hash :: "AttestationEntry list \<Rightarrow> str \<Rightarrow> bool" where
  "has_hash es h = list_ex (\<lambda>e. ae_hash e = h) es"

definition log_has_hash :: "FileAttestation list \<Rightarrow> str \<Rightarrow> bool" where
  "log_has_hash atts h = list_ex (\<lambda>a. has_hash (fa_entries a) h) atts"

lemma has_hash_simps [simp]:
  "\<not> has_hash [] h" "has_hash (e # es) h \<longleftrightarrow> ae_hash e = h \<or> has_hash es h"
  "has_hash (es @ fs) h \<longleftrightarrow> has_hash es h \<or> has_hash fs h"
  by (simp_all add: has_hash_def)

lemma log_has_hash_simps [simp]:
  "\<not> log_has_hash [] h" "log_has_hash (a # as) h \<longleftrightarrow> has_hash (fa_entries a) h \<or> log_has_hash as h"
  "log_has_hash (as @ bs) h \<longleftrightarrow> log_has_hash as h \<or> log_has_hash bs h"
  by (simp_all add: log_has_hash_def)

lemma metadata_closed_iff:
  "metadata_closed log \<longleftrightarrow>
     (\<forall>h. log_has_hash (al_attestations log) h \<longrightarrow>
        key_known (al_metadata log) (attestation_metadata_key h))"
  by (auto simp: metadata_closed_def log_keys_def list_all_iff log_has_hash_def has_hash_def list_ex_iff)

lemma has_hash_merge_entry: "has_hash (merge_entry e es) h \<longleftrightarrow> has_hash es h \<or> ae_hash e = h"
proof (cases "list_ex (\<lambda>x. ae_hash x = ae_hash e) es")
  case True
  then have "has_hash (update_first (\<lambda>x. ae_hash x = ae_hash e)
      (\<lambda>x. x\<lparr>ae_line_ranges := normalize_line_ranges (ae_line_ranges x @ ae_line_ranges e)\<rparr>) es) h \<longleftrightarrow>
      has_hash es h \<or> ae_hash e = h"
    by (induction es) auto
  with True show ?thesis by (simp add: merge_entry_def)
qed (simp add: merge_entry_def)

lemma has_hash_merge_entries: "has_hash (fold merge_entry es fs) h \<longleftrightarrow> has_hash fs h \<or> has_hash es h"
  by (induction es arbitrary: fs) (auto simp: has_hash_merge_entry)

lemma log_has_hash_update_first:
  assumes "\<And>a. has_hash (fa_entries (f a)) h \<Longrightarrow> has_hash (fa_entries a) h \<or> X"
  shows "log_has_hash (update_first P f atts) h \<Longrightarrow> log_has_hash atts h \<or> X"
  by (induction atts) (auto dest: assms split: if_splits)

lemma log_has_hash_merge:
  assumes "log_has_hash (merge_attestation a atts) h"
  shows "log_has_hash atts h \<or> has_hash (fa_entries a) h"
proof -
  let ?f = "\<lambda>t. t\<lparr>fa_entries := fold merge_entry (fa_entries a) (fa_entries t)\<rparr>"
  let ?atts = "if list_ex (\<lambda>x. fa_file_path x = fa_file_path a) atts then atts
     else atts @ [FileAttestation_new (fa_file_path a)]"
  have "log_has_hash (update_first (\<lambda>x. fa_file_path x = fa_file_path a) ?f ?atts) h"
    using assms by (simp only: merge_attestation_def get_or_create_file_def Let_def)
  then have "log_has_hash ?atts h \<or> has_hash (fa_entries a) h"
    by (rule log_has_hash_update_first [rotated]) (simp add: has_hash_merge_entries)
  then show ?thesis by (simp add: FileAttestation_new_def split: if_splits)
qed

lemma log_has_hash_merge_all:
  "log_has_hash (fold merge_attestation bs atts) h \<Longrightarrow> log_has_hash atts h \<or> log_has_hash bs h"
  by (induction bs arbitrary: atts) (auto dest: log_has_hash_merge)

lemma has_hash_uncovered: "has_hash (fa_entries (uncovered_entries c a)) h \<Longrightarrow> has_hash (fa_entries a) h"
  by (auto simp: uncovered_entries_def Let_def has_hash_def list_ex_iff)

lemma log_has_hash_uncovered:
  "log_has_hash (filter P (map (uncovered_entries c) atts)) h \<Longrightarrow> log_has_hash atts h"
  by (induction atts) (auto dest: has_hash_uncovered split: if_splits)

lemma key_known_retain:
  "key \<in> set (log_keys log) \<Longrightarrow>
     key_known (al_metadata (retain_referenced_metadata log)) key = key_known (al_metadata log) key"
  by (simp add: key_known_def retain_referenced_metadata_def Let_def)

lemma metadata_closed_retain: "metadata_closed log \<Longrightarrow> metadata_closed (retain_referenced_metadata log)"
proof -
  have "log_keys (retain_referenced_metadata log) = log_keys log" by (simp add: log_keys_def)
  then show "metadata_closed log \<Longrightarrow> metadata_closed (retain_referenced_metadata log)"
    by (simp add: metadata_closed_def list_all_iff key_known_retain)
qed

lemma metadata_closed_filtered:
  assumes "metadata_closed res"
  shows "metadata_closed (filter_resolution_log_to_uncovered_lines res shifted)"
  unfolding filter_resolution_log_to_uncovered_lines_def Let_def
proof (rule metadata_closed_retain)
  let ?atts = "filter (\<lambda>a. fa_entries a \<noteq> [])
    (map (uncovered_entries (line_coverage_by_file shifted)) (al_attestations res))"
  show "metadata_closed (res\<lparr>al_attestations := ?atts\<rparr>)"
    unfolding metadata_closed_iff
  proof (intro allI impI)
    fix h assume "log_has_hash (al_attestations (res\<lparr>al_attestations := ?atts\<rparr>)) h"
    then have "log_has_hash ?atts h" by simp
    then have "log_has_hash (al_attestations res) h" by (rule log_has_hash_uncovered)
    with assms show "key_known (al_metadata (res\<lparr>al_attestations := ?atts\<rparr>)) (attestation_metadata_key h)"
      by (simp add: metadata_closed_iff)
  qed
qed

lemma key_known_merge:
  assumes "key_known (al_metadata target) key \<or> key_known (al_metadata source) key"
  shows "key_known (al_metadata (merge_authorship_metadata target source)) key"
  using assms
  by (auto simp: key_known_def merge_authorship_metadata_def merge_sessions_def Let_def
      split: if_splits option.splits)

lemma merge_conflict_fields:
  fixes shifted version
  defines "base \<equiv> (case shifted of None \<Rightarrow> AuthorshipLog_new version | Some log \<Rightarrow> log)"
  shows "al_attestations (merge_conflict_resolution_authorship version shifted res sha) =
      fold merge_attestation (al_attestations (filter_resolution_log_to_uncovered_lines res base))
        (al_attestations base)"
    and "al_metadata (merge_conflict_resolution_authorship version shifted res sha) =
      (al_metadata (merge_authorship_metadata base (filter_resolution_log_to_uncovered_lines res base)))
        \<lparr>md_base_commit_sha := sha\<rparr>"
  by (simp_all add: merge_conflict_resolution_authorship_def merge_file_attestations_def base_def
      merge_authorship_metadata_def Let_def)

section \<open>Properties\<close>

text \<open>C2. Merging the authorship of a conflict resolution into the shifted log of the original
  commit attests exactly what it should: a line of a file is attested for a hash in the merged log
  if and only if the shifted log attests it, or the resolution attests it and the shifted log attests
  the line for nobody. The resolution never takes a line over, and loses none that is free.\<close>

theorem conflict_resolution_fills_uncovered:
  "log_attested (al_attestations (merge_conflict_resolution_authorship version shifted res sha)) f h l \<longleftrightarrow>
     log_attested (case shifted of None \<Rightarrow> [] | Some log \<Rightarrow> al_attestations log) f h l \<or>
     log_attested (al_attestations res) f h l \<and>
     \<not> line_covered (case shifted of None \<Rightarrow> [] | Some log \<Rightarrow> al_attestations log) f l"
  by (cases shifted)
    (simp_all add: merge_conflict_fields log_attested_merge_all log_attested_filtered AuthorshipLog_new_def)

text \<open>C32. The merge keeps the log closed: when every entry of the two logs has its record (a
  human, a session or a prompt) in its own metadata, every entry of the merged log has its record in
  the merged metadata, and the merged log is based on the new commit.\<close>

theorem conflict_resolution_keeps_metadata:
  assumes "pred_option metadata_closed shifted" and "metadata_closed res"
  shows "metadata_closed (merge_conflict_resolution_authorship version shifted res sha) \<and>
     md_base_commit_sha (al_metadata (merge_conflict_resolution_authorship version shifted res sha)) = sha"
proof -
  let ?base = "case shifted of None \<Rightarrow> AuthorshipLog_new version | Some log \<Rightarrow> log"
  let ?res = "filter_resolution_log_to_uncovered_lines res ?base"
  have base: "metadata_closed ?base"
    using assms(1) by (cases shifted) (simp_all add: metadata_closed_def log_keys_def AuthorshipLog_new_def)
  have res: "metadata_closed ?res" using assms(2) by (rule metadata_closed_filtered)
  have "key_known (al_metadata (merge_authorship_metadata ?base ?res)) (attestation_metadata_key h)"
    if "log_has_hash (fold merge_attestation (al_attestations ?res) (al_attestations ?base)) h" for h
  proof (rule key_known_merge)
    from that have "log_has_hash (al_attestations ?base) h \<or> log_has_hash (al_attestations ?res) h"
      by (rule log_has_hash_merge_all)
    then show "key_known (al_metadata ?base) (attestation_metadata_key h) \<or>
        key_known (al_metadata ?res) (attestation_metadata_key h)"
      using base res unfolding metadata_closed_iff by blast
  qed
  then show ?thesis
    unfolding metadata_closed_iff merge_conflict_fields by (simp add: key_known_def)
qed

definition example_resolution :: AuthorshipLog where
  "example_resolution = \<lparr>al_attestations =
       [\<lparr>fa_file_path = ''a.rs'', fa_entries = [\<lparr>ae_hash = ''h_9'', ae_line_ranges = [Range 1 4]\<rparr>]\<rparr>],
     al_metadata = (AuthorshipMetadata_new ''1'')\<lparr>md_humans := [''h_9'' \<mapsto> \<lparr>hr_author = ''Ann''\<rparr>]\<rparr>\<rparr>"

theorem conflict_resolution_keeps_metadata_witness:
  "metadata_closed (merge_conflict_resolution_authorship ''1'' (Some example_resolution) example_resolution ''c1'') \<and>
   md_base_commit_sha (al_metadata
     (merge_conflict_resolution_authorship ''1'' (Some example_resolution) example_resolution ''c1'')) = ''c1''"
proof -
  have "metadata_closed example_resolution"
    by (simp add: metadata_closed_def log_keys_def example_resolution_def key_known_def
        attestation_metadata_key_def starts_with_def)
  then show ?thesis by (intro conflict_resolution_keeps_metadata) simp_all
qed

end
