(* ===== verification/Diff_Utils.thy ===== *)
theory Diff_Utils
  imports Rust_Str
begin

text \<open>
  Diffs (\<open>src/authorship/imara_diff_utils.rs\<close>): the operations a diff is made of, their
  construction from the hunks of the crate \<open>imara_diff\<close>, the line changes of two texts, and the
  comparison of texts up to line endings.

  The diff algorithm is the crate's and a parameter of the model: a function from two sequences to
  the hunks where they differ. What the program relies on is \<open>valid_diff\<close>: the hunks are in order,
  and the sequences agree, element by element, outside them.
\<close>

section \<open>Diff operations\<close>

datatype ByteDiffOp = BEqual | BDelete | BInsert

record ByteDiff =
  bd_op :: ByteDiffOp
  bd_data :: str

definition ByteDiff_new :: "ByteDiffOp \<Rightarrow> str \<Rightarrow> ByteDiff" where
  "ByteDiff_new op data = \<lparr>bd_op = op, bd_data = data\<rparr>"

text \<open>\<open>Equal old_index new_index len\<close>, \<open>Delete old_index old_len new_index\<close>,
  \<open>Insert old_index new_index new_len\<close>, \<open>Replace old_index old_len new_index new_len\<close>.\<close>

datatype DiffOp =
    Equal nat nat nat
  | Delete nat nat nat
  | Insert nat nat nat
  | Replace nat nat nat nat

text \<open>A hunk of \<open>imara_diff\<close>: the half-open ranges \<open>before\<close> and \<open>after\<close>.\<close>

record Hunk =
  before_start :: nat
  before_end :: nat
  after_start :: nat
  after_end :: nat

definition hunk_op :: "Hunk \<Rightarrow> DiffOp list" where
  "hunk_op hunk =
     (let old_hunk_len = before_end hunk - before_start hunk;
          new_hunk_len = after_end hunk - after_start hunk
      in if 0 < old_hunk_len \<and> 0 < new_hunk_len
         then [Replace (before_start hunk) old_hunk_len (after_start hunk) new_hunk_len]
         else if 0 < old_hunk_len then [Delete (before_start hunk) old_hunk_len (after_start hunk)]
         else if 0 < new_hunk_len then [Insert (before_start hunk) (after_start hunk) new_hunk_len]
         else [])"

fun diff_ops_loop :: "nat \<Rightarrow> nat \<Rightarrow> nat \<Rightarrow> Hunk list \<Rightarrow> DiffOp list" where
  "diff_ops_loop old_len old_idx new_idx [] =
     (if old_idx < old_len then [Equal old_idx new_idx (old_len - old_idx)] else [])"
| "diff_ops_loop old_len old_idx new_idx (hunk # hunks) =
     (if old_idx < before_start hunk
      then [Equal old_idx new_idx (before_start hunk - old_idx)] else []) @
     hunk_op hunk @
     diff_ops_loop old_len (before_end hunk) (after_end hunk) hunks"

definition hunks_to_diff_ops :: "Hunk list \<Rightarrow> nat \<Rightarrow> DiffOp list" where
  "hunks_to_diff_ops hunks old_len = diff_ops_loop old_len 0 0 hunks"

type_synonym 'a differ = "'a list \<Rightarrow> 'a list \<Rightarrow> Hunk list"

definition capture_diff_slices :: "'a differ \<Rightarrow> 'a list \<Rightarrow> 'a list \<Rightarrow> DiffOp list" where
  "capture_diff_slices diff old new = hunks_to_diff_ops (diff old new) (length old)"

section \<open>Line endings\<close>

fun replace_crlf :: "str \<Rightarrow> str" where
  "replace_crlf [] = []"
| "replace_crlf [c] = [c]"
| "replace_crlf (c # d # s) =
     (if c = carriage_return \<and> d = newline then newline # replace_crlf s
      else c # replace_crlf (d # s))"

fun contains_crlf :: "str \<Rightarrow> bool" where
  "contains_crlf [] = False"
| "contains_crlf [c] = False"
| "contains_crlf (c # d # s) = (c = carriage_return \<and> d = newline \<or> contains_crlf (d # s))"

definition normalize_line_endings :: "str \<Rightarrow> str" where
  "normalize_line_endings s = (if \<not> contains_crlf s then s else replace_crlf s)"

definition next_normalized_byte :: "str \<Rightarrow> nat \<Rightarrow> char option \<times> nat" where
  "next_normalized_byte bytes index =
     (if index < length bytes
      then let byte = bytes ! index; index' = index + 1
           in if byte = carriage_return \<and> index' < length bytes \<and> bytes ! index' = newline
              then (Some newline, index' + 1) else (Some byte, index')
      else (None, index))"

lemma next_normalized_byte_advances:
  "next_normalized_byte bytes index = (Some c, index') \<Longrightarrow> index < length bytes \<and> index < index'"
  by (auto simp: next_normalized_byte_def Let_def split: if_splits)

function content_eq_loop :: "str \<Rightarrow> str \<Rightarrow> nat \<Rightarrow> nat \<Rightarrow> bool" where
  "content_eq_loop a b a_index b_index =
     (case (next_normalized_byte a a_index, next_normalized_byte b b_index) of
        ((Some a_byte, a_index'), (Some b_byte, b_index')) \<Rightarrow>
          (if a_byte = b_byte then content_eq_loop a b a_index' b_index' else False)
      | ((None, _), (None, _)) \<Rightarrow> True
      | _ \<Rightarrow> False)"
  by pat_completeness auto
termination
  by (relation "measure (\<lambda>(a, b, a_index, b_index). length a - a_index)")
    (auto dest!: next_normalized_byte_advances [OF sym])

definition content_eq_ignoring_line_endings :: "str \<Rightarrow> str \<Rightarrow> bool" where
  "content_eq_ignoring_line_endings a b = (a = b \<or> content_eq_loop a b 0 0)"

section \<open>Lines and line changes\<close>

text \<open>\<open>slice s i j\<close> is \<open>&s[i..j]\<close>. A newline is one byte and never part of another character's
  encoding, so scanning bytes finds the same positions as scanning characters.\<close>

definition slice :: "'a list \<Rightarrow> nat \<Rightarrow> nat \<Rightarrow> 'a list" where
  "slice s i j = take (j - i) (drop i s)"

fun terminated_loop :: "str \<Rightarrow> nat \<Rightarrow> nat \<Rightarrow> str \<Rightarrow> str list" where
  "terminated_loop s start idx [] = (if start < length s then [drop start s] else [])"
| "terminated_loop s start idx (ch # rest) =
     (if ch = newline then slice s start (idx + 1) # terminated_loop s (idx + 1) (idx + 1) rest
      else terminated_loop s start (idx + 1) rest)"

definition split_lines_with_terminators :: "str \<Rightarrow> str list" where
  "split_lines_with_terminators s = terminated_loop s 0 0 s"

datatype LineChangeTag = LInsert | LDelete | LEqual

record LineChange =
  lc_tag :: LineChangeTag
  lc_value :: str

text \<open>The loops of \<open>compute_line_changes\<close> push the line at an index when there is one.\<close>

definition tagged :: "LineChangeTag \<Rightarrow> str list \<Rightarrow> nat \<Rightarrow> nat \<Rightarrow> LineChange list" where
  "tagged tag lines i j = map (\<lambda>line. \<lparr>lc_tag = tag, lc_value = line\<rparr>) (slice lines i j)"

fun line_changes_loop :: "str list \<Rightarrow> str list \<Rightarrow> nat \<Rightarrow> nat \<Rightarrow> Hunk list \<Rightarrow> LineChange list" where
  "line_changes_loop old_lines new_lines old_idx new_idx [] =
     tagged LEqual new_lines new_idx (length new_lines)"
| "line_changes_loop old_lines new_lines old_idx new_idx (hunk # hunks) =
     tagged LEqual new_lines new_idx
       (new_idx + min (before_start hunk - old_idx) (after_start hunk - new_idx)) @
     tagged LDelete old_lines (before_start hunk) (before_end hunk) @
     tagged LInsert new_lines (after_start hunk) (after_end hunk) @
     line_changes_loop old_lines new_lines (before_end hunk) (after_end hunk) hunks"

text \<open>The crate diffs the two normalised texts line by line; \<open>line_diff\<close> is that call, with its
  post-processing.\<close>

definition compute_line_changes :: "(str \<Rightarrow> str \<Rightarrow> Hunk list) \<Rightarrow> str \<Rightarrow> str \<Rightarrow> LineChange list" where
  "compute_line_changes line_diff old new =
     line_changes_loop (split_lines_with_terminators old) (split_lines_with_terminators new) 0 0
       (line_diff (normalize_line_endings old) (normalize_line_endings new))"

section \<open>Specification: what a diff is\<close>

fun diff_from :: "'a list \<Rightarrow> 'a list \<Rightarrow> nat \<Rightarrow> nat \<Rightarrow> Hunk list \<Rightarrow> bool" where
  "diff_from old new i j [] = (i \<le> length old \<and> j \<le> length new \<and> drop i old = drop j new)"
| "diff_from old new i j (h # hs) =
     (i \<le> before_start h \<and> before_start h \<le> before_end h \<and> before_end h \<le> length old \<and>
      j \<le> after_start h \<and> after_start h \<le> after_end h \<and> after_end h \<le> length new \<and>
      slice old i (before_start h) = slice new j (after_start h) \<and>
      diff_from old new (before_end h) (after_end h) hs)"

definition valid_diff :: "'a list \<Rightarrow> 'a list \<Rightarrow> Hunk list \<Rightarrow> bool" where
  "valid_diff old new hunks = diff_from old new 0 0 hunks"

text \<open>Operations that walk through both sequences from \<open>i\<close> and \<open>j\<close> to their ends, without a gap,
  an overlap or an empty step, equal where they say so.\<close>

fun tiles :: "'a list \<Rightarrow> 'a list \<Rightarrow> nat \<Rightarrow> nat \<Rightarrow> DiffOp list \<Rightarrow> bool" where
  "tiles old new i j [] = (i = length old \<and> j = length new)"
| "tiles old new i j (Equal a b n # ops) =
     (a = i \<and> b = j \<and> 0 < n \<and> i + n \<le> length old \<and> j + n \<le> length new \<and>
      slice old i (i + n) = slice new j (j + n) \<and> tiles old new (i + n) (j + n) ops)"
| "tiles old new i j (Delete a n b # ops) =
     (a = i \<and> b = j \<and> 0 < n \<and> i + n \<le> length old \<and> tiles old new (i + n) j ops)"
| "tiles old new i j (Insert a b n # ops) =
     (a = i \<and> b = j \<and> 0 < n \<and> j + n \<le> length new \<and> tiles old new i (j + n) ops)"
| "tiles old new i j (Replace a n b m # ops) =
     (a = i \<and> b = j \<and> 0 < n \<and> 0 < m \<and> i + n \<le> length old \<and> j + m \<le> length new \<and>
      tiles old new (i + n) (j + m) ops)"

text \<open>What applying the operations to the old sequence, reading only inserted elements from the
  new one, builds.\<close>

fun patch_op :: "'a list \<Rightarrow> 'a list \<Rightarrow> DiffOp \<Rightarrow> 'a list" where
  "patch_op old new (Equal a b n) = slice old a (a + n)"
| "patch_op old new (Delete a n b) = []"
| "patch_op old new (Insert a b n) = slice new b (b + n)"
| "patch_op old new (Replace a n b m) = slice new b (b + m)"

section \<open>Lemmas: slices and tilings\<close>

lemma length_slice [simp]: "length (slice xs i j) = min (j - i) (length xs - i)"
  by (simp add: slice_def)

lemma slice_same [simp]: "slice xs i i = []"
  by (simp add: slice_def)

lemma slice_append:
  assumes "i \<le> j" and "j \<le> k"
  shows "slice xs i j @ slice xs j k = slice xs i k"
proof -
  have k: "k - i = (j - i) + (k - j)" and j: "j - i + i = j" using assms by simp_all
  show ?thesis unfolding slice_def k take_add drop_drop j ..
qed

lemma slice_to_end: "slice xs i (length xs) = drop i xs"
  by (simp add: slice_def)

lemma drop_slice: "i \<le> j \<Longrightarrow> slice xs i j @ drop j xs = drop i xs"
  by (simp add: slice_def) (metis add.commute append_take_drop_id drop_drop le_add_diff_inverse2)

lemma slice_eq_length:
  "slice old i a = slice new j b \<Longrightarrow> a \<le> length old \<Longrightarrow> b \<le> length new \<Longrightarrow> i \<le> a \<Longrightarrow> j \<le> b \<Longrightarrow> a - i = b - j"
  by (drule arg_cong [where f = length]) simp

lemma diff_ops_loop_tiles [tiling_intros]:
  assumes "diff_from old new i j hs" and "i \<le> length old" and "j \<le> length new"
  shows "tiles old new i j (diff_ops_loop (length old) i j hs)"
  using assms
proof (induction hs arbitrary: i j)
  case Nil
  then have "length old - i = length new - j" by (metis diff_from.simps(1) length_drop)
  with Nil have "j + (length old - i) = length new" "i + (length old - i) = length old" by simp_all
  with Nil show ?case by (auto simp: slice_to_end)
next
  case (Cons h hs)
  let ?rest = "diff_ops_loop (length old) (before_end h) (after_end h) hs"
  from Cons.prems have b: "i \<le> before_start h" "before_start h \<le> before_end h" "before_end h \<le> length old"
    "j \<le> after_start h" "after_start h \<le> after_end h" "after_end h \<le> length new"
    and eq: "slice old i (before_start h) = slice new j (after_start h)" by simp_all
  have len: "before_start h - i = after_start h - j"
    using eq b by (intro slice_eq_length [of old i _ new j]) auto
  have rest: "tiles old new (before_end h) (after_end h) ?rest"
    using Cons by simp
  then have "tiles old new (before_start h) (after_start h) (hunk_op h @ ?rest)"
    using b by (auto simp: hunk_op_def Let_def)
  then show ?case
  proof (cases "i < before_start h")
    case True
    have "j + (before_start h - i) = after_start h" using len b by simp
    with True \<open>tiles old new (before_start h) _ _\<close> b eq show ?thesis by simp
  next
    case False
    with b have "i = before_start h" by simp
    moreover from this len b have "j = after_start h" by simp
    ultimately show ?thesis using \<open>tiles old new (before_start h) _ _\<close> by simp
  qed
qed

lemma capture_diff_slices_tiles [tiling_intros]:
  "valid_diff old new (diff old new) \<Longrightarrow> tiles old new 0 0 (capture_diff_slices diff old new)"
  unfolding capture_diff_slices_def hunks_to_diff_ops_def valid_diff_def
  by (intro tiling_intros) simp_all

lemma tiles_bounds: "tiles old new i j ops \<Longrightarrow> i \<le> length old \<and> j \<le> length new"
  by (induction old new i j ops rule: tiles.induct) auto

lemma tiles_patch: "tiles old new i j ops \<Longrightarrow> concat (map (patch_op old new) ops) = drop j new"
proof (induction old new i j ops rule: tiles.induct)
  case (2 old new i j a b n ops)
  then show ?case by (simp add: drop_slice)
next
  case (4 old new i j a b n ops)
  then show ?case by (simp add: drop_slice)
next
  case (5 old new i j a n b m ops)
  then show ?case by (simp add: drop_slice)
qed simp_all

section \<open>Lemmas: line endings\<close>

lemma replace_crlf_id: "\<not> contains_crlf s \<Longrightarrow> replace_crlf s = s"
  by (induction s rule: replace_crlf.induct) auto

lemma normalize_is_replace: "normalize_line_endings s = replace_crlf s"
  by (simp add: normalize_line_endings_def replace_crlf_id)

text \<open>One step of the comparison reads the first byte of the normalised rest.\<close>

lemma next_normalized_byte_spec:
  "(case replace_crlf (drop i s) of
      [] \<Rightarrow> fst (next_normalized_byte s i) = None
    | c # rest \<Rightarrow> \<exists>i'. next_normalized_byte s i = (Some c, i') \<and> replace_crlf (drop i' s) = rest)"
proof (cases "i < length s")
  case True
  then have d: "drop i s = s ! i # drop (Suc i) s" by (simp add: Cons_nth_drop_Suc)
  show ?thesis
  proof (cases "Suc i < length s")
    case True
    then have "drop (Suc i) s = s ! Suc i # drop (Suc (Suc i)) s" by (simp add: Cons_nth_drop_Suc)
    with d True \<open>i < length s\<close> show ?thesis by (simp add: next_normalized_byte_def Let_def)
  next
    case False
    with d \<open>i < length s\<close> show ?thesis by (simp add: next_normalized_byte_def Let_def)
  qed
qed (simp add: next_normalized_byte_def)

lemma content_eq_loop_iff:
  "content_eq_loop a b i j \<longleftrightarrow> replace_crlf (drop i a) = replace_crlf (drop j b)"
proof (induction a b i j rule: content_eq_loop.induct)
  case (1 a b i j)
  note [simp del] = content_eq_loop.simps
  show ?case
  proof (cases "replace_crlf (drop i a)")
    case Nil
    then have "fst (next_normalized_byte a i) = None" using next_normalized_byte_spec [of a i] by simp
    moreover have "fst (next_normalized_byte b j) = None \<longleftrightarrow> replace_crlf (drop j b) = []"
      using next_normalized_byte_spec [of b j] by (auto split: list.splits)
    ultimately show ?thesis using Nil
      by (subst content_eq_loop.simps) (auto split: prod.splits option.splits)
  next
    case (Cons c rest)
    then obtain i' where i': "next_normalized_byte a i = (Some c, i')" "replace_crlf (drop i' a) = rest"
      using next_normalized_byte_spec [of a i] by auto
    show ?thesis
    proof (cases "replace_crlf (drop j b)")
      case Nil
      then have "fst (next_normalized_byte b j) = None" using next_normalized_byte_spec [of b j] by simp
      with Nil Cons i' show ?thesis
        by (subst content_eq_loop.simps) (auto split: prod.splits option.splits)
    next
      case (Cons d rest')
      then obtain j' where j': "next_normalized_byte b j = (Some d, j')" "replace_crlf (drop j' b) = rest'"
        using next_normalized_byte_spec [of b j] by auto
      have "content_eq_loop a b i j \<longleftrightarrow> c = d \<and> content_eq_loop a b i' j'"
        using i' j' by (subst content_eq_loop.simps) simp
      also have "\<dots> \<longleftrightarrow> c = d \<and> rest = rest'"
        using "1.IH" [OF _ i'(1) [symmetric] refl j'(1) [symmetric] refl] i' j' by auto
      finally show ?thesis using Cons \<open>replace_crlf (drop i a) = c # rest\<close> by simp
    qed
  qed
qed

lemma content_eq_iff:
  "content_eq_ignoring_line_endings a b \<longleftrightarrow> normalize_line_endings a = normalize_line_endings b"
  by (auto simp: content_eq_ignoring_line_endings_def content_eq_loop_iff normalize_is_replace
      simp del: content_eq_loop.simps)

section \<open>Lemmas: lines\<close>

lemma split_inclusive_concat [simp]: "concat (split_inclusive s) = s"
  by (induction s) (auto split: list.splits)

lemma split_inclusive_hd: "split_inclusive (d # s) = y # ys \<Longrightarrow> \<exists>z. y = d # z"
  by (auto split: if_splits list.splits)

lemma split_inclusive_Nil_iff [simp]: "split_inclusive s = [] \<longleftrightarrow> s = []"
  by (cases s) (auto split: list.splits)

lemma split_inclusive_replace_crlf:
  "split_inclusive (replace_crlf s) = map replace_crlf (split_inclusive s)"
proof (induction s rule: replace_crlf.induct)
  case (3 c d s)
  show ?case
  proof (cases "c = carriage_return \<and> d = newline")
    case True
    with 3 show ?thesis by simp
  next
    case False
    obtain y ys where y: "split_inclusive (d # s) = y # ys"
      by (cases "split_inclusive (d # s)") (auto simp del: split_inclusive.simps)
    then obtain z where z: "y = d # z" using split_inclusive_hd by blast
    have "split_inclusive (replace_crlf (d # s)) = map replace_crlf (y # ys)"
      using 3 False y by simp
    with False y z show ?thesis
      by (cases "c = newline") (auto simp del: split_inclusive.simps simp add: split_inclusive.simps(2) [of c]
          split_inclusive.simps(2) [of newline])
  qed
qed simp_all

lemma terminated_loop_spec:
  assumes "s = pre @ line @ rest" and "newline \<notin> set line" and "start = length pre"
    and "idx = length pre + length line"
  shows "terminated_loop s start idx rest = split_inclusive (line @ rest)"
  using assms
proof (induction rest arbitrary: pre line start idx)
  case Nil
  then show ?case by (cases "line = []") (simp_all add: split_inclusive_last)
next
  case (Cons c rest)
  show ?case
  proof (cases "c = newline")
    case True
    have "terminated_loop s (idx + 1) (idx + 1) rest = split_inclusive ([] @ rest)"
      using Cons.prems True by (intro Cons.IH [of "pre @ line @ [c]"]) simp_all
    with True Cons.prems show ?thesis by (simp add: split_inclusive_line slice_def)
  next
    case False
    with Cons.prems Cons.IH [of pre "line @ [c]" start "idx + 1"] show ?thesis by simp
  qed
qed

lemma split_lines_is_split_inclusive: "split_lines_with_terminators s = split_inclusive s"
  using terminated_loop_spec [of s "[]" "[]" s 0 0] by (simp add: split_lines_with_terminators_def)

lemma values_tagged [simp]:
  "map lc_value (filter (\<lambda>c. lc_tag c \<noteq> t) (tagged t' ls i j)) = (if t' = t then [] else slice ls i j)"
  by (simp add: tagged_def filter_map comp_def)

lemma slice_map: "slice (map f xs) i j = map f (slice xs i j)"
  by (simp add: slice_def drop_map take_map)

lemma line_changes_loop_new:
  assumes "diff_from (map f old) (map f new) i j hs" and "j \<le> length new"
  shows "map lc_value (filter (\<lambda>c. lc_tag c \<noteq> LDelete) (line_changes_loop old new i j hs)) = drop j new"
  using assms
proof (induction hs arbitrary: i j)
  case (Cons h hs)
  have len: "before_start h - i = after_start h - j"
    using Cons.prems by (intro slice_eq_length [of "map f old" i _ "map f new" j]) auto
  have "slice new j (after_start h) @ slice new (after_start h) (after_end h) @ drop (after_end h) new =
      drop j new"
    using Cons.prems by (simp add: drop_slice)
  with Cons len show ?case by simp
qed (simp add: slice_to_end)

lemma line_changes_loop_old:
  assumes "diff_from (map f old) (map f new) i j hs" and "i \<le> length old"
  shows "map f (map lc_value (filter (\<lambda>c. lc_tag c \<noteq> LInsert) (line_changes_loop old new i j hs))) =
     drop i (map f old)"
  using assms
proof (induction hs arbitrary: i j)
  case Nil
  then show ?case by (simp add: slice_to_end drop_map)
next
  case (Cons h hs)
  have len: "before_start h - i = after_start h - j"
    using Cons.prems by (intro slice_eq_length [of "map f old" i _ "map f new" j]) auto
  have "slice (map f old) i (before_start h) @ slice (map f old) (before_start h) (before_end h) @
      drop (before_end h) (map f old) = drop i (map f old)"
  proof -
    have b: "before_start h \<le> before_end h" "i \<le> before_start h" using Cons.prems by simp_all
    show ?thesis by (simp only: drop_slice [OF b(1)] drop_slice [OF b(2)])
  qed
  with Cons len show ?case by (simp add: slice_map drop_map)
qed

section \<open>Properties\<close>

text \<open>C33. The operations of \<open>capture_diff_slices\<close> walk through both sequences completely: no
  element is skipped, repeated or out of range, no operation is empty, equal operations relate
  equal elements, and applying the operations to the old sequence builds the new one. It holds
  for every diff algorithm whose hunks are in order and cover the differences.\<close>

theorem capture_diff_slices_correct:
  assumes "valid_diff old new (diff old new)"
  shows "tiles old new 0 0 (capture_diff_slices diff old new) \<and>
     concat (map (patch_op old new) (capture_diff_slices diff old new)) = new"
  using capture_diff_slices_tiles [of old new diff, OF assms] tiles_patch by fastforce

text \<open>An algorithm with the contract: one hunk that replaces everything.\<close>

definition whole_diff :: "'a differ" where
  "whole_diff old new =
     (if old = new then []
      else [\<lparr>before_start = 0, before_end = length old, after_start = 0, after_end = length new\<rparr>])"

lemma whole_diff_valid: "valid_diff old new (whole_diff old new)"
  by (simp add: whole_diff_def valid_diff_def)

theorem capture_diff_slices_correct_witness:
  "tiles [1, 2, 3 :: nat] [1, 5] 0 0 (capture_diff_slices whole_diff [1, 2, 3 :: nat] [1, 5]) \<and>
   concat (map (patch_op [1, 2, 3 :: nat] [1, 5]) (capture_diff_slices whole_diff [1, 2, 3 :: nat] [1, 5])) = [1, 5]"
  by (rule capture_diff_slices_correct) (rule whole_diff_valid)

text \<open>The comparison that ignores line endings, which reads both texts byte by byte and
  allocates nothing, says exactly whether the two normalised texts are equal.\<close>

theorem content_eq_is_normalized_eq:
  "content_eq_ignoring_line_endings a b \<longleftrightarrow> normalize_line_endings a = normalize_line_endings b"
  by (rule content_eq_iff)

text \<open>The line changes of two texts account for every line of both: those not deleted are the
  lines of the new text, in order and with their own line endings; those not inserted are, up to
  CRLF, the lines of the old text, in order.\<close>

theorem compute_line_changes_accounts:
  assumes "valid_diff (split_inclusive (normalize_line_endings old)) (split_inclusive (normalize_line_endings new))
     (line_diff (normalize_line_endings old) (normalize_line_endings new))"
  shows "map lc_value (filter (\<lambda>c. lc_tag c \<noteq> LDelete) (compute_line_changes line_diff old new)) =
       split_lines_with_terminators new \<and>
     map normalize_line_endings
       (map lc_value (filter (\<lambda>c. lc_tag c \<noteq> LInsert) (compute_line_changes line_diff old new))) =
       map normalize_line_endings (split_lines_with_terminators old)"
proof -
  have n: "normalize_line_endings = replace_crlf" by (rule ext) (rule normalize_is_replace)
  let ?hs = "line_diff (normalize_line_endings old) (normalize_line_endings new)"
  have "diff_from (map replace_crlf (split_inclusive old)) (map replace_crlf (split_inclusive new)) 0 0 ?hs"
    using assms unfolding valid_diff_def n split_inclusive_replace_crlf .
  from line_changes_loop_new [OF this] line_changes_loop_old [OF this] show ?thesis
    unfolding compute_line_changes_def split_lines_is_split_inclusive n by simp
qed

theorem compute_line_changes_accounts_witness:
  "map lc_value (filter (\<lambda>c. lc_tag c \<noteq> LDelete)
      (compute_line_changes (\<lambda>a b. whole_diff (split_inclusive a) (split_inclusive b)) ''a'' ''b'')) =
     split_lines_with_terminators ''b'' \<and>
   map normalize_line_endings (map lc_value (filter (\<lambda>c. lc_tag c \<noteq> LInsert)
      (compute_line_changes (\<lambda>a b. whole_diff (split_inclusive a) (split_inclusive b)) ''a'' ''b''))) =
     map normalize_line_endings (split_lines_with_terminators ''a'')"
  by (rule compute_line_changes_accounts) (rule whole_diff_valid)

end
