(* ===== verification/Tokenizer.thy ===== *)
theory Tokenizer
  imports Diff_Utils
begin

text \<open>
  The tokenizer of changed regions (\<open>tokenize_non_whitespace\<close> in
  \<open>src/authorship/attribution_tracker.rs\<close>). A character is the list of its UTF-8 bytes; which
  characters outside ASCII are alphabetic or numeric is decided by the Unicode tables of the standard
  library, two parameters (\<open>alpha\<close>, \<open>numeric\<close>) on the encoded character. The ASCII letters and
  digits are written out.
\<close>

section \<open>Characters\<close>

text \<open>The length of a character from its first byte, and the character at a byte offset.\<close>

definition utf8_len :: "char \<Rightarrow> nat" where
  "utf8_len c =
     (let n = of_char c :: nat
      in if n < 192 then 1 else if n < 224 then 2 else if n < 240 then 3 else 4)"

definition char_at :: "str \<Rightarrow> nat \<Rightarrow> str" where
  "char_at content i = (if i < length content then take (utf8_len (content ! i)) (drop i content) else [])"

definition is_ws_char :: "str \<Rightarrow> bool" where
  "is_ws_char ch = (ch \<in> set ws_encodings)"

definition ascii_digit :: "str \<Rightarrow> bool" where
  "ascii_digit ch = (length ch = 1 \<and> is_digit (hd ch))"

definition ascii_letter :: "str \<Rightarrow> bool" where
  "ascii_letter ch \<longleftrightarrow> length ch = 1 \<and>
     (let n = of_char (hd ch) :: nat in 65 \<le> n \<and> n \<le> 90 \<or> 97 \<le> n \<and> n \<le> 122)"

definition ascii_alphanumeric :: "str \<Rightarrow> bool" where
  "ascii_alphanumeric ch \<longleftrightarrow> ascii_digit ch \<or> ascii_letter ch"

definition is_alphabetic :: "(str \<Rightarrow> bool) \<Rightarrow> str \<Rightarrow> bool" where
  "is_alphabetic alpha ch = (if length ch = 1 then ascii_letter ch else alpha ch)"

definition is_alphanumeric :: "(str \<Rightarrow> bool) \<Rightarrow> (str \<Rightarrow> bool) \<Rightarrow> str \<Rightarrow> bool" where
  "is_alphanumeric alpha numeric ch =
     (if length ch = 1 then ascii_alphanumeric ch else alpha ch \<or> numeric ch)"

definition is_operator_or_delimiter :: "str \<Rightarrow> bool" where
  "is_operator_or_delimiter ch =
     (length ch = 1 \<and> hd ch \<in> set ''+-*/%=<>!&|^~?@;,.:(){}[]'')"

definition multi_char_ops :: "str list" where
  "multi_char_ops =
     [''=='', ''!='', ''<='', ''>='', ''&&'', ''||'', ''::'', ''->'', ''=>'', ''..'', ''++'', ''--'',
      ''+='', ''-='', ''*='', ''/='', ''%='', ''&='', ''|='', ''^='', ''<<'', ''>>'']"

definition try_match_multi_char_op :: "str \<Rightarrow> str \<Rightarrow> str option" where
  "try_match_multi_char_op ch peek =
     (if length ch = 1 \<and> length peek = 1 \<and> ch @ peek \<in> set multi_char_ops then Some (ch @ peek) else None)"

section \<open>The loops\<close>

record Token =
  tk_lexeme :: str
  tk_start :: nat
  tk_end :: nat

lemma utf8_len_pos [simp]: "0 < utf8_len c"
  by (simp add: utf8_len_def Let_def)

lemma char_at_nonempty: "i < length s \<Longrightarrow> char_at s i \<noteq> []"
  by (simp add: char_at_def)

text \<open>Each loop returns the lexeme it consumed and the position after it. A loop that has no
  character left at \<open>i\<close> breaks.\<close>

function string_loop :: "str \<Rightarrow> nat \<Rightarrow> str \<Rightarrow> bool \<Rightarrow> nat \<Rightarrow> str \<times> nat" where
  "string_loop content end' quote_char escaped i =
     (if end' \<le> i \<or> length content \<le> i then ([], i)
      else let str_ch = char_at content i; next_i = i + length str_ch
           in if \<not> escaped \<and> str_ch \<noteq> [CHR 0x5C] \<and> str_ch = quote_char then (str_ch, next_i)
              else let (lexeme, j) = string_loop content end' quote_char
                                       (\<not> escaped \<and> str_ch = [CHR 0x5C]) next_i
                   in (str_ch @ lexeme, j))"
  by pat_completeness auto
termination
  by (relation "measure (\<lambda>(s, e, q, x, i). length s - i)") (auto simp: char_at_nonempty diff_less_mono2)

function digits_loop :: "(str \<Rightarrow> bool) \<Rightarrow> str \<Rightarrow> nat \<Rightarrow> nat \<Rightarrow> str \<times> nat" where
  "digits_loop accept content end' i =
     (if end' \<le> i \<or> length content \<le> i then ([], i)
      else let ch = char_at content i
           in if accept ch
              then let (lexeme, j) = digits_loop accept content end' (i + length ch) in (ch @ lexeme, j)
              else ([], i))"
  by pat_completeness auto
termination
  by (relation "measure (\<lambda>(a, s, e, i). length s - i)") (auto simp: char_at_nonempty diff_less_mono2)

function number_loop :: "str \<Rightarrow> nat \<Rightarrow> nat \<Rightarrow> str \<times> nat" where
  "number_loop content end' i =
     (if end' \<le> i \<or> length content \<le> i then ([], i)
      else let num_ch = char_at content i; next_i = i + length num_ch
           in if ascii_digit num_ch \<or> num_ch = ''.'' \<or> num_ch = ''_''
              then let (lexeme, j) = number_loop content end' next_i in (num_ch @ lexeme, j)
              else if (num_ch = ''e'' \<or> num_ch = ''E'') \<and> next_i < end'
              then let sign_ch = char_at content next_i;
                       sign = (if sign_ch = ''+'' \<or> sign_ch = ''-'' then sign_ch else []);
                       (lexeme, j) = number_loop content end' (next_i + length sign)
                   in (num_ch @ sign @ lexeme, j)
              else ([], i))"
  by pat_completeness auto
termination
  by (relation "measure (\<lambda>(s, e, i). length s - i)") (auto simp: char_at_nonempty diff_less_mono2)

declare string_loop.simps [simp del] digits_loop.simps [simp del] number_loop.simps [simp del]

text \<open>The token at a character that is not white space, and the position after it.\<close>

definition quoted_token :: "str \<Rightarrow> nat \<Rightarrow> nat \<Rightarrow> str \<times> nat" where
  "quoted_token content end' i =
     (let ch = char_at content i; (lexeme, j) = string_loop content end' ch False (i + length ch)
      in (ch @ lexeme, j))"

definition number_token :: "str \<Rightarrow> nat \<Rightarrow> nat \<Rightarrow> str \<times> nat" where
  "number_token content end' i =
     (let ch = char_at content i; next_ch = char_at content (i + 1)
      in if ch = ''0'' \<and> i + 1 < end' \<and> next_ch \<in> {''x'', ''X'', ''o'', ''O'', ''b'', ''B''}
         then let (lexeme, j) = digits_loop (\<lambda>c. ascii_alphanumeric c \<or> c = ''_'') content end'
                                  (i + 1 + length next_ch)
              in (ch @ next_ch @ lexeme, j)
         else number_loop content end' i)"

definition next_token :: "(str \<Rightarrow> bool) \<Rightarrow> (str \<Rightarrow> bool) \<Rightarrow> str \<Rightarrow> nat \<Rightarrow> nat \<Rightarrow> str \<times> nat" where
  "next_token alpha numeric content end' i =
     (let ch = char_at content i; after = i + length ch
      in case try_match_multi_char_op ch (char_at (take end' content) after) of
           Some op \<Rightarrow> (op, i + length op)
         | None \<Rightarrow>
             if ch = [CHR 0x22] \<or> ch = [CHR 0x27] \<or> ch = [CHR 0x60] then quoted_token content end' i
             else if ascii_digit ch \<or> ch = ''.'' \<and> after < end' \<and> ascii_digit (char_at content after)
             then number_token content end' i
             else if is_alphabetic alpha ch \<or> ch = ''_''
             then digits_loop (\<lambda>c. is_alphanumeric alpha numeric c \<or> c = ''_'') content end' i
             else if is_operator_or_delimiter ch then (ch, after)
             else (ch, after))"

section \<open>Lemmas: what the loops consume\<close>

text \<open>A loop started at \<open>i\<close> consumes the text from \<open>i\<close> to the position it returns.\<close>

definition consumes :: "str \<Rightarrow> nat \<Rightarrow> str \<times> nat \<Rightarrow> bool" where
  "consumes content i r \<longleftrightarrow> snd r = i + length (fst r) \<and> take (length (fst r)) (drop i content) = fst r"

lemma char_at_pos: "i < length s \<Longrightarrow> 0 < length (char_at s i)"
  by (simp add: char_at_nonempty)

lemma consumes_slice: "consumes s i (l, j) \<Longrightarrow> i \<le> j \<and> l = slice s i j"
  by (auto simp: consumes_def slice_def)

lemma consumes_char: "consumes s i (char_at s i, i + length (char_at s i))"
  unfolding consumes_def char_at_def by simp (metis append_eq_conv_conj append_take_drop_id length_take length_drop)

lemma consumes_append:
  assumes "consumes s i (a, j)" and "consumes s j (b, k)"
  shows "consumes s i (a @ b, k)"
  using assms by (auto simp: consumes_def take_add drop_drop add.commute)

lemma consumes_Nil [simp]: "consumes s i ([], i)"
  by (simp add: consumes_def)

lemma string_loop_consumes: "consumes s i (string_loop s e q x i)"
proof (induction s e q x i rule: string_loop.induct)
  case (1 s e q x i)
  show ?case
  proof (cases "e \<le> i \<or> length s \<le> i")
    case False
    let ?c = "char_at s i"
    have c: "consumes s i (?c, i + length ?c)" by (rule consumes_char)
    show ?thesis
    proof (cases "\<not> x \<and> ?c \<noteq> [CHR 0x5C] \<and> ?c = q")
      case True
      with False c show ?thesis by (subst string_loop.simps) (auto simp: Let_def)
    next
      case stop: False
      obtain l j where r: "string_loop s e q (\<not> x \<and> ?c = [CHR 0x5C]) (i + length ?c) = (l, j)" by fastforce
      have "consumes s (i + length ?c) (l, j)"
        using "1.IH" [OF False refl refl] stop r by simp
      from consumes_append [OF c this] False stop r show ?thesis
        by (subst string_loop.simps) (auto simp: Let_def)
    qed
  qed (subst string_loop.simps, simp)
qed

lemma digits_loop_consumes: "consumes s i (digits_loop a s e i)"
proof (induction a s e i rule: digits_loop.induct)
  case (1 a s e i)
  show ?case
  proof (cases "e \<le> i \<or> length s \<le> i \<or> \<not> a (char_at s i)")
    case False
    let ?c = "char_at s i"
    have c: "consumes s i (?c, i + length ?c)" by (rule consumes_char)
    obtain l j where r: "digits_loop a s e (i + length ?c) = (l, j)" by fastforce
    have "consumes s (i + length ?c) (l, j)" using "1.IH" False r by simp
    from consumes_append [OF c this] False r show ?thesis
      by (subst digits_loop.simps) (auto simp: Let_def)
  qed (subst digits_loop.simps, auto simp: Let_def)
qed

lemma number_loop_consumes: "consumes s i (number_loop s e i)"
proof (induction s e i rule: number_loop.induct)
  case (1 s e i)
  let ?c = "char_at s i"
  let ?n = "i + length ?c"
  let ?sign = "if char_at s ?n = ''+'' \<or> char_at s ?n = ''-'' then char_at s ?n else []"
  show ?case
  proof (cases "e \<le> i \<or> length s \<le> i")
    case False
    have c: "consumes s i (?c, ?n)" by (rule consumes_char)
    show ?thesis
    proof (cases "ascii_digit ?c \<or> ?c = ''.'' \<or> ?c = ''_''")
      case True
      obtain l j where r: "number_loop s e ?n = (l, j)" by fastforce
      have "consumes s ?n (l, j)" using "1.IH"(1) [OF False refl refl True] r by simp
      from consumes_append [OF c this] False True r show ?thesis
        by (subst number_loop.simps) (auto simp: Let_def)
    next
      case plain: False
      show ?thesis
      proof (cases "(?c = ''e'' \<or> ?c = ''E'') \<and> ?n < e")
        case True
        have s: "consumes s ?n (?sign, ?n + length ?sign)"
          using consumes_char [of s ?n] by simp
        obtain l j where r: "number_loop s e (?n + length ?sign) = (l, j)" by fastforce
        have "consumes s (?n + length ?sign) (l, j)"
          using "1.IH"(2) [OF False refl refl plain True refl refl] r by simp
        from consumes_append [OF c consumes_append [OF s this]] False plain True r show ?thesis
          by (subst number_loop.simps) (simp add: Let_def)
      next
        case stop: False
        with False plain show ?thesis by (subst number_loop.simps) (auto simp: Let_def)
      qed
    qed
  qed (subst number_loop.simps, simp)
qed

lemma consumes_take: "consumes (take e s) i (l, j) \<Longrightarrow> consumes s i (l, j)"
proof -
  assume c: "consumes (take e s) i (l, j)"
  then have t: "take (min (length l) (e - i)) (drop i s) = l" by (simp add: consumes_def drop_take)
  then have "length l \<le> e - i" by (metis length_take min.bounded_iff min.cobounded1 min.cobounded2)
  with c t show ?thesis by (simp add: consumes_def min_def)
qed

lemma op_consumed:
  assumes "try_match_multi_char_op (char_at s i) (char_at (take e s) (i + length (char_at s i))) = Some op"
  shows "consumes s i (op, i + length op) \<and> 0 < length op"
proof -
  let ?c = "char_at s i" and ?p = "char_at (take e s) (i + length (char_at s i))"
  have op: "op = ?c @ ?p" and len: "length ?c = 1" "length ?p = 1"
    using assms by (auto simp: try_match_multi_char_op_def split: if_splits)
  have "consumes (take e s) (i + 1) (?p, i + 1 + 1)" using consumes_char [of "take e s" "i + length ?c"] len by simp
  then have "consumes s (i + 1) (?p, i + 1 + 1)" by (rule consumes_take)
  moreover have "consumes s i (?c, i + 1)" using consumes_char [of s i] len by simp
  ultimately show ?thesis using consumes_append op len by fastforce
qed

lemma number_loop_progress:
  assumes "i < e" and "i < length s" and "ascii_digit (char_at s i) \<or> char_at s i = ''.''"
  shows "i < snd (number_loop s e i)"
proof -
  obtain l j where r: "number_loop s e (i + length (char_at s i)) = (l, j)" by fastforce
  have "i + length (char_at s i) \<le> j"
    using number_loop_consumes [of s "i + length (char_at s i)" e] r by (simp add: consumes_def)
  with assms r char_at_pos [OF assms(2)] show ?thesis
    by (subst number_loop.simps) (auto simp: Let_def simp del: length_greater_0_conv)
qed

lemma digits_loop_progress:
  assumes "i < e" and "i < length s" and "a (char_at s i)"
  shows "i < snd (digits_loop a s e i)"
proof -
  obtain l j where r: "digits_loop a s e (i + length (char_at s i)) = (l, j)" by fastforce
  have "i + length (char_at s i) \<le> j"
    using digits_loop_consumes [of s "i + length (char_at s i)" a e] r by (simp add: consumes_def)
  with assms r char_at_pos [OF assms(2)] show ?thesis
    by (subst digits_loop.simps) (simp add: Let_def del: length_greater_0_conv)
qed

lemma alphabetic_alphanumeric: "is_alphabetic alpha c \<Longrightarrow> is_alphanumeric alpha numeric c"
  by (auto simp: is_alphabetic_def is_alphanumeric_def ascii_alphanumeric_def split: if_splits)

lemma quoted_token_consumes: "consumes s i (quoted_token s e i)"
  and quoted_token_progress: "i < length s \<Longrightarrow> i < snd (quoted_token s e i)"
proof -
  obtain l j where r: "string_loop s e (char_at s i) False (i + length (char_at s i)) = (l, j)" by fastforce
  have c: "consumes s (i + length (char_at s i)) (l, j)"
    using string_loop_consumes [of s "i + length (char_at s i)" e "char_at s i" False] r by simp
  show "consumes s i (quoted_token s e i)"
    using consumes_append [OF consumes_char c] r by (simp add: quoted_token_def Let_def)
  show "i < length s \<Longrightarrow> i < snd (quoted_token s e i)"
    using c r char_at_pos [of i s] by (simp add: quoted_token_def Let_def consumes_def del: length_greater_0_conv)
qed

lemma number_token_consumes: "consumes s i (number_token s e i)"
proof (cases "char_at s i = ''0'' \<and> i + 1 < e \<and> char_at s (i + 1) \<in> {''x'', ''X'', ''o'', ''O'', ''b'', ''B''}")
  case True
  let ?c = "char_at s (i + 1)"
  obtain l j where r: "digits_loop (\<lambda>c. ascii_alphanumeric c \<or> c = ''_'') s e (i + 1 + length ?c) = (l, j)"
    by fastforce
  have "consumes s (i + 1 + length ?c) (l, j)"
    using digits_loop_consumes [of s "i + 1 + length ?c"] r by metis
  from consumes_append [OF consumes_char this] have "consumes s (i + 1) (?c @ l, j)" .
  moreover have "consumes s i (''0'', i + 1)" using consumes_char [of s i] True by simp
  ultimately have "consumes s i (''0'' @ ?c @ l, j)" by (rule consumes_append [rotated])
  with True r show ?thesis by (simp add: number_token_def Let_def)
next
  case False
  then have "number_token s e i = number_loop s e i" by (simp only: number_token_def Let_def if_False)
  then show ?thesis by (simp add: number_loop_consumes)
qed

lemma number_token_progress:
  assumes "i < e" and "i < length s" and "ascii_digit (char_at s i) \<or> char_at s i = ''.''"
  shows "i < snd (number_token s e i)"
proof (cases "number_token s e i = number_loop s e i")
  case True
  with number_loop_progress [OF assms] show ?thesis by simp
next
  case False
  then have "fst (number_token s e i) \<noteq> []"
    by (auto simp: number_token_def Let_def split: prod.splits if_splits)
  with number_token_consumes [of s i e] show ?thesis by (auto simp: consumes_def)
qed

lemma next_token_consumes:
  assumes "i < e" and "i < length s"
  shows "consumes s i (next_token alpha numeric s e i) \<and> i < snd (next_token alpha numeric s e i)"
proof (cases "try_match_multi_char_op (char_at s i) (char_at (take e s) (i + length (char_at s i)))")
  case (Some op)
  with op_consumed [OF this] show ?thesis by (simp add: next_token_def Let_def)
next
  case None
  then show ?thesis
    using assms char_at_nonempty [OF assms(2)] quoted_token_consumes [of s i e] quoted_token_progress [of i s e]
      number_token_consumes [of s i e] number_token_progress [OF assms] consumes_char [of s i]
      digits_loop_consumes [of s i "\<lambda>c. is_alphanumeric alpha numeric c \<or> c = ''_''" e]
      digits_loop_progress [OF assms, of "\<lambda>c. is_alphanumeric alpha numeric c \<or> c = ''_''"]
      alphabetic_alphanumeric [of alpha "char_at s i" numeric]
    by (simp add: next_token_def Let_def)
qed

function tokenize_loop ::
  "(str \<Rightarrow> bool) \<Rightarrow> (str \<Rightarrow> bool) \<Rightarrow> str \<Rightarrow> nat \<Rightarrow> nat \<Rightarrow> Token list" where
  "tokenize_loop alpha numeric content end' i =
     (if end' \<le> i \<or> length content \<le> i then []
      else let ch = char_at content i
           in if is_ws_char ch then tokenize_loop alpha numeric content end' (i + length ch)
              else let (lexeme, j) = next_token alpha numeric content end' i
                   in \<lparr>tk_lexeme = lexeme, tk_start = i, tk_end = j\<rparr>
                      # tokenize_loop alpha numeric content end' j)"
  by pat_completeness auto
termination
proof (relation "measure (\<lambda>(a, n, s, e, i). length s - i)", goal_cases)
  case (2 a n s e i c)
  then show ?case using char_at_nonempty [of i s] by (simp add: diff_less_mono2)
next
  case (3 a n s e i c x l j)
  then show ?case using next_token_consumes [of i e s a n]
    by (cases "next_token a n s e i") (simp add: diff_less_mono2)
qed simp

declare tokenize_loop.simps [simp del]

definition tokenize_non_whitespace ::
  "(str \<Rightarrow> bool) \<Rightarrow> (str \<Rightarrow> bool) \<Rightarrow> str \<Rightarrow> nat \<times> nat \<Rightarrow> Token list" where
  "tokenize_non_whitespace alpha numeric content range' =
     (let (start, end') = range'
      in if end' \<le> start then [] else tokenize_loop alpha numeric content end' start)"

section \<open>Lemmas: staying on character boundaries\<close>

text \<open>The bytes split into characters, as those of a Rust string do: a first byte that says the
  length, then continuation bytes.\<close>

function utf8_chars :: "str \<Rightarrow> bool" where
  "utf8_chars s =
     (if s = [] then True
      else utf8_len (hd s) \<le> length s \<and>
           list_all (\<lambda>c. 128 \<le> (of_char c :: nat)) (take (utf8_len (hd s) - 1) (tl s)) \<and>
           utf8_chars (drop (utf8_len (hd s)) s))"
  by pat_completeness auto
termination by (relation "measure length") auto

declare utf8_chars.simps [simp del]

lemma utf8_chars_Nil [simp]: "utf8_chars []"
  by (simp add: utf8_chars.simps)

lemma utf8_chars_append: "utf8_chars s \<Longrightarrow> utf8_chars t \<Longrightarrow> utf8_chars (s @ t)"
proof (induction s rule: utf8_chars.induct)
  case (1 s)
  show ?case
  proof (cases "s = []")
    case False
    with 1(2) have s: "utf8_len (hd s) \<le> length s" "utf8_chars (drop (utf8_len (hd s)) s)"
      "list_all (\<lambda>c. 128 \<le> (of_char c :: nat)) (take (utf8_len (hd s) - 1) (tl s))"
      by (simp_all add: utf8_chars.simps [of s])
    then have "utf8_chars (drop (utf8_len (hd s)) s @ t)" using 1(1) [OF False] 1(3) by simp
    moreover have "take (utf8_len (hd s) - 1) (tl s @ t) = take (utf8_len (hd s) - 1) (tl s)" using s(1) by simp
    ultimately show ?thesis using s False by (subst utf8_chars.simps) (simp add: tl_append2)
  qed (use 1 in simp)
qed

text \<open>A newline is a character of its own, so valid text can be cut after it.\<close>

lemma utf8_chars_cut:
  "utf8_chars (pre @ newline # rest) \<Longrightarrow> utf8_chars pre \<and> utf8_chars rest"
proof (induction "length pre" arbitrary: pre rule: less_induct)
  case less
  show ?case
  proof (cases pre)
    case Nil
    with less.prems show ?thesis by (subst (asm) utf8_chars.simps) (simp add: utf8_len_def)
  next
    case (Cons c pre')
    let ?n = "utf8_len c"
    have u: "?n \<le> length (pre @ newline # rest)" "utf8_chars (drop ?n (pre @ newline # rest))"
      "list_all (\<lambda>c. 128 \<le> (of_char c :: nat)) (take (?n - 1) (pre' @ newline # rest))"
      using less.prems Cons utf8_chars.simps [of "pre @ newline # rest"] by auto
    have n: "?n \<le> length pre"
    proof (rule ccontr)
      assume "\<not> ?n \<le> length pre"
      then have "newline \<in> set (take (?n - 1) (pre' @ newline # rest))"
        using Cons by (simp add: take_Cons' )
      with u(3) have "128 \<le> (of_char newline :: nat)" unfolding list_all_iff by blast
      then show False by simp
    qed
    then have "utf8_chars (drop ?n pre @ newline # rest)" using u(2) by simp
    moreover have "length (drop ?n pre) < length pre" using Cons by simp
    ultimately have "utf8_chars (drop ?n pre) \<and> utf8_chars rest" by (intro less.hyps)
    with u n Cons show ?thesis by (subst utf8_chars.simps) (auto simp: list_all_iff)
  qed
qed

text \<open>Both ends of the range are character boundaries.\<close>

definition fits :: "str \<Rightarrow> nat \<Rightarrow> nat \<Rightarrow> bool" where
  "fits content i e \<longleftrightarrow> i \<le> e \<and> e \<le> length content \<and> utf8_chars (slice content i e)"

lemma utf8_lines: "utf8_chars s \<Longrightarrow> list_all utf8_chars (split_inclusive s)"
proof (induction "length s" arbitrary: s rule: less_induct)
  case less
  show ?case
  proof (cases "newline \<in> set s")
    case True
    from split_at_char [OF this] obtain a b where s: "s = a @ newline # b" and a: "newline \<notin> set a" by blast
    have u: "utf8_chars a" "utf8_chars b" using utf8_chars_cut [of a b] less.prems s by simp_all
    have "utf8_chars [newline]" by (subst utf8_chars.simps) (simp add: utf8_len_def)
    with u(1) have "utf8_chars (a @ [newline])" by (rule utf8_chars_append)
    with less.hyps [of b] u(2) show ?thesis by (simp add: s a split_inclusive_line)
  next
    case False
    with less.prems show ?thesis by (cases "s = []") (simp_all add: split_inclusive_last)
  qed
qed

lemma utf8_chars_concat: "list_all utf8_chars ss \<Longrightarrow> utf8_chars (concat ss)"
  by (induction ss) (simp_all add: utf8_chars_append)

lemma fits_step:
  assumes "fits s i e" and "i < e"
  shows "fits s (i + length (char_at s i)) e" and "char_at (take e s) i = char_at s i"
proof -
  let ?n = "utf8_len (s ! i)"
  have sl: "slice s i e \<noteq> []" "hd (slice s i e) = s ! i" "length (slice s i e) = e - i" "i < length s"
    using assms by (auto simp: fits_def slice_def hd_drop_conv_nth)
  from sl have u: "?n \<le> e - i" "utf8_chars (drop ?n (slice s i e))"
    using assms(1) utf8_chars.simps [of "slice s i e"] by (auto simp: fits_def)
  have n: "length (char_at s i) = ?n" using u(1) sl(4) assms(1) by (auto simp: char_at_def fits_def)
  have "drop ?n (slice s i e) = slice s (i + ?n) e"
    using u(1) by (simp add: slice_def drop_take add.commute)
  with u n assms show "fits s (i + length (char_at s i)) e" by (simp add: fits_def)
  show "char_at (take e s) i = char_at s i"
    using u(1) assms sl(4) by (simp add: char_at_def drop_take min_def)
qed

lemma string_loop_fits: "fits s i e \<Longrightarrow> fits s (snd (string_loop s e q x i)) e"
proof (induction s e q x i rule: string_loop.induct)
  case (1 s e q x i)
  show ?case
  proof (cases "e \<le> i \<or> length s \<le> i")
    case False
    then have f: "fits s (i + length (char_at s i)) e" using 1(2) by (intro fits_step(1)) simp_all
    show ?thesis
    proof (cases "\<not> x \<and> char_at s i \<noteq> [CHR 0x5C] \<and> char_at s i = q")
      case True
      with False f show ?thesis by (subst string_loop.simps) (auto simp: Let_def)
    next
      case stop: False
      with False "1.IH" [OF False refl refl stop f] show ?thesis
        by (subst string_loop.simps) (auto simp: Let_def split: prod.splits)
    qed
  next
    case True
    with 1(2) show ?thesis by (subst string_loop.simps) simp
  qed
qed

lemma digits_loop_fits: "fits s i e \<Longrightarrow> fits s (snd (digits_loop a s e i)) e"
proof (induction a s e i rule: digits_loop.induct)
  case (1 a s e i)
  show ?case
  proof (cases "e \<le> i \<or> length s \<le> i \<or> \<not> a (char_at s i)")
    case False
    then have f: "fits s (i + length (char_at s i)) e" using 1(2) by (intro fits_step(1)) simp_all
    with False "1.IH" show ?thesis
      by (subst digits_loop.simps) (auto simp: Let_def split: prod.splits)
  next
    case True
    with 1(2) show ?thesis by (subst digits_loop.simps) (auto simp: Let_def)
  qed
qed

lemma number_loop_fits: "fits s i e \<Longrightarrow> fits s (snd (number_loop s e i)) e"
proof (induction s e i rule: number_loop.induct)
  case (1 s e i)
  let ?c = "char_at s i"
  let ?n = "i + length ?c"
  let ?sign = "if char_at s ?n = ''+'' \<or> char_at s ?n = ''-'' then char_at s ?n else []"
  show ?case
  proof (cases "e \<le> i \<or> length s \<le> i")
    case False
    then have f: "fits s ?n e" using 1(3) by (intro fits_step(1)) simp_all
    show ?thesis
    proof (cases "ascii_digit ?c \<or> ?c = ''.'' \<or> ?c = ''_''")
      case True
      with False "1.IH"(1) [OF False refl refl True f] show ?thesis
        by (subst number_loop.simps) (auto simp: Let_def split: prod.splits)
    next
      case plain: False
      show ?thesis
      proof (cases "(?c = ''e'' \<or> ?c = ''E'') \<and> ?n < e")
        case True
        have "fits s (?n + length ?sign) e" using f fits_step(1) [OF f] True by simp
        from "1.IH"(2) [OF False refl refl plain True refl refl this] False plain True show ?thesis
          by (subst number_loop.simps) (auto simp: Let_def split: prod.splits)
      next
        case stop: False
        with False plain 1(3) show ?thesis by (subst number_loop.simps) (auto simp: Let_def)
      qed
    qed
  next
    case True
    with 1(3) show ?thesis by (subst number_loop.simps) simp
  qed
qed

lemma next_token_fits:
  assumes "fits s i e" and "i < e"
  shows "fits s (snd (next_token alpha numeric s e i)) e"
proof -
  let ?c = "char_at s i"
  have f: "fits s (i + length ?c) e" using assms by (rule fits_step)
  have op: "fits s (i + length op) e" if "try_match_multi_char_op ?c (char_at (take e s) (i + length ?c)) = Some op" for op
  proof -
    have len: "length op = length ?c + length (char_at (take e s) (i + length ?c))"
      and one: "length (char_at (take e s) (i + length ?c)) = 1"
      using that by (auto simp: try_match_multi_char_op_def split: if_splits)
    from one have lt: "i + length ?c < e"
      by (cases "i + length ?c < e") (auto simp: char_at_def split: if_splits)
    show ?thesis using fits_step [OF f lt] len by (simp add: add.assoc)
  qed
  have quoted: "fits s (snd (quoted_token s e i)) e"
    using string_loop_fits [OF f] by (simp add: quoted_token_def Let_def split_beta)
  have number: "fits s (snd (number_token s e i)) e"
  proof (cases "?c = ''0'' \<and> i + 1 < e \<and> char_at s (i + 1) \<in> {''x'', ''X'', ''o'', ''O'', ''b'', ''B''}")
    case True
    then have "fits s (i + 1 + length (char_at s (i + 1))) e"
      using fits_step(1) [OF f] by simp
    from digits_loop_fits [OF this] True show ?thesis
      by (simp add: number_token_def Let_def split_beta)
  next
    case False
    then have "number_token s e i = number_loop s e i" by (simp only: number_token_def Let_def if_False)
    then show ?thesis using number_loop_fits [OF assms(1)] by simp
  qed
  show ?thesis
    using op f quoted number digits_loop_fits [OF assms(1)]
    by (cases "try_match_multi_char_op ?c (char_at (take e s) (i + length ?c))")
      (simp_all add: next_token_def Let_def)
qed

section \<open>Lemmas: the tokens\<close>

lemma ws_len_encoding: "w \<in> set ws_encodings \<Longrightarrow> ws_len (w @ r) = length w"
proof -
  have "list_all (\<lambda>w. ws_len (w @ r) = length w) ws_encodings"
    by (simp add: ws_encodings_def ws_len_def starts_with_def)
  then show "w \<in> set ws_encodings \<Longrightarrow> ws_len (w @ r) = length w" by (simp add: list_all_iff)
qed

lemma all_whitespace_append: "w \<in> set ws_encodings \<Longrightarrow> all_whitespace (w @ r) = all_whitespace r"
  using ws_encodings_nonempty [of w]
  by (simp add: all_whitespace_def trim_start.simps [of "w @ r"] ws_len_encoding)

lemma all_whitespace_Nil [simp]: "all_whitespace []"
  by (simp add: all_whitespace_def trim_start.simps ws_len_def starts_with_def ws_encodings_def)

text \<open>Tokens from \<open>lo\<close> to \<open>hi\<close>: in order and non-empty, each the text it spans, with nothing but
  white space before, between and after them.\<close>

fun tokens_in :: "str \<Rightarrow> nat \<Rightarrow> nat \<Rightarrow> Token list \<Rightarrow> bool" where
  "tokens_in content lo hi [] = (lo \<le> hi \<and> all_whitespace (slice content lo hi))"
| "tokens_in content lo hi (t # ts) =
     (lo \<le> tk_start t \<and> tk_start t < tk_end t \<and> tk_end t \<le> hi \<and>
      all_whitespace (slice content lo (tk_start t)) \<and>
      tk_lexeme t = slice content (tk_start t) (tk_end t) \<and> tokens_in content (tk_end t) hi ts)"

lemma tokens_in_skip:
  assumes "tokens_in s (i + length w) e ts" and "slice s i (i + length w) = w" and "w \<in> set ws_encodings"
  shows "tokens_in s i e ts"
proof -
  have gap: "all_whitespace (slice s i k)" if "all_whitespace (slice s (i + length w) k)" "i + length w \<le> k" for k
  proof -
    have "slice s i k = w @ slice s (i + length w) k"
      using slice_append [of i "i + length w" k s] that(2) assms(2) by simp
    with that(1) assms(3) show ?thesis by (simp add: all_whitespace_append)
  qed
  show ?thesis using assms(1) gap by (cases ts) auto
qed

lemma tokenize_loop_tokens_in:
  "fits s i e \<Longrightarrow> tokens_in s i e (tokenize_loop alpha numeric s e i)"
proof (induction alpha numeric s e i rule: tokenize_loop.induct)
  case (1 alpha numeric s e i)
  show ?case
  proof (cases "e \<le> i")
    case True
    with 1(3) show ?thesis by (subst tokenize_loop.simps) (simp add: fits_def)
  next
    case False
    then have lt: "i < e" "i < length s" using 1(3) by (auto simp: fits_def)
    then have not_done: "\<not> (e \<le> i \<or> length s \<le> i)" by simp
    show ?thesis
    proof (cases "is_ws_char (char_at s i)")
      case True
      have "slice s i (i + length (char_at s i)) = char_at s i"
        using consumes_slice [OF consumes_char] by simp
      moreover have "tokens_in s (i + length (char_at s i)) e
          (tokenize_loop alpha numeric s e (i + length (char_at s i)))"
        using "1.IH"(1) [OF not_done refl True fits_step(1) [OF 1(3) lt(1)]] .
      ultimately have "tokens_in s i e (tokenize_loop alpha numeric s e (i + length (char_at s i)))"
        using True tokens_in_skip by (simp add: is_ws_char_def)
      with True not_done show ?thesis by (subst tokenize_loop.simps) (simp add: Let_def)
    next
      case False
      obtain l j where r: "next_token alpha numeric s e i = (l, j)" by fastforce
      have c: "consumes s i (l, j)" "i < j" using next_token_consumes [OF lt, of alpha numeric] r by simp_all
      have f: "fits s j e" using next_token_fits [OF 1(3) lt(1), of alpha numeric] r by simp
      have "tokens_in s j e (tokenize_loop alpha numeric s e j)"
        using "1.IH"(2) [OF not_done refl False r [symmetric] refl f] .
      with False not_done r c f consumes_slice [OF c(1)] show ?thesis
        by (subst tokenize_loop.simps) (simp add: Let_def fits_def)
    qed
  qed
qed

lemma tokenize_range_tokens_in:
  "fits content start end' \<Longrightarrow>
     tokens_in content start end' (tokenize_non_whitespace alpha numeric content (start, end'))"
  by (cases "start < end'") (auto simp: tokenize_non_whitespace_def tokenize_loop_tokens_in fits_def)

section \<open>Properties\<close>

text \<open>C34. The tokens of a range of a text, whose ends are character boundaries, cover it: they are
  in order, disjoint, non-empty and inside the range, each carries exactly the text it spans
  (string literals, numbers and operators included), and only white space is left out.\<close>

theorem tokenize_covers:
  assumes "fits content start end'"
  shows "tokens_in content start end' (tokenize_non_whitespace alpha numeric content (start, end'))"
  using assms by (rule tokenize_range_tokens_in)

theorem tokenize_covers_witness:
  "tokens_in ''x +=1'' 0 5 (tokenize_non_whitespace (\<lambda>_. False) (\<lambda>_. False) ''x +=1'' (0, 5))"
  by (rule tokenize_covers) code_simp

end
