(* ===== verification/Byte_Ranges.thy ===== *)
theory Byte_Ranges
  imports Prelude "HOL-Library.Product_Lexorder"
begin

text \<open>
  Half-open byte ranges (\<open>merge_ranges\<close> and \<open>ranges_intersect\<close> of
  \<open>src/authorship/attribution_tracker.rs\<close>): merging sorted ranges, and testing a range against the
  merged ones.
\<close>

type_synonym byte_range = "nat \<times> nat"

section \<open>Operations\<close>

text \<open>The loop over the sorted ranges; \<open>merge_into\<close> carries the last range of \<open>merged\<close>.\<close>

fun merge_into :: "nat \<Rightarrow> nat \<Rightarrow> byte_range list \<Rightarrow> byte_range list" where
  "merge_into last_start last_end [] = [(last_start, last_end)]"
| "merge_into last_start last_end ((start, end') # ranges) =
     (if end' \<le> start then merge_into last_start last_end ranges
      else if start \<le> last_end then merge_into last_start (max last_end end') ranges
      else (last_start, last_end) # merge_into start end' ranges)"

fun merge_sorted :: "byte_range list \<Rightarrow> byte_range list" where
  "merge_sorted [] = []"
| "merge_sorted ((start, end') # ranges) =
     (if end' \<le> start then merge_sorted ranges else merge_into start end' ranges)"

definition merge_ranges :: "byte_range list \<Rightarrow> byte_range list" where
  "merge_ranges ranges = (if ranges = [] then ranges else merge_sorted (sort_key (\<lambda>r. (fst r, snd r)) ranges))"

fun intersect_loop :: "nat \<Rightarrow> nat \<Rightarrow> byte_range list \<Rightarrow> bool" where
  "intersect_loop start end' [] = False"
| "intersect_loop start end' ((r_start, r_end) # ranges) =
     (if r_end \<le> start then intersect_loop start end' ranges
      else if end' \<le> r_start then False else True)"

definition ranges_intersect :: "byte_range list \<Rightarrow> byte_range \<Rightarrow> bool" where
  "ranges_intersect ranges target =
     (let (start, end') = target in if end' \<le> start then False else intersect_loop start end' ranges)"

section \<open>Lemmas\<close>

definition in_ranges :: "byte_range list \<Rightarrow> nat \<Rightarrow> bool" where
  "in_ranges rs p = list_ex (\<lambda>(a, b). a \<le> p \<and> p < b) rs"

lemma in_ranges_simps [simp]:
  "\<not> in_ranges [] p" "in_ranges ((a, b) # rs) p \<longleftrightarrow> a \<le> p \<and> p < b \<or> in_ranges rs p"
  by (simp_all add: in_ranges_def)

text \<open>Ranges with a gap before each next one, all non-empty.\<close>

definition separated :: "byte_range list \<Rightarrow> bool" where
  "separated rs \<longleftrightarrow> list_all (\<lambda>(a, b). a < b) rs \<and> sorted_wrt (\<lambda>r q. snd r < fst q) rs"

lemma merge_into_lower:
  "sorted (a # map fst rs) \<Longrightarrow> a < b \<Longrightarrow> q \<in> set (merge_into a b rs) \<Longrightarrow> a \<le> fst q"
  by (induction a b rs rule: merge_into.induct) (auto split: if_splits)

lemma merge_into_spec:
  assumes "sorted (a # map fst rs)" and "a < b"
  shows "in_ranges (merge_into a b rs) p \<longleftrightarrow> a \<le> p \<and> p < b \<or> in_ranges rs p"
    and "separated (merge_into a b rs)"
  using assms
proof (induction a b rs rule: merge_into.induct)
  case (2 a b s e rs)
  {
    case 1
    with "2.IH" show ?case by (auto simp: max_def not_le)
  next
    case 2
    show ?case
    proof (cases "\<not> e \<le> s \<and> \<not> s \<le> b")
      case True
      have "b < fst q" if "q \<in> set (merge_into s e rs)" for q
        using merge_into_lower [of s rs e q] that 2 True by fastforce
      moreover have "separated (merge_into s e rs)" using "2.IH"(6) 2 True by simp
      ultimately show ?thesis using True 2 by (auto simp: separated_def)
    next
      case False
      with "2.IH"(2,4) 2 show ?thesis by (auto simp: max_def)
    qed
  }
qed (simp_all add: separated_def)

lemma merge_sorted_spec:
  assumes "sorted (map fst rs)"
  shows "in_ranges (merge_sorted rs) p \<longleftrightarrow> in_ranges rs p" and "separated (merge_sorted rs)"
  using assms
proof (induction rs rule: merge_sorted.induct)
  case (2 a b rs)
  {
    case 1
    with 2 merge_into_spec(1) [of a rs b] show ?case by (auto simp: not_le)
  next
    case 2
    with "2.IH" merge_into_spec(2) [of a rs b] show ?case by (auto simp: not_le)
  }
qed (simp_all add: separated_def)

lemma sorted_fst_sort: "sorted (map fst (sort_key (\<lambda>r. (fst r, snd r :: nat)) (rs :: byte_range list)))"
proof -
  have "sorted_wrt (\<le>) (sort rs)" by simp
  then have "sorted_wrt (\<lambda>x y. fst x \<le> fst y) (sort rs)"
    by (rule sorted_wrt_mono_rel [rotated]) (auto simp: less_eq_prod_simp)
  then show ?thesis by (simp add: sorted_map)
qed

lemma in_ranges_sort [simp]: "in_ranges (sort_key f rs) p = in_ranges rs p"
  by (simp add: in_ranges_def list_ex_iff)

lemma intersect_loop_separated:
  assumes "separated rs" and "s < e"
  shows "intersect_loop s e rs \<longleftrightarrow> (\<exists>p. s \<le> p \<and> p < e \<and> in_ranges rs p)"
  using assms
proof (induction s e rs rule: intersect_loop.induct)
  case (2 s e a b rs)
  have sep: "separated rs" and ab: "a < b" and after: "\<And>x y. (x, y) \<in> set rs \<Longrightarrow> b < x"
    using 2(2) by (auto simp: separated_def)
  show ?case
  proof (cases "b \<le> s")
    case True
    with 2 sep show ?thesis by auto
  next
    case False
    show ?thesis
    proof (cases "e \<le> a")
      case True
      then have "\<not> in_ranges rs p" if "p < e" for p
        using that ab after by (fastforce simp: in_ranges_def list_ex_iff)
      with True False show ?thesis by auto
    next
      case lt: False
      have "s \<le> max s a \<and> max s a < e \<and> a \<le> max s a \<and> max s a < b" using lt False ab 2(3) by auto
      then have "\<exists>p. s \<le> p \<and> p < e \<and> in_ranges ((a, b) # rs) p" by (intro exI [of _ "max s a"]) simp
      with lt False show ?thesis by simp
    qed
  qed
qed simp

section \<open>Properties\<close>

text \<open>Merging byte ranges keeps exactly the bytes they cover, and leaves ranges that are
  non-empty, in order and apart, so that the early exit of \<open>ranges_intersect\<close> is right: it says
  whether some byte of the target is in one of the merged ranges.\<close>

theorem merged_ranges_correct:
  "(in_ranges (merge_ranges rs) p \<longleftrightarrow> in_ranges rs p) \<and> separated (merge_ranges rs) \<and>
   (ranges_intersect (merge_ranges rs) (s, e) \<longleftrightarrow> (\<exists>p. s \<le> p \<and> p < e \<and> in_ranges rs p))"
proof -
  have in_merged: "in_ranges (merge_ranges rs) p \<longleftrightarrow> in_ranges rs p" for p
    using merge_sorted_spec(1) [OF sorted_fst_sort] by (simp add: merge_ranges_def)
  have sep: "separated (merge_ranges rs)"
    using merge_sorted_spec(2) [OF sorted_fst_sort] by (simp add: merge_ranges_def separated_def)
  have "ranges_intersect (merge_ranges rs) (s, e) \<longleftrightarrow> (\<exists>p. s \<le> p \<and> p < e \<and> in_ranges rs p)"
  proof (cases "s < e")
    case True
    with intersect_loop_separated [OF sep True] show ?thesis by (simp add: ranges_intersect_def in_merged)
  qed (auto simp: ranges_intersect_def)
  with in_merged sep show ?thesis by simp
qed

end
