(* ===== verification/Token_Diff.thy ===== *)
theory Token_Diff
  imports Tokenizer Byte_Ranges
begin

text \<open>
  Diffs of a changed region (\<open>append_range_diffs\<close> and \<open>build_token_aligned_diffs\<close> of
  \<open>src/authorship/attribution_tracker.rs\<close>): the tokens of the two regions are diffed by their
  lexemes, and the byte diffs follow the tokens, with the white space between them.
\<close>

section \<open>Operations\<close>

definition append_range_diffs :: "str \<Rightarrow> str \<Rightarrow> byte_range \<Rightarrow> byte_range \<Rightarrow> bool \<Rightarrow> ByteDiff list" where
  "append_range_diffs old_content new_content old_range new_range force_split =
     (let (old_start, old_end) = old_range; (new_start, new_end) = new_range
      in if old_end \<le> old_start \<and> new_end \<le> new_start then []
         else let old_slice = slice old_content old_start old_end;
                  new_slice = slice new_content new_start new_end
              in if \<not> force_split \<and> old_slice \<noteq> [] \<and> new_slice \<noteq> [] \<and> old_slice = new_slice
                 then [ByteDiff_new BEqual new_slice]
                 else (if old_slice \<noteq> [] then [ByteDiff_new BDelete old_slice] else []) @
                      (if new_slice \<noteq> [] then [ByteDiff_new BInsert new_slice] else []))"

record TokenDiffState =
  td_diffs :: "ByteDiff list"
  td_substantive :: "byte_range list"
  td_old_cursor :: nat
  td_new_cursor :: nat
  td_last_was_change :: bool

text \<open>The two contents and their tokens, which the loop only reads.\<close>

record TokenDiffInput =
  ti_old :: str
  ti_new :: str
  ti_old_tokens :: "Token list"
  ti_new_tokens :: "Token list"

definition append_gap :: "TokenDiffInput \<Rightarrow> nat \<Rightarrow> nat \<Rightarrow> TokenDiffState \<Rightarrow> TokenDiffState" where
  "append_gap inp old_to new_to st =
     st\<lparr>td_diffs := td_diffs st @
       append_range_diffs (ti_old inp) (ti_new inp) (td_old_cursor st, old_to) (td_new_cursor st, new_to)
         (td_last_was_change st)\<rparr>"

definition equal_token :: "TokenDiffInput \<Rightarrow> nat \<Rightarrow> nat \<Rightarrow> TokenDiffState \<Rightarrow> TokenDiffState" where
  "equal_token inp old_i new_i st =
     (let old_token = ti_old_tokens inp ! old_i; new_token = ti_new_tokens inp ! new_i;
          st = append_gap inp (tk_start old_token) (tk_start new_token) st
      in st\<lparr>td_diffs := td_diffs st @
              [ByteDiff_new BEqual (slice (ti_new inp) (tk_start new_token) (tk_end new_token))],
            td_old_cursor := tk_end old_token, td_new_cursor := tk_end new_token,
            td_last_was_change := False\<rparr>)"

fun equal_tokens :: "TokenDiffInput \<Rightarrow> nat \<Rightarrow> nat \<Rightarrow> nat \<Rightarrow> TokenDiffState \<Rightarrow> TokenDiffState" where
  "equal_tokens inp old_i new_i 0 st = st"
| "equal_tokens inp old_i new_i (Suc n) st =
     equal_tokens inp (old_i + 1) (new_i + 1) n (equal_token inp old_i new_i st)"

fun token_op :: "TokenDiffInput \<Rightarrow> DiffOp \<Rightarrow> TokenDiffState \<Rightarrow> TokenDiffState" where
  "token_op inp (Equal old_index new_index len) st = equal_tokens inp old_index new_index len st"
| "token_op inp (Delete old_index old_len new_index) st =
     (if old_len = 0 then st
      else let start = tk_start (ti_old_tokens inp ! old_index);
               end' = tk_end (ti_old_tokens inp ! (old_index + old_len - 1));
               st = append_gap inp start (td_new_cursor st) st
           in st\<lparr>td_diffs := td_diffs st @ [ByteDiff_new BDelete (slice (ti_old inp) start end')],
                 td_old_cursor := end', td_last_was_change := True\<rparr>)"
| "token_op inp (Insert old_index new_index new_len) st =
     (if new_len = 0 then st
      else let start = tk_start (ti_new_tokens inp ! new_index);
               end' = tk_end (ti_new_tokens inp ! (new_index + new_len - 1));
               st = append_gap inp (td_old_cursor st) start st
           in st\<lparr>td_diffs := td_diffs st @ [ByteDiff_new BInsert (slice (ti_new inp) start end')],
                 td_substantive := td_substantive st @ [(start, end')],
                 td_new_cursor := end', td_last_was_change := True\<rparr>)"
| "token_op inp (Replace old_index old_len new_index new_len) st =
     (let old_start_pos = (if old_index < length (ti_old_tokens inp)
                           then tk_start (ti_old_tokens inp ! old_index) else td_old_cursor st);
          new_start_pos = (if new_index < length (ti_new_tokens inp)
                           then tk_start (ti_new_tokens inp ! new_index) else td_new_cursor st);
          old_end_pos = tk_end (ti_old_tokens inp ! (old_index + old_len - 1));
          new_end_pos = tk_end (ti_new_tokens inp ! (new_index + new_len - 1));
          st = append_gap inp old_start_pos new_start_pos st;
          st = (if 0 < old_len
                then st\<lparr>td_diffs := td_diffs st @
                          [ByteDiff_new BDelete (slice (ti_old inp) old_start_pos old_end_pos)],
                        td_old_cursor := old_end_pos\<rparr>
                else st\<lparr>td_old_cursor := old_start_pos\<rparr>);
          st = (if 0 < new_len
                then st\<lparr>td_diffs := td_diffs st @
                          [ByteDiff_new BInsert (slice (ti_new inp) new_start_pos new_end_pos)],
                        td_substantive := td_substantive st @ [(new_start_pos, new_end_pos)],
                        td_new_cursor := new_end_pos\<rparr>
                else st\<lparr>td_new_cursor := new_start_pos\<rparr>)
      in st\<lparr>td_last_was_change := True\<rparr>)"

text \<open>The parameters of the model: the diff algorithm and the Unicode tables.\<close>

record Externals =
  ex_diff :: "str differ"
  ex_alpha :: "str \<Rightarrow> bool"
  ex_numeric :: "str \<Rightarrow> bool"

definition build_token_aligned_diffs ::
  "Externals \<Rightarrow> str \<Rightarrow> str \<Rightarrow> byte_range \<Rightarrow> byte_range \<Rightarrow> ByteDiff list \<times> byte_range list" where
  "build_token_aligned_diffs ex old_content new_content old_range new_range =
     (let (old_start, old_end) = old_range; (new_start, new_end) = new_range;
          old_tokens = tokenize_non_whitespace (ex_alpha ex) (ex_numeric ex) old_content old_range;
          new_tokens = tokenize_non_whitespace (ex_alpha ex) (ex_numeric ex) new_content new_range
      in if old_tokens = [] \<and> new_tokens = []
         then (append_range_diffs old_content new_content (old_start, old_end) (new_start, new_end) False, [])
         else let inp = \<lparr>ti_old = old_content, ti_new = new_content,
                         ti_old_tokens = old_tokens, ti_new_tokens = new_tokens\<rparr>;
                  token_ops = capture_diff_slices (ex_diff ex) (map tk_lexeme old_tokens)
                                (map tk_lexeme new_tokens);
                  st = fold (token_op inp) token_ops
                         \<lparr>td_diffs = [], td_substantive = [], td_old_cursor = old_start,
                          td_new_cursor = new_start, td_last_was_change = False\<rparr>;
                  st = append_gap inp old_end new_end st
              in (td_diffs st, td_substantive st))"

section \<open>Lemmas: the two sides of a byte diff\<close>

definition old_side :: "ByteDiff list \<Rightarrow> str" where
  "old_side ds = concat (map bd_data (filter (\<lambda>d. bd_op d \<noteq> BInsert) ds))"

definition new_side :: "ByteDiff list \<Rightarrow> str" where
  "new_side ds = concat (map bd_data (filter (\<lambda>d. bd_op d \<noteq> BDelete) ds))"

lemma sides_append [simp]:
  "old_side (ds @ es) = old_side ds @ old_side es" "new_side (ds @ es) = new_side ds @ new_side es"
  by (simp_all add: old_side_def new_side_def)

lemma sides_Nil [simp]: "old_side [] = []" "new_side [] = []"
  by (simp_all add: old_side_def new_side_def)

lemma sides_Cons [simp]:
  "old_side (ByteDiff_new op data # ds) = (if op = BInsert then [] else data) @ old_side ds"
  "new_side (ByteDiff_new op data # ds) = (if op = BDelete then [] else data) @ new_side ds"
  by (simp_all add: old_side_def new_side_def ByteDiff_new_def)

lemma slice_empty: "j \<le> i \<Longrightarrow> slice s i j = []"
  by (simp add: slice_def)

lemma append_range_sides [simp]:
  "old_side (append_range_diffs old new (a, b) (c, d) force) = slice old a b"
  "new_side (append_range_diffs old new (a, b) (c, d) force) = slice new c d"
  by (auto simp: append_range_diffs_def Let_def slice_empty)

lemma append_gap_fields [simp]:
  "td_old_cursor (append_gap inp a b st) = td_old_cursor st"
  "td_new_cursor (append_gap inp a b st) = td_new_cursor st"
  "old_side (td_diffs (append_gap inp a b st)) = old_side (td_diffs st) @ slice (ti_old inp) (td_old_cursor st) a"
  "new_side (td_diffs (append_gap inp a b st)) = new_side (td_diffs st) @ slice (ti_new inp) (td_new_cursor st) b"
  by (simp_all add: append_gap_def)

section \<open>Lemmas: token positions\<close>

text \<open>Where the text before token \<open>i\<close> ends, and the order of the positions.\<close>

definition token_pos :: "Token list \<Rightarrow> nat \<Rightarrow> nat \<Rightarrow> nat" where
  "token_pos toks lo i = (if i = 0 then lo else tk_end (toks ! (i - 1)))"

lemma tokens_in_nth:
  assumes "tokens_in s lo hi toks" and "i < length toks"
  shows "token_pos toks lo i \<le> tk_start (toks ! i) \<and> tk_start (toks ! i) < tk_end (toks ! i) \<and>
     tk_end (toks ! i) \<le> hi \<and> tk_lexeme (toks ! i) = slice s (tk_start (toks ! i)) (tk_end (toks ! i))"
  using assms
proof (induction toks arbitrary: lo i)
  case (Cons t ts)
  then show ?case
    by (cases i) (fastforce simp: token_pos_def nth_Cons' split: if_splits)+
qed simp

lemma token_pos_mono:
  assumes "tokens_in s lo hi toks" and "i \<le> j" and "j \<le> length toks"
  shows "token_pos toks lo i \<le> token_pos toks lo j"
  using assms(2,3)
proof (induction j rule: dec_induct)
  case (step j)
  with tokens_in_nth [OF assms(1), of j] show ?case by (simp add: token_pos_def)
qed simp

lemma token_pos_le_hi: "tokens_in s lo hi toks \<Longrightarrow> i \<le> length toks \<Longrightarrow> token_pos toks lo i \<le> hi"
  using tokens_in_nth [of s lo hi toks "i - 1"]
  by (cases toks; cases i) (auto simp: token_pos_def)

lemma tokens_in_lo_hi: "tokens_in s lo hi toks \<Longrightarrow> lo \<le> hi"
  by (induction toks arbitrary: lo) force+

lemma slice_append3: "a \<le> b \<Longrightarrow> b \<le> c \<Longrightarrow> c \<le> d \<Longrightarrow> slice s a b @ slice s b c @ slice s c d = slice s a d"
  by (simp add: slice_append)

lemma token_run:
  assumes "tokens_in s lo hi toks" and "i < k" and "k \<le> length toks"
  shows "slice s lo (token_pos toks lo i) @ slice s (token_pos toks lo i) (tk_start (toks ! i)) @
      slice s (tk_start (toks ! i)) (token_pos toks lo k) = slice s lo (token_pos toks lo k)"
proof (rule slice_append3)
  show "lo \<le> token_pos toks lo i"
    using token_pos_mono [OF assms(1), of 0 i] assms(2,3) by (simp add: token_pos_def)
  show "token_pos toks lo i \<le> tk_start (toks ! i)" using tokens_in_nth [OF assms(1), of i] assms(2,3) by simp
  have "tk_start (toks ! i) \<le> token_pos toks lo (Suc i)"
    using tokens_in_nth [OF assms(1), of i] assms(2,3) by (simp add: token_pos_def)
  also have "\<dots> \<le> token_pos toks lo k" using token_pos_mono [OF assms(1), of "Suc i" k] assms(2,3) by simp
  finally show "tk_start (toks ! i) \<le> token_pos toks lo k" .
qed

section \<open>Lemmas: the loop over the token operations\<close>

text \<open>After the first \<open>i\<close> old and \<open>j\<close> new tokens the diffs are the text up to there.\<close>

definition reached :: "TokenDiffInput \<Rightarrow> nat \<Rightarrow> nat \<Rightarrow> nat \<Rightarrow> nat \<Rightarrow> TokenDiffState \<Rightarrow> bool" where
  "reached inp a b i j st \<longleftrightarrow>
     td_old_cursor st = token_pos (ti_old_tokens inp) a i \<and>
     td_new_cursor st = token_pos (ti_new_tokens inp) b j \<and>
     old_side (td_diffs st) = slice (ti_old inp) a (td_old_cursor st) \<and>
     new_side (td_diffs st) = slice (ti_new inp) b (td_new_cursor st)"

definition tokenized :: "TokenDiffInput \<Rightarrow> nat \<Rightarrow> nat \<Rightarrow> nat \<Rightarrow> nat \<Rightarrow> bool" where
  "tokenized inp a a' b b' \<longleftrightarrow>
     tokens_in (ti_old inp) a a' (ti_old_tokens inp) \<and> tokens_in (ti_new inp) b b' (ti_new_tokens inp)"

lemma reached_equal_token:
  assumes "tokenized inp a a' b b'" and "reached inp a b i j st"
    and "i < length (ti_old_tokens inp)" and "j < length (ti_new_tokens inp)"
    and "tk_lexeme (ti_old_tokens inp ! i) = tk_lexeme (ti_new_tokens inp ! j)"
  shows "reached inp a b (Suc i) (Suc j) (equal_token inp i j st)"
proof -
  have o: "tokens_in (ti_old inp) a a' (ti_old_tokens inp)" and n: "tokens_in (ti_new inp) b b' (ti_new_tokens inp)"
    using assms(1) by (simp_all add: tokenized_def)
  have "slice (ti_new inp) (tk_start (ti_new_tokens inp ! j)) (tk_end (ti_new_tokens inp ! j)) =
      slice (ti_old inp) (tk_start (ti_old_tokens inp ! i)) (tk_end (ti_old_tokens inp ! i))"
    using tokens_in_nth [OF o assms(3)] tokens_in_nth [OF n assms(4)] assms(5) by simp
  then show ?thesis
    using assms(2) token_run [OF o, of i "Suc i"] token_run [OF n, of j "Suc j"] assms(3,4)
    by (simp add: reached_def equal_token_def Let_def token_pos_def)
qed

lemma reached_equal_tokens:
  assumes "tokenized inp a a' b b'" and "reached inp a b i j st"
    and "i + n \<le> length (ti_old_tokens inp)" and "j + n \<le> length (ti_new_tokens inp)"
    and "\<And>k. k < n \<Longrightarrow> tk_lexeme (ti_old_tokens inp ! (i + k)) = tk_lexeme (ti_new_tokens inp ! (j + k))"
  shows "reached inp a b (i + n) (j + n) (equal_tokens inp i j n st)"
  using assms(2-)
proof (induction n arbitrary: i j st)
  case (Suc n)
  have "reached inp a b (Suc i) (Suc j) (equal_token inp i j st)"
    using Suc.prems(1-3) Suc.prems(4) [of 0] by (intro reached_equal_token [OF assms(1)]) simp_all
  moreover have "\<And>k. k < n \<Longrightarrow>
      tk_lexeme (ti_old_tokens inp ! (Suc i + k)) = tk_lexeme (ti_new_tokens inp ! (Suc j + k))"
    using Suc.prems(4) [of "Suc _"] by simp
  ultimately have "reached inp a b (Suc i + n) (Suc j + n)
      (equal_tokens inp (Suc i) (Suc j) n (equal_token inp i j st))"
    using Suc.prems(2,3) by (intro Suc.IH) simp_all
  then show ?case by simp
qed simp

lemma reached_delete:
  assumes "tokenized inp a a' b b'" and "reached inp a b i j st" and "0 < n"
    and "i + n \<le> length (ti_old_tokens inp)"
  shows "reached inp a b (i + n) j (token_op inp (Delete i n j) st)"
proof -
  have o: "tokens_in (ti_old inp) a a' (ti_old_tokens inp)" using assms(1) by (simp add: tokenized_def)
  show ?thesis using assms(2-) token_run [OF o, of i "i + n"]
    by (simp add: reached_def Let_def token_pos_def [of _ _ "i + n"] slice_empty)
qed

lemma reached_insert:
  assumes "tokenized inp a a' b b'" and "reached inp a b i j st" and "0 < n"
    and "j + n \<le> length (ti_new_tokens inp)"
  shows "reached inp a b i (j + n) (token_op inp (Insert i j n) st)"
proof -
  have o: "tokens_in (ti_new inp) b b' (ti_new_tokens inp)" using assms(1) by (simp add: tokenized_def)
  show ?thesis using assms(2-) token_run [OF o, of j "j + n"]
    by (simp add: reached_def Let_def token_pos_def [of _ _ "j + n"] slice_empty)
qed

lemma reached_replace:
  assumes "tokenized inp a a' b b'" and "reached inp a b i j st" and "0 < n" and "0 < m"
    and "i + n \<le> length (ti_old_tokens inp)" and "j + m \<le> length (ti_new_tokens inp)"
  shows "reached inp a b (i + n) (j + m) (token_op inp (Replace i n j m) st)"
proof -
  have o: "tokens_in (ti_old inp) a a' (ti_old_tokens inp)" and w: "tokens_in (ti_new inp) b b' (ti_new_tokens inp)"
    using assms(1) by (simp_all add: tokenized_def)
  show ?thesis using assms(2-) token_run [OF o, of i "i + n"] token_run [OF w, of j "j + m"]
    by (simp add: reached_def Let_def token_pos_def [of _ _ "i + n"] token_pos_def [of _ _ "j + m"] slice_empty)
qed

lemma slice_nth: "k < n \<Longrightarrow> i + n \<le> length xs \<Longrightarrow> slice xs i (i + n) ! k = xs ! (i + k)"
  by (simp add: slice_def)

lemma reached_ops:
  assumes "tokenized inp a a' b b'" and "reached inp a b i j st"
    and "tiles (map tk_lexeme (ti_old_tokens inp)) (map tk_lexeme (ti_new_tokens inp)) i j ops"
  shows "reached inp a b (length (ti_old_tokens inp)) (length (ti_new_tokens inp))
     (fold (token_op inp) ops st)"
  using assms(2,3)
proof (induction ops arbitrary: i j st)
  case (Cons op ops)
  show ?case
  proof (cases op)
    case (Equal x y n)
    have eq: "tk_lexeme (ti_old_tokens inp ! (i + k)) = tk_lexeme (ti_new_tokens inp ! (j + k))" if "k < n" for k
      using Cons.prems(2) Equal that slice_nth [of k n i "map tk_lexeme (ti_old_tokens inp)"]
        slice_nth [of k n j "map tk_lexeme (ti_new_tokens inp)"] by simp
    have "reached inp a b (i + n) (j + n) (token_op inp op st)"
      using Cons.prems Equal eq reached_equal_tokens [OF assms(1) Cons.prems(1), of n] by simp
    with Cons.prems(2) Equal show ?thesis by (auto intro: Cons.IH)
  next
    case (Delete x n y)
    then have "reached inp a b (i + n) j (token_op inp op st)"
      using Cons.prems reached_delete [OF assms(1) Cons.prems(1), of n] by simp
    with Cons.prems(2) Delete show ?thesis by (auto intro: Cons.IH)
  next
    case (Insert x y n)
    then have "reached inp a b i (j + n) (token_op inp op st)"
      using Cons.prems reached_insert [OF assms(1) Cons.prems(1), of n] by simp
    with Cons.prems(2) Insert show ?thesis by (auto intro: Cons.IH)
  next
    case (Replace x n y m)
    then have "reached inp a b (i + n) (j + m) (token_op inp op st)"
      using Cons.prems reached_replace [OF assms(1) Cons.prems(1), of n m] by simp
    with Cons.prems(2) Replace show ?thesis by (auto intro: Cons.IH)
  qed
qed simp

text \<open>What the program needs of the diff algorithm.\<close>

definition diff_contract :: "str differ \<Rightarrow> bool" where
  "diff_contract diff \<longleftrightarrow> (\<forall>old new. valid_diff old new (diff old new))"

lemma token_aligned_sides:
  assumes "diff_contract (ex_diff ex)" and "fits old a a'" and "fits new b b'"
  shows "old_side (fst (build_token_aligned_diffs ex old new (a, a') (b, b'))) = slice old a a'"
    and "new_side (fst (build_token_aligned_diffs ex old new (a, a') (b, b'))) = slice new b b'"
proof -
  let ?ot = "tokenize_non_whitespace (ex_alpha ex) (ex_numeric ex) old (a, a')"
  let ?nt = "tokenize_non_whitespace (ex_alpha ex) (ex_numeric ex) new (b, b')"
  let ?inp = "\<lparr>ti_old = old, ti_new = new, ti_old_tokens = ?ot, ti_new_tokens = ?nt\<rparr>"
  let ?ops = "capture_diff_slices (ex_diff ex) (map tk_lexeme ?ot) (map tk_lexeme ?nt)"
  let ?init = "\<lparr>td_diffs = [], td_substantive = [], td_old_cursor = a, td_new_cursor = b,
    td_last_was_change = False\<rparr>"
  let ?st = "fold (token_op ?inp) ?ops ?init"
  have tok: "tokens_in old a a' ?ot" "tokens_in new b b' ?nt"
    using assms(2,3) by (intro tokenize_range_tokens_in; simp)+
  then have "tokenized ?inp a a' b b'" by (simp add: tokenized_def)
  moreover have "reached ?inp a b 0 0 ?init" by (simp add: reached_def token_pos_def)
  moreover have "tiles (map tk_lexeme ?ot) (map tk_lexeme ?nt) 0 0 ?ops"
    using assms(1) by (intro capture_diff_slices_tiles) (simp add: diff_contract_def)
  ultimately have r: "reached ?inp a b (length ?ot) (length ?nt) ?st"
    using reached_ops [of ?inp a a' b b' 0 0 ?init ?ops] by simp
  have le: "a \<le> token_pos ?ot a (length ?ot)" "token_pos ?ot a (length ?ot) \<le> a'"
    "b \<le> token_pos ?nt b (length ?nt)" "token_pos ?nt b (length ?nt) \<le> b'"
    using token_pos_mono [OF tok(1), of 0] token_pos_mono [OF tok(2), of 0]
      token_pos_le_hi [OF tok(1)] token_pos_le_hi [OF tok(2)] tokens_in_lo_hi [OF tok(1)] tokens_in_lo_hi [OF tok(2)]
    by (simp_all add: token_pos_def [of _ _ 0])
  show "old_side (fst (build_token_aligned_diffs ex old new (a, a') (b, b'))) = slice old a a'"
    using r le by (auto simp: build_token_aligned_diffs_def Let_def reached_def slice_append)
  show "new_side (fst (build_token_aligned_diffs ex old new (a, a') (b, b'))) = slice new b b'"
    using r le by (auto simp: build_token_aligned_diffs_def Let_def reached_def slice_append)
qed

end
