(* ===== verification/Line_Metadata.thy ===== *)
theory Line_Metadata
  imports Diff_Utils Attribution_Data
begin

text \<open>
  Lines and byte offsets (\<open>src/authorship/attribution_tracker.rs\<close>): the line table of a text, the
  byte range of a range of lines, the line boundaries used for line attributions, and the map
  between the offsets of a text and those of the text with normalised line endings.
\<close>

section \<open>Operations\<close>

record LineMetadata =
  lm_number :: nat
  lm_start :: nat
  lm_end :: nat
  lm_text :: str

definition pop_cr :: "str \<Rightarrow> str" where
  "pop_cr text = (if ends_with text [carriage_return] then butlast text else text)"

fun metadata_loop :: "str \<Rightarrow> nat \<Rightarrow> nat \<Rightarrow> nat \<Rightarrow> str \<Rightarrow> LineMetadata list" where
  "metadata_loop content line_start line_number idx [] =
     (if line_start < length content
      then [\<lparr>lm_number = line_number, lm_start = line_start, lm_end = length content,
             lm_text = pop_cr (drop line_start content)\<rparr>]
      else [])"
| "metadata_loop content line_start line_number idx (ch # rest) =
     (if ch = newline
      then \<lparr>lm_number = line_number, lm_start = line_start, lm_end = idx + 1,
            lm_text = pop_cr (slice content line_start idx)\<rparr>
           # metadata_loop content (idx + 1) (line_number + 1) (idx + 1) rest
      else metadata_loop content line_start line_number (idx + 1) rest)"

definition collect_line_metadata :: "str \<Rightarrow> LineMetadata list" where
  "collect_line_metadata content = metadata_loop content 0 1 0 content"

definition nth_or :: "nat \<Rightarrow> ('a \<Rightarrow> nat) \<Rightarrow> 'a list \<Rightarrow> nat \<Rightarrow> nat" where
  "nth_or fallback f xs i = (if i < length xs then f (xs ! i) else fallback)"

definition line_range_to_byte_range :: "LineMetadata list \<Rightarrow> nat \<Rightarrow> nat \<Rightarrow> nat \<Rightarrow> nat \<times> nat" where
  "line_range_to_byte_range lines start_idx end_idx content_len =
     (if end_idx \<le> start_idx
      then let pos = nth_or content_len lm_start lines start_idx in (pos, pos)
      else (nth_or content_len lm_start lines start_idx, nth_or content_len lm_end lines (end_idx - 1)))"

text \<open>\<open>LineBoundaries\<close>: the byte ranges of the lines, and their lookup by \<open>u32\<close> line number.\<close>

fun boundaries_loop :: "nat \<Rightarrow> nat \<Rightarrow> str \<Rightarrow> (nat \<times> nat) list" where
  "boundaries_loop start idx [] = (if start < idx then [(start, idx)] else [])"
| "boundaries_loop start idx (ch # rest) =
     (if ch = newline then (start, idx + 1) # boundaries_loop (idx + 1) (idx + 1) rest
      else boundaries_loop start (idx + 1) rest)"

definition LineBoundaries_new :: "str \<Rightarrow> (nat \<times> nat) list" where
  "LineBoundaries_new content = boundaries_loop 0 0 content"

definition line_count :: "(nat \<times> nat) list \<Rightarrow> u32" where
  "line_count line_ranges = of_nat (length line_ranges)"

definition get_line_range :: "(nat \<times> nat) list \<Rightarrow> u32 \<Rightarrow> (nat \<times> nat) option" where
  "get_line_range line_ranges line_num =
     (if line_num < 1 \<or> length line_ranges < unat line_num then None
      else Some (line_ranges ! (unat line_num - 1)))"

section \<open>Offsets of a text and of its normalised form\<close>

type_synonym LineEndingOffsets = "(nat \<times> nat) list"

fun removed_crs_loop :: "nat \<Rightarrow> nat \<Rightarrow> str \<Rightarrow> LineEndingOffsets" where
  "removed_crs_loop offset removed (c # d # rest) =
     (if c = carriage_return \<and> d = newline
      then (offset, offset - removed) # removed_crs_loop (offset + 1) (removed + 1) (d # rest)
      else removed_crs_loop (offset + 1) removed (d # rest))"
| "removed_crs_loop offset removed _ = []"

definition LineEndingOffsets_new :: "str \<Rightarrow> LineEndingOffsets" where
  "LineEndingOffsets_new content = removed_crs_loop 0 0 content"

definition partition_point :: "('a \<Rightarrow> bool) \<Rightarrow> 'a list \<Rightarrow> nat" where
  "partition_point P xs = length (takeWhile P xs)"

definition to_normalized :: "LineEndingOffsets \<Rightarrow> nat \<Rightarrow> nat" where
  "to_normalized removed_crs offset =
     offset - partition_point (\<lambda>(original, _). original < offset) removed_crs"

definition to_original :: "LineEndingOffsets \<Rightarrow> nat \<Rightarrow> nat" where
  "to_original removed_crs offset =
     offset + partition_point (\<lambda>(_, normalized). normalized < offset) removed_crs"

definition normalize_attribution :: "LineEndingOffsets \<Rightarrow> Attribution \<Rightarrow> Attribution option" where
  "normalize_attribution removed_crs attr =
     (let start = to_normalized removed_crs (at_start attr);
          end' = to_normalized removed_crs (at_end attr)
      in if start < end' \<or> at_start attr = at_end attr
         then Some (Attribution_new start end' (at_author_id attr) (at_ts attr)) else None)"

section \<open>Lemmas: lines\<close>

text \<open>The byte position where line \<open>k\<close> (from 0) starts.\<close>

definition line_pos :: "str list \<Rightarrow> nat \<Rightarrow> nat" where
  "line_pos lines k = length (concat (take k lines))"

lemma line_pos_simps [simp]:
  "line_pos ls 0 = 0" "line_pos (l # ls) (Suc k) = length l + line_pos ls k"
  by (simp_all add: line_pos_def)

lemma line_pos_end: "length ls \<le> k \<Longrightarrow> line_pos ls k = length (concat ls)"
  by (simp add: line_pos_def)

lemma line_pos_mono: "i \<le> j \<Longrightarrow> line_pos ls i \<le> line_pos ls j"
proof -
  assume "i \<le> j"
  then have "take j ls = take i ls @ take (j - i) (drop i ls)" by (metis le_add_diff_inverse take_add)
  then show ?thesis by (simp add: line_pos_def)
qed

lemma line_pos_le: "line_pos ls i \<le> length (concat ls)"
  using line_pos_mono [of i "max i (length ls)" ls] by (simp add: line_pos_end)

lemma line_pos_Suc: "k < length ls \<Longrightarrow> line_pos ls (Suc k) = line_pos ls k + length (ls ! k)"
  by (simp add: line_pos_def take_Suc_conv_app_nth)

lemma slice_line_pos:
  assumes "i \<le> j"
  shows "slice (concat ls) (line_pos ls i) (line_pos ls j) = concat (slice ls i j)"
proof -
  have "concat ls = concat (take i ls) @ concat (slice ls i j) @ concat (drop j ls)"
    using drop_slice [OF assms, of ls] by (metis append_take_drop_id concat_append)
  moreover have "line_pos ls j = line_pos ls i + length (concat (slice ls i j))"
    using assms unfolding line_pos_def slice_def
    by (metis concat_append le_add_diff_inverse length_append take_add)
  ultimately show ?thesis by (simp add: slice_def line_pos_def)
qed

text \<open>The table has the lines of the text, each with its number, its byte range and its text.\<close>

fun table :: "nat \<Rightarrow> nat \<Rightarrow> str list \<Rightarrow> LineMetadata list" where
  "table start number [] = []"
| "table start number (l # ls) =
     \<lparr>lm_number = number, lm_start = start, lm_end = start + length l,
      lm_text = pop_cr (if ends_with l [newline] then butlast l else l)\<rparr>
     # table (start + length l) (number + 1) ls"

lemma ends_with_single_mem: "ends_with s [c] \<Longrightarrow> c \<in> set s"
  by (metis ends_with_def in_set_dropD list.set_intros(1))

lemma metadata_loop_table:
  assumes "s = pre @ line @ rest" and "newline \<notin> set line" and "start = length pre"
    and "idx = length pre + length line"
  shows "metadata_loop s start number idx rest = table start number (split_inclusive (line @ rest))"
  using assms
proof (induction rest arbitrary: pre line start number idx)
  case Nil
  then show ?case
    by (cases "line = []") (auto simp: split_inclusive_last dest: ends_with_single_mem)
next
  case (Cons c rest)
  show ?case
  proof (cases "c = newline")
    case True
    have "metadata_loop s (idx + 1) (number + 1) (idx + 1) rest =
        table (idx + 1) (number + 1) (split_inclusive ([] @ rest))"
      using Cons.prems True by (intro Cons.IH [of "pre @ line @ [c]"]) simp_all
    with True Cons.prems show ?thesis
      by (simp add: split_inclusive_line slice_def ends_with_def)
  next
    case False
    with Cons.prems Cons.IH [of pre "line @ [c]" start "idx + 1"] show ?thesis by simp
  qed
qed

lemma collect_line_metadata_table: "collect_line_metadata s = table 0 1 (split_inclusive s)"
  using metadata_loop_table [of s "[]" "[]" s 0 0 1] by (simp add: collect_line_metadata_def)

lemma length_table [simp]: "length (table p n ls) = length ls"
  by (induction ls arbitrary: p n) simp_all

lemma table_nth:
  "k < length ls \<Longrightarrow> lm_start (table p n ls ! k) = p + line_pos ls k \<and>
     lm_end (table p n ls ! k) = p + line_pos ls (Suc k) \<and> lm_number (table p n ls ! k) = n + k"
  by (induction ls arbitrary: p n k) (auto simp: nth_Cons split: nat.splits)

lemma length_metadata [simp]: "length (collect_line_metadata s) = length (split_inclusive s)"
  by (simp add: collect_line_metadata_table)

lemma metadata_nth:
  "k < length (split_inclusive s) \<Longrightarrow>
     lm_start (collect_line_metadata s ! k) = line_pos (split_inclusive s) k \<and>
     lm_end (collect_line_metadata s ! k) = line_pos (split_inclusive s) (Suc k) \<and>
     lm_number (collect_line_metadata s ! k) = Suc k"
  by (simp add: collect_line_metadata_table table_nth)

lemma metadata_slices:
  "map (\<lambda>line. slice s (lm_start line) (lm_end line)) (collect_line_metadata s) = split_inclusive s"
proof (rule nth_equalityI)
  fix k assume "k < length (map (\<lambda>line. slice s (lm_start line) (lm_end line)) (collect_line_metadata s))"
  then have k: "k < length (split_inclusive s)" by simp
  have "slice (split_inclusive s) k (Suc k) = [split_inclusive s ! k]"
    using k by (simp add: slice_def take_Suc_conv_app_nth hd_drop_conv_nth Cons_nth_drop_Suc [symmetric])
  with slice_line_pos [of k "Suc k" "split_inclusive s"] k
  show "map (\<lambda>line. slice s (lm_start line) (lm_end line)) (collect_line_metadata s) ! k = split_inclusive s ! k"
    by (simp add: metadata_nth)
qed simp

text \<open>A range of lines that exist is the byte range of their text.\<close>

lemma line_range_to_byte_range_eq:
  assumes "a \<le> b" and "b \<le> length (split_inclusive s)"
  shows "line_range_to_byte_range (collect_line_metadata s) a b (length s) =
     (line_pos (split_inclusive s) a, line_pos (split_inclusive s) b)"
proof (cases "a = b")
  case True
  then show ?thesis
    using assms line_pos_end [of "split_inclusive s" a]
    by (auto simp: line_range_to_byte_range_def nth_or_def Let_def metadata_nth)
next
  case False
  with assms show ?thesis
    by (auto simp: line_range_to_byte_range_def nth_or_def metadata_nth)
qed

lemma boundaries_loop_table:
  assumes "s = pre @ line @ rest" and "newline \<notin> set line" and "start = length pre"
    and "idx = length pre + length line"
  shows "boundaries_loop start idx rest =
     map (\<lambda>m. (lm_start m, lm_end m)) (metadata_loop s start number idx rest)"
  using assms
proof (induction rest arbitrary: pre line start number idx)
  case Nil
  then show ?case by simp
next
  case (Cons c rest)
  show ?case
  proof (cases "c = newline")
    case True
    with Cons.prems Cons.IH [of "pre @ line @ [c]" "[]" "idx + 1" "idx + 1"] show ?thesis by simp
  next
    case False
    with Cons.prems Cons.IH [of pre "line @ [c]" start "idx + 1"] show ?thesis by simp
  qed
qed

lemma LineBoundaries_table:
  "LineBoundaries_new s = map (\<lambda>m. (lm_start m, lm_end m)) (collect_line_metadata s)"
  using boundaries_loop_table [of s "[]" "[]" s 0 0 1]
  by (simp add: LineBoundaries_new_def collect_line_metadata_def)

lemma length_LineBoundaries [simp]: "length (LineBoundaries_new s) = length (split_inclusive s)"
  by (simp add: LineBoundaries_table)

lemma LineBoundaries_nth:
  "k < length (split_inclusive s) \<Longrightarrow>
     LineBoundaries_new s ! k = (line_pos (split_inclusive s) k, line_pos (split_inclusive s) (Suc k))"
  by (simp add: LineBoundaries_table metadata_nth)

section \<open>Lemmas: line-ending offsets\<close>

fun crs_before :: "str \<Rightarrow> nat \<Rightarrow> nat" where
  "crs_before s 0 = 0"
| "crs_before (c # d # s) (Suc k) =
     (if c = carriage_return \<and> d = newline then 1 else 0) + crs_before (d # s) k"
| "crs_before [] (Suc k) = 0"
| "crs_before [c] (Suc k) = 0"

fun crs_until :: "str \<Rightarrow> nat \<Rightarrow> nat" where
  "crs_until s 0 = 0"
| "crs_until (c # d # s) (Suc k) =
     (if c = carriage_return \<and> d = newline then 1 + crs_until (d # s) (Suc k) else crs_until (d # s) k)"
| "crs_until [] (Suc k) = 0"
| "crs_until [c] (Suc k) = 0"

lemma removed_crs_loop_bounds:
  "m \<le> k \<Longrightarrow> (a, b) \<in> set (removed_crs_loop k m s) \<Longrightarrow> k \<le> a \<and> k - m \<le> b"
  by (induction k m s rule: removed_crs_loop.induct) (fastforce split: if_splits)+

lemma takeWhile_none: "(\<And>x. x \<in> set xs \<Longrightarrow> \<not> P x) \<Longrightarrow> takeWhile P xs = []"
  by (cases xs) auto

lemma partition_original:
  "m \<le> k \<Longrightarrow> partition_point (\<lambda>(a, _). a < k + p) (removed_crs_loop k m s) = crs_before s p"
proof (induction s p arbitrary: k m rule: crs_before.induct)
  case (2 c d s p)
  then show ?case
    using "2.IH" [of "m + 1" "k + 1"] "2.IH" [of m "k + 1"] by (auto simp: partition_point_def)
next
  case (1 s)
  have "takeWhile (\<lambda>(a, _). a < k + 0) (removed_crs_loop k m s) = []"
    using removed_crs_loop_bounds [OF 1] by (intro takeWhile_none) fastforce
  then show ?case by (cases s rule: remdups_adj.cases) (simp_all add: partition_point_def)
qed (simp_all add: partition_point_def)

lemma partition_normalized:
  "m \<le> k \<Longrightarrow> partition_point (\<lambda>(_, b). b < k - m + p) (removed_crs_loop k m s) = crs_until s p"
proof (induction s p arbitrary: k m rule: crs_until.induct)
  case (2 c d s p)
  show ?case
  proof (cases "c = carriage_return \<and> d = newline")
    case True
    then show ?thesis using "2.IH"(1) [OF True, of "m + 1" "k + 1"] "2.prems" by (simp add: partition_point_def)
  next
    case False
    have "Suc k - m + p = k - m + Suc p" using "2.prems" by simp
    with False show ?thesis using "2.IH"(2) [OF False, of m "k + 1"] "2.prems" by (auto simp: partition_point_def)
  qed
next
  case (1 s)
  have "takeWhile (\<lambda>(_, b). b < k - m + 0) (removed_crs_loop k m s) = []"
    using removed_crs_loop_bounds [OF 1] by (intro takeWhile_none) fastforce
  then show ?case by (cases s rule: remdups_adj.cases) (simp_all add: partition_point_def)
qed (simp_all add: partition_point_def)

lemma to_normalized_eq: "to_normalized (LineEndingOffsets_new s) p = p - crs_before s p"
  using partition_original [of 0 0 p s] by (simp add: to_normalized_def LineEndingOffsets_new_def)

lemma to_original_eq: "to_original (LineEndingOffsets_new s) p = p + crs_until s p"
  using partition_normalized [of 0 0 p s] by (simp add: to_original_def LineEndingOffsets_new_def)

lemma crs_short [simp]:
  "crs_until [] n = 0" "crs_before [] n = 0" "crs_until [c] n = 0" "crs_before [c] n = 0"
  by (cases n; simp)+

lemma crs_until_newline [simp]: "crs_until (newline # s) (Suc n) = crs_until s n"
  by (cases s) simp_all

lemma crs_before_newline [simp]: "crs_before (newline # s) (Suc n) = crs_before s n"
  by (cases s) simp_all

lemma crs_until_0 [simp]: "crs_until s 0 = 0" "crs_before s 0 = 0"
  by (cases s rule: remdups_adj.cases; simp)+

lemma crs_before_until: "crs_before s (n + crs_until s n) = crs_until s n"
proof (induction s arbitrary: n rule: replace_crlf.induct)
  case (3 c d s)
  show ?case
  proof (cases "c = carriage_return \<and> d = newline")
    case True
    with 3 show ?thesis by (cases n) simp_all
  next
    case False
    with 3 show ?thesis by (cases n) auto
  qed
qed simp_all

lemma replace_crlf_Cons:
  "\<not> (c = carriage_return \<and> s \<noteq> [] \<and> hd s = newline) \<Longrightarrow> replace_crlf (c # s) = c # replace_crlf s"
  by (cases s) auto

lemma replace_crlf_take_original:
  "replace_crlf (take (n + crs_until s n) s) = take n (replace_crlf s)"
proof (induction s arbitrary: n rule: replace_crlf.induct)
  case (3 c d s)
  show ?case
  proof (cases n)
    case (Suc m)
    show ?thesis
    proof (cases "c = carriage_return \<and> d = newline")
      case True
      with 3 Suc show ?thesis by simp
    next
      case False
      then have "replace_crlf (c # take (m + crs_until (d # s) m) (d # s)) =
          c # replace_crlf (take (m + crs_until (d # s) m) (d # s))"
        by (intro replace_crlf_Cons) (cases "m + crs_until (d # s) m"; simp)
      with 3 Suc False show ?thesis by (auto simp del: replace_crlf.simps simp add: replace_crlf.simps(3) [of c d])
    qed
  qed simp
next
  case (2 c)
  then show ?case by (cases n) simp_all
qed simp

section \<open>Properties\<close>

text \<open>C36. Offsets of a text with CRLF line endings and of its normalised form correspond: an offset
  of the normalised text is mapped to the offset before which the original text normalises to the
  same prefix, so an attributed newline becomes the whole CRLF pair, and mapping back gives the
  offset again.\<close>

theorem line_ending_offsets_correct:
  "normalize_line_endings (take (to_original (LineEndingOffsets_new s) n) s) =
       take n (normalize_line_endings s) \<and>
     to_normalized (LineEndingOffsets_new s) (to_original (LineEndingOffsets_new s) n) = n"
  by (simp add: normalize_is_replace to_original_eq to_normalized_eq crs_before_until
      replace_crlf_take_original)

text \<open>The two scans that find the lines of a text agree, and with the split into terminated
  lines: the byte range a line's metadata has is the range its line boundaries have, and the text in
  it is the line.\<close>

theorem line_tables_agree:
  "LineBoundaries_new s = map (\<lambda>m. (lm_start m, lm_end m)) (collect_line_metadata s) \<and>
   map (\<lambda>(a, b). slice s a b) (LineBoundaries_new s) = split_lines_with_terminators s"
  using metadata_slices [of s] by (simp add: LineBoundaries_table split_lines_is_split_inclusive comp_def)

end
