(* ===== verification/Diff_Computation.thy ===== *)
theory Diff_Computation
  imports Token_Diff Line_Metadata
begin

text \<open>
  The byte diff of two versions of a file (\<open>AttributionTracker::compute_diffs\<close> and the functions it
  calls, \<open>src/authorship/attribution_tracker.rs\<close>): a line diff first, then for every run of changed
  lines a replacement of the whole region (AI checkpoints, very large regions) or a token-aligned
  diff.
\<close>

section \<open>Operations\<close>

text \<open>\<open>GitAiError::Generic\<close>, the only error of the tracker.\<close>

datatype tracker_error = Generic str

record DiffComputation =
  dc_diffs :: "ByteDiff list"
  dc_substantive_new_ranges :: "byte_range list"

definition TOKEN_DIFF_FAST_PATH_MIN_BYTES :: nat where
  "TOKEN_DIFF_FAST_PATH_MIN_BYTES = 32 * 1024"
definition TOKEN_DIFF_FAST_PATH_MIN_LINES :: nat where
  "TOKEN_DIFF_FAST_PATH_MIN_LINES = 256"
definition TOKEN_DIFF_FAST_PATH_HUGE_BYTES :: nat where
  "TOKEN_DIFF_FAST_PATH_HUGE_BYTES = 256 * 1024"
definition TOKEN_DIFF_FAST_PATH_MAX_OPS :: nat where
  "TOKEN_DIFF_FAST_PATH_MAX_OPS = 8"

definition usize_MAX :: nat where
  "usize_MAX = 2 ^ 64 - 1"

fun line_span_for_op :: "DiffOp \<Rightarrow> bool \<Rightarrow> nat \<times> nat" where
  "line_span_for_op (Equal old_index new_index len) for_old =
     (if for_old then (old_index, old_index + len) else (new_index, new_index + len))"
| "line_span_for_op (Delete old_index old_len new_index) for_old =
     (if for_old then (old_index, old_index + old_len) else (new_index, new_index))"
| "line_span_for_op (Insert old_index new_index new_len) for_old =
     (if for_old then (old_index, old_index) else (new_index, new_index + new_len))"
| "line_span_for_op (Replace old_index old_len new_index new_len) for_old =
     (if for_old then (old_index, old_index + old_len) else (new_index, new_index + new_len))"

definition hunk_line_bounds :: "DiffOp list \<Rightarrow> bool \<Rightarrow> nat \<times> nat" where
  "hunk_line_bounds ops for_old =
     (let (start, end') = fold (\<lambda>op (start, end').
            let (s, e) = line_span_for_op op for_old in (min start s, max end' e)) ops (usize_MAX, 0)
      in if start = usize_MAX then (0, 0) else (start, end'))"

definition should_use_line_aligned_hunk_diff :: "DiffOp list \<Rightarrow> nat \<Rightarrow> nat \<Rightarrow> nat \<Rightarrow> nat \<Rightarrow> bool" where
  "should_use_line_aligned_hunk_diff ops changed_old_lines changed_new_lines changed_old_bytes changed_new_bytes =
     (if ops = [] \<or> TOKEN_DIFF_FAST_PATH_MAX_OPS < length ops then False
      else let changed_lines = max changed_old_lines changed_new_lines;
               changed_bytes = max changed_old_bytes changed_new_bytes
           in TOKEN_DIFF_FAST_PATH_HUGE_BYTES \<le> changed_bytes \<or>
              TOKEN_DIFF_FAST_PATH_MIN_BYTES \<le> changed_bytes \<and>
              TOKEN_DIFF_FAST_PATH_MIN_LINES \<le> changed_lines)"

text \<open>Bytes that are not UTF-8 are not white space; all-white-space bytes are UTF-8.\<close>

definition data_is_whitespace :: "str \<Rightarrow> bool" where
  "data_is_whitespace data = (data \<noteq> [] \<and> all_whitespace data)"

definition push_equal_lines ::
  "DiffOp \<Rightarrow> LineMetadata list \<Rightarrow> str \<Rightarrow> ByteDiff list \<Rightarrow> tracker_error + ByteDiff list" where
  "push_equal_lines op old_lines old_content diffs =
     (case op of
        Equal old_index new_index len \<Rightarrow>
          (if len = 0 then Inr diffs
           else let (start, end') = line_range_to_byte_range old_lines old_index (old_index + len)
                                      (length old_content)
                in if start < end' then Inr (diffs @ [ByteDiff_new BEqual (slice old_content start end')])
                   else Inr diffs)
      | _ \<Rightarrow> Inl (Generic ''Expected equal operation in push_equal_lines''))"

definition process_changed_hunk ::
  "Externals \<Rightarrow> DiffOp list \<Rightarrow> LineMetadata list \<Rightarrow> LineMetadata list \<Rightarrow> str \<Rightarrow> str \<Rightarrow> DiffComputation \<Rightarrow>
   bool \<Rightarrow> DiffComputation" where
  "process_changed_hunk ex ops old_lines new_lines old_content new_content computation is_ai_checkpoint =
     (if ops = [] then computation
      else let (old_start_line, old_end_line) = hunk_line_bounds ops True;
               (new_start_line, new_end_line) = hunk_line_bounds ops False;
               (old_start, old_end) = line_range_to_byte_range old_lines old_start_line old_end_line
                                        (length old_content);
               (new_start, new_end) = line_range_to_byte_range new_lines new_start_line new_end_line
                                        (length new_content)
           in if is_ai_checkpoint
              then computation\<lparr>dc_diffs := dc_diffs computation @
                     append_range_diffs old_content new_content (old_start, old_end) (new_start, new_end) True\<rparr>
              else if should_use_line_aligned_hunk_diff ops (old_end_line - old_start_line)
                        (new_end_line - new_start_line) (old_end - old_start) (new_end - new_start)
              then computation\<lparr>
                     dc_diffs := dc_diffs computation @
                       append_range_diffs old_content new_content (old_start, old_end) (new_start, new_end) True,
                     dc_substantive_new_ranges := dc_substantive_new_ranges computation @
                       (if new_start < new_end \<and> \<not> data_is_whitespace (slice new_content new_start new_end)
                        then [(new_start, new_end)] else [])\<rparr>
              else let (hunk_diffs, substantive_ranges) =
                         build_token_aligned_diffs ex old_content new_content (old_start, old_end)
                           (new_start, new_end)
                   in computation\<lparr>
                        dc_diffs := dc_diffs computation @ hunk_diffs,
                        dc_substantive_new_ranges :=
                          dc_substantive_new_ranges computation @ substantive_ranges\<rparr>)"

text \<open>The loop over the line operations: changed operations are collected until an equal one, or
  the end, flushes them.\<close>

fun diff_loop ::
  "(DiffOp list \<Rightarrow> DiffComputation \<Rightarrow> DiffComputation) \<Rightarrow>
   (DiffOp \<Rightarrow> ByteDiff list \<Rightarrow> tracker_error + ByteDiff list) \<Rightarrow>
   DiffOp list \<Rightarrow> DiffComputation \<Rightarrow> DiffOp list \<Rightarrow> tracker_error + DiffComputation" where
  "diff_loop changed_hunk equal_lines pending computation [] =
     Inr (if pending \<noteq> [] then changed_hunk pending computation else computation)"
| "diff_loop changed_hunk equal_lines pending computation (op # ops) =
     (case op of
        Equal _ _ _ \<Rightarrow>
          (let computation = (if pending \<noteq> [] then changed_hunk pending computation else computation)
           in case equal_lines op (dc_diffs computation) of
                Inl e \<Rightarrow> Inl e
              | Inr diffs \<Rightarrow>
                  diff_loop changed_hunk equal_lines [] (computation\<lparr>dc_diffs := diffs\<rparr>) ops)
      | _ \<Rightarrow> diff_loop changed_hunk equal_lines (pending @ [op]) computation ops)"

definition compute_diffs ::
  "Externals \<Rightarrow> str \<Rightarrow> str \<Rightarrow> bool \<Rightarrow> tracker_error + DiffComputation" where
  "compute_diffs ex old_content new_content is_ai_checkpoint =
     (let old_lines = collect_line_metadata old_content;
          new_lines = collect_line_metadata new_content;
          old_line_slices = map (\<lambda>line. slice old_content (lm_start line) (lm_end line)) old_lines;
          new_line_slices = map (\<lambda>line. slice new_content (lm_start line) (lm_end line)) new_lines;
          line_ops = capture_diff_slices (ex_diff ex) old_line_slices new_line_slices
      in case diff_loop
                (\<lambda>pending computation. process_changed_hunk ex pending old_lines new_lines old_content
                   new_content computation is_ai_checkpoint)
                (\<lambda>op diffs. push_equal_lines op old_lines old_content diffs)
                [] \<lparr>dc_diffs = [], dc_substantive_new_ranges = []\<rparr> line_ops of
           Inl e \<Rightarrow> Inl e
         | Inr computation \<Rightarrow>
             Inr (computation\<lparr>dc_substantive_new_ranges :=
               merge_ranges (dc_substantive_new_ranges computation)\<rparr>))"

section \<open>Lemmas: runs of changed operations\<close>

text \<open>Operations other than \<open>Equal\<close> that lead from \<open>(i, j)\<close> to \<open>(i', j')\<close>.\<close>

fun changed_run :: "nat \<Rightarrow> nat \<Rightarrow> DiffOp list \<Rightarrow> nat \<Rightarrow> nat \<Rightarrow> bool" where
  "changed_run i j [] i' j' = (i = i' \<and> j = j')"
| "changed_run i j (Equal a b n # ops) i' j' = False"
| "changed_run i j (Delete a n b # ops) i' j' = (a = i \<and> b = j \<and> changed_run (i + n) j ops i' j')"
| "changed_run i j (Insert a b n # ops) i' j' = (a = i \<and> b = j \<and> changed_run i (j + n) ops i' j')"
| "changed_run i j (Replace a n b m # ops) i' j' = (a = i \<and> b = j \<and> changed_run (i + n) (j + m) ops i' j')"

lemma changed_run_append:
  "changed_run i j ops k l \<Longrightarrow> changed_run k l ops' i' j' \<Longrightarrow> changed_run i j (ops @ ops') i' j'"
  by (induction i j ops k l rule: changed_run.induct) auto

lemma changed_run_mono: "changed_run i j ops i' j' \<Longrightarrow> i \<le> i' \<and> j \<le> j'"
  by (induction i j ops i' j' rule: changed_run.induct) auto

lemma hunk_bounds_fold:
  assumes "changed_run i j ops i' j'" and "ops \<noteq> []"
  shows "fold (\<lambda>op (start, end'). let (s, e) = line_span_for_op op for_old in (min start s, max end' e)) ops (s, e) =
     (if for_old then (min s i, max e i') else (min s j, max e j'))"
  using assms
proof (induction ops arbitrary: i j s e)
  case (Cons op ops)
  obtain k l where k: "changed_run i j [op] k l" "changed_run k l ops i' j'"
    using Cons.prems(1) by (cases op) auto
  have step: "line_span_for_op op for_old = (if for_old then (i, k) else (j, l))" and le: "i \<le> k" "j \<le> l"
    using k(1) by (cases op; auto)+
  show ?case
  proof (cases "ops = []")
    case True
    with k(2) step show ?thesis by simp
  next
    case False
    from Cons.IH [OF k(2) False] step le changed_run_mono [OF k(2)] show ?thesis by (auto simp: min_def max_def)
  qed
qed simp

lemma hunk_line_bounds_run:
  assumes "changed_run i j ops i' j'" and "ops \<noteq> []" and "i' < usize_MAX" and "j' < usize_MAX"
  shows "hunk_line_bounds ops True = (i, i')" and "hunk_line_bounds ops False = (j, j')"
  using hunk_bounds_fold [OF assms(1,2), of True usize_MAX 0] hunk_bounds_fold [OF assms(1,2), of False usize_MAX 0]
    changed_run_mono [OF assms(1)] assms(3,4)
  by (simp_all add: hunk_line_bounds_def)

lemma tiles_changed:
  assumes "tiles old new i j (op # ops)" and "\<And>a b n. op \<noteq> Equal a b n"
  shows "\<exists>i' j'. changed_run i j [op] i' j' \<and> tiles old new i' j' ops"
  using assms by (cases op) auto

section \<open>Lemmas: the loop\<close>

text \<open>A file that fits in memory and is text.\<close>

definition is_text :: "str \<Rightarrow> bool" where
  "is_text s \<longleftrightarrow> utf8_chars s \<and> length s < usize_MAX"

lemma split_inclusive_nonempty: "l \<in> set (split_inclusive s) \<Longrightarrow> l \<noteq> []"
  by (induction s arbitrary: l) (auto split: if_splits list.splits)

lemma length_split_inclusive: "length (split_inclusive s) \<le> length s"
proof -
  have "(\<And>l. l \<in> set ls \<Longrightarrow> l \<noteq> []) \<Longrightarrow> length ls \<le> length (concat ls)" for ls :: "str list"
  proof (induction ls)
    case (Cons a ls)
    then have "0 < length a" "length ls \<le> length (concat ls)" by auto
    then have "Suc (length ls) \<le> length a + length (concat ls)" by linarith
    then show ?case by simp
  qed simp
  from this [of "split_inclusive s"] split_inclusive_nonempty show ?thesis by simp
qed

lemma fits_lines:
  assumes "utf8_chars s" and "i \<le> k"
  shows "fits s (line_pos (split_inclusive s) i) (line_pos (split_inclusive s) k)"
proof -
  have "list_all utf8_chars (slice (split_inclusive s) i k)"
    using utf8_lines [OF assms(1)] by (auto simp: list_all_iff slice_def dest: in_set_takeD in_set_dropD)
  then have "utf8_chars (concat (slice (split_inclusive s) i k))" by (rule utf8_chars_concat)
  with slice_line_pos [OF assms(2), of "split_inclusive s"] show ?thesis
    using line_pos_mono [OF assms(2)] line_pos_le [of "split_inclusive s" k] by (simp add: fits_def)
qed

lemma process_changed_hunk_sides:
  fixes dc ai
  assumes "diff_contract (ex_diff ex)" and "is_text old" and "is_text new"
    and "changed_run i j ops i' j'" and "ops \<noteq> []"
    and "i' \<le> length (split_inclusive old)" and "j' \<le> length (split_inclusive new)"
  defines "dc' \<equiv> process_changed_hunk ex ops (collect_line_metadata old) (collect_line_metadata new) old new dc ai"
  shows "old_side (dc_diffs dc') = old_side (dc_diffs dc) @
      slice old (line_pos (split_inclusive old) i) (line_pos (split_inclusive old) i')"
    and "new_side (dc_diffs dc') = new_side (dc_diffs dc) @
      slice new (line_pos (split_inclusive new) j) (line_pos (split_inclusive new) j')"
proof -
  have le: "i \<le> i'" "j \<le> j'" using changed_run_mono [OF assms(4)] by simp_all
  have lt: "i' < usize_MAX" "j' < usize_MAX"
    using assms(2,3,6,7) length_split_inclusive [of old] length_split_inclusive [of new]
    by (simp_all add: is_text_def)
  note bounds = hunk_line_bounds_run [OF assms(4,5) lt]
  note ranges = line_range_to_byte_range_eq [OF le(1) assms(6)] line_range_to_byte_range_eq [OF le(2) assms(7)]
  have fits: "fits old (line_pos (split_inclusive old) i) (line_pos (split_inclusive old) i')"
    "fits new (line_pos (split_inclusive new) j) (line_pos (split_inclusive new) j')"
    using assms(2,3) le by (auto simp: is_text_def intro: fits_lines)
  note sides = token_aligned_sides [OF assms(1) fits]
  show "old_side (dc_diffs dc') = old_side (dc_diffs dc) @
      slice old (line_pos (split_inclusive old) i) (line_pos (split_inclusive old) i')"
    and "new_side (dc_diffs dc') = new_side (dc_diffs dc) @
      slice new (line_pos (split_inclusive new) j) (line_pos (split_inclusive new) j')"
    using assms(5) by (simp_all add: dc'_def process_changed_hunk_def bounds ranges Let_def split_beta sides)
qed

text \<open>What the loop has built when it stands at line \<open>i\<close> of the old and \<open>j\<close> of the new file.\<close>

definition built :: "str \<Rightarrow> str \<Rightarrow> nat \<Rightarrow> nat \<Rightarrow> DiffComputation \<Rightarrow> bool" where
  "built old new i j dc \<longleftrightarrow>
     old_side (dc_diffs dc) = take (line_pos (split_inclusive old) i) old \<and>
     new_side (dc_diffs dc) = take (line_pos (split_inclusive new) j) new"

lemma take_slice: "a \<le> b \<Longrightarrow> take a s @ slice s a b = take b s"
  using slice_append [of 0 a b s] by (simp add: slice_def)

lemma built_changed:
  assumes "diff_contract (ex_diff ex)" and "is_text old" and "is_text new" and "built old new i j dc"
    and "changed_run i j ops i' j'" and "ops \<noteq> []"
    and "i' \<le> length (split_inclusive old)" and "j' \<le> length (split_inclusive new)"
  shows "built old new i' j'
    (process_changed_hunk ex ops (collect_line_metadata old) (collect_line_metadata new) old new dc ai)"
  using assms(4) process_changed_hunk_sides [OF assms(1-3,5-8), of dc ai] changed_run_mono [OF assms(5)]
    line_pos_mono [of i i' "split_inclusive old"] line_pos_mono [of j j' "split_inclusive new"]
  by (simp add: built_def take_slice)

lemma built_equal:
  assumes "built old new i j dc" and "0 < n"
    and "i + n \<le> length (split_inclusive old)" and "j + n \<le> length (split_inclusive new)"
    and "slice (split_inclusive old) i (i + n) = slice (split_inclusive new) j (j + n)"
  shows "\<exists>diffs. push_equal_lines (Equal i j n) (collect_line_metadata old) old (dc_diffs dc) = Inr diffs \<and>
     built old new (i + n) (j + n) (dc\<lparr>dc_diffs := diffs\<rparr>)"
proof -
  let ?a = "line_pos (split_inclusive old) i" and ?b = "line_pos (split_inclusive old) (i + n)"
  let ?c = "line_pos (split_inclusive new) j" and ?d = "line_pos (split_inclusive new) (j + n)"
  have eq: "slice old ?a ?b = slice new ?c ?d"
    using slice_line_pos [of i "i + n" "split_inclusive old"] slice_line_pos [of j "j + n" "split_inclusive new"]
      assms(5) by simp
  have le: "?a \<le> ?b" "?c \<le> ?d" by (simp_all add: line_pos_mono)
  have b: "?b \<le> length old" using line_pos_le [of "split_inclusive old" "i + n"] by simp
  have r: "line_range_to_byte_range (collect_line_metadata old) i (i + n) (length old) = (?a, ?b)"
    using assms(3) by (intro line_range_to_byte_range_eq) simp_all
  show ?thesis
  proof (cases "?a < ?b")
    case True
    with r assms(1,2) eq le show ?thesis
      by (simp add: push_equal_lines_def built_def take_slice flip: eq) (metis eq take_slice)
  next
    case False
    then have e: "slice old ?a ?b = []" "?a = ?b" using le by (simp_all add: slice_empty)
    then have "slice new ?c ?d = []" using eq by simp
    then have "take ?d new = take ?c new" using take_slice [OF le(2), of new] by simp
    with False r assms(1,2) e show ?thesis by (simp add: push_equal_lines_def built_def)
  qed
qed

lemma diff_loop_built:
  fixes ai
  assumes "diff_contract (ex_diff ex)" and "is_text old" and "is_text new"
  defines "ch \<equiv> \<lambda>pending dc. process_changed_hunk ex pending (collect_line_metadata old)
      (collect_line_metadata new) old new dc ai"
    and "eq \<equiv> \<lambda>op diffs. push_equal_lines op (collect_line_metadata old) old diffs"
  assumes "tiles (split_inclusive old) (split_inclusive new) k l ops"
    and "built old new i j dc" and "changed_run i j pending k l"
  shows "\<exists>dc'. diff_loop ch eq pending dc ops = Inr dc' \<and>
     built old new (length (split_inclusive old)) (length (split_inclusive new)) dc'"
  using assms(6-)
proof (induction ops arbitrary: i j k l dc pending)
  case Nil
  have "built old new k l (if pending \<noteq> [] then ch pending dc else dc)"
    using Nil built_changed [OF assms(1-3) Nil(2,3), of ai] unfolding ch_def by auto
  with Nil show ?case by auto
next
  case (Cons op ops)
  show ?case
  proof (cases "\<exists>a b n. op = Equal a b n")
    case True
    with Cons.prems(1) obtain n where op: "op = Equal k l n" by auto
    let ?dc = "if pending \<noteq> [] then ch pending dc else dc"
    have kl: "k \<le> length (split_inclusive old)" "l \<le> length (split_inclusive new)"
      using tiles_bounds [OF Cons.prems(1)] by simp_all
    have b: "built old new k l ?dc"
      using Cons.prems kl built_changed [OF assms(1-3) Cons.prems(2,3), of ai] unfolding ch_def by auto
    obtain diffs where d: "eq op (dc_diffs ?dc) = Inr diffs"
      and nb: "built old new (k + n) (l + n) (?dc\<lparr>dc_diffs := diffs\<rparr>)"
      using built_equal [OF b, of n] Cons.prems(1) op unfolding eq_def by auto
    have "changed_run (k + n) (l + n) [] (k + n) (l + n)" by simp
    from Cons.IH [OF _ nb this] Cons.prems(1) op have
      "\<exists>dc'. diff_loop ch eq [] (?dc\<lparr>dc_diffs := diffs\<rparr>) ops = Inr dc' \<and>
        built old new (length (split_inclusive old)) (length (split_inclusive new)) dc'"
      by simp
    with d op show ?thesis by (simp add: Let_def split del: if_split)
  next
    case False
    then obtain k' l' where kl: "changed_run k l [op] k' l'" and
      t: "tiles (split_inclusive old) (split_inclusive new) k' l' ops"
      using tiles_changed [OF Cons.prems(1)] by blast
    from Cons.IH [OF t Cons.prems(2) changed_run_append [OF Cons.prems(3) kl]] False show ?thesis
      by (cases op) auto
  qed
qed

lemma compute_diffs_sides:
  assumes "diff_contract (ex_diff ex)" and "is_text old" and "is_text new"
  shows "\<exists>dc. compute_diffs ex old new ai = Inr dc \<and> old_side (dc_diffs dc) = old \<and> new_side (dc_diffs dc) = new"
proof -
  let ?ops = "capture_diff_slices (ex_diff ex) (split_inclusive old) (split_inclusive new)"
  let ?init = "\<lparr>dc_diffs = [], dc_substantive_new_ranges = []\<rparr>"
  have "tiles (split_inclusive old) (split_inclusive new) 0 0 ?ops"
    using assms(1) by (intro capture_diff_slices_tiles) (simp add: diff_contract_def)
  moreover have "built old new 0 0 ?init" by (simp add: built_def)
  moreover have "changed_run 0 0 [] 0 0" by simp
  ultimately obtain dc where dc: "diff_loop
      (\<lambda>pending dc. process_changed_hunk ex pending (collect_line_metadata old) (collect_line_metadata new)
        old new dc ai)
      (\<lambda>op diffs. push_equal_lines op (collect_line_metadata old) old diffs) [] ?init ?ops = Inr dc"
    and b: "built old new (length (split_inclusive old)) (length (split_inclusive new)) dc"
    using diff_loop_built [OF assms] by blast
  have "compute_diffs ex old new ai =
      Inr (dc\<lparr>dc_substantive_new_ranges := merge_ranges (dc_substantive_new_ranges dc)\<rparr>)"
    unfolding compute_diffs_def Let_def metadata_slices dc by simp
  with b show ?thesis by (simp add: built_def line_pos_end)
qed

section \<open>Properties\<close>

text \<open>C4. The byte diff of two texts is one: \<open>compute_diffs\<close> never fails, its equal and deleted
  bytes, in order, are the old text, and its equal and inserted bytes are the new text. It holds for
  AI and human checkpoints, for the line-aligned and the token-aligned path, and for every diff
  algorithm with the contract.\<close>

theorem compute_diffs_correct:
  assumes "diff_contract (ex_diff ex)" and "is_text old" and "is_text new"
  shows "\<exists>dc. compute_diffs ex old new ai = Inr dc \<and> old_side (dc_diffs dc) = old \<and> new_side (dc_diffs dc) = new"
  using assms by (rule compute_diffs_sides)

definition simple_externals :: Externals where
  "simple_externals = \<lparr>ex_diff = whole_diff, ex_alpha = (\<lambda>_. False), ex_numeric = (\<lambda>_. False)\<rparr>"

lemma simple_externals_contract: "diff_contract (ex_diff simple_externals)"
  by (simp add: diff_contract_def simple_externals_def whole_diff_valid)

theorem compute_diffs_correct_witness:
  "\<exists>dc. compute_diffs simple_externals ''a = 1'' ''a = 2'' False = Inr dc \<and>
     old_side (dc_diffs dc) = ''a = 1'' \<and> new_side (dc_diffs dc) = ''a = 2''"
proof (rule compute_diffs_correct)
  have "utf8_chars ''a = 1''" "utf8_chars ''a = 2''" by code_simp+
  then show "is_text ''a = 1''" "is_text ''a = 2''" by (simp_all add: is_text_def usize_MAX_def)
qed (rule simple_externals_contract)

text \<open>When the tokens of a changed region are diffed, the byte diffs cover the region on both
  sides exactly: no byte between two tokens, before the first or after the last is lost.\<close>

theorem token_aligned_diffs_cover:
  assumes "diff_contract (ex_diff ex)" and "fits old a a'" and "fits new b b'"
  shows "old_side (fst (build_token_aligned_diffs ex old new (a, a') (b, b'))) = slice old a a' \<and>
     new_side (fst (build_token_aligned_diffs ex old new (a, a') (b, b'))) = slice new b b'"
  using token_aligned_sides [OF assms] by simp

theorem token_aligned_diffs_cover_witness:
  "old_side (fst (build_token_aligned_diffs simple_externals ''a = 1'' ''b'' (0, 5) (0, 1))) = slice ''a = 1'' 0 5 \<and>
   new_side (fst (build_token_aligned_diffs simple_externals ''a = 1'' ''b'' (0, 5) (0, 1))) = slice ''b'' 0 1"
  by (rule token_aligned_diffs_cover) (rule simple_externals_contract, code_simp, code_simp)

end
