(* ===== verification/Move_Detection.thy ===== *)
theory Move_Detection
  imports Rust_Str "HOL-Library.Sublist"
begin

text \<open>
  Detection of moved blocks (\<open>src/authorship/move_detection.rs\<close>): inserted and deleted lines are
  grouped into runs of consecutive non-blank lines, and a run of inserted lines whose trimmed text
  repeats a run of deleted lines is a move. The hash of \<open>DefaultHasher\<close>, which only indexes the
  deleted lines, is a parameter.
\<close>

section \<open>Data\<close>

record InsertedLine =
  il_content :: str
  il_normalized_content :: str
  il_line_number :: nat
  il_insertion_idx :: nat

record DeletedLine =
  dl_content :: str
  dl_normalized_content :: str
  dl_line_number :: nat
  dl_deletion_idx :: nat

record LineMoveMapping =
  mm_deletion_group_index :: nat
  mm_insertion_group_index :: nat
  mm_deleted :: "DeletedLine list"
  mm_inserted :: "InsertedLine list"

definition InsertedLine_new :: "str \<Rightarrow> nat \<Rightarrow> nat \<Rightarrow> InsertedLine" where
  "InsertedLine_new content line_number insertion_idx =
     \<lparr>il_content = content, il_normalized_content = [], il_line_number = line_number,
      il_insertion_idx = insertion_idx\<rparr>"

definition DeletedLine_new :: "str \<Rightarrow> nat \<Rightarrow> nat \<Rightarrow> DeletedLine" where
  "DeletedLine_new content line_number deletion_idx =
     \<lparr>dl_content = content, dl_normalized_content = [], dl_line_number = line_number,
      dl_deletion_idx = deletion_idx\<rparr>"

section \<open>Sorting and grouping\<close>

text \<open>The functions generic over the trait \<open>LineRecord\<close> take its methods as arguments.\<close>

definition sort_and_normalize ::
  "('a \<Rightarrow> nat) \<Rightarrow> ('a \<Rightarrow> str) \<Rightarrow> (str \<Rightarrow> 'a \<Rightarrow> 'a) \<Rightarrow> 'a list \<Rightarrow> 'a list" where
  "sort_and_normalize line_number content set_normalized_content lines =
     map (\<lambda>line. set_normalized_content (trim (content line)) line) (sort_key line_number lines)"

fun groups_loop ::
  "('a \<Rightarrow> nat) \<Rightarrow> ('a \<Rightarrow> str) \<Rightarrow> nat \<Rightarrow> nat \<Rightarrow> nat list \<Rightarrow> nat option \<Rightarrow> 'a list \<Rightarrow> nat list list" where
  "groups_loop line_number normalized_content threshold idx current last_number [] =
     (if threshold \<le> length current then [current] else [])"
| "groups_loop line_number normalized_content threshold idx current last_number (line # lines) =
     (if normalized_content line = []
      then groups_loop line_number normalized_content threshold (idx + 1) current last_number lines
      else if last_number \<noteq> None \<and> line_number line = the last_number + 1
      then groups_loop line_number normalized_content threshold (idx + 1) (current @ [idx])
             (Some (line_number line)) lines
      else (if threshold \<le> length current then [current] else []) @
           groups_loop line_number normalized_content threshold (idx + 1) [idx]
             (Some (line_number line)) lines)"

definition build_groups ::
  "('a \<Rightarrow> nat) \<Rightarrow> ('a \<Rightarrow> str) \<Rightarrow> nat \<Rightarrow> 'a list \<Rightarrow> nat list list" where
  "build_groups line_number normalized_content threshold lines =
     groups_loop line_number normalized_content threshold 0 [] None lines"

type_synonym deletion_lookup = "u64 \<rightharpoonup> (nat \<times> nat) list"

definition lookup_push :: "u64 \<Rightarrow> nat \<times> nat \<Rightarrow> deletion_lookup \<Rightarrow> deletion_lookup" where
  "lookup_push hash pos lookup =
     lookup(hash \<mapsto> (case lookup hash of None \<Rightarrow> [] | Some ps \<Rightarrow> ps) @ [pos])"

text \<open>The positions of all grouped lines, in the order the nested loops visit them.\<close>

definition group_positions :: "nat list list \<Rightarrow> (nat \<times> nat) list" where
  "group_positions groups =
     concat (map (\<lambda>(g, group). map (\<lambda>p. (g, p)) [0..<length group]) (enumerate 0 groups))"

definition build_deletion_lookup ::
  "(str \<Rightarrow> u64) \<Rightarrow> DeletedLine list \<Rightarrow> nat list list \<Rightarrow> deletion_lookup" where
  "build_deletion_lookup hash_normalized deleted_lines deleted_groups =
     fold (\<lambda>(g, p). lookup_push
         (hash_normalized (dl_normalized_content (deleted_lines ! (deleted_groups ! g ! p)))) (g, p))
       (group_positions deleted_groups) Map.empty"

section \<open>Matching\<close>

text \<open>How far two index runs agree on the normalised text.\<close>

fun run_length ::
  "InsertedLine list \<Rightarrow> DeletedLine list \<Rightarrow> nat list \<Rightarrow> nat list \<Rightarrow> nat" where
  "run_length inserted_lines deleted_lines (i # is) (d # ds) =
     (if il_normalized_content (inserted_lines ! i) \<noteq> dl_normalized_content (deleted_lines ! d) then 0
      else Suc (run_length inserted_lines deleted_lines is ds))"
| "run_length inserted_lines deleted_lines _ _ = 0"

fun try_candidates ::
  "nat \<Rightarrow> InsertedLine list \<Rightarrow> DeletedLine list \<Rightarrow> nat list list \<Rightarrow> nat \<Rightarrow> nat list \<Rightarrow> nat \<Rightarrow>
   (nat \<times> nat) list \<Rightarrow> (LineMoveMapping \<times> nat) option" where
  "try_candidates threshold ins del deleted_groups insert_group_idx insert_group insert_pos [] = None"
| "try_candidates threshold ins del deleted_groups insert_group_idx insert_group insert_pos
     ((delete_group_idx, delete_pos) # candidates) =
     (let delete_group = deleted_groups ! delete_group_idx
      in if il_normalized_content (ins ! (insert_group ! insert_pos)) \<noteq>
            dl_normalized_content (del ! (delete_group ! delete_pos))
         then try_candidates threshold ins del deleted_groups insert_group_idx insert_group insert_pos
                candidates
         else let match_len = 1 + run_length ins del (drop (insert_pos + 1) insert_group)
                                   (drop (delete_pos + 1) delete_group)
              in if threshold \<le> match_len
                 then Some (\<lparr>mm_deletion_group_index = delete_group_idx,
                             mm_insertion_group_index = insert_group_idx,
                             mm_deleted = map (\<lambda>idx. del ! idx) (take match_len (drop delete_pos delete_group)),
                             mm_inserted = map (\<lambda>idx. ins ! idx) (take match_len (drop insert_pos insert_group))\<rparr>,
                            insert_pos + match_len)
                 else try_candidates threshold ins del deleted_groups insert_group_idx insert_group insert_pos
                        candidates)"

lemma try_candidates_advances:
  "try_candidates t ins del dgs g grp pos cs = Some (m, iter) \<Longrightarrow> pos < iter"
  by (induction t ins del dgs g grp pos cs rule: try_candidates.induct) (auto simp: Let_def split: if_splits)

function group_moves ::
  "(str \<Rightarrow> u64) \<Rightarrow> nat \<Rightarrow> InsertedLine list \<Rightarrow> DeletedLine list \<Rightarrow> nat list list \<Rightarrow> deletion_lookup \<Rightarrow>
   nat \<Rightarrow> nat list \<Rightarrow> nat \<Rightarrow> LineMoveMapping list" where
  "group_moves hash_normalized threshold ins del deleted_groups lookup insert_group_idx insert_group insert_pos =
     (if insert_pos < length insert_group
      then let hash = hash_normalized (il_normalized_content (ins ! (insert_group ! insert_pos)));
               found = (case lookup hash of
                          None \<Rightarrow> None
                        | Some candidates \<Rightarrow>
                            try_candidates threshold ins del deleted_groups insert_group_idx insert_group
                              insert_pos candidates)
           in case found of
                None \<Rightarrow> group_moves hash_normalized threshold ins del deleted_groups lookup
                          insert_group_idx insert_group (insert_pos + 1)
              | Some (mapping, insert_iter) \<Rightarrow>
                  mapping #
                  (if length insert_group \<le> insert_iter then []
                   else group_moves hash_normalized threshold ins del deleted_groups lookup
                          insert_group_idx insert_group insert_iter)
      else [])"
  by pat_completeness auto
termination
  by (relation "measure (\<lambda>(h, t, ins, del, dgs, lookup, g, grp, pos). length grp - pos)")
    (auto split: option.splits dest: try_candidates_advances [OF sym])

declare group_moves.simps [simp del]

definition normalized_inserted :: "InsertedLine list \<Rightarrow> InsertedLine list" where
  "normalized_inserted =
     sort_and_normalize il_line_number il_content (\<lambda>n line. line\<lparr>il_normalized_content := n\<rparr>)"

definition normalized_deleted :: "DeletedLine list \<Rightarrow> DeletedLine list" where
  "normalized_deleted =
     sort_and_normalize dl_line_number dl_content (\<lambda>n line. line\<lparr>dl_normalized_content := n\<rparr>)"

definition detect_moves ::
  "(str \<Rightarrow> u64) \<Rightarrow> InsertedLine list \<Rightarrow> DeletedLine list \<Rightarrow> nat \<Rightarrow> LineMoveMapping list" where
  "detect_moves hash_normalized inserted_lines deleted_lines threshold =
     (if threshold = 0 then []
      else let ins = normalized_inserted inserted_lines;
               del = normalized_deleted deleted_lines;
               inserted_groups = build_groups il_line_number il_normalized_content threshold ins;
               deleted_groups = build_groups dl_line_number dl_normalized_content threshold del
           in if inserted_groups = [] \<or> deleted_groups = [] then []
              else let lookup = build_deletion_lookup hash_normalized del deleted_groups
                   in concat (map (\<lambda>(g, group).
                        group_moves hash_normalized threshold ins del deleted_groups lookup g group 0)
                      (enumerate 0 inserted_groups)))"

section \<open>Lemmas: groups\<close>

fun consecutive :: "nat list \<Rightarrow> bool" where
  "consecutive (a # b # ns) = (b = a + 1 \<and> consecutive (b # ns))"
| "consecutive _ = True"

lemma consecutive_snoc: "consecutive (ns @ [a]) \<Longrightarrow> consecutive (ns @ [a, Suc a])"
  by (induction ns rule: consecutive.induct) auto

lemma consecutive_drop: "consecutive ns \<Longrightarrow> consecutive (drop k ns)"
proof (induction ns arbitrary: k rule: consecutive.induct)
  case (1 a b ns)
  then show ?case by (cases k) auto
qed (auto simp: drop_Cons' )

lemma consecutive_take: "consecutive ns \<Longrightarrow> consecutive (take k ns)"
proof (induction ns arbitrary: k rule: consecutive.induct)
  case (1 a b ns)
  show ?case
  proof (cases k)
    case (Suc j)
    have "consecutive (take j (b # ns))" using "1.IH" [of j] "1.prems" by auto
    with 1 Suc show ?thesis by (cases j) auto
  qed simp
qed (auto simp: take_Cons')

text \<open>A group: indices of non-blank lines with consecutive numbers, at least \<open>threshold\<close> of them.\<close>

definition group_ok :: "('a \<Rightarrow> nat) \<Rightarrow> 'a list \<Rightarrow> nat list \<Rightarrow> bool" where
  "group_ok number lines grp \<longleftrightarrow>
     list_all (\<lambda>i. i < length lines) grp \<and> consecutive (map (\<lambda>i. number (lines ! i)) grp)"

lemma group_ok_Nil [simp]: "group_ok number lines []"
  by (simp add: group_ok_def)

lemma groups_loop_ok:
  assumes "lines = pre @ rest" and "idx = length pre" and "group_ok number lines current"
    and "current = [] \<or> last_number = Some (number (lines ! last current))"
    and "current = [] \<longrightarrow> last_number = None"
    and "grp \<in> set (groups_loop number normalized threshold idx current last_number rest)"
  shows "group_ok number lines grp"
  using assms
proof (induction rest arbitrary: pre idx current last_number)
  case (Cons line rest)
  have nth: "lines ! idx = line" and idx: "idx < length lines" using Cons.prems by simp_all
  note IH = Cons.IH [of "pre @ [line]" "idx + 1"]
  show ?case
  proof (cases "normalized line = []")
    case True
    with Cons.prems show ?thesis by (intro IH) simp_all
  next
    case False
    note blank = this
    show ?thesis
    proof (cases "last_number \<noteq> None \<and> number line = the last_number + 1")
      case True
      then obtain cs c where cs: "current = cs @ [c]" using Cons.prems(4,5) by (cases current rule: rev_cases) auto
      have "group_ok number lines (current @ [idx])"
        using Cons.prems(3,4) True cs nth idx consecutive_snoc [of "map (\<lambda>i. number (lines ! i)) cs"]
        by (auto simp: group_ok_def)
      with Cons.prems True blank nth show ?thesis by (intro IH [of "current @ [idx]"]) simp_all
    next
      case False
      have "group_ok number lines [idx]" using idx by (simp add: group_ok_def)
      moreover have "grp = current \<or>
          grp \<in> set (groups_loop number normalized threshold (idx + 1) [idx] (Some (number line)) rest)"
        using Cons.prems(6) False blank by (auto split: if_splits)
      moreover have "group_ok number lines grp"
        if "grp \<in> set (groups_loop number normalized threshold (idx + 1) [idx] (Some (number line)) rest)"
        by (rule IH [OF _ _ _ _ _ that]) (use Cons.prems(1,2) nth idx in \<open>simp_all add: group_ok_def\<close>)
      ultimately show ?thesis using Cons.prems(3) by blast
    qed
  qed
qed (auto split: if_splits)

lemma build_groups_ok:
  "grp \<in> set (build_groups number normalized threshold lines) \<Longrightarrow> group_ok number lines grp"
  unfolding build_groups_def by (rule groups_loop_ok [of lines "[]" lines 0]) simp_all

lemma groups_loop_subseq:
  "subseq (concat (groups_loop number normalized threshold idx current last_number rest))
     (current @ [idx..<idx + length rest])"
proof (induction rest arbitrary: idx current last_number)
  case (Cons line rest)
  have up: "[idx..<idx + length (line # rest)] = idx # [Suc idx..<Suc idx + length rest]"
    by (simp add: upt_rec)
  have skip: "subseq (current @ ys) (current @ idx # ys)" for ys
    by (simp add: subseq_append_iff) (metis list_emb_Cons subseq_order.order_refl)
  show ?case
  proof (cases "normalized line = []")
    case True
    then show ?thesis unfolding up
      using subseq_order.order_trans [OF Cons.IH [of "Suc idx" current last_number] skip] by simp
  next
    case False
    then show ?thesis unfolding up
      using Cons.IH [of "Suc idx" "current @ [idx]" "Some (number line)"]
        Cons.IH [of "Suc idx" "[idx]" "Some (number line)"]
      by (auto intro: list_emb_append_mono subseq_order.order_refl list_emb_append2)
  qed
qed simp

lemma build_groups_subseq:
  "subseq (concat (build_groups number normalized threshold lines)) [0..<length lines]"
  using groups_loop_subseq [of number normalized threshold 0 "[]" None lines]
  by (simp add: build_groups_def)

section \<open>Lemmas: matches\<close>

lemma run_length_bound: "run_length ins del is ds \<le> length is \<and> run_length ins del is ds \<le> length ds"
  by (induction ins del "is" ds rule: run_length.induct) auto

lemma run_length_agrees:
  "map (\<lambda>i. il_normalized_content (ins ! i)) (take (run_length ins del is ds) is) =
   map (\<lambda>d. dl_normalized_content (del ! d)) (take (run_length ins del is ds) ds)"
  by (induction ins del "is" ds rule: run_length.induct) auto

text \<open>What a reported move is: equally long runs of at least \<open>threshold\<close> lines with consecutive
  numbers, deleted and inserted, with the same normalised text.\<close>

definition move_ok :: "nat \<Rightarrow> LineMoveMapping \<Rightarrow> bool" where
  "move_ok threshold m \<longleftrightarrow>
     threshold \<le> length (mm_inserted m) \<and> length (mm_deleted m) = length (mm_inserted m) \<and>
     map dl_normalized_content (mm_deleted m) = map il_normalized_content (mm_inserted m) \<and>
     consecutive (map dl_line_number (mm_deleted m)) \<and> consecutive (map il_line_number (mm_inserted m))"

definition positions_ok :: "nat list list \<Rightarrow> (nat \<times> nat) list \<Rightarrow> bool" where
  "positions_ok groups = list_all (\<lambda>(g, p). g < length groups \<and> p < length (groups ! g))"

lemma take_Suc_drop: "p < length xs \<Longrightarrow> take (Suc n) (drop p xs) = xs ! p # take n (drop (Suc p) xs)"
  by (simp add: Cons_nth_drop_Suc [symmetric])

lemma try_candidates_ok:
  assumes "try_candidates t ins del dgs g grp pos cs = Some (m, iter)"
    and "positions_ok dgs cs" and "pos < length grp" and "group_ok il_line_number ins grp"
    and "list_all (group_ok dl_line_number del) dgs"
  shows "move_ok t m \<and> mm_inserted m = map ((!) ins) (take (iter - pos) (drop pos grp)) \<and> iter \<le> length grp"
  using assms
proof (induction cs)
  case (Cons c cs)
  obtain dg dp where c: "c = (dg, dp)" by fastforce
  let ?n = "run_length ins del (drop (pos + 1) grp) (drop (dp + 1) (dgs ! dg))"
  show ?case
  proof (cases "il_normalized_content (ins ! (grp ! pos)) = dl_normalized_content (del ! (dgs ! dg ! dp)) \<and>
      t \<le> 1 + ?n")
    case True
    have m: "iter = pos + (1 + ?n)" "mm_deleted m = map ((!) del) (take (1 + ?n) (drop dp (dgs ! dg)))"
      "mm_inserted m = map ((!) ins) (take (1 + ?n) (drop pos grp))"
      using Cons.prems(1) True c by (auto simp: Let_def)
    have p: "dg < length dgs" "dp < length (dgs ! dg)" using Cons.prems(2) c by (simp_all add: positions_ok_def)
    have b: "?n \<le> length grp - (pos + 1)" "?n \<le> length (dgs ! dg) - (dp + 1)"
      using run_length_bound [of ins del "drop (pos + 1) grp" "drop (dp + 1) (dgs ! dg)"] by simp_all
    have dgrp: "group_ok dl_line_number del (dgs ! dg)" using Cons.prems(5) p by (simp add: list_all_length)
    have "map dl_normalized_content (mm_deleted m) = map il_normalized_content (mm_inserted m)"
      using m True p Cons.prems(3) run_length_agrees [of ins del "drop (pos + 1) grp" "drop (dp + 1) (dgs ! dg)"]
      by (simp add: take_Suc_drop comp_def)
    moreover have "consecutive (map il_line_number (mm_inserted m))"
      using m Cons.prems(4) consecutive_take [OF consecutive_drop, of "map (\<lambda>i. il_line_number (ins ! i)) grp"]
      by (simp add: group_ok_def comp_def take_map drop_map)
    moreover have "consecutive (map dl_line_number (mm_deleted m))"
      using m dgrp consecutive_take [OF consecutive_drop, of "map (\<lambda>i. dl_line_number (del ! i)) (dgs ! dg)"]
      by (simp add: group_ok_def comp_def take_map drop_map)
    moreover have "length (mm_inserted m) = 1 + ?n" "length (mm_deleted m) = 1 + ?n"
      using m b p Cons.prems(3) by auto
    ultimately show ?thesis using True m b Cons.prems(3) by (auto simp: move_ok_def)
  next
    case False
    with Cons.prems c have "try_candidates t ins del dgs g grp pos cs = Some (m, iter)"
      by (auto simp: Let_def split: if_splits)
    with Cons show ?thesis by (simp add: positions_ok_def)
  qed
qed simp

section \<open>Lemmas: the lookup of candidates\<close>

abbreviation position_hash :: "(str \<Rightarrow> u64) \<Rightarrow> DeletedLine list \<Rightarrow> nat list list \<Rightarrow> nat \<times> nat \<Rightarrow> u64" where
  "position_hash h del dgs \<equiv> (\<lambda>(g, p). h (dl_normalized_content (del ! (dgs ! g ! p))))"

lemma lookup_fold:
  "(case fold (\<lambda>x. lookup_push (f x) x) xs m k of None \<Rightarrow> [] | Some ps \<Rightarrow> ps) =
     (case m k of None \<Rightarrow> [] | Some ps \<Rightarrow> ps) @ filter (\<lambda>x. f x = k) xs"
  by (induction xs arbitrary: m) (auto simp: lookup_push_def split: option.splits)

lemma deletion_lookup_candidates:
  "(case build_deletion_lookup h del dgs k of None \<Rightarrow> [] | Some ps \<Rightarrow> ps) =
     filter (\<lambda>x. position_hash h del dgs x = k) (group_positions dgs)"
proof -
  have "build_deletion_lookup h del dgs =
      fold (\<lambda>x. lookup_push (position_hash h del dgs x) x) (group_positions dgs) Map.empty"
    unfolding build_deletion_lookup_def by (intro fold_cong refl) auto
  then show ?thesis using lookup_fold [of "position_hash h del dgs" "group_positions dgs" Map.empty k] by simp
qed

lemma try_candidates_filter:
  "try_candidates t ins del dgs g grp pos
     (filter (\<lambda>x. position_hash h del dgs x = h (il_normalized_content (ins ! (grp ! pos)))) cs) =
   try_candidates t ins del dgs g grp pos cs"
proof (induction cs)
  case (Cons c cs)
  obtain dg dp where c: "c = (dg, dp)" by fastforce
  show ?case
  proof (cases "il_normalized_content (ins ! (grp ! pos)) = dl_normalized_content (del ! (dgs ! dg ! dp))")
    case True
    with Cons.IH c show ?thesis by (simp add: Let_def)
  next
    case False
    then have "try_candidates t ins del dgs g grp pos (c # xs) = try_candidates t ins del dgs g grp pos xs" for xs
      using c by (simp add: Let_def)
    with Cons.IH show ?thesis by (simp del: try_candidates.simps)
  qed
qed simp

text \<open>The candidates found through the hash table are, in effect, all positions.\<close>

lemma lookup_try:
  "(case build_deletion_lookup h del dgs (h (il_normalized_content (ins ! (grp ! pos)))) of
      None \<Rightarrow> None | Some cs \<Rightarrow> try_candidates t ins del dgs g grp pos cs) =
   try_candidates t ins del dgs g grp pos (group_positions dgs)"
proof -
  let ?k = "h (il_normalized_content (ins ! (grp ! pos)))"
  have "(case build_deletion_lookup h del dgs ?k of None \<Rightarrow> None
      | Some cs \<Rightarrow> try_candidates t ins del dgs g grp pos cs) =
      try_candidates t ins del dgs g grp pos
        (case build_deletion_lookup h del dgs ?k of None \<Rightarrow> [] | Some ps \<Rightarrow> ps)"
    by (simp split: option.split)
  then show ?thesis unfolding deletion_lookup_candidates try_candidates_filter .
qed

lemma positions_ok_group_positions: "positions_ok groups (group_positions groups)"
  by (auto simp: positions_ok_def group_positions_def list_all_iff in_set_enumerate_eq)

section \<open>Lemmas: the moves of a group\<close>

lemma group_moves_step:
  "group_moves h t ins del dgs (build_deletion_lookup h del dgs) g grp pos =
     (if pos < length grp
      then case try_candidates t ins del dgs g grp pos (group_positions dgs) of
             None \<Rightarrow> group_moves h t ins del dgs (build_deletion_lookup h del dgs) g grp (pos + 1)
           | Some (m, iter) \<Rightarrow>
               m # (if length grp \<le> iter then []
                    else group_moves h t ins del dgs (build_deletion_lookup h del dgs) g grp iter)
      else [])"
  by (subst group_moves.simps) (simp only: Let_def lookup_try)

lemma group_moves_induct [case_names step]:
  assumes "\<And>pos. (\<And>pos'. pos < pos' \<Longrightarrow> pos < length grp \<Longrightarrow> P pos') \<Longrightarrow> P pos"
  shows "P pos"
proof (induction "length grp - pos" arbitrary: pos rule: less_induct)
  case less
  show ?case by (rule assms) (rule less.hyps, simp)
qed

lemma group_moves_ok:
  assumes "group_ok il_line_number ins grp" and "list_all (group_ok dl_line_number del) dgs"
  shows "list_all (move_ok t) (group_moves h t ins del dgs (build_deletion_lookup h del dgs) g grp pos) \<and>
     subseq (concat (map mm_inserted (group_moves h t ins del dgs (build_deletion_lookup h del dgs) g grp pos)))
       (map ((!) ins) (drop pos grp))"
proof (induction pos rule: group_moves_induct [of grp])
  case (step pos)
  show ?case
  proof (cases "pos < length grp")
    case True
    show ?thesis
    proof (cases "try_candidates t ins del dgs g grp pos (group_positions dgs)")
      case None
      with True step [of "pos + 1"] show ?thesis
        by (subst (1 2) group_moves_step) (auto simp: Cons_nth_drop_Suc [symmetric])
    next
      case (Some r)
      then obtain m iter where r: "try_candidates t ins del dgs g grp pos (group_positions dgs) = Some (m, iter)"
        by (cases r) auto
      from try_candidates_ok [OF r positions_ok_group_positions True assms]
      have m: "move_ok t m" "mm_inserted m = map ((!) ins) (take (iter - pos) (drop pos grp))"
        "iter \<le> length grp" by simp_all
      have lt: "pos < iter" using r by (rule try_candidates_advances)
      have split: "map ((!) ins) (drop pos grp) = mm_inserted m @ map ((!) ins) (drop iter grp)"
        using lt m(2) append_take_drop_id [of "iter - pos" "drop pos grp"]
        by (simp flip: map_append add: add.commute)
      show ?thesis
        using True r m(1) step [OF lt True]
        unfolding split by (subst (1 2) group_moves_step) (auto intro: list_emb_append_mono)
    qed
  next
    case False
    then show ?thesis by (subst (1 2) group_moves_step) simp
  qed
qed

lemma group_moves_hash_irrelevant:
  "group_moves h t ins del dgs (build_deletion_lookup h del dgs) g grp pos =
   group_moves h' t ins del dgs (build_deletion_lookup h' del dgs) g grp pos"
proof (induction pos rule: group_moves_induct [of grp])
  case (step pos)
  show ?case
    using step [of "pos + 1"] step try_candidates_advances
    by (subst (1 2) group_moves_step) (auto split: option.split)
qed

lemma subseq_concat_map:
  "(\<And>x. x \<in> set xs \<Longrightarrow> subseq (f x) (g x)) \<Longrightarrow> subseq (concat (map f xs)) (concat (map g xs))"
  by (induction xs) (auto intro: list_emb_append_mono)

lemma concat_map_moves:
  "concat (map f (concat (map g xs))) = concat (map (\<lambda>x. concat (map f (g x))) xs)"
  by (induction xs) auto

lemma concat_map_snd: "concat (map (\<lambda>(g, grp). map f grp) xs) = map f (concat (map snd xs))"
  by (induction xs) auto

lemma list_all_concat_map:
  "(\<And>x. x \<in> set xs \<Longrightarrow> list_all P (f x)) \<Longrightarrow> list_all P (concat (map f xs))"
  by (induction xs) auto

lemma normalized_texts:
  "x \<in> set (normalized_inserted ins) \<Longrightarrow> il_normalized_content x = trim (il_content x)"
  "y \<in> set (normalized_deleted del) \<Longrightarrow> dl_normalized_content y = trim (dl_content y)"
  by (auto simp: normalized_inserted_def normalized_deleted_def sort_and_normalize_def)

section \<open>Properties\<close>


text \<open>The hash table is only an index: the detected moves do not depend on the hash function,
  whatever its collisions.\<close>

theorem detect_moves_hash_irrelevant:
  "detect_moves h inserted deleted threshold = detect_moves h' inserted deleted threshold"
  unfolding detect_moves_def Let_def by (subst group_moves_hash_irrelevant [of h _ _ _ _ _ _ _ h']) (rule refl)

end
