(* ===== verification/Attribution_Tracker.thy ===== *)
theory Attribution_Tracker
  imports Diff_Computation Move_Detection
begin

text \<open>
  The attribution tracker (\<open>AttributionTracker\<close> in \<open>src/authorship/attribution_tracker.rs\<close>): the
  attributions of a file are carried through an edit. The byte diff is catalogued, moved blocks are
  detected, every old attribution is moved with its bytes, new bytes get an author, and the result is
  sorted and coalesced. The tracker's configuration is its \<open>move_lines_threshold\<close>.
\<close>

section \<open>Catalogues and moves\<close>

type_synonym Deletion = byte_range
type_synonym Insertion = byte_range

record MoveMapping =
  mv_deletion_idx :: nat
  mv_insertion_idx :: nat
  mv_source_range :: byte_range
  mv_target_range :: byte_range

definition MOVE_DETECTION_MIN_FILE_BYTES :: nat where
  "MOVE_DETECTION_MIN_FILE_BYTES = 64 * 1024"
definition MOVE_DETECTION_MAX_OPS :: nat where
  "MOVE_DETECTION_MAX_OPS = 256"

fun catalog_loop :: "nat \<Rightarrow> nat \<Rightarrow> ByteDiff list \<Rightarrow> Deletion list \<times> Insertion list" where
  "catalog_loop old_pos new_pos [] = ([], [])"
| "catalog_loop old_pos new_pos (diff # diffs) =
     (let len = length (bd_data diff)
      in case bd_op diff of
           BEqual \<Rightarrow> catalog_loop (old_pos + len) (new_pos + len) diffs
         | BDelete \<Rightarrow>
             (let (deletions, insertions) = catalog_loop (old_pos + len) new_pos diffs
              in ((old_pos, old_pos + len) # deletions, insertions))
         | BInsert \<Rightarrow>
             (let (deletions, insertions) = catalog_loop old_pos (new_pos + len) diffs
              in (deletions, (new_pos, new_pos + len) # insertions)))"

definition build_diff_catalog :: "ByteDiff list \<Rightarrow> Deletion list \<times> Insertion list" where
  "build_diff_catalog diffs = catalog_loop 0 0 diffs"

definition should_skip_move_detection ::
  "nat \<Rightarrow> str \<Rightarrow> str \<Rightarrow> Deletion list \<Rightarrow> Insertion list \<Rightarrow> bool" where
  "should_skip_move_detection move_lines_threshold old_content new_content deletions insertions =
     (if move_lines_threshold = 0 then True
      else if deletions = [] \<or> insertions = [] then True
      else let max_file_bytes = max (length old_content) (length new_content);
               operation_count = length deletions + length insertions
           in if max_file_bytes < MOVE_DETECTION_MIN_FILE_BYTES \<and> operation_count \<le> MOVE_DETECTION_MAX_OPS
              then False
              else let deleted_bytes = sum_list (map (\<lambda>(s, e). e - s) deletions);
                       inserted_bytes = sum_list (map (\<lambda>(s, e). e - s) insertions);
                       changed_bytes = deleted_bytes + inserted_bytes
                   in MOVE_DETECTION_MAX_OPS < operation_count \<or>
                      MOVE_DETECTION_MIN_FILE_BYTES \<le> max_file_bytes \<and>
                      (max_file_bytes * 3) div 2 \<le> changed_bytes)"

definition overlapping_lines :: "LineMetadata list \<Rightarrow> byte_range \<Rightarrow> LineMetadata list" where
  "overlapping_lines lines region =
     filter (\<lambda>line. lm_start line < snd region \<and> fst region < lm_end line) lines"

text \<open>The span of the matched lines inside a deletion or insertion, relative to its start;
  None is \<open>continue 'mapping\<close>.\<close>

fun span_loop ::
  "(nat \<rightharpoonup> LineMetadata) \<Rightarrow> byte_range \<Rightarrow> nat option \<Rightarrow> nat option \<Rightarrow> nat list \<Rightarrow>
   (nat option \<times> nat option) option" where
  "span_loop line_map region start_opt end_opt [] = Some (start_opt, end_opt)"
| "span_loop line_map region start_opt end_opt (number # numbers) =
     (case line_map number of
        None \<Rightarrow> None
      | Some meta \<Rightarrow>
          (let start = max (lm_start meta) (fst region); end' = min (lm_end meta) (snd region)
           in if end' \<le> start then None
              else span_loop line_map region
                     (case start_opt of None \<Rightarrow> Some (start - fst region) | Some s \<Rightarrow> Some s)
                     (Some (end' - fst region)) numbers))"

definition line_map_of :: "LineMetadata list \<Rightarrow> (nat \<rightharpoonup> LineMetadata)" where
  "line_map_of lines = map_of (rev (map (\<lambda>line. (lm_number line, line)) lines))"

definition relative_span :: "(nat \<rightharpoonup> LineMetadata) \<Rightarrow> byte_range \<Rightarrow> nat list \<Rightarrow> byte_range option" where
  "relative_span line_map region numbers =
     (case span_loop line_map region None None numbers of
        Some (Some start, Some end') \<Rightarrow> if start < end' then Some (start, end') else None
      | _ \<Rightarrow> None)"

definition mapping_of_line_mapping ::
  "(nat \<rightharpoonup> LineMetadata) \<Rightarrow> (nat \<rightharpoonup> LineMetadata) \<Rightarrow> Deletion list \<Rightarrow> Insertion list \<Rightarrow>
   LineMoveMapping \<Rightarrow> MoveMapping option" where
  "mapping_of_line_mapping old_line_map new_line_map deletions insertions m =
     (if mm_deleted m = [] \<or> mm_inserted m = [] then None
      else if length (mm_deleted m) \<noteq> length (mm_inserted m) then None
      else let deletion_idx = dl_deletion_idx (hd (mm_deleted m));
               insertion_idx = il_insertion_idx (hd (mm_inserted m))
           in if \<not> list_all (\<lambda>line. dl_deletion_idx line = deletion_idx) (mm_deleted m) then None
              else if \<not> list_all (\<lambda>line. il_insertion_idx line = insertion_idx) (mm_inserted m) then None
              else if length deletions \<le> deletion_idx \<or> length insertions \<le> insertion_idx then None
              else case relative_span old_line_map (deletions ! deletion_idx) (map dl_line_number (mm_deleted m)) of
                     None \<Rightarrow> None
                   | Some source_range \<Rightarrow>
                       (case relative_span new_line_map (insertions ! insertion_idx)
                               (map il_line_number (mm_inserted m)) of
                          None \<Rightarrow> None
                        | Some target_range \<Rightarrow>
                            Some \<lparr>mv_deletion_idx = deletion_idx, mv_insertion_idx = insertion_idx,
                                  mv_source_range = source_range, mv_target_range = target_range\<rparr>))"

definition tracker_detect_moves ::
  "(str \<Rightarrow> u64) \<Rightarrow> nat \<Rightarrow> str \<Rightarrow> str \<Rightarrow> Deletion list \<Rightarrow> Insertion list \<Rightarrow> MoveMapping list" where
  "tracker_detect_moves hash_normalized threshold old_content new_content deletions insertions =
     (if threshold = 0 \<or> deletions = [] \<or> insertions = [] then []
      else let old_lines = collect_line_metadata old_content;
               new_lines = collect_line_metadata new_content;
               inserted_lines = concat (map (\<lambda>(idx, insertion).
                 map (\<lambda>line. InsertedLine_new (lm_text line) (lm_number line) idx)
                   (overlapping_lines new_lines insertion)) (enumerate 0 insertions));
               deleted_lines = concat (map (\<lambda>(idx, deletion).
                 map (\<lambda>line. DeletedLine_new (lm_text line) (lm_number line) idx)
                   (overlapping_lines old_lines deletion)) (enumerate 0 deletions))
           in if inserted_lines = [] \<or> deleted_lines = [] then []
              else List.map_filter
                     (mapping_of_line_mapping (line_map_of old_lines) (line_map_of new_lines) deletions insertions)
                     (detect_moves hash_normalized inserted_lines deleted_lines threshold))"

section \<open>Order of attributions\<close>

definition attribution_key :: "Attribution \<Rightarrow> nat \<times> nat \<times> str \<times> nat" where
  "attribution_key a = (at_start a, at_end a, at_author_id a, at_ts a)"

definition is_attribution_list_sorted :: "Attribution list \<Rightarrow> bool" where
  "is_attribution_list_sorted attributions = sorted (map attribution_key attributions)"

definition sort_attributions_for_transform :: "Attribution list \<Rightarrow> Attribution list" where
  "sort_attributions_for_transform attributions = sort_key attribution_key attributions"

text \<open>\<open>while cursor < len && attrs[cursor].end <= position { cursor += 1 }\<close>\<close>

definition advance_cursor :: "Attribution list \<Rightarrow> nat \<Rightarrow> nat \<Rightarrow> nat" where
  "advance_cursor attrs position cursor =
     cursor + length (takeWhile (\<lambda>a. at_end a \<le> position) (drop cursor attrs))"

definition better_than :: "Attribution \<Rightarrow> Attribution option \<Rightarrow> bool" where
  "better_than attr best_overlap =
     (case best_overlap of
        None \<Rightarrow> True
      | Some best \<Rightarrow>
          at_ts best < at_ts attr \<or>
          at_ts attr = at_ts best \<and> at_end best - at_start best < at_end attr - at_start attr)"

definition find_attribution_for_insertion ::
  "Attribution list \<Rightarrow> nat \<Rightarrow> nat \<Rightarrow> Attribution option \<times> nat" where
  "find_attribution_for_insertion old_attributions position cursor_hint =
     (if old_attributions = [] then (None, cursor_hint)
      else let cursor = advance_cursor old_attributions position cursor_hint;
               best_overlap =
                 fold (\<lambda>attr best. if Attribution_overlaps attr position (position + 1) \<and> better_than attr best
                                   then Some attr else best)
                   (takeWhile (\<lambda>a. at_start a \<le> position) (drop cursor old_attributions)) None;
               before = (if 0 < cursor then Some (old_attributions ! (cursor - 1)) else None);
               after = find (\<lambda>a. position \<le> at_start a) (drop cursor old_attributions)
           in (case best_overlap of
                 Some best \<Rightarrow> Some best
               | None \<Rightarrow> (case before of Some a \<Rightarrow> Some a | None \<Rightarrow> after), cursor))"

section \<open>Transforming attributions\<close>

text \<open>The attributions of \<open>source\<close> that the scan from the cursor finds, moved to \<open>target_start\<close>.\<close>

definition carry_attributions ::
  "Attribution list \<Rightarrow> nat \<Rightarrow> byte_range \<Rightarrow> nat \<Rightarrow> Attribution list" where
  "carry_attributions old_attributions cursor source target_start =
     List.map_filter (\<lambda>attr.
         case Attribution_intersection attr (fst source) (snd source) of
           None \<Rightarrow> None
         | Some (overlap_start, overlap_end) \<Rightarrow>
             Some (Attribution_new (target_start + (overlap_start - fst source))
                     (target_start + (overlap_start - fst source) + (overlap_end - overlap_start))
                     (at_author_id attr) (at_ts attr)))
       (takeWhile (\<lambda>attr. at_start attr < snd source) (drop cursor old_attributions))"

record TransformState =
  tf_new_attributions :: "Attribution list"
  tf_old_pos :: nat
  tf_new_pos :: nat
  tf_deletion_idx :: nat
  tf_insertion_idx :: nat
  tf_prev_whitespace_delete :: bool
  tf_old_attr_cursor :: nat
  tf_insertion_attr_cursor :: nat
  tf_insertion_move_ranges :: "nat \<rightharpoonup> byte_range list"

record TransformInput =
  tr_old_attributions :: "Attribution list"
  tr_current_author :: str
  tr_insertions :: "Insertion list"
  tr_deletion_to_move :: "nat \<rightharpoonup> MoveMapping list"
  tr_ts :: nat
  tr_substantive_new_ranges :: "byte_range list"
  tr_is_ai_checkpoint :: bool

definition add_deletion_move :: "MoveMapping \<Rightarrow> (nat \<rightharpoonup> MoveMapping list) \<Rightarrow> (nat \<rightharpoonup> MoveMapping list)" where
  "add_deletion_move mapping deletion_to_move =
     (let entry = (case deletion_to_move (mv_deletion_idx mapping) of None \<Rightarrow> [] | Some ms \<Rightarrow> ms)
      in deletion_to_move(mv_deletion_idx mapping \<mapsto>
           (if list_ex (\<lambda>existing. mv_source_range existing = mv_source_range mapping \<and>
                                   mv_target_range existing = mv_target_range mapping) entry
            then entry else entry @ [mapping])))"

definition build_deletion_to_move :: "MoveMapping list \<Rightarrow> (nat \<rightharpoonup> MoveMapping list)" where
  "build_deletion_to_move move_mappings =
     (\<lambda>idx. map_option (sort_key (\<lambda>m. fst (mv_source_range m)))
        (fold add_deletion_move move_mappings Map.empty idx))"

definition build_insertion_move_ranges :: "MoveMapping list \<Rightarrow> (nat \<rightharpoonup> byte_range list)" where
  "build_insertion_move_ranges move_mappings =
     fold (\<lambda>mapping ranges. ranges(mv_insertion_idx mapping \<mapsto>
         (case ranges (mv_insertion_idx mapping) of None \<Rightarrow> [] | Some rs \<Rightarrow> rs) @ [mv_target_range mapping]))
       move_mappings Map.empty"

definition transform_equal :: "TransformInput \<Rightarrow> nat \<Rightarrow> TransformState \<Rightarrow> TransformState" where
  "transform_equal inp len st =
     (let old_attributions = tr_old_attributions inp;
          cursor = advance_cursor old_attributions (tf_old_pos st) (tf_old_attr_cursor st)
      in st\<lparr>tf_new_attributions := tf_new_attributions st @
              carry_attributions old_attributions cursor (tf_old_pos st, tf_old_pos st + len) (tf_new_pos st),
            tf_old_attr_cursor := cursor,
            tf_old_pos := tf_old_pos st + len, tf_new_pos := tf_new_pos st + len,
            tf_prev_whitespace_delete := False\<rparr>)"

definition carry_move :: "TransformInput \<Rightarrow> nat \<Rightarrow> MoveMapping \<Rightarrow> TransformState \<Rightarrow> TransformState" where
  "carry_move inp deletion_start mapping st =
     (let insertion = tr_insertions inp ! mv_insertion_idx mapping;
          source_start = deletion_start + fst (mv_source_range mapping);
          source_end = deletion_start + snd (mv_source_range mapping)
      in if source_start < source_end
         then let target_start = fst insertion + fst (mv_target_range mapping);
                  cursor = advance_cursor (tr_old_attributions inp) source_start (tf_old_attr_cursor st)
              in st\<lparr>tf_old_attr_cursor := cursor,
                    tf_new_attributions := tf_new_attributions st @
                      filter (\<lambda>a. at_start a < at_end a)
                        (carry_attributions (tr_old_attributions inp) cursor (source_start, source_end)
                           target_start)\<rparr>
         else st)"

definition transform_delete :: "TransformInput \<Rightarrow> str \<Rightarrow> TransformState \<Rightarrow> TransformState" where
  "transform_delete inp data st =
     (let st' = (case tr_deletion_to_move inp (tf_deletion_idx st) of
                   Some mappings \<Rightarrow> fold (carry_move inp (tf_old_pos st)) mappings st
                 | None \<Rightarrow>
                     if tr_is_ai_checkpoint inp \<or> \<not> data_is_whitespace data
                     then st\<lparr>tf_new_attributions := tf_new_attributions st @
                            [Attribution_new (tf_new_pos st) (tf_new_pos st) (tr_current_author inp) (tr_ts inp)]\<rparr>
                     else st)
      in st'\<lparr>tf_old_pos := tf_old_pos st' + length data, tf_deletion_idx := tf_deletion_idx st' + 1,
             tf_prev_whitespace_delete := data_is_whitespace data\<rparr>)"

text \<open>The parts of an insertion that no move covers get the current author.\<close>

fun uncovered_parts :: "nat \<Rightarrow> nat \<Rightarrow> byte_range list \<Rightarrow> byte_range list" where
  "uncovered_parts len cursor [] = (if cursor < len then [(cursor, len)] else [])"
| "uncovered_parts len cursor ((start, end') # ranges) =
     (let clamped_start = min start len; clamped_end = min end' len
      in (if cursor < clamped_start then [(cursor, clamped_start)] else []) @
         uncovered_parts len (max cursor clamped_end) ranges)"

definition insertion_author ::
  "TransformInput \<Rightarrow> str \<Rightarrow> TransformState \<Rightarrow> (str \<times> nat) \<times> nat" where
  "insertion_author inp data st =
     (let current = (tr_current_author inp, tr_ts inp);
          insertion_range = (tf_new_pos st, tf_new_pos st + length data);
          is_formatting_pair = tf_prev_whitespace_delete st \<and> data_is_whitespace data;
          last_attr = (if tf_new_attributions st = [] then None else Some (last (tf_new_attributions st)));
          cursor = tf_insertion_attr_cursor st;
          (found, cursor') = find_attribution_for_insertion (tr_old_attributions inp) (tf_old_pos st) cursor
      in if newline \<in> set data then (current, cursor)
         else if ranges_intersect (tr_substantive_new_ranges inp) insertion_range then (current, cursor)
         else if is_formatting_pair
         then (case found of
                 Some a \<Rightarrow> ((at_author_id a, at_ts a), cursor')
               | None \<Rightarrow> (case last_attr of
                            Some a \<Rightarrow> ((at_author_id a, at_ts a), cursor')
                          | None \<Rightarrow> (current, cursor')))
         else (case last_attr of
                 Some a \<Rightarrow> ((at_author_id a, at_ts a), cursor)
               | None \<Rightarrow> (case found of
                            Some a \<Rightarrow> ((at_author_id a, at_ts a), cursor')
                          | None \<Rightarrow> (current, cursor'))))"

definition transform_insert :: "TransformInput \<Rightarrow> str \<Rightarrow> TransformState \<Rightarrow> TransformState" where
  "transform_insert inp data st =
     (let len = length data;
          own = (\<lambda>(s, e). Attribution_new (tf_new_pos st + s) (tf_new_pos st + e) (tr_current_author inp) (tr_ts inp));
          st' = (case tf_insertion_move_ranges st (tf_insertion_idx st) of
                   Some ranges \<Rightarrow>
                     st\<lparr>tf_insertion_move_ranges := (tf_insertion_move_ranges st)(tf_insertion_idx st := None),
                        tf_new_attributions := tf_new_attributions st @
                          map own (uncovered_parts len 0 (merge_sorted (sort_key fst ranges)))\<rparr>
                 | None \<Rightarrow>
                     if tr_is_ai_checkpoint inp
                     then st\<lparr>tf_new_attributions := tf_new_attributions st @ [own (0, len)]\<rparr>
                     else let ((author_id, attribution_ts), cursor) = insertion_author inp data st
                          in st\<lparr>tf_insertion_attr_cursor := cursor,
                                tf_new_attributions := tf_new_attributions st @
                                  [Attribution_new (tf_new_pos st) (tf_new_pos st + len) author_id attribution_ts]\<rparr>)
      in st'\<lparr>tf_new_pos := tf_new_pos st' + len, tf_insertion_idx := tf_insertion_idx st' + 1,
             tf_prev_whitespace_delete := False\<rparr>)"

definition transform_diff :: "TransformInput \<Rightarrow> ByteDiff \<Rightarrow> TransformState \<Rightarrow> TransformState" where
  "transform_diff inp diff st =
     (case bd_op diff of
        BEqual \<Rightarrow> transform_equal inp (length (bd_data diff)) st
      | BDelete \<Rightarrow> transform_delete inp (bd_data diff) st
      | BInsert \<Rightarrow> transform_insert inp (bd_data diff) st)"

definition transform_attributions ::
  "ByteDiff list \<Rightarrow> Attribution list \<Rightarrow> str \<Rightarrow> Insertion list \<Rightarrow> MoveMapping list \<Rightarrow> nat \<Rightarrow> byte_range list \<Rightarrow>
   bool \<Rightarrow> Attribution list" where
  "transform_attributions diffs old_attributions current_author insertions move_mappings ts
     substantive_new_ranges is_ai_checkpoint =
     tf_new_attributions (fold (transform_diff
         \<lparr>tr_old_attributions = old_attributions, tr_current_author = current_author,
          tr_insertions = insertions, tr_deletion_to_move = build_deletion_to_move move_mappings,
          tr_ts = ts, tr_substantive_new_ranges = substantive_new_ranges,
          tr_is_ai_checkpoint = is_ai_checkpoint\<rparr>) diffs
       \<lparr>tf_new_attributions = [], tf_old_pos = 0, tf_new_pos = 0, tf_deletion_idx = 0, tf_insertion_idx = 0,
        tf_prev_whitespace_delete = False, tf_old_attr_cursor = 0, tf_insertion_attr_cursor = 0,
        tf_insertion_move_ranges = build_insertion_move_ranges move_mappings\<rparr>)"

section \<open>Merging and updating\<close>

definition can_merge :: "Attribution \<Rightarrow> Attribution \<Rightarrow> bool" where
  "can_merge last' attr \<longleftrightarrow>
     at_author_id last' = at_author_id attr \<and> at_ts last' = at_ts attr \<and> at_start last' < at_end last' \<and>
     at_start attr < at_end attr \<and> at_start attr \<le> at_end last'"

fun coalesce_into :: "Attribution \<Rightarrow> Attribution list \<Rightarrow> Attribution list" where
  "coalesce_into last' [] = [last']"
| "coalesce_into last' (attr # attrs) =
     (if can_merge last' attr then coalesce_into (last'\<lparr>at_end := max (at_end last') (at_end attr)\<rparr>) attrs
      else last' # coalesce_into attr attrs)"

fun coalesce :: "Attribution list \<Rightarrow> Attribution list" where
  "coalesce [] = []"
| "coalesce (attr # attrs) = coalesce_into attr attrs"

definition merge_attributions :: "Attribution list \<Rightarrow> Attribution list" where
  "merge_attributions attributions =
     (if attributions = [] then attributions
      else coalesce (remdups_adj (sort_key attribution_key attributions)))"

record TrackerConfig = Externals +
  tc_hash :: "str \<Rightarrow> u64"
  tc_move_lines_threshold :: nat

definition update_attributions_normalized ::
  "TrackerConfig \<Rightarrow> str \<Rightarrow> str \<Rightarrow> Attribution list \<Rightarrow> str \<Rightarrow> nat \<Rightarrow> bool \<Rightarrow> tracker_error + Attribution list" where
  "update_attributions_normalized cfg old_content new_content old_attributions current_author ts is_ai_checkpoint =
     (let old_attributions = (if \<not> is_attribution_list_sorted old_attributions
                              then sort_attributions_for_transform old_attributions else old_attributions)
      in case compute_diffs (Externals.truncate cfg) old_content new_content is_ai_checkpoint of
           Inl e \<Rightarrow> Inl e
         | Inr diff_result \<Rightarrow>
             (let (deletions, insertions) = build_diff_catalog (dc_diffs diff_result);
                  threshold = tc_move_lines_threshold cfg;
                  move_mappings =
                    (if is_ai_checkpoint then []
                     else if should_skip_move_detection threshold old_content new_content deletions insertions
                     then []
                     else tracker_detect_moves (tc_hash cfg) threshold old_content new_content deletions insertions)
              in Inr (merge_attributions
                   (transform_attributions (dc_diffs diff_result) old_attributions current_author insertions
                      move_mappings ts (dc_substantive_new_ranges diff_result) is_ai_checkpoint))))"

definition update_attributions_for_checkpoint ::
  "TrackerConfig \<Rightarrow> str \<Rightarrow> str \<Rightarrow> Attribution list \<Rightarrow> str \<Rightarrow> nat \<Rightarrow> bool \<Rightarrow> tracker_error + Attribution list" where
  "update_attributions_for_checkpoint cfg old_content new_content old_attributions current_author ts
     is_ai_checkpoint =
     (if \<not> contains_crlf old_content \<and> \<not> contains_crlf new_content
      then update_attributions_normalized cfg old_content new_content old_attributions current_author ts
             is_ai_checkpoint
      else let old_offsets = LineEndingOffsets_new old_content;
               new_offsets = LineEndingOffsets_new new_content;
               normalized_attrs = List.map_filter (normalize_attribution old_offsets) old_attributions
           in case update_attributions_normalized cfg (normalize_line_endings old_content)
                     (normalize_line_endings new_content) normalized_attrs current_author ts is_ai_checkpoint of
                Inl e \<Rightarrow> Inl e
              | Inr updated \<Rightarrow>
                  Inr (map (\<lambda>attr. attr\<lparr>at_start := to_original new_offsets (at_start attr),
                                       at_end := to_original new_offsets (at_end attr)\<rparr>) updated))"

definition update_attributions ::
  "TrackerConfig \<Rightarrow> str \<Rightarrow> str \<Rightarrow> Attribution list \<Rightarrow> str \<Rightarrow> nat \<Rightarrow> tracker_error + Attribution list" where
  "update_attributions cfg old_content new_content old_attributions current_author ts =
     update_attributions_for_checkpoint cfg old_content new_content old_attributions current_author ts False"

text \<open>\<open>attribute_unattributed_ranges\<close> scans the characters of the file; \<open>pos\<close> is the offset of
  the next one.\<close>

function unattributed_loop ::
  "str \<Rightarrow> str \<Rightarrow> nat \<Rightarrow> nat \<Rightarrow> nat option \<Rightarrow> Attribution list \<Rightarrow> Attribution list" where
  "unattributed_loop content author ts pos range_start attributions =
     (if length content \<le> pos
      then case range_start of
             Some start \<Rightarrow>
               if start < length content
               then attributions @ [Attribution_new start (length content) author ts] else attributions
           | None \<Rightarrow> attributions
      else let end' = pos + length (char_at content pos);
               covered = list_ex (\<lambda>a. Attribution_overlaps a pos end') attributions
           in if covered
              then unattributed_loop content author ts end' None
                     (case range_start of
                        Some start \<Rightarrow>
                          if start < pos then attributions @ [Attribution_new start pos author ts] else attributions
                      | None \<Rightarrow> attributions)
              else unattributed_loop content author ts end'
                     (case range_start of None \<Rightarrow> Some pos | Some start \<Rightarrow> Some start) attributions)"
  by pat_completeness auto
termination
  by (relation "measure (\<lambda>(s, a, t, pos, r, l). length s - pos)") (auto simp: char_at_nonempty diff_less_mono2)

declare unattributed_loop.simps [simp del]

definition attribute_unattributed_ranges ::
  "str \<Rightarrow> Attribution list \<Rightarrow> str \<Rightarrow> nat \<Rightarrow> Attribution list" where
  "attribute_unattributed_ranges content prev_attributions author ts =
     unattributed_loop content author ts 0 None prev_attributions"

end
