(* ===== verification/Tracker_Properties.thy ===== *)
theory Tracker_Properties
  imports Attribution_Tracker
begin

text \<open>
  What the attribution tracker guarantees: which authors every byte of the new text has after an
  update. A byte the diff keeps has the authors its old byte had; a byte the diff inserts has one
  author, at an AI checkpoint always the current one.
\<close>

section \<open>The authors of a byte\<close>

definition attributes :: "Attribution list \<Rightarrow> nat \<Rightarrow> str \<Rightarrow> nat \<Rightarrow> bool" where
  "attributes attrs p author ts =
     list_ex (\<lambda>a. byte_attributed a p \<and> at_author_id a = author \<and> at_ts a = ts) attrs"

lemma attributes_simps [simp]:
  "\<not> attributes [] p au t"
  "attributes (a # as) p au t \<longleftrightarrow> byte_attributed a p \<and> at_author_id a = au \<and> at_ts a = t \<or> attributes as p au t"
  "attributes (as @ bs) p au t \<longleftrightarrow> attributes as p au t \<or> attributes bs p au t"
  by (simp_all add: attributes_def)

lemma attributes_iff:
  "attributes as p au t \<longleftrightarrow> (\<exists>a \<in> set as. byte_attributed a p \<and> at_author_id a = au \<and> at_ts a = t)"
  by (simp add: attributes_def list_ex_iff)

lemma attributes_cong_set: "set as = set bs \<Longrightarrow> attributes as p au t = attributes bs p au t"
  by (simp add: attributes_iff)

section \<open>Merging keeps the authors\<close>

lemma coalesce_into_attributes:
  assumes "sorted (map at_start (a # as))"
  shows "attributes (coalesce_into a as) p au t \<longleftrightarrow> attributes (a # as) p au t"
  using assms
proof (induction a as rule: coalesce_into.induct)
  case (2 a b as)
  show ?case
  proof (cases "can_merge a b")
    case True
    then have "byte_attributed (a\<lparr>at_end := max (at_end a) (at_end b)\<rparr>) p \<longleftrightarrow>
        byte_attributed a p \<or> byte_attributed b p"
      using 2(3) by (auto simp: can_merge_def byte_attributed_def)
    with True 2 show ?thesis by (auto simp: can_merge_def)
  next
    case False
    with 2 show ?thesis by auto
  qed
qed simp

lemma coalesce_attributes:
  "sorted (map at_start as) \<Longrightarrow> attributes (coalesce as) p au t = attributes as p au t"
  by (cases as) (simp_all add: coalesce_into_attributes del: coalesce_into.simps)

lemma sorted_key_start: "sorted (map attribution_key as) \<Longrightarrow> sorted (map at_start as)"
  by (simp add: sorted_map) (erule sorted_wrt_mono_rel [rotated], auto simp: attribution_key_def less_eq_prod_simp)

lemma sorted_start_remdups: "sorted (map at_start as) \<Longrightarrow> sorted (map at_start (remdups_adj as))"
  by (induction as rule: remdups_adj.induct) auto

lemma merge_attributions_attributes:
  "attributes (merge_attributions as) p au t = attributes as p au t"
proof (cases "as = []")
  case False
  have "sorted (map at_start (sort_key attribution_key as))" by (rule sorted_key_start) simp
  then have "attributes (coalesce (remdups_adj (sort_key attribution_key as))) p au t =
      attributes (remdups_adj (sort_key attribution_key as)) p au t"
    by (intro coalesce_attributes sorted_start_remdups)
  also have "\<dots> = attributes as p au t" by (rule attributes_cong_set) simp
  finally show ?thesis using False by (simp add: merge_attributions_def)
qed (simp add: merge_attributions_def)

text \<open>Deletion markers, the attributions of no bytes, survive the merge.\<close>

definition is_marker :: "Attribution \<Rightarrow> bool" where
  "is_marker a = (at_start a = at_end a)"

lemma coalesce_into_markers:
  "set (filter is_marker (coalesce_into a as)) = set (filter is_marker (a # as))"
proof (induction a as rule: coalesce_into.induct)
  case (2 a b as)
  show ?case
  proof (cases "can_merge a b")
    case True
    then have "\<not> is_marker a" "\<not> is_marker b" "\<not> is_marker (a\<lparr>at_end := max (at_end a) (at_end b)\<rparr>)"
      by (auto simp: can_merge_def is_marker_def)
    with True 2 show ?thesis by simp
  next
    case False
    with 2 show ?thesis by auto
  qed
qed simp

lemma coalesce_markers: "set (filter is_marker (coalesce as)) = set (filter is_marker as)"
  by (cases as) (simp, simp only: coalesce.simps coalesce_into_markers)

lemma merge_attributions_markers:
  "set (filter is_marker (merge_attributions as)) = set (filter is_marker as)"
proof (cases "as = []")
  case False
  then have "set (filter is_marker (merge_attributions as)) =
      set (filter is_marker (remdups_adj (sort_key attribution_key as)))"
    unfolding merge_attributions_def by (simp only: if_False coalesce_markers)
  also have "\<dots> = set (filter is_marker as)" by simp
  finally show ?thesis .
qed (simp add: merge_attributions_def)

section \<open>Carrying attributions\<close>

definition cursor_ok :: "Attribution list \<Rightarrow> nat \<Rightarrow> nat \<Rightarrow> bool" where
  "cursor_ok attrs cursor position = list_all (\<lambda>a. at_end a \<le> position) (take cursor attrs)"

lemma cursor_ok_advance:
  assumes "cursor_ok attrs cursor position" and "position \<le> position'"
  shows "cursor_ok attrs (advance_cursor attrs position' cursor) position'"
proof -
  let ?skip = "takeWhile (\<lambda>a. at_end a \<le> position') (drop cursor attrs)"
  have "take (length ?skip) (drop cursor attrs) = ?skip" by (metis takeWhile_eq_take)
  then have "take (advance_cursor attrs position' cursor) attrs = take cursor attrs @ ?skip"
    by (simp add: advance_cursor_def take_add)
  moreover have "list_all (\<lambda>a. at_end a \<le> position') ?skip" by (auto simp: list_all_iff dest: set_takeWhileD)
  ultimately show ?thesis
    using assms by (auto simp: cursor_ok_def list_all_iff)
qed

lemma cursor_ok_mono: "cursor_ok attrs c position \<Longrightarrow> position \<le> position' \<Longrightarrow> cursor_ok attrs c position'"
  by (auto simp: cursor_ok_def list_all_iff)

lemma carry_piece:
  assumes "s \<le> e"
  shows "(case Attribution_intersection a s e of None \<Rightarrow> False
     | Some (x, y) \<Rightarrow> byte_attributed (Attribution_new (t0 + (x - s)) (t0 + (x - s) + (y - x)) au t) p) \<longleftrightarrow>
     t0 \<le> p \<and> p < t0 + (e - s) \<and> byte_attributed a (s + (p - t0))"
  using assms
  by (auto simp: Attribution_intersection_def byte_attributed_def Let_def max_def min_def split: if_splits)

lemma carry_attributes:
  assumes "sorted (map at_start attrs)" and "cursor_ok attrs cursor s" and "s \<le> e"
  shows "attributes (carry_attributions attrs cursor (s, e) t0) p au t \<longleftrightarrow>
     t0 \<le> p \<and> p < t0 + (e - s) \<and> attributes attrs (s + (p - t0)) au t"
proof -
  let ?scan = "takeWhile (\<lambda>a. at_start a < e) (drop cursor attrs)"
  have "attributes (carry_attributions attrs cursor (s, e) t0) p au t \<longleftrightarrow>
      (\<exists>a \<in> set ?scan. at_author_id a = au \<and> at_ts a = t \<and>
        (case Attribution_intersection a s e of None \<Rightarrow> False
         | Some (x, y) \<Rightarrow> byte_attributed (Attribution_new (t0 + (x - s)) (t0 + (x - s) + (y - x)) au t) p))"
    by (force simp: carry_attributions_def attributes_iff List.map_filter_def byte_attributed_def split: option.splits)
  also have "\<dots> \<longleftrightarrow> t0 \<le> p \<and> p < t0 + (e - s) \<and>
      (\<exists>a \<in> set ?scan. at_author_id a = au \<and> at_ts a = t \<and> byte_attributed a (s + (p - t0)))"
    unfolding carry_piece [OF assms(3)] by auto
  also have "\<dots> \<longleftrightarrow> t0 \<le> p \<and> p < t0 + (e - s) \<and> attributes attrs (s + (p - t0)) au t"
  proof (cases "t0 \<le> p \<and> p < t0 + (e - s)")
    case True
    then have q: "s \<le> s + (p - t0)" "s + (p - t0) < e" using assms(3) by auto
    have "a \<in> set ?scan" if a: "a \<in> set attrs" "byte_attributed a (s + (p - t0))" for a
    proof -
      from a(1) have "a \<in> set (take cursor attrs) \<or> a \<in> set (drop cursor attrs)"
        by (metis Un_iff append_take_drop_id set_append)
      moreover have "a \<notin> set (take cursor attrs)"
        using assms(2) a(2) q by (auto simp: cursor_ok_def list_all_iff byte_attributed_def)
      moreover have "sorted (map at_start (drop cursor attrs))"
        using assms(1) by (simp add: drop_map [symmetric] sorted_wrt_drop)
      ultimately show ?thesis using a(2) q by (intro sorted_takeWhile_mem) (auto simp: byte_attributed_def)
    qed
    then show ?thesis by (auto simp: attributes_iff dest: set_takeWhileD in_set_dropD)
  qed auto
  finally show ?thesis .
qed

section \<open>Transforming attributions\<close>

text \<open>Where a byte of the new text comes from: \<open>Some (Some q)\<close> is byte \<open>q\<close> of the old text,
  \<open>Some None\<close> is an inserted byte.\<close>

fun origin :: "nat \<Rightarrow> nat \<Rightarrow> ByteDiff list \<Rightarrow> nat \<Rightarrow> nat option option" where
  "origin old_pos new_pos [] p = None"
| "origin old_pos new_pos (d # ds) p =
     (let len = length (bd_data d)
      in case bd_op d of
           BEqual \<Rightarrow>
             if new_pos \<le> p \<and> p < new_pos + len then Some (Some (old_pos + (p - new_pos)))
             else origin (old_pos + len) (new_pos + len) ds p
         | BDelete \<Rightarrow> origin (old_pos + len) new_pos ds p
         | BInsert \<Rightarrow>
             if new_pos \<le> p \<and> p < new_pos + len then Some None
             else origin old_pos (new_pos + len) ds p)"

lemma origin_below: "p < n \<Longrightarrow> origin o' n ds p = None"
proof (induction ds arbitrary: o' n)
  case (Cons d ds)
  then show ?case by (cases "bd_op d") (auto simp: Let_def)
qed simp

lemma origin_complete:
  "n \<le> p \<Longrightarrow> p < n + length (new_side ds) \<Longrightarrow>
     (case origin o' n ds p of
        None \<Rightarrow> False
      | Some None \<Rightarrow> True
      | Some (Some q) \<Rightarrow> o' \<le> q \<and> q < o' + length (old_side ds) \<and> old_side ds ! (q - o') = new_side ds ! (p - n))"
proof (induction ds arbitrary: o' n)
  case (Cons d ds)
  let ?len = "length (bd_data d)"
  show ?case
  proof (cases "bd_op d")
    case BEqual
    then have sides: "old_side (d # ds) = bd_data d @ old_side ds" "new_side (d # ds) = bd_data d @ new_side ds"
      by (simp_all add: old_side_def new_side_def)
    show ?thesis
    proof (cases "p < n + ?len")
      case True
      with BEqual Cons.prems sides show ?thesis by (auto simp: Let_def nth_append)
    next
      case False
      with Cons.IH [of "n + ?len" "o' + ?len"] Cons.prems BEqual sides show ?thesis
        by (auto simp: Let_def nth_append split: option.splits)
    qed
  next
    case BDelete
    then have "old_side (d # ds) = bd_data d @ old_side ds" "new_side (d # ds) = new_side ds"
      by (simp_all add: old_side_def new_side_def)
    with Cons.IH [of n "o' + ?len"] Cons.prems BDelete show ?thesis
      by (auto simp: Let_def nth_append split: option.splits)
  next
    case BInsert
    then have sides: "old_side (d # ds) = old_side ds" "new_side (d # ds) = bd_data d @ new_side ds"
      by (simp_all add: old_side_def new_side_def)
    show ?thesis
    proof (cases "p < n + ?len")
      case True
      with BInsert Cons.prems show ?thesis by (simp add: Let_def)
    next
      case False
      with Cons.IH [of "n + ?len" o'] Cons.prems BInsert sides show ?thesis
        by (auto simp: Let_def nth_append split: option.splits)
    qed
  qed
qed (simp add: new_side_def)

text \<open>The invariant of the loop when no moves were detected.\<close>

definition unmoved :: "TransformInput \<Rightarrow> TransformState \<Rightarrow> bool" where
  "unmoved inp st \<longleftrightarrow> tr_deletion_to_move inp = Map.empty \<and> tf_insertion_move_ranges st = Map.empty \<and>
     sorted (map at_start (tr_old_attributions inp)) \<and>
     cursor_ok (tr_old_attributions inp) (tf_old_attr_cursor st) (tf_old_pos st)"

text \<open>What one diff adds, when its insertion is given to the author \<open>x\<close>.\<close>

definition adds :: "TransformInput \<Rightarrow> ByteDiff \<Rightarrow> nat \<Rightarrow> nat \<Rightarrow> str \<times> nat \<Rightarrow> Attribution list \<Rightarrow> bool" where
  "adds inp d old_pos new_pos x added \<longleftrightarrow>
     (\<forall>p au t. attributes added p au t \<longleftrightarrow>
        (case bd_op d of
           BEqual \<Rightarrow> new_pos \<le> p \<and> p < new_pos + length (bd_data d) \<and>
             attributes (tr_old_attributions inp) (old_pos + (p - new_pos)) au t
         | BDelete \<Rightarrow> False
         | BInsert \<Rightarrow> new_pos \<le> p \<and> p < new_pos + length (bd_data d) \<and> (au, t) = x))"

lemma transform_step:
  assumes "unmoved inp st"
  shows "\<exists>x added. tf_new_attributions (transform_diff inp d st) = tf_new_attributions st @ added \<and>
     adds inp d (tf_old_pos st) (tf_new_pos st) x added \<and>
     (tr_is_ai_checkpoint inp \<longrightarrow> x = (tr_current_author inp, tr_ts inp)) \<and>
     unmoved inp (transform_diff inp d st) \<and>
     tf_old_pos (transform_diff inp d st) =
       tf_old_pos st + (if bd_op d = BInsert then 0 else length (bd_data d)) \<and>
     tf_new_pos (transform_diff inp d st) =
       tf_new_pos st + (if bd_op d = BDelete then 0 else length (bd_data d))"
proof (cases "bd_op d")
  case BEqual
  let ?c = "advance_cursor (tr_old_attributions inp) (tf_old_pos st) (tf_old_attr_cursor st)"
  have c: "cursor_ok (tr_old_attributions inp) ?c (tf_old_pos st)"
    using assms by (intro cursor_ok_advance) (auto simp: unmoved_def)
  have "adds inp d (tf_old_pos st) (tf_new_pos st) x
      (carry_attributions (tr_old_attributions inp) ?c (tf_old_pos st, tf_old_pos st + length (bd_data d))
        (tf_new_pos st))" for x
    using assms BEqual c by (simp add: adds_def unmoved_def carry_attributes)
  moreover have "cursor_ok (tr_old_attributions inp) ?c (tf_old_pos st + length (bd_data d))"
    using c by (rule cursor_ok_mono) simp
  ultimately show ?thesis
    using assms BEqual by (auto simp: transform_diff_def transform_equal_def Let_def unmoved_def)
next
  case BDelete
  have c: "cursor_ok (tr_old_attributions inp) (tf_old_attr_cursor st) (tf_old_pos st + length (bd_data d))"
    using assms by (auto simp: unmoved_def intro: cursor_ok_mono)
  let ?m = "if tr_is_ai_checkpoint inp \<or> \<not> data_is_whitespace (bd_data d)
    then [Attribution_new (tf_new_pos st) (tf_new_pos st) (tr_current_author inp) (tr_ts inp)] else []"
  have "adds inp d (tf_old_pos st) (tf_new_pos st) x ?m" for x
    using BDelete by (simp add: adds_def byte_attributed_def)
  moreover have "tf_new_attributions (transform_diff inp d st) = tf_new_attributions st @ ?m"
    using assms BDelete by (simp add: transform_diff_def transform_delete_def Let_def unmoved_def)
  ultimately show ?thesis
    using assms BDelete c
    by (auto simp: transform_diff_def transform_delete_def Let_def unmoved_def intro!: exI [of _ ?m])
next
  case BInsert
  let ?x = "if tr_is_ai_checkpoint inp then (tr_current_author inp, tr_ts inp)
    else fst (insertion_author inp (bd_data d) st)"
  let ?a = "[Attribution_new (tf_new_pos st) (tf_new_pos st + length (bd_data d)) (fst ?x) (snd ?x)]"
  have "adds inp d (tf_old_pos st) (tf_new_pos st) ?x ?a"
    using BInsert by (cases "insertion_author inp (bd_data d) st") (auto simp: adds_def byte_attributed_def)
  moreover have "tf_new_attributions (transform_diff inp d st) = tf_new_attributions st @ ?a"
    using assms BInsert by (simp add: transform_diff_def transform_insert_def Let_def unmoved_def split_beta)
  moreover have "unmoved inp (transform_diff inp d st)"
    "tf_old_pos (transform_diff inp d st) = tf_old_pos st"
    "tf_new_pos (transform_diff inp d st) = tf_new_pos st + length (bd_data d)"
    using assms BInsert
    by (simp_all add: transform_diff_def transform_insert_def Let_def unmoved_def split_beta)
  ultimately show ?thesis using BInsert by (intro exI [of _ ?x] exI [of _ ?a]) simp
qed

text \<open>The authors the whole loop gives to a byte.\<close>

definition final_author ::
  "Attribution list \<Rightarrow> (nat \<Rightarrow> str \<times> nat) \<Rightarrow> nat option option \<Rightarrow> nat \<Rightarrow> str \<Rightarrow> nat \<Rightarrow> bool" where
  "final_author old_attrs X source p au t =
     (case source of
        None \<Rightarrow> False
      | Some None \<Rightarrow> (au, t) = X p
      | Some (Some q) \<Rightarrow> attributes old_attrs q au t)"

lemma transform_fold:
  assumes "unmoved inp st"
  shows "\<exists>X. (tr_is_ai_checkpoint inp \<longrightarrow> X = (\<lambda>_. (tr_current_author inp, tr_ts inp))) \<and>
     (\<forall>p au t. attributes (tf_new_attributions (fold (transform_diff inp) ds st)) p au t \<longleftrightarrow>
        attributes (tf_new_attributions st) p au t \<or>
        final_author (tr_old_attributions inp) X (origin (tf_old_pos st) (tf_new_pos st) ds p) p au t)"
  using assms
proof (induction ds arbitrary: st)
  case (Cons d ds)
  let ?st = "transform_diff inp d st"
  obtain x added where new: "tf_new_attributions ?st = tf_new_attributions st @ added"
    and ad: "adds inp d (tf_old_pos st) (tf_new_pos st) x added"
    and x: "tr_is_ai_checkpoint inp \<longrightarrow> x = (tr_current_author inp, tr_ts inp)"
    and un: "unmoved inp ?st"
    and pos: "tf_old_pos ?st = tf_old_pos st + (if bd_op d = BInsert then 0 else length (bd_data d))"
      "tf_new_pos ?st = tf_new_pos st + (if bd_op d = BDelete then 0 else length (bd_data d))"
    using transform_step [OF Cons.prems, of d] by blast
  obtain X where X: "tr_is_ai_checkpoint inp \<longrightarrow> X = (\<lambda>_. (tr_current_author inp, tr_ts inp))"
    and IH: "\<And>p au t. attributes (tf_new_attributions (fold (transform_diff inp) ds ?st)) p au t \<longleftrightarrow>
        attributes (tf_new_attributions ?st) p au t \<or>
        final_author (tr_old_attributions inp) X (origin (tf_old_pos ?st) (tf_new_pos ?st) ds p) p au t"
    using Cons.IH [OF un] by blast
  let ?X = "\<lambda>p. if bd_op d = BInsert \<and> tf_new_pos st \<le> p \<and> p < tf_new_pos st + length (bd_data d) then x else X p"
  have "tr_is_ai_checkpoint inp \<longrightarrow> ?X = (\<lambda>_. (tr_current_author inp, tr_ts inp))" using x X by auto
  moreover have "attributes (tf_new_attributions (fold (transform_diff inp) (d # ds) st)) p au t \<longleftrightarrow>
      attributes (tf_new_attributions st) p au t \<or>
      final_author (tr_old_attributions inp) ?X (origin (tf_old_pos st) (tf_new_pos st) (d # ds) p) p au t"
    for p au t
  proof (cases "bd_op d")
    case BEqual
    then show ?thesis using IH [of p au t] ad [unfolded adds_def, rule_format, of p au t] pos
      origin_below [of p "tf_new_pos ?st" "tf_old_pos ?st" ds] new
      by (auto simp: Let_def final_author_def split: option.splits)
  next
    case BDelete
    then show ?thesis using IH [of p au t] ad [unfolded adds_def, rule_format, of p au t] pos new
      by (auto simp: Let_def final_author_def split: option.splits)
  next
    case BInsert
    then show ?thesis using IH [of p au t] ad [unfolded adds_def, rule_format, of p au t] pos
      origin_below [of p "tf_new_pos ?st" "tf_old_pos ?st" ds] new
      by (auto simp: Let_def final_author_def split: option.splits)
  qed
  ultimately show ?case by blast
qed (simp add: final_author_def)

lemma transform_attributions_unmoved:
  assumes "sorted (map at_start old_attrs)"
  shows "\<exists>X. (ai \<longrightarrow> X = (\<lambda>_. (author, ts))) \<and>
     (\<forall>p au t. attributes (transform_attributions diffs old_attrs author insertions [] ts ranges ai) p au t \<longleftrightarrow>
        final_author old_attrs X (origin 0 0 diffs p) p au t)"
proof -
  let ?inp = "\<lparr>tr_old_attributions = old_attrs, tr_current_author = author, tr_insertions = insertions,
    tr_deletion_to_move = build_deletion_to_move [], tr_ts = ts, tr_substantive_new_ranges = ranges,
    tr_is_ai_checkpoint = ai\<rparr>"
  let ?st = "\<lparr>tf_new_attributions = [], tf_old_pos = 0, tf_new_pos = 0, tf_deletion_idx = 0,
    tf_insertion_idx = 0, tf_prev_whitespace_delete = False, tf_old_attr_cursor = 0,
    tf_insertion_attr_cursor = 0, tf_insertion_move_ranges = build_insertion_move_ranges []\<rparr>"
  have "unmoved ?inp ?st"
    using assms by (simp add: unmoved_def build_deletion_to_move_def build_insertion_move_ranges_def cursor_ok_def)
  from transform_fold [OF this, of diffs] show ?thesis by (simp add: transform_attributions_def)
qed

section \<open>Updating\<close>

lemma sorted_for_transform:
  fixes attrs
  defines "attrs' \<equiv> if \<not> is_attribution_list_sorted attrs then sort_attributions_for_transform attrs else attrs"
  shows "sorted (map at_start attrs')" and "attributes attrs' p au t = attributes attrs p au t"
proof -
  show "sorted (map at_start attrs')"
    by (rule sorted_key_start) (simp add: attrs'_def is_attribution_list_sorted_def sort_attributions_for_transform_def)
  show "attributes attrs' p au t = attributes attrs p au t"
    by (rule attributes_cong_set) (simp add: attrs'_def sort_attributions_for_transform_def)
qed

lemma final_author_cong:
  "(\<And>q. attributes as q au t = attributes bs q au t) \<Longrightarrow> final_author as X src p au t = final_author bs X src p au t"
  by (simp add: final_author_def split: option.split)

text \<open>The moves an update detects.\<close>

definition update_moves :: "TrackerConfig \<Rightarrow> str \<Rightarrow> str \<Rightarrow> ByteDiff list \<Rightarrow> bool \<Rightarrow> MoveMapping list" where
  "update_moves cfg old new diffs ai =
     (let (deletions, insertions) = build_diff_catalog diffs; threshold = tc_move_lines_threshold cfg
      in if ai then []
         else if should_skip_move_detection threshold old new deletions insertions then []
         else tracker_detect_moves (tc_hash cfg) threshold old new deletions insertions)"

lemma update_normalized_unmoved:
  assumes "compute_diffs (Externals.truncate cfg) old new ai = Inr dc" and "update_moves cfg old new (dc_diffs dc) ai = []"
  shows "\<exists>result X. update_attributions_normalized cfg old new attrs author ts ai = Inr result \<and>
     (ai \<longrightarrow> X = (\<lambda>_. (author, ts))) \<and>
     (\<forall>p au t. attributes result p au t \<longleftrightarrow> final_author attrs X (origin 0 0 (dc_diffs dc) p) p au t)"
proof -
  let ?attrs = "if \<not> is_attribution_list_sorted attrs then sort_attributions_for_transform attrs else attrs"
  let ?ins = "snd (build_diff_catalog (dc_diffs dc))"
  let ?new = "transform_attributions (dc_diffs dc) ?attrs author ?ins [] ts (dc_substantive_new_ranges dc) ai"
  obtain X where X: "ai \<longrightarrow> X = (\<lambda>_. (author, ts))"
    and spec: "\<And>p au t. attributes ?new p au t \<longleftrightarrow> final_author ?attrs X (origin 0 0 (dc_diffs dc) p) p au t"
    using transform_attributions_unmoved [OF sorted_for_transform(1), of ai author ts "dc_diffs dc" attrs ?ins
        "dc_substantive_new_ranges dc"] by blast
  have "update_attributions_normalized cfg old new attrs author ts ai = Inr (merge_attributions ?new)"
    using assms by (simp add: update_attributions_normalized_def update_moves_def Let_def split_beta)
  moreover have "attributes (merge_attributions ?new) p au t \<longleftrightarrow>
      final_author attrs X (origin 0 0 (dc_diffs dc) p) p au t" for p au t
    unfolding merge_attributions_attributes spec by (rule final_author_cong) (rule sorted_for_transform(2))
  ultimately show ?thesis using X by blast
qed

lemma origin_of_diffs:
  assumes "old_side ds = old" and "new_side ds = new" and "p < length new"
  shows "case origin 0 0 ds p of None \<Rightarrow> False | Some None \<Rightarrow> True
     | Some (Some q) \<Rightarrow> q < length old \<and> old ! q = new ! p"
  using origin_complete [of 0 p ds 0] assms by (simp split: option.splits)

section \<open>Attributing the rest\<close>

abbreviation attributed :: "Attribution list \<Rightarrow> nat \<Rightarrow> bool" where
  "attributed attrs p \<equiv> list_ex (\<lambda>a. byte_attributed a p) attrs"

text \<open>Attributions the scan adds: by the given author, and of bytes nobody had.\<close>

definition fills :: "Attribution list \<Rightarrow> str \<Rightarrow> nat \<Rightarrow> Attribution list \<Rightarrow> bool" where
  "fills prev author ts added \<longleftrightarrow> list_all (\<lambda>a. at_author_id a = author \<and> at_ts a = ts) added \<and>
     (\<forall>p. attributed added p \<longrightarrow> \<not> attributed prev p)"

lemma fills_snoc:
  assumes "fills prev author ts added" and "\<And>p. s \<le> p \<Longrightarrow> p < e \<Longrightarrow> \<not> attributed prev p"
  shows "fills prev author ts (added @ [Attribution_new s e author ts])"
  using assms by (auto simp: fills_def byte_attributed_def)

text \<open>The byte ranges of the characters from an offset on.\<close>

function char_ranges :: "str \<Rightarrow> nat \<Rightarrow> byte_range list" where
  "char_ranges content pos =
     (if length content \<le> pos then []
      else (pos, pos + length (char_at content pos)) # char_ranges content (pos + length (char_at content pos)))"
  by pat_completeness auto
termination
  by (relation "measure (\<lambda>(s, pos). length s - pos)") (auto simp: char_at_nonempty diff_less_mono2)

declare char_ranges.simps [simp del]

abbreviation char_covered :: "Attribution list \<Rightarrow> byte_range \<Rightarrow> bool" where
  "char_covered attrs r \<equiv> list_ex (\<lambda>a. Attribution_overlaps a (fst r) (snd r)) attrs"

lemma attributed_covers_char: "attributed attrs p \<Longrightarrow> i \<le> p \<Longrightarrow> p < e \<Longrightarrow> char_covered attrs (i, e)"
  by (auto simp: list_ex_iff byte_attributed_def Attribution_overlaps_def intro: le_less_trans less_le_trans)

lemma unattributed_loop_spec:
  assumes "fills prev author ts added"
    and "\<And>s. rs = Some s \<Longrightarrow> s \<le> pos"
    and "\<And>s p. rs = Some s \<Longrightarrow> s \<le> p \<Longrightarrow> p < pos \<Longrightarrow> \<not> attributed prev p"
  shows "\<exists>added'. unattributed_loop content author ts pos rs (prev @ added) = prev @ added @ added' \<and>
     fills prev author ts (added @ added') \<and>
     (\<forall>s p. rs = Some s \<and> s \<le> p \<and> p < min pos (length content) \<longrightarrow> attributed added' p) \<and>
     list_all (char_covered (prev @ added @ added')) (char_ranges content pos)"
  using assms
proof (induction "length content - pos" arbitrary: pos rs added rule: less_induct)
  case less
  show ?case
  proof (cases "length content \<le> pos")
    case True
    let ?more = "case rs of Some s \<Rightarrow> if s < length content then [Attribution_new s (length content) author ts] else []
      | None \<Rightarrow> []"
    have "unattributed_loop content author ts pos rs (prev @ added) = prev @ added @ ?more"
      using True by (subst unattributed_loop.simps) (auto split: option.split)
    moreover have "fills prev author ts (added @ ?more)"
      using less.prems True by (auto split: option.split intro!: fills_snoc)
    moreover have "attributed ?more p" if "rs = Some s" "s \<le> p" "p < min pos (length content)" for s p
      using that by (auto simp: byte_attributed_def)
    moreover have "char_ranges content pos = []" using True by (simp add: char_ranges.simps)
    ultimately show ?thesis by (intro exI [of _ ?more]) auto
  next
    case False
    let ?stop = "pos + length (char_at content pos)"
    have len: "pos < ?stop" "?stop \<le> length content"
      using False char_at_pos [of pos content] by (auto simp: char_at_def)
    then have smaller: "length content - ?stop < length content - pos" by linarith
    have ranges: "char_ranges content pos = (pos, ?stop) # char_ranges content ?stop"
      using False by (subst char_ranges.simps) simp
    show ?thesis
    proof (cases "char_covered (prev @ added) (pos, ?stop)")
      case True
      let ?a = "case rs of Some s \<Rightarrow> if s < pos then [Attribution_new s pos author ts] else [] | None \<Rightarrow> []"
      have "fills prev author ts (added @ ?a)"
        using less.prems by (auto split: option.split intro!: fills_snoc)
      from less.hyps [OF smaller this, of None] obtain more where
        m: "unattributed_loop content author ts ?stop None (prev @ added @ ?a) = prev @ (added @ ?a) @ more"
          "fills prev author ts ((added @ ?a) @ more)"
          "list_all (char_covered (prev @ (added @ ?a) @ more)) (char_ranges content ?stop)" by auto
      have "unattributed_loop content author ts pos rs (prev @ added) =
          unattributed_loop content author ts ?stop None (prev @ added @ ?a)"
        using False True by (subst unattributed_loop.simps) (auto simp: Let_def split: option.split)
      moreover have "attributed (?a @ more) p" if "rs = Some s" "s \<le> p" "p < min pos (length content)" for s p
        using that by (auto simp: byte_attributed_def)
      ultimately show ?thesis using m True unfolding ranges by (intro exI [of _ "?a @ more"]) auto
    next
      case uncov: False
      let ?rs = "case rs of None \<Rightarrow> Some pos | Some s \<Rightarrow> Some s"
      have free: "\<not> attributed prev p" if "pos \<le> p" "p < ?stop" for p
        using uncov that attributed_covers_char [of p prev pos ?stop] by auto
      obtain s0 where s0: "?rs = Some s0" "s0 \<le> pos" using less.prems(2) by (cases rs) auto
      have free0: "\<not> attributed prev p" if "s0 \<le> p" "p < ?stop" for p
        using free [of p] less.prems(3) [of s0 p] s0 that by (cases rs; cases "pos \<le> p") auto
      obtain more where
        m: "unattributed_loop content author ts ?stop ?rs (prev @ added) = prev @ added @ more"
          "fills prev author ts (added @ more)"
          "\<And>s p. ?rs = Some s \<Longrightarrow> s \<le> p \<Longrightarrow> p < min ?stop (length content) \<Longrightarrow> attributed more p"
          "list_all (char_covered (prev @ added @ more)) (char_ranges content ?stop)"
        using less.hyps [OF smaller less.prems(1), of ?rs] s0 free0 len by fastforce
      have "unattributed_loop content author ts pos rs (prev @ added) =
          unattributed_loop content author ts ?stop ?rs (prev @ added)"
        using False uncov by (subst unattributed_loop.simps) (auto simp: Let_def)
      moreover have "attributed more pos" using m(3) [OF s0(1), of pos] s0(2) len by simp
      then have "char_covered more (pos, ?stop)" using attributed_covers_char [of pos more pos ?stop] len by simp
      moreover have "attributed more p" if "rs = Some s" "s \<le> p" "p < min pos (length content)" for s p
        using m(3) [of s p] that len by simp
      ultimately show ?thesis using m unfolding ranges by (intro exI [of _ more]) auto
    qed
  qed
qed

section \<open>Properties\<close>

text \<open>C1. An AI checkpoint attributes every byte as it should: \<open>update_attributions_normalized\<close>
  succeeds; a byte the diff keeps has exactly the authors and timestamps its old byte had, and a
  byte the diff inserts has exactly the current author and timestamp; and the diff it follows keeps
  only bytes that are equal in the old and the new text. Sorting the old attributions, the cursors of
  the scan and the final merge lose nothing.\<close>

theorem ai_checkpoint_attribution:
  assumes "diff_contract (ex_diff (Externals.truncate cfg))" and "is_text old" and "is_text new"
  shows "\<exists>dc result. compute_diffs (Externals.truncate cfg) old new True = Inr dc \<and>
     update_attributions_normalized cfg old new attrs author ts True = Inr result \<and>
     (\<forall>p au t. attributes result p au t \<longleftrightarrow>
        final_author attrs (\<lambda>_. (author, ts)) (origin 0 0 (dc_diffs dc) p) p au t) \<and>
     (\<forall>p < length new. case origin 0 0 (dc_diffs dc) p of None \<Rightarrow> False | Some None \<Rightarrow> True
        | Some (Some q) \<Rightarrow> q < length old \<and> old ! q = new ! p)"
proof -
  obtain dc where dc: "compute_diffs (Externals.truncate cfg) old new True = Inr dc"
    and sides: "old_side (dc_diffs dc) = old" "new_side (dc_diffs dc) = new"
    using compute_diffs_sides [OF assms] by blast
  moreover have "update_moves cfg old new (dc_diffs dc) True = []" by (simp add: update_moves_def split_beta)
  ultimately show ?thesis
    using update_normalized_unmoved [OF dc, of attrs author ts] origin_of_diffs [OF sides] by auto
qed

definition example_config :: TrackerConfig where
  "example_config = Externals.extend simple_externals \<lparr>tc_hash = (\<lambda>_. 0), tc_move_lines_threshold = 3\<rparr>"

lemma example_config_contract: "diff_contract (ex_diff (Externals.truncate example_config))"
  using simple_externals_contract by (simp add: example_config_def Externals.defs simple_externals_def)

lemma short_text: "is_text ''a = 1''" "is_text ''a = 2''"
proof -
  have "utf8_chars ''a = 1''" "utf8_chars ''a = 2''" by code_simp+
  then show "is_text ''a = 1''" "is_text ''a = 2''" by (simp_all add: is_text_def usize_MAX_def)
qed

theorem ai_checkpoint_attribution_witness:
  "\<exists>dc result. compute_diffs (Externals.truncate example_config) ''a = 1'' ''a = 2'' True = Inr dc \<and>
     update_attributions_normalized example_config ''a = 1'' ''a = 2'' [Attribution_new 0 5 ''human'' 1] ''ai'' 7 True =
       Inr result \<and>
     (\<forall>p au t. attributes result p au t \<longleftrightarrow>
        final_author [Attribution_new 0 5 ''human'' 1] (\<lambda>_. (''ai'', 7)) (origin 0 0 (dc_diffs dc) p) p au t) \<and>
     (\<forall>p < length ''a = 2''. case origin 0 0 (dc_diffs dc) p of None \<Rightarrow> False | Some None \<Rightarrow> True
        | Some (Some q) \<Rightarrow> q < length ''a = 1'' \<and> ''a = 1'' ! q = ''a = 2'' ! p)"
  by (rule ai_checkpoint_attribution [OF example_config_contract short_text])



text \<open>Merging attributions changes no byte's authors and no deletion marker, in whatever order
  the attributions come.\<close>

theorem merge_attributions_preserves:
  "(attributes (merge_attributions attrs) p au t \<longleftrightarrow> attributes attrs p au t) \<and>
   set (filter is_marker (merge_attributions attrs)) = set (filter is_marker attrs)"
  using merge_attributions_attributes merge_attributions_markers by blast

text \<open>\<open>attribute_unattributed_ranges\<close> leaves no character without an author: it keeps the
  attributions it is given, adds attributions of the given author only for bytes nobody had, and
  every character of the text is then covered.\<close>

theorem unattributed_ranges_filled:
  "\<exists>added. attribute_unattributed_ranges content prev author ts = prev @ added \<and>
     fills prev author ts added \<and> list_all (char_covered (prev @ added)) (char_ranges content 0)"
  using unattributed_loop_spec [of prev author ts "[]" None 0 content]
  by (auto simp: attribute_unattributed_ranges_def fills_def)

section \<open>A leak of moved attributions\<close>

text \<open>The example: the two texts, their diff and the old attributions.\<close>

definition leak_old :: str where
  "leak_old = ''    a1'' @ [newline] @ ''    b2'' @ [newline] @ ''    c3'' @ [newline] @ ''x'' @ [newline] @
     ''y1234567890'' @ [newline]"

definition leak_new :: str where
  "leak_new = ''x'' @ [newline] @ ''a1'' @ [newline] @ ''b2'' @ [newline] @ ''c3'' @ [newline] @
     ''y1234567890'' @ [newline]"

definition leak_diffs :: "ByteDiff list" where
  "leak_diffs =
     [ByteDiff_new BDelete (slice leak_old 0 21), ByteDiff_new BEqual (slice leak_old 21 23),
      ByteDiff_new BInsert (slice leak_new 2 11), ByteDiff_new BEqual (slice leak_old 23 35)]"

definition leak_attributions :: "Attribution list" where
  "leak_attributions = [Attribution_new 0 21 ''ai'' 5, Attribution_new 21 35 ''bob'' 6]"

definition leak_moves :: "MoveMapping list" where
  "leak_moves =
     (let (deletions, insertions) = build_diff_catalog leak_diffs
      in tracker_detect_moves (\<lambda>_. 0) 3 leak_old leak_new deletions insertions)"

definition leak_result :: "Attribution list" where
  "leak_result =
     transform_attributions leak_diffs leak_attributions ''carol'' (snd (build_diff_catalog leak_diffs))
       leak_moves 9 [] False"

lemma leak_moves_eval:
  "leak_moves = [\<lparr>mv_deletion_idx = 0, mv_insertion_idx = 0, mv_source_range = (0, 21), mv_target_range = (0, 9)\<rparr>]"
  by code_simp

lemma leak_result_eval:
  "leak_result = [Attribution_new 2 23 ''ai'' 5, Attribution_new 0 2 ''bob'' 6, Attribution_new 11 23 ''bob'' 6]"
  unfolding leak_result_def leak_moves_eval by code_simp


end
