(* ===== verification/Line_Attributions.thy ===== *)
theory Line_Attributions
  imports Tracker_Properties Hunk_Shift
begin

text \<open>
  From bytes to lines and back (\<open>src/authorship/attribution_tracker.rs\<close>): the attributions of a
  text's bytes are condensed to one author per line, chosen among the attributions that overlap it,
  and consecutive lines with the same author become one \<open>LineAttribution\<close>. The checkpoint kinds
  are those of \<open>src/authorship/working_log.rs\<close>.
\<close>

section \<open>Checkpoint kinds\<close>

datatype CheckpointKind = Human | AiAgent | AiTab | KnownHuman

fun CheckpointKind_to_str :: "CheckpointKind \<Rightarrow> str" where
  "CheckpointKind_to_str Human = ''human''"
| "CheckpointKind_to_str AiAgent = ''ai_agent''"
| "CheckpointKind_to_str AiTab = ''ai_tab''"
| "CheckpointKind_to_str KnownHuman = ''known_human''"

text \<open>None is the panic on any other string.\<close>

definition CheckpointKind_from_str :: "str \<Rightarrow> CheckpointKind option" where
  "CheckpointKind_from_str s =
     (if s = ''human'' then Some Human
      else if s = ''ai_agent'' then Some AiAgent
      else if s = ''ai_tab'' then Some AiTab
      else if s = ''known_human'' then Some KnownHuman
      else None)"

definition CheckpointKind_is_ai :: "CheckpointKind \<Rightarrow> bool" where
  "CheckpointKind_is_ai kind = (kind = AiAgent \<or> kind = AiTab)"

section \<open>Lines to bytes\<close>

definition line_attributions_to_attributions ::
  "LineAttribution list \<Rightarrow> str \<Rightarrow> nat \<Rightarrow> Attribution list" where
  "line_attributions_to_attributions line_attributions content ts =
     (if line_attributions = [] \<or> content = [] then []
      else let boundaries = LineBoundaries_new content
           in List.map_filter (\<lambda>line_attr.
                case (get_line_range boundaries (la_start_line line_attr),
                      get_line_range boundaries (la_end_line line_attr)) of
                  (Some (start_char, _), Some (_, end_char)) \<Rightarrow>
                    Some (Attribution_new start_char end_char (la_author_id line_attr) ts)
                | _ \<Rightarrow> None) line_attributions)"

section \<open>The author of a line\<close>

definition is_char_boundary :: "str \<Rightarrow> nat \<Rightarrow> bool" where
  "is_char_boundary content i =
     (if i = 0 \<or> i = length content then True
      else if length content < i then False
      else let n = of_char (content ! i) :: nat in n < 128 \<or> 192 \<le> n)"

fun floor_loop :: "str \<Rightarrow> nat \<Rightarrow> nat" where
  "floor_loop content 0 = 0"
| "floor_loop content (Suc i) = (if is_char_boundary content (Suc i) then Suc i else floor_loop content i)"

definition floor_char_boundary :: "str \<Rightarrow> nat \<Rightarrow> nat" where
  "floor_char_boundary content idx = floor_loop content (min idx (length content))"

function ceil_loop :: "str \<Rightarrow> nat \<Rightarrow> nat" where
  "ceil_loop content i =
     (if i < length content \<and> \<not> is_char_boundary content i then ceil_loop content (i + 1) else i)"
  by pat_completeness auto
termination by (relation "measure (\<lambda>(s, i). length s - i)") auto

declare ceil_loop.simps [simp del]

definition ceil_char_boundary :: "str \<Rightarrow> nat \<Rightarrow> nat" where
  "ceil_char_boundary content idx = ceil_loop content (min idx (length content))"

definition has_non_whitespace :: "str \<Rightarrow> nat \<Rightarrow> nat \<Rightarrow> Attribution \<Rightarrow> bool" where
  "has_non_whitespace full_content line_start line_end attribution =
     (let slice_start = max line_start (at_start attribution);
          slice_end = min line_end (at_end attribution)
      in if slice_start < slice_end
         then let safe_start = (if is_char_boundary full_content slice_start then slice_start
                                else max (floor_char_boundary full_content slice_start) line_start);
                  safe_end = (if is_char_boundary full_content slice_end then slice_end
                              else min (ceil_char_boundary full_content slice_end) line_end)
              in safe_start < safe_end \<and> \<not> all_whitespace (slice full_content safe_start safe_end)
         else False)"

definition is_human_author :: "str \<Rightarrow> bool" where
  "is_human_author author_id = (author_id = CheckpointKind_to_str Human \<or> starts_with author_id ''h_'')"

definition is_candidate :: "nat \<Rightarrow> nat \<Rightarrow> bool \<Rightarrow> str \<Rightarrow> bool \<Rightarrow> Attribution \<Rightarrow> bool" where
  "is_candidate line_start line_end is_line_empty full_content is_ai_checkpoint attribution =
     (Attribution_overlaps attribution line_start line_end \<and>
      (has_non_whitespace full_content line_start line_end attribution \<or> is_line_empty \<or>
       at_start attribution = at_end attribution \<or>
       is_ai_checkpoint \<and> \<not> is_human_author (at_author_id attribution)))"

definition latest_of :: "Attribution \<Rightarrow> Attribution list \<Rightarrow> Attribution" where
  "latest_of first rest = fold (\<lambda>attr latest. if at_ts latest < at_ts attr then attr else latest) rest first"

definition last_where :: "('a \<Rightarrow> bool) \<Rightarrow> 'a list \<Rightarrow> 'a option" where
  "last_where P xs = fold (\<lambda>x found. if P x then Some x else found) xs None"

type_synonym line_authorship = "str \<times> str option"

definition find_dominant_author_for_line_candidates ::
  "nat \<Rightarrow> nat \<Rightarrow> bool \<Rightarrow> nat list \<Rightarrow> Attribution list \<Rightarrow> str \<Rightarrow> bool \<Rightarrow> line_authorship" where
  "find_dominant_author_for_line_candidates line_start line_end is_line_empty candidate_indices attributions
     full_content is_ai_checkpoint =
     (let candidate_attrs =
            filter (is_candidate line_start line_end is_line_empty full_content is_ai_checkpoint)
              (map (\<lambda>idx. attributions ! idx) candidate_indices)
      in case candidate_attrs of
           [] \<Rightarrow> (CheckpointKind_to_str Human, None)
         | first # rest \<Rightarrow>
             (let latest_author = latest_of first rest;
                  last_human_edit = last_where (\<lambda>a. is_human_author (at_author_id a)) candidate_attrs;
                  last_ai_edit = last_where (\<lambda>a. \<not> is_human_author (at_author_id a)) candidate_attrs;
                  overrode = (case (last_ai_edit, last_human_edit) of
                                (Some ai, Some h) \<Rightarrow> if at_ts ai < at_ts h then Some (at_author_id ai) else None
                              | _ \<Rightarrow> None)
              in (at_author_id latest_author, overrode)))"

section \<open>The sweep over the lines\<close>

text \<open>One line: the attributions that start before its end join the active ones, and those that do
  not overlap it leave.\<close>

definition sweep_line ::
  "Attribution list \<Rightarrow> nat list \<Rightarrow> nat \<Rightarrow> nat \<Rightarrow> nat \<Rightarrow> nat list \<Rightarrow> nat \<times> nat list" where
  "sweep_line attributions sorted_indices line_start line_end next_idx active_indices =
     (let joining = takeWhile (\<lambda>idx. at_start (attributions ! idx) < line_end) (drop next_idx sorted_indices);
          active = filter (\<lambda>idx. at_start (attributions ! idx) < line_end \<and> line_start < at_end (attributions ! idx))
                     (active_indices @ joining)
      in (next_idx + length joining, active))"

fun sweep_lines ::
  "Attribution list \<Rightarrow> str \<Rightarrow> bool \<Rightarrow> nat list \<Rightarrow> nat \<Rightarrow> nat list \<Rightarrow> (nat \<times> nat) list \<Rightarrow>
   line_authorship option list" where
  "sweep_lines attributions content is_ai_checkpoint sorted_indices next_idx active_indices [] = []"
| "sweep_lines attributions content is_ai_checkpoint sorted_indices next_idx active_indices
     ((line_start, line_end) # boundaries) =
     (let (next_idx', active) = sweep_line attributions sorted_indices line_start line_end next_idx active_indices;
          line_content = slice content line_start line_end;
          is_line_empty = (line_content = [] \<or> all_whitespace line_content)
      in Some (find_dominant_author_for_line_candidates line_start line_end is_line_empty active attributions
                 content is_ai_checkpoint)
         # sweep_lines attributions content is_ai_checkpoint sorted_indices next_idx' active boundaries)"

definition emit :: "u32 \<Rightarrow> u32 \<Rightarrow> line_authorship \<Rightarrow> LineAttribution" where
  "emit start_line end_line authorship = LineAttribution_new start_line end_line (fst authorship) (snd authorship)"

fun merge_lines_loop ::
  "line_authorship option \<Rightarrow> u32 \<Rightarrow> nat \<Rightarrow> line_authorship option list \<Rightarrow> LineAttribution list" where
  "merge_lines_loop current_authorship current_start idx [] =
     (case current_authorship of
        None \<Rightarrow> []
      | Some authorship \<Rightarrow> [emit current_start (of_nat idx) authorship])"
| "merge_lines_loop current_authorship current_start idx (authorship # rest) =
     (let line_num = of_nat (idx + 1) :: u32
      in case (current_authorship, authorship) of
           (None, None) \<Rightarrow> merge_lines_loop None current_start (idx + 1) rest
         | (None, Some new_author) \<Rightarrow> merge_lines_loop (Some new_author) line_num (idx + 1) rest
         | (Some cur, None) \<Rightarrow>
             emit current_start (line_num - 1) cur # merge_lines_loop None current_start (idx + 1) rest
         | (Some cur, Some new_authorship) \<Rightarrow>
             if cur = new_authorship then merge_lines_loop (Some cur) current_start (idx + 1) rest
             else emit current_start (line_num - 1) cur
                  # merge_lines_loop (Some new_authorship) line_num (idx + 1) rest)"

definition merge_consecutive_line_attributions :: "line_authorship option list \<Rightarrow> LineAttribution list" where
  "merge_consecutive_line_attributions line_authorship = merge_lines_loop None 0 0 line_authorship"

definition attributions_to_line_attributions_for_checkpoint ::
  "Attribution list \<Rightarrow> str \<Rightarrow> bool \<Rightarrow> LineAttribution list" where
  "attributions_to_line_attributions_for_checkpoint attributions content is_ai_checkpoint =
     (if content = [] \<or> attributions = [] then []
      else let boundaries = LineBoundaries_new content
           in if line_count boundaries = 0 then []
              else let sorted_indices =
                         sort_key (\<lambda>idx. (at_start (attributions ! idx), at_end (attributions ! idx), idx))
                           [0..<length attributions];
                       line_authors = sweep_lines attributions content is_ai_checkpoint sorted_indices 0 []
                                        (take (unat (line_count boundaries)) boundaries)
                   in filter (\<lambda>line_attr. la_author_id line_attr \<noteq> CheckpointKind_to_str Human \<or>
                                          la_overrode line_attr \<noteq> None)
                        (merge_consecutive_line_attributions line_authors))"

definition attributions_to_line_attributions :: "Attribution list \<Rightarrow> str \<Rightarrow> LineAttribution list" where
  "attributions_to_line_attributions attributions content =
     attributions_to_line_attributions_for_checkpoint attributions content False"

section \<open>Lemmas: merging lines\<close>

lemma emit_simps [simp]:
  "la_author_id (emit s e x) = fst x" "la_overrode (emit s e x) = snd x"
  "line_attributed (emit s e x) l \<longleftrightarrow> s \<le> l \<and> l \<le> e"
  by (simp_all add: emit_def line_attributed_def)

lemma authored_simps [simp]:
  "\<not> authored [] au ov l"
  "authored (a # as) au ov l \<longleftrightarrow> la_author_id a = au \<and> la_overrode a = ov \<and> line_attributed a l \<or> authored as au ov l"
  by (simp_all add: authored_def)

text \<open>Line \<open>n\<close> (from 0) of the loop's result: the run it is in started at \<open>start\<close>.\<close>

lemma merge_lines_loop_spec:
  assumes "idx + length las < 4294967296" and "n < 4294967296"
    and "case cur of None \<Rightarrow> True | Some x \<Rightarrow> unat start \<le> idx \<and> 1 \<le> unat start"
  shows "authored (merge_lines_loop cur start idx las) au ov (of_nat n) \<longleftrightarrow>
     (cur = Some (au, ov) \<and> unat start \<le> n \<and> n \<le> idx) \<or>
     (idx < n \<and> n \<le> idx + length las \<and> las ! (n - idx - 1) = Some (au, ov))"
  using assms(1,3)
proof (induction las arbitrary: cur start idx)
  case Nil
  have "unat (of_nat n :: u32) = n" "unat (of_nat idx :: u32) = idx"
    using assms(2) Nil by (simp_all add: unat_of_nat_u32)
  then show ?case by (cases cur) (auto simp: word_le_nat_alt)
next
  case (Cons la las)
  have n: "unat (of_nat n :: u32) = n" using assms(2) by (simp add: unat_of_nat_u32)
  have "unat (of_nat (idx + 1) :: u32) = idx + 1" "unat (of_nat idx :: u32) = idx"
    using Cons.prems(1) by (intro unat_of_nat_u32; simp)+
  then have i: "unat (1 + of_nat idx :: u32) = Suc idx" "unat (of_nat idx :: u32) = idx" by simp_all
  have tail: "idx < n \<and> n \<le> idx + length (la # las) \<and> (la # las) ! (n - idx - 1) = Some (au, ov) \<longleftrightarrow>
      n = Suc idx \<and> la = Some (au, ov) \<or>
      Suc idx < n \<and> n \<le> Suc (idx + length las) \<and> las ! (n - Suc (Suc idx)) = Some (au, ov)"
  proof (cases "Suc idx < n")
    case True
    then obtain k where "n = Suc (Suc idx + k)" using less_imp_Suc_add by blast
    then show ?thesis by simp
  next
    case False
    then show ?thesis by (cases "n = Suc idx") auto
  qed
  have IH: "authored (merge_lines_loop c s (idx + 1) las) au ov (of_nat n) \<longleftrightarrow>
      (c = Some (au, ov) \<and> unat s \<le> n \<and> n \<le> idx + 1) \<or>
      (idx + 1 < n \<and> n \<le> idx + 1 + length las \<and> las ! (n - (idx + 1) - 1) = Some (au, ov))"
    if "case c of None \<Rightarrow> True | Some x \<Rightarrow> unat s \<le> idx + 1 \<and> 1 \<le> unat s" for c s
    using Cons.prems(1) that by (intro Cons.IH) simp_all
  have e: "authored [emit start (of_nat (idx + 1) - 1) x] au ov (of_nat n) \<longleftrightarrow>
      x = (au, ov) \<and> unat start \<le> n \<and> n \<le> idx" for x
    using n i by (cases x) (auto simp: word_le_nat_alt)
  have "authored (merge_lines_loop cur start idx (la # las)) au ov (of_nat n) \<longleftrightarrow>
      (cur = Some (au, ov) \<and> unat start \<le> n \<and> n \<le> idx) \<or> n = Suc idx \<and> la = Some (au, ov) \<or>
      Suc idx < n \<and> n \<le> Suc (idx + length las) \<and> las ! (n - Suc (Suc idx)) = Some (au, ov)"
  proof (cases cur)
    case None
    show ?thesis
    proof (cases la)
      case (Some x)
      with None IH [where c = "Some x" and s = "of_nat (idx + 1)"] i show ?thesis by auto
    qed (use None IH [where c = None and s = start] in auto)
  next
    case (Some c)
    show ?thesis
    proof (cases la)
      case None
      have "authored (merge_lines_loop cur start idx (la # las)) au ov (of_nat n) \<longleftrightarrow>
          authored [emit start (of_nat (idx + 1) - 1) c] au ov (of_nat n) \<or>
          authored (merge_lines_loop None start (idx + 1) las) au ov (of_nat n)"
        using Some None by (simp add: Let_def)
      with IH [where c = None and s = start] e [of c] Some None
      show ?thesis by (simp del: merge_lines_loop.simps authored_simps)
    next
      case (Some x)
      show ?thesis
      proof (cases "c = x")
        case True
        have "merge_lines_loop cur start idx (la # las) = merge_lines_loop (Some c) start (idx + 1) las"
          using Some True \<open>cur = Some c\<close> by simp
        with IH [where c = "Some c" and s = start] Cons.prems(2) Some True \<open>cur = Some c\<close>
        show ?thesis by (simp del: merge_lines_loop.simps authored_simps) auto
      next
        case False
        have "authored (merge_lines_loop cur start idx (la # las)) au ov (of_nat n) \<longleftrightarrow>
            authored [emit start (of_nat (idx + 1) - 1) c] au ov (of_nat n) \<or>
            authored (merge_lines_loop (Some x) (of_nat (idx + 1)) (idx + 1) las) au ov (of_nat n)"
          using Some False \<open>cur = Some c\<close> by (simp add: Let_def)
        with IH [where c = "Some x" and s = "of_nat (idx + 1)"] e [of c] i Some \<open>cur = Some c\<close>
        show ?thesis by (simp del: merge_lines_loop.simps authored_simps) auto
      qed
    qed
  qed
  then show ?case unfolding tail .
qed

lemma merge_consecutive_authored:
  assumes "length las < 4294967296" "n < length las"
  shows "authored (merge_consecutive_line_attributions las) au ov (of_nat (n + 1)) \<longleftrightarrow>
     las ! n = Some (au, ov)"
  using merge_lines_loop_spec [where cur = None and start = 0 and idx = 0 and las = las and n = "n + 1"] assms
  by (simp add: merge_consecutive_line_attributions_def)

section \<open>Lemmas: the sweep\<close>

text \<open>The reference: every line asks all the attributions, in the order of their positions.\<close>

definition blank_line :: "str \<Rightarrow> nat \<Rightarrow> nat \<Rightarrow> bool" where
  "blank_line content line_start line_end = all_whitespace (slice content line_start line_end)"

definition by_position :: "Attribution list \<Rightarrow> nat list" where
  "by_position attributions =
     sort_key (\<lambda>idx. (at_start (attributions ! idx), at_end (attributions ! idx), idx)) [0..<length attributions]"

definition line_author :: "Attribution list \<Rightarrow> str \<Rightarrow> bool \<Rightarrow> nat \<times> nat \<Rightarrow> line_authorship" where
  "line_author attributions content is_ai_checkpoint bounds =
     find_dominant_author_for_line_candidates (fst bounds) (snd bounds)
       (blank_line content (fst bounds) (snd bounds)) (by_position attributions) attributions content is_ai_checkpoint"

lemma blank_absorb [simp]: "(s = [] \<or> all_whitespace s) = all_whitespace s"
  by auto

lemma dominant_filter:
  "find_dominant_author_for_line_candidates s e b
      (filter (\<lambda>idx. at_start (as ! idx) < e \<and> s < at_end (as ! idx)) idxs) as content ai =
   find_dominant_author_for_line_candidates s e b idxs as content ai"
proof -
  have "filter (is_candidate s e b content ai)
      (map (\<lambda>idx. as ! idx) (filter (\<lambda>idx. at_start (as ! idx) < e \<and> s < at_end (as ! idx)) idxs)) =
    filter (is_candidate s e b content ai) (map (\<lambda>idx. as ! idx) idxs)"
    by (induction idxs) (auto simp: is_candidate_def Attribution_overlaps_def)
  then show ?thesis by (simp add: find_dominant_author_for_line_candidates_def)
qed

lemma filter_sorted_takeWhile:
  assumes "sorted (map f xs)"
  shows "filter (\<lambda>x. f x < e \<and> Q x) xs = filter (\<lambda>x. f x < e \<and> Q x) (takeWhile (\<lambda>x. f x < e) xs)"
  using assms
proof (induction xs)
  case (Cons a xs)
  have "filter (\<lambda>x. f x < e \<and> Q x) xs = []" if "\<not> f a < e"
    using that Cons.prems by (auto simp: filter_empty_conv)
  with Cons show ?case by auto
qed simp

lemma sweep_line_filter:
  assumes "sorted (map (\<lambda>idx. at_start (as ! idx)) idxs)"
    and "filter (\<lambda>idx. s < at_end (as ! idx)) active = filter (\<lambda>idx. s < at_end (as ! idx)) (take next idxs)"
    and "sweep_line as idxs s e next active = (next', active')"
  shows "active' = filter (\<lambda>idx. at_start (as ! idx) < e \<and> s < at_end (as ! idx)) idxs"
    and "active' = filter (\<lambda>idx. at_start (as ! idx) < e \<and> s < at_end (as ! idx)) (take next' idxs)"
    and "take next' idxs = take next idxs @ takeWhile (\<lambda>idx. at_start (as ! idx) < e) (drop next idxs)"
proof -
  let ?P = "\<lambda>idx. at_start (as ! idx) < e \<and> s < at_end (as ! idx)"
  have split: "filter ?P xs = filter (\<lambda>idx. at_start (as ! idx) < e) (filter (\<lambda>idx. s < at_end (as ! idx)) xs)" for xs
    by (simp add: conj_commute)
  have "sorted (map (\<lambda>idx. at_start (as ! idx)) (drop next idxs))"
    using assms(1) by (simp add: sorted_wrt_drop flip: drop_map)
  from filter_sorted_takeWhile [OF this, of e "\<lambda>idx. s < at_end (as ! idx)"]
  have "filter ?P (drop next idxs) = filter ?P (takeWhile (\<lambda>idx. at_start (as ! idx) < e) (drop next idxs))" .
  moreover have "filter ?P active = filter ?P (take next idxs)"
    by (simp only: split assms(2))
  moreover have "filter ?P idxs = filter ?P (take next idxs) @ filter ?P (drop next idxs)"
    by (metis append_take_drop_id filter_append)
  ultimately show "active' = filter ?P idxs"
    using assms(3) by (simp add: sweep_line_def Let_def)
  show take: "take next' idxs = take next idxs @ takeWhile (\<lambda>idx. at_start (as ! idx) < e) (drop next idxs)"
    using assms(3) takeWhile_eq_take [of "\<lambda>idx. at_start (as ! idx) < e" "drop next idxs"]
    by (auto simp: sweep_line_def Let_def take_add)
  show "active' = filter ?P (take next' idxs)"
    using assms(3) \<open>filter ?P active = filter ?P (take next idxs)\<close>
    unfolding take by (simp add: sweep_line_def Let_def)
qed

lemma sweep_lines_reference:
  assumes "sorted (map (\<lambda>idx. at_start (as ! idx)) idxs)"
    and "sorted_wrt (\<lambda>x y. fst x \<le> fst y \<and> snd x \<le> snd y) bounds"
    and "\<And>b. b \<in> set bounds \<Longrightarrow>
      filter (\<lambda>idx. fst b < at_end (as ! idx)) active = filter (\<lambda>idx. fst b < at_end (as ! idx)) (take next idxs) \<and>
      (\<forall>idx \<in> set (take next idxs). at_start (as ! idx) < snd b)"
  shows "sweep_lines as content ai idxs next active bounds =
    map (\<lambda>b. Some (find_dominant_author_for_line_candidates (fst b) (snd b) (blank_line content (fst b) (snd b))
           idxs as content ai)) bounds"
  using assms(2,3)
proof (induction bounds arbitrary: "next" active)
  case (Cons b bounds)
  obtain s e where b: "b = (s, e)" by (cases b)
  obtain next' active' where sw: "sweep_line as idxs s e next active = (next', active')"
    by (cases "sweep_line as idxs s e next active")
  note active' = sweep_line_filter [OF assms(1) _ sw]
  have a: "active' = filter (\<lambda>idx. at_start (as ! idx) < e \<and> s < at_end (as ! idx)) idxs"
    and a': "active' = filter (\<lambda>idx. at_start (as ! idx) < e \<and> s < at_end (as ! idx)) (take next' idxs)"
    and t: "take next' idxs = take next idxs @ takeWhile (\<lambda>idx. at_start (as ! idx) < e) (drop next idxs)"
    using Cons.prems(2) [of b] b by (auto intro!: active')
  have started: "at_start (as ! idx) < e" if "idx \<in> set (take next' idxs)" for idx
    using that Cons.prems(2) [of b] b by (auto simp: t dest: set_takeWhileD)
  have "sweep_lines as content ai idxs next' active' bounds =
      map (\<lambda>b. Some (find_dominant_author_for_line_candidates (fst b) (snd b) (blank_line content (fst b) (snd b))
           idxs as content ai)) bounds"
  proof (rule Cons.IH)
    show "sorted_wrt (\<lambda>x y. fst x \<le> fst y \<and> snd x \<le> snd y) bounds" using Cons.prems(1) by simp
    fix c assume "c \<in> set bounds"
    with Cons.prems(1) b have le: "s \<le> fst c" "e \<le> snd c" by auto
    have "filter (\<lambda>idx. fst c < at_end (as ! idx)) active' =
        filter (\<lambda>idx. fst c < at_end (as ! idx)) (take next' idxs)"
      using le started unfolding a' by (auto intro!: filter_cong)
    then show "filter (\<lambda>idx. fst c < at_end (as ! idx)) active' =
        filter (\<lambda>idx. fst c < at_end (as ! idx)) (take next' idxs) \<and>
        (\<forall>idx \<in> set (take next' idxs). at_start (as ! idx) < snd c)"
      using started le by fastforce
  qed
  then show ?case
    by (auto simp: b sw a dominant_filter blank_line_def Let_def split: prod.splits)
qed simp

lemma sort_key_sorted_map:
  fixes f :: "'a \<Rightarrow> nat" and g :: "'a \<Rightarrow> 'b :: linorder"
  shows "sorted (map f (sort_key (\<lambda>x. (f x, g x)) xs))"
proof -
  have "sorted (map fst (map (\<lambda>x. (f x, g x)) (sort_key (\<lambda>x. (f x, g x)) xs)))"
    by (intro sorted_map_mono sorted_sort_key mono_onI) auto
  then show ?thesis by (simp add: comp_def)
qed

lemma LineBoundaries_mono:
  "sorted_wrt (\<lambda>x y. fst x \<le> fst y \<and> snd x \<le> snd y) (LineBoundaries_new s)"
  by (simp add: sorted_wrt_iff_nth_less LineBoundaries_nth line_pos_mono)

lemma sweep_is_line_author:
  "sweep_lines as content ai (by_position as) 0 [] (LineBoundaries_new content) =
     map (\<lambda>b. Some (line_author as content ai b)) (LineBoundaries_new content)"
  unfolding line_author_def
  by (rule sweep_lines_reference) (simp_all add: by_position_def sort_key_sorted_map LineBoundaries_mono)

lemma authored_filter:
  "authored (filter (\<lambda>la. Q (la_author_id la) (la_overrode la)) las) au ov l \<longleftrightarrow> Q au ov \<and> authored las au ov l"
  by (induction las) auto

lemma authored_line_author:
  assumes "attributions \<noteq> []" "length (LineBoundaries_new content) < 4294967296"
    and "k < length (LineBoundaries_new content)"
  shows "authored (attributions_to_line_attributions_for_checkpoint attributions content ai) au ov (of_nat (k + 1)) \<longleftrightarrow>
     line_author attributions content ai (LineBoundaries_new content ! k) = (au, ov) \<and> (au \<noteq> ''human'' \<or> ov \<noteq> None)"
proof -
  have n: "unat (of_nat (length (LineBoundaries_new content)) :: u32) = length (LineBoundaries_new content)"
    using assms(2) by (rule unat_of_nat_u32)
  have "line_count (LineBoundaries_new content) \<noteq> 0"
    using n assms(3) unfolding line_count_def by (metis length_0_conv list.size(3) not_less0 unat_0)
  moreover have "content \<noteq> []" using assms(3) by auto
  ultimately have "attributions_to_line_attributions_for_checkpoint attributions content ai =
      filter (\<lambda>la. la_author_id la \<noteq> ''human'' \<or> la_overrode la \<noteq> None)
        (merge_consecutive_line_attributions
          (map (\<lambda>b. Some (line_author attributions content ai b)) (LineBoundaries_new content)))"
    using assms(1) n sweep_is_line_author [of attributions content ai]
    by (simp add: attributions_to_line_attributions_for_checkpoint_def Let_def line_count_def by_position_def)
  with assms(2,3) show ?thesis
    using authored_filter [of "\<lambda>au ov. au \<noteq> ''human'' \<or> ov \<noteq> None"]
      merge_consecutive_authored [of "map (\<lambda>b. Some (line_author attributions content ai b)) (LineBoundaries_new content)" k]
    by (auto simp del: of_nat_add)
qed

section \<open>Lemmas: the author of a line\<close>

definition line_candidates :: "Attribution list \<Rightarrow> str \<Rightarrow> bool \<Rightarrow> nat \<times> nat \<Rightarrow> Attribution set" where
  "line_candidates attributions content is_ai_checkpoint bounds =
     {a \<in> set attributions. is_candidate (fst bounds) (snd bounds) (blank_line content (fst bounds) (snd bounds))
        content is_ai_checkpoint a}"

lemma latest_of_spec:
  "latest_of first rest \<in> set (first # rest) \<and> (\<forall>b \<in> set (first # rest). at_ts b \<le> at_ts (latest_of first rest))"
proof (induction rest arbitrary: first)
  case (Cons a rest)
  from Cons.IH [of a] Cons.IH [of first] show ?case by (auto simp: latest_of_def)
qed (simp add: latest_of_def)

lemma last_where_Some: "last_where P xs = Some x \<Longrightarrow> x \<in> set xs \<and> P x"
proof -
  have "fold (\<lambda>x found. if P x then Some x else found) xs acc = Some x \<Longrightarrow> x \<in> set xs \<and> P x \<or> acc = Some x" for acc
  proof (induction xs arbitrary: acc)
    case (Cons a xs)
    from Cons.IH [of "if P a then Some a else acc"] Cons.prems show ?case by (auto split: if_splits)
  qed simp
  then show "last_where P xs = Some x \<Longrightarrow> x \<in> set xs \<and> P x" by (auto simp: last_where_def)
qed

lemma set_by_position: "set (map (\<lambda>idx. as ! idx) (by_position as)) = set as"
  by (auto simp: by_position_def in_set_conv_nth)

lemma line_author_cases:
  obtains "line_candidates as content ai b = {}" "line_author as content ai b = (''human'', None)"
  | a ov where "line_author as content ai b = (at_author_id a, ov)" "a \<in> line_candidates as content ai b"
      "\<forall>c \<in> line_candidates as content ai b. at_ts c \<le> at_ts a"
      "\<forall>x. ov = Some x \<longrightarrow> (\<exists>c \<in> line_candidates as content ai b. \<exists>h \<in> line_candidates as content ai b.
         at_author_id c = x \<and> \<not> is_human_author x \<and> is_human_author (at_author_id h) \<and> at_ts c < at_ts h)"
proof -
  let ?cs = "filter (is_candidate (fst b) (snd b) (blank_line content (fst b) (snd b)) content ai)
    (map (\<lambda>idx. as ! idx) (by_position as))"
  have set: "set ?cs = line_candidates as content ai b"
    using set_by_position [of as] by (auto simp: line_candidates_def)
  show thesis
  proof (cases ?cs)
    case Nil
    then have "line_author as content ai b = (''human'', None)"
      by (simp add: line_author_def find_dominant_author_for_line_candidates_def)
    with that(1) set Nil show thesis by simp
  next
    case (Cons first rest)
    define lh where "lh = last_where (\<lambda>a. is_human_author (at_author_id a)) (first # rest)"
    define la where "la = last_where (\<lambda>a. \<not> is_human_author (at_author_id a)) (first # rest)"
    define ov where "ov = (case (la, lh) of (Some ai, Some h) \<Rightarrow>
        if at_ts ai < at_ts h then Some (at_author_id ai) else None | _ \<Rightarrow> None)"
    have "line_author as content ai b = (at_author_id (latest_of first rest), ov)"
      using Cons by (simp add: line_author_def find_dominant_author_for_line_candidates_def ov_def la_def lh_def Let_def)
    moreover have "\<exists>c \<in> set (first # rest). \<exists>h \<in> set (first # rest).
         at_author_id c = x \<and> \<not> is_human_author x \<and> is_human_author (at_author_id h) \<and> at_ts c < at_ts h"
      if "ov = Some x" for x
    proof -
      from that obtain c h where "la = Some c" "lh = Some h" "at_ts c < at_ts h" "x = at_author_id c"
        by (auto simp: ov_def split: option.splits if_splits)
      then show ?thesis unfolding la_def lh_def by (auto dest!: last_where_Some)
    qed
    moreover have L: "line_candidates as content ai b = set (first # rest)" using set Cons by simp
    ultimately show thesis
      using latest_of_spec [of first rest]
      by (intro that(2) [of "latest_of first rest" ov]) (unfold L, blast+)
  qed
qed

lemma line_author_unanimous:
  assumes "\<And>c c'. c \<in> line_candidates as content ai b \<Longrightarrow> c' \<in> line_candidates as content ai b \<Longrightarrow>
    at_author_id c = at_author_id c'"
  shows "line_author as content ai b = (au, ov) \<and> (au \<noteq> ''human'' \<or> ov \<noteq> None) \<longleftrightarrow>
    ov = None \<and> au \<noteq> ''human'' \<and> (\<exists>c \<in> line_candidates as content ai b. at_author_id c = au)"
proof (cases rule: line_author_cases [of as content ai b])
  case 1
  then show ?thesis by auto
next
  case (2 a ov')
  have "ov' = None"
  proof (rule ccontr)
    assume "ov' \<noteq> None"
    with 2(4) obtain c h where "c \<in> line_candidates as content ai b" "h \<in> line_candidates as content ai b"
      "\<not> is_human_author (at_author_id c)" "is_human_author (at_author_id h)" by blast
    with assms [of c h] show False by simp
  qed
  moreover have "(\<exists>c \<in> line_candidates as content ai b. at_author_id c = au) \<longleftrightarrow> at_author_id a = au"
    using assms 2(2) by blast
  ultimately show ?thesis using 2(1) by auto
qed

section \<open>Lemmas: attributions of whole lines\<close>

lemma floor_loop_le: "floor_loop content i \<le> i"
  by (induction i) auto

lemma ceil_loop_ge: "i \<le> ceil_loop content i"
  by (induction content i rule: ceil_loop.induct) (subst ceil_loop.simps, auto)

lemma whole_line_has_text:
  assumes "at_start a \<le> s" "s < e" "e \<le> at_end a" "e \<le> length content"
  shows "has_non_whitespace content s e a \<longleftrightarrow> \<not> all_whitespace (slice content s e)"
proof -
  have "max (floor_char_boundary content s) s = s"
    using floor_loop_le [of content "min s (length content)"] by (simp add: floor_char_boundary_def)
  moreover have "min (ceil_char_boundary content e) e = e"
    using ceil_loop_ge [of e content] assms(4) by (simp add: ceil_char_boundary_def min_absorb1 min_absorb2)
  ultimately show ?thesis using assms by (simp add: has_non_whitespace_def max_absorb1 min_absorb1)
qed

lemma get_line_range_Some:
  "get_line_range (LineBoundaries_new s) l = Some (a, b) \<longleftrightarrow>
     1 \<le> l \<and> unat l \<le> length (split_inclusive s) \<and>
     a = line_pos (split_inclusive s) (unat l - 1) \<and> b = line_pos (split_inclusive s) (unat l)"
proof -
  have "1 \<le> l \<longleftrightarrow> 1 \<le> unat l" by (simp add: word_le_nat_alt)
  then show ?thesis by (auto simp: get_line_range_def LineBoundaries_nth word_less_nat_alt word_le_nat_alt)
qed

lemma line_pos_strict:
  assumes "i < j" "j \<le> length (split_inclusive s)"
  shows "line_pos (split_inclusive s) i < line_pos (split_inclusive s) j"
proof -
  have "line_pos (split_inclusive s) i < line_pos (split_inclusive s) (Suc i)"
    using assms split_inclusive_nonempty [of "split_inclusive s ! i" s] by (simp add: line_pos_Suc)
  also have "\<dots> \<le> line_pos (split_inclusive s) j" using assms(1) by (intro line_pos_mono) simp
  finally show ?thesis .
qed

lemma line_pos_less_iff:
  "i \<le> length (split_inclusive s) \<Longrightarrow> j \<le> length (split_inclusive s) \<Longrightarrow>
     line_pos (split_inclusive s) i < line_pos (split_inclusive s) j \<longleftrightarrow> i < j"
  by (metis line_pos_mono line_pos_strict linorder_not_le)

text \<open>The attribution of a range of lines, and the lines of the text it overlaps.\<close>

definition bytes_of_lines :: "str \<Rightarrow> nat \<Rightarrow> LineAttribution \<Rightarrow> Attribution" where
  "bytes_of_lines content ts la =
     Attribution_new (line_pos (split_inclusive content) (unat (la_start_line la) - 1))
       (line_pos (split_inclusive content) (unat (la_end_line la))) (la_author_id la) ts"

definition lines_exist :: "str \<Rightarrow> LineAttribution \<Rightarrow> bool" where
  "lines_exist content la =
     (1 \<le> la_start_line la \<and> la_start_line la \<le> la_end_line la \<and>
      unat (la_end_line la) \<le> length (LineBoundaries_new content))"

lemma line_attributions_to_attributions_eq:
  assumes "list_all (lines_exist content) las" "content \<noteq> []"
  shows "line_attributions_to_attributions las content ts = map (bytes_of_lines content ts) las"
proof -
  have m: "List.map_filter f xs = map g xs" if "\<And>x. x \<in> set xs \<Longrightarrow> f x = Some (g x)"
    for f :: "LineAttribution \<Rightarrow> Attribution option" and g xs
    using that by (induction xs) (simp_all add: map_filter_simps)
  have r: "get_line_range (LineBoundaries_new content) l =
      Some (line_pos (split_inclusive content) (unat l - 1), line_pos (split_inclusive content) (unat l))"
    if "1 \<le> l" "unat l \<le> length (split_inclusive content)" for l
    using that get_line_range_Some [of content l] by blast
  show ?thesis
  proof (cases las)
    case Cons
    have "las \<noteq> []" using Cons by simp
    with assms show ?thesis
      unfolding line_attributions_to_attributions_def Let_def
      by (simp only: if_False simp_thms)
        (rule m, force simp: list_all_iff lines_exist_def r bytes_of_lines_def word_le_nat_alt)
  qed (simp add: line_attributions_to_attributions_def)
qed

lemma bytes_of_lines_overlap:
  assumes "lines_exist content la" "k < length (LineBoundaries_new content)"
    and "length (LineBoundaries_new content) < 4294967296" "LineBoundaries_new content ! k = (s, e)"
  shows "Attribution_overlaps (bytes_of_lines content ts la) s e \<longleftrightarrow> line_attributed la (of_nat (k + 1))"
    and "line_attributed la (of_nat (k + 1)) \<Longrightarrow>
      at_start (bytes_of_lines content ts la) \<le> s \<and> s < e \<and> e \<le> at_end (bytes_of_lines content ts la) \<and> e \<le> length content"
proof -
  let ?p = "line_pos (split_inclusive content)"
  have se: "s = ?p k" "e = ?p (Suc k)" using assms(2,4) by (simp_all add: LineBoundaries_nth)
  have b: "1 \<le> unat (la_start_line la)" "unat (la_start_line la) \<le> unat (la_end_line la)"
    "unat (la_end_line la) \<le> length (split_inclusive content)" "k < length (split_inclusive content)"
    using assms(1,2) by (simp_all add: lines_exist_def word_le_nat_alt)
  have u: "unat (of_nat (k + 1) :: u32) = k + 1" using assms(2,3) by (intro unat_of_nat_u32) simp
  have l: "line_attributed la (of_nat (k + 1)) \<longleftrightarrow> unat (la_start_line la) \<le> k + 1 \<and> k + 1 \<le> unat (la_end_line la)"
    by (simp only: line_attributed_def word_le_nat_alt u)
  show "Attribution_overlaps (bytes_of_lines content ts la) s e \<longleftrightarrow> line_attributed la (of_nat (k + 1))"
    unfolding l se using b by (auto simp: Attribution_overlaps_def bytes_of_lines_def line_pos_less_iff)
  assume "line_attributed la (of_nat (k + 1))"
  then have "?p (unat (la_start_line la) - 1) \<le> ?p k" "?p k < ?p (Suc k)" "?p (Suc k) \<le> ?p (unat (la_end_line la))"
    using b unfolding l by (auto simp: line_pos_mono line_pos_less_iff)
  moreover have "?p (Suc k) \<le> length content" using line_pos_le [of "split_inclusive content" "Suc k"] by simp
  ultimately show "at_start (bytes_of_lines content ts la) \<le> s \<and> s < e \<and> e \<le> at_end (bytes_of_lines content ts la) \<and> e \<le> length content"
    by (simp add: se bytes_of_lines_def)
qed

lemma whole_line_candidates:
  assumes "list_all (lines_exist content) las" "k < length (LineBoundaries_new content)"
    and "length (LineBoundaries_new content) < 4294967296"
  shows "line_candidates (map (bytes_of_lines content ts) las) content ai (LineBoundaries_new content ! k) =
    bytes_of_lines content ts ` {la \<in> set las. line_attributed la (of_nat (k + 1))}"
proof -
  obtain s e where b: "LineBoundaries_new content ! k = (s, e)" by (cases "LineBoundaries_new content ! k")
  have "is_candidate s e (blank_line content s e) content ai (bytes_of_lines content ts la) \<longleftrightarrow>
      line_attributed la (of_nat (k + 1))" if "la \<in> set las" for la
  proof -
    have "lines_exist content la" using that assms(1) by (simp add: list_all_iff)
    note o = bytes_of_lines_overlap [OF this assms(2,3) b, of ts]
    show ?thesis
      using o(1) whole_line_has_text [of "bytes_of_lines content ts la" s e content] o(2)
      by (auto simp: is_candidate_def blank_line_def simp del: of_nat_add)
  qed
  then show ?thesis by (auto simp: line_candidates_def b)
qed

section \<open>Properties\<close>

text \<open>C28. The sweep over the lines and the merge of their authors report for every line of the
  file the author that asking all the attributions at once gives: a line is attributed to an author
  exactly when that author is the line's and the line is not plainly human.\<close>

theorem line_sweep_reference:
  assumes "attributions \<noteq> []" and "length (LineBoundaries_new content) < 4294967296"
    and "k < length (LineBoundaries_new content)"
  shows "authored (attributions_to_line_attributions_for_checkpoint attributions content is_ai) au ov (of_nat (k + 1)) \<longleftrightarrow>
       line_author attributions content is_ai (LineBoundaries_new content ! k) = (au, ov) \<and>
       \<not> (au = ''human'' \<and> ov = None)"
  using authored_line_author [OF assms] by blast

theorem line_sweep_reference_witness:
  "authored (attributions_to_line_attributions_for_checkpoint
     [Attribution_new 0 2 ''ai'' 1, Attribution_new 2 5 ''h_1'' 2, Attribution_new 6 7 ''ai'' 1] ''abcde fg'' False)
     ''h_1'' (Some ''ai'') (of_nat (0 + 1))"
proof -
  have "length (LineBoundaries_new ''abcde fg'') = 1" by code_simp
  moreover have "line_author [Attribution_new 0 2 ''ai'' 1, Attribution_new 2 5 ''h_1'' 2, Attribution_new 6 7 ''ai'' 1]
      ''abcde fg'' False (LineBoundaries_new ''abcde fg'' ! 0) = (''h_1'', Some ''ai'')" by code_simp
  ultimately show ?thesis
    by (subst line_sweep_reference) simp_all
qed



text \<open>C27. Line attributions survive the trip through bytes: turned into byte attributions of the
  text and condensed back to lines, every line has the author it had, whether it is blank or not and
  whatever its encoding, and lines of the plain human author are dropped.\<close>

theorem line_attributions_roundtrip:
  assumes "list_all (lines_exist content) las"
    and "\<And>la la' l. la \<in> set las \<Longrightarrow> la' \<in> set las \<Longrightarrow> line_attributed la l \<Longrightarrow> line_attributed la' l \<Longrightarrow>
      la_author_id la = la_author_id la'"
    and "k < length (LineBoundaries_new content)" and "length (LineBoundaries_new content) < 4294967296"
  shows "authored (attributions_to_line_attributions_for_checkpoint
             (line_attributions_to_attributions las content ts) content is_ai) au ov (of_nat (k + 1)) \<longleftrightarrow>
     ov = None \<and> au \<noteq> ''human'' \<and> list_ex (\<lambda>la. la_author_id la = au \<and> line_attributed la (of_nat (k + 1))) las"
proof (cases "las = []")
  case True
  then show ?thesis
    by (simp add: line_attributions_to_attributions_def attributions_to_line_attributions_for_checkpoint_def)
next
  case False
  define b where "b = LineBoundaries_new content ! k"
  let ?as = "map (bytes_of_lines content ts) las"
  have "content \<noteq> []" using assms(3) by auto
  then have as: "line_attributions_to_attributions las content ts = ?as"
    using assms(1) by (rule line_attributions_to_attributions_eq [rotated])
  have cands: "line_candidates ?as content is_ai b = bytes_of_lines content ts ` {la \<in> set las. line_attributed la (of_nat (k + 1))}"
    unfolding b_def by (rule whole_line_candidates [OF assms(1,3,4)])
  have same: "at_author_id c = at_author_id c'"
    if "c \<in> line_candidates ?as content is_ai b" "c' \<in> line_candidates ?as content is_ai b" for c c'
  proof -
    from that obtain la la' where la: "la \<in> set las" "la' \<in> set las" "line_attributed la (of_nat (k + 1))"
      "line_attributed la' (of_nat (k + 1))" and c: "c = bytes_of_lines content ts la"
      "c' = bytes_of_lines content ts la'"
      unfolding cands by blast
    from assms(2) [OF la] c show ?thesis by (simp only: bytes_of_lines_def Attribution_new_simps)
  qed
  have "authored (attributions_to_line_attributions_for_checkpoint ?as content is_ai) au ov (of_nat (k + 1)) \<longleftrightarrow>
      line_author ?as content is_ai b = (au, ov) \<and> (au \<noteq> ''human'' \<or> ov \<noteq> None)"
    unfolding b_def using False by (intro authored_line_author assms(3,4)) simp
  also have "\<dots> \<longleftrightarrow> ov = None \<and> au \<noteq> ''human'' \<and> (\<exists>c \<in> line_candidates ?as content is_ai b. at_author_id c = au)"
    using same by (rule line_author_unanimous)
  also have "(\<exists>c \<in> line_candidates ?as content is_ai b. at_author_id c = au) \<longleftrightarrow>
      list_ex (\<lambda>la. la_author_id la = au \<and> line_attributed la (of_nat (k + 1))) las"
    unfolding cands list_ex_iff bytes_of_lines_def bex_simps by (simp only: Attribution_new_simps) blast
  finally show ?thesis unfolding as .
qed

theorem line_attributions_roundtrip_witness:
  "authored (attributions_to_line_attributions_for_checkpoint
     (line_attributions_to_attributions [LineAttribution_new 1 1 ''ai'' None, LineAttribution_new 2 2 ''cursor'' None]
        [CHR ''a'', newline, CHR '' '', newline] 7)
     [CHR ''a'', newline, CHR '' '', newline] True) ''cursor'' None (of_nat (1 + 1))"
proof -
  let ?las = "[LineAttribution_new 1 1 ''ai'' None, LineAttribution_new 2 2 ''cursor'' None]"
  have b: "length (LineBoundaries_new [CHR ''a'', newline, CHR '' '', newline]) = 2" by code_simp
  show ?thesis
  proof (subst line_attributions_roundtrip)
    show "list_all (lines_exist [CHR ''a'', newline, CHR '' '', newline]) ?las"
      using b by (simp add: lines_exist_def word_le_nat_alt)
  next
    fix la la' l
    assume "la \<in> set ?las" "la' \<in> set ?las" "line_attributed la l" "line_attributed la' l"
    moreover have "\<not> (2 :: u32) \<le> 1" by (simp add: word_le_nat_alt)
    ultimately show "la_author_id la = la_author_id la'" by (auto simp: line_attributed_def)
  qed (use b in \<open>simp_all add: line_attributed_def\<close>)
qed

text \<open>The names of the checkpoint kinds read back as the kinds, any other name is refused, and
  the kinds that count as AI are those whose name starts with \<open>ai_\<close>.\<close>

theorem checkpoint_kind_roundtrip:
  "(CheckpointKind_from_str s = Some kind) = (s = CheckpointKind_to_str kind) \<and>
   CheckpointKind_is_ai kind = starts_with (CheckpointKind_to_str kind) ''ai_''"
  by (cases kind) (auto simp: CheckpointKind_from_str_def CheckpointKind_is_ai_def starts_with_def)

text \<open>A deletion marker at the start of a line counts for no line of the file: whatever the
  attributions are, the empty attribution a checkpoint leaves where it deleted whole lines is a
  candidate neither for the line it stands before nor for the line it stands after.\<close>

theorem line_start_marker_ignored:
  "list_all (\<lambda>(s, e). list_all (\<lambda>b. Attribution_new s s author ts \<notin> line_candidates attributions content is_ai b)
     (LineBoundaries_new content)) (LineBoundaries_new content)"
proof -
  have "\<not> (line_pos (split_inclusive content) i < line_pos (split_inclusive content) (Suc j) \<and>
        line_pos (split_inclusive content) j < line_pos (split_inclusive content) i)"
    if "i < length (split_inclusive content)" "j < length (split_inclusive content)" for i j
    using that by (simp add: line_pos_less_iff)
  then show ?thesis
    by (auto simp: list_all_length LineBoundaries_nth line_candidates_def is_candidate_def Attribution_overlaps_def
        simp del: not_less)
qed

end
