(* ===== verification/Git_Cli.thy ===== *)
theory Git_Cli
  imports Rust_Str
begin

text \<open>
  The command line of git as the daemon reads it (\<open>src/git/cli_parser.rs\<close>): the split of the
  arguments into global options, a command and its arguments, and the questions asked of the
  arguments of single commands. Index loops over the arguments are recursions over the arguments
  that are left.
\<close>

section \<open>A parsed invocation\<close>

record ParsedGitInvocation =
  pg_global_args :: "str list"
  pg_command :: "str option"
  pg_command_args :: "str list"
  pg_saw_end_of_opts :: bool
  pg_is_help :: bool

definition to_invocation_vec :: "ParsedGitInvocation \<Rightarrow> str list" where
  "to_invocation_vec p =
     pg_global_args p @ (if pg_saw_end_of_opts p then [''--''] else []) @
     (case pg_command p of None \<Rightarrow> [] | Some cmd \<Rightarrow> [cmd]) @ pg_command_args p"

definition has_command_flag :: "ParsedGitInvocation \<Rightarrow> str \<Rightarrow> bool" where
  "has_command_flag p flag = list_ex (\<lambda>arg. arg = flag) (pg_command_args p)"

definition is_flag_with_value :: "str \<Rightarrow> bool" where
  "is_flag_with_value flag =
     (flag \<in> set [''-m'', ''--message'', ''-F'', ''--file'', ''-t'', ''--template'', ''-e'', ''--edit'',
        ''--author'', ''--date'', ''-s'', ''--strategy'', ''-X'', ''--strategy-option'',
        ''--since'', ''--until'', ''--before'', ''--after'', ''--format'', ''--pretty'',
        ''-n'', ''--max-count'', ''--skip'', ''-b'', ''-B'', ''-u'', ''--set-upstream'', ''--config'',
        ''--depth'', ''--shallow-since''])"

text \<open>The counter is a \<open>u8\<close>: it stops at the position asked for, which is one too.\<close>

fun pos_loop :: "8 word \<Rightarrow> bool \<Rightarrow> 8 word \<Rightarrow> str list \<Rightarrow> str option" where
  "pos_loop n skip_next positional_count [] = None"
| "pos_loop n skip_next positional_count (arg # args) =
     (if skip_next then pos_loop n False positional_count args
      else if starts_with arg ''-''
      then if CHR ''='' \<in> set arg then pos_loop n False positional_count args
           else if is_flag_with_value arg then pos_loop n True positional_count args
           else pos_loop n False positional_count args
      else if positional_count = n then Some arg
      else pos_loop n False (positional_count + 1) args)"

definition pos_command :: "ParsedGitInvocation \<Rightarrow> 8 word \<Rightarrow> str option" where
  "pos_command p n = pos_loop n False 0 (pg_command_args p)"

definition pathspecs :: "ParsedGitInvocation \<Rightarrow> str list" where
  "pathspecs p = tl (dropWhile (\<lambda>arg. arg \<noteq> ''--'') (pg_command_args p))"

section \<open>Rebase, stash and clone\<close>

record RebaseArgsSummary =
  rb_is_control_mode :: bool
  rb_has_root :: bool
  rb_onto_spec :: "str option"
  rb_positionals :: "str list"

definition rebase_control_modes :: "str list" where
  "rebase_control_modes = [''--continue'', ''--abort'', ''--skip'', ''--quit'', ''--show-current-patch'']"

definition rebase_takes_value :: "str \<Rightarrow> bool" where
  "rebase_takes_value arg =
     (arg \<in> set [''-s'', ''--strategy'', ''-X'', ''--strategy-option'', ''-x'', ''--exec'', ''--empty'', ''-C'', ''-S'',
        ''--gpg-sign''])"

fun rebase_loop :: "bool \<Rightarrow> str option \<Rightarrow> str list \<Rightarrow> str list \<Rightarrow> RebaseArgsSummary" where
  "rebase_loop has_root onto_spec positionals [] =
     \<lparr>rb_is_control_mode = False, rb_has_root = has_root, rb_onto_spec = onto_spec, rb_positionals = positionals\<rparr>"
| "rebase_loop has_root onto_spec positionals (arg # rest) =
     (let done =
        \<lparr>rb_is_control_mode = False, rb_has_root = has_root, rb_onto_spec = onto_spec, rb_positionals = positionals\<rparr>
      in if arg = ''--'' then done
         else if arg = ''--onto''
         then (case rest of next # rest' \<Rightarrow> rebase_loop has_root (Some next) positionals rest' | [] \<Rightarrow> done)
         else case strip_prefix arg ''--onto='' of
                Some spec \<Rightarrow> rebase_loop has_root (Some spec) positionals rest
              | None \<Rightarrow>
                  if arg = ''--root'' then rebase_loop True onto_spec positionals rest
                  else if starts_with arg ''-''
                  then if rebase_takes_value arg \<and> CHR ''='' \<notin> set arg
                       then (case rest of _ # rest' \<Rightarrow> rebase_loop has_root onto_spec positionals rest' | [] \<Rightarrow> done)
                       else rebase_loop has_root onto_spec positionals rest
                  else rebase_loop has_root onto_spec (positionals @ [arg]) rest)"

definition summarize_rebase_args :: "str list \<Rightarrow> RebaseArgsSummary" where
  "summarize_rebase_args command_args =
     (if list_ex (\<lambda>mode. mode \<in> set command_args) rebase_control_modes
      then \<lparr>rb_is_control_mode = True, rb_has_root = False, rb_onto_spec = None, rb_positionals = []\<rparr>
      else rebase_loop False None [] command_args)"

definition rebase_has_control_mode :: "str list \<Rightarrow> bool" where
  "rebase_has_control_mode command_args = rb_is_control_mode (summarize_rebase_args command_args)"

definition get_arg :: "str list \<Rightarrow> nat \<Rightarrow> str option" where
  "get_arg args i = (if i < length args then Some (args ! i) else None)"

definition explicit_rebase_branch_arg :: "str list \<Rightarrow> str option" where
  "explicit_rebase_branch_arg command_args =
     (let summary = summarize_rebase_args command_args
      in if rb_is_control_mode summary then None
         else if rb_has_root summary then get_arg (rb_positionals summary) 0
         else get_arg (rb_positionals summary) 1)"

definition stash_subcommand :: "str list \<Rightarrow> str option" where
  "stash_subcommand command_args =
     (case command_args of
        arg # _ \<Rightarrow> if arg \<in> set [''push'', ''save'', ''apply'', ''pop'', ''drop'', ''list'', ''branch'', ''show'']
                    then Some arg else None
      | [] \<Rightarrow> None)"

definition stash_requires_target_resolution :: "str list \<Rightarrow> bool" where
  "stash_requires_target_resolution command_args =
     (stash_subcommand command_args \<in> set [Some ''apply'', Some ''pop'', Some ''drop'', Some ''branch''])"

fun stash_target_loop :: "bool \<Rightarrow> bool \<Rightarrow> nat \<Rightarrow> str list \<Rightarrow> str option" where
  "stash_target_loop is_branch saw_separator positional_count [] = None"
| "stash_target_loop is_branch saw_separator positional_count (arg # rest) =
     (if arg = ''--'' then stash_target_loop is_branch True positional_count rest
      else if \<not> saw_separator \<and> starts_with arg ''-''
      then stash_target_loop is_branch saw_separator positional_count rest
      else if is_branch \<and> positional_count = 0
      then stash_target_loop is_branch saw_separator (positional_count + 1) rest
      else Some arg)"

definition stash_target_spec :: "str list \<Rightarrow> str option" where
  "stash_target_spec command_args =
     (if \<not> stash_requires_target_resolution command_args then None
      else stash_target_loop (stash_subcommand command_args = Some ''branch'') False 0 (drop 1 command_args))"

definition is_dry_run :: "str list \<Rightarrow> bool" where
  "is_dry_run args = list_ex (\<lambda>arg. arg = ''--dry-run'') args"

fun clone_positionals :: "bool \<Rightarrow> str list \<Rightarrow> str list" where
  "clone_positionals after_double_dash [] = []"
| "clone_positionals after_double_dash (arg # rest) =
     (if \<not> after_double_dash \<and> arg = ''--'' then clone_positionals True rest
      else if \<not> after_double_dash \<and> is_flag_with_value arg
      then (case rest of _ # rest' \<Rightarrow> clone_positionals False rest' | [] \<Rightarrow> [])
      else if \<not> after_double_dash \<and> starts_with arg ''-'' then clone_positionals False rest
      else arg # clone_positionals after_double_dash rest)"

definition trim_end_chars :: "char set \<Rightarrow> str \<Rightarrow> str" where
  "trim_end_chars cs s = rev (dropWhile (\<lambda>c. c \<in> cs) (rev s))"

text \<open>What follows the last occurrence of one of the characters, if there is one.\<close>

definition after_last :: "char set \<Rightarrow> str \<Rightarrow> str option" where
  "after_last cs s =
     (if list_ex (\<lambda>c. c \<in> cs) s then Some (rev (takeWhile (\<lambda>c. c \<notin> cs) (rev s))) else None)"

definition derive_directory_from_url :: "str \<Rightarrow> str option" where
  "derive_directory_from_url url =
     (let url = trim_end_chars {CHR ''/'', CHR 0x5C} url;
          last_component = (case after_last {CHR ''/'', CHR 0x5C} url of
                              Some component \<Rightarrow> component
                            | None \<Rightarrow> (case after_last {CHR '':''} url of Some component \<Rightarrow> component | None \<Rightarrow> url))
      in if last_component = [] then None
         else let dir_name = (if ends_with last_component ''.git''
                              then take (length last_component - 4) last_component else last_component)
              in if dir_name = [] then None else Some dir_name)"

definition extract_clone_target_directory :: "str list \<Rightarrow> str option" where
  "extract_clone_target_directory args =
     (case clone_positionals False args of
        [] \<Rightarrow> None
      | [url] \<Rightarrow> derive_directory_from_url url
      | _ # dir # _ \<Rightarrow> Some dir)"

section \<open>Parsing\<close>

datatype Kind = GlobalNoValue | GlobalTakesValue | MetaNoValue | Unknown

definition is_eq_form :: "str \<Rightarrow> str \<Rightarrow> bool" where
  "is_eq_form tok long = (length tok > length long + 1 \<and> starts_with tok long \<and> tok ! length long = CHR ''='')"

definition valued_long_options :: "str list" where
  "valued_long_options =
     [''--git-dir'', ''--work-tree'', ''--namespace'', ''--config-env'', ''--list-cmds'', ''--attr-source'',
      ''--super-prefix'']"

definition classify :: "str \<Rightarrow> Kind" where
  "classify tok =
     (if tok \<in> set [''-v'', ''--version'', ''-h'', ''--help'', ''--html-path'', ''--man-path'', ''--info-path'']
      then MetaNoValue
      else if tok = ''--exec-path'' \<or> is_eq_form tok ''--exec-path'' then GlobalTakesValue
      else if tok \<in> set [''-p'', ''--paginate'', ''-P'', ''--no-pager'', ''--no-replace-objects'', ''--no-lazy-fetch'',
                ''--no-optional-locks'', ''--no-advice'', ''--bare'', ''--literal-pathspecs'',
                ''--no-literal-pathspecs'', ''--glob-pathspecs'', ''--no-glob-pathspecs'', ''--noglob-pathspecs'',
                ''--no-noglob-pathspecs'', ''--icase-pathspecs'', ''--no-icase-pathspecs'']
      then GlobalNoValue
      else if starts_with tok ''-C'' \<or> starts_with tok ''-c'' then GlobalTakesValue
      else if list_ex (\<lambda>long. tok = long \<or> is_eq_form tok long) valued_long_options then GlobalTakesValue
      else Unknown)"

text \<open>One option with its value, attached or in the next token: the tokens taken and those left.\<close>

definition take_valueish :: "str \<Rightarrow> str list \<Rightarrow> str \<Rightarrow> str list \<times> str list" where
  "take_valueish tok rest key =
     (if (case find_char (CHR ''='') tok of Some eq \<Rightarrow> 0 < eq | None \<Rightarrow> False) \<and> starts_with tok ''--''
      then ([tok], rest)
      else if key = ''-C'' \<and> tok \<noteq> ''-C'' \<and> starts_with tok ''-C'' then ([tok], rest)
      else if key = ''-c'' \<and> tok \<noteq> ''-c'' \<and> starts_with tok ''-c'' then ([tok], rest)
      else case rest of next # rest' \<Rightarrow> ([tok, next], rest') | [] \<Rightarrow> ([tok], []))"

definition option_key :: "str \<Rightarrow> str" where
  "option_key tok =
     (case find (\<lambda>key. starts_with tok key) ([''-C'', ''-c''] @ valued_long_options) of
        Some key \<Rightarrow> key | None \<Rightarrow> [])"

lemma take_valueish_length [termination_simp]:
  "take_valueish tok rest key = (taken, rest') \<Longrightarrow> length rest' \<le> length rest"
  by (auto simp: take_valueish_def split: if_splits list.splits)

text \<open>The scan of the leading options: the global options, the meta options, whether \<open>--\<close> ended the
  scan, and the tokens that are left.\<close>

function scan_globals :: "str list \<Rightarrow> str list \<Rightarrow> str list \<Rightarrow> str list \<times> str list \<times> bool \<times> str list" where
  "scan_globals global_args meta [] = (global_args, meta, False, [])"
| "scan_globals global_args meta (tok # rest) =
     (if tok = ''--'' then (global_args, meta, True, rest)
      else case classify tok of
             GlobalNoValue \<Rightarrow> scan_globals (global_args @ [tok]) meta rest
           | GlobalTakesValue \<Rightarrow>
               scan_globals (global_args @ fst (take_valueish tok rest (option_key tok))) meta
                 (snd (take_valueish tok rest (option_key tok)))
           | MetaNoValue \<Rightarrow> scan_globals global_args (meta @ [tok]) rest
           | Unknown \<Rightarrow> (global_args, meta, False, tok # rest))"
  by pat_completeness auto
termination
proof (relation "measure (\<lambda>(g, m, args). length args)")
  fix g m :: "str list" and tok :: str and rest :: "str list"
  show "((g @ fst (take_valueish tok rest (option_key tok)), m, snd (take_valueish tok rest (option_key tok))),
      g, m, tok # rest) \<in> measure (\<lambda>(g, m, args). length args)"
    using take_valueish_length [of tok rest "option_key tok"]
    by (cases "take_valueish tok rest (option_key tok)") (simp add: less_Suc_eq_le)
qed auto

definition is_help_token :: "str \<Rightarrow> bool" where
  "is_help_token t = (t = ''--help'' \<or> t = ''-h'')"

definition is_version_token :: "str \<Rightarrow> bool" where
  "is_version_token t = (t = ''--version'' \<or> t = ''-v'')"

fun drop_first :: "('a \<Rightarrow> bool) \<Rightarrow> 'a list \<Rightarrow> 'a list" where
  "drop_first P [] = []"
| "drop_first P (x # xs) = (if P x then xs else x # drop_first P xs)"

text \<open>The rewrite of \<open>git --help\<close> and \<open>git --version\<close> to the commands \<open>help\<close> and \<open>version\<close>.\<close>

definition rewrite_meta :: "str list \<Rightarrow> str option \<Rightarrow> str list \<Rightarrow> str option \<times> str list" where
  "rewrite_meta meta command command_args =
     (let pre_has_help = list_ex is_help_token meta; pre_has_version = list_ex is_version_token meta
      in case command of
           Some cmd \<Rightarrow>
             if pre_has_help then (Some ''help'', cmd # command_args)
             else if pre_has_version then (Some ''version'', drop_first is_version_token meta)
             else (command, command_args)
         | None \<Rightarrow>
             if pre_has_help
             then (Some ''help'',
                   filter (\<lambda>t. \<not> is_version_token t) (drop_first is_help_token meta) @
                   filter (\<lambda>t. \<not> is_help_token t \<and> \<not> is_version_token t) command_args)
             else if pre_has_version
             then (Some ''version'', filter (\<lambda>t. starts_with t ''-'') (drop_first is_version_token command_args))
             else (command, command_args))"

definition parse_git_cli_args :: "str list \<Rightarrow> ParsedGitInvocation" where
  "parse_git_cli_args args =
     (let (global_args, meta, saw_end_of_opts, rest) = scan_globals [] [] args;
          (command, command_args) =
            (case rest of
               tok # rest' \<Rightarrow> if saw_end_of_opts \<or> \<not> starts_with tok ''-'' then (Some tok, rest')
                               else (None, meta @ rest)
             | [] \<Rightarrow> (None, meta @ rest));
          (command, command_args) = rewrite_meta meta command command_args
      in \<lparr>pg_global_args = global_args, pg_command = command, pg_command_args = command_args,
          pg_saw_end_of_opts = saw_end_of_opts,
          pg_is_help = (command = Some ''help'' \<or> command = Some ''--help'' \<or> list_ex is_help_token meta \<or>
                        list_ex is_help_token command_args)\<rparr>)"

section \<open>Lemmas\<close>

lemma take_valueish_tokens: "fst (take_valueish tok rest key) @ snd (take_valueish tok rest key) = tok # rest"
  by (auto simp: take_valueish_def split: list.splits)

text \<open>Without meta options the scan only divides the tokens.\<close>

lemma scan_globals_meta: "scan_globals g m args = (g', m', saw, rest) \<Longrightarrow> \<exists>more. m' = m @ more"
proof (induction g m args rule: scan_globals.induct)
  case (2 g m tok rest0)
  then show ?case by (auto split: if_splits Kind.splits)
qed simp

lemma scan_globals_tokens:
  "scan_globals g m args = (g', m, saw, rest) \<Longrightarrow> g @ args = g' @ (if saw then [''--''] else []) @ rest"
proof (induction g m args rule: scan_globals.induct)
  case (2 g m tok rest0)
  show ?case
  proof (cases "tok = ''--''")
    case False
    show ?thesis
    proof (cases "classify tok")
      case GlobalNoValue
      with 2 False show ?thesis by simp
    next
      case GlobalTakesValue
      then have "(g @ fst (take_valueish tok rest0 (option_key tok))) @ snd (take_valueish tok rest0 (option_key tok)) =
          g' @ (if saw then [''--''] else []) @ rest"
        using 2 False by simp
      then show ?thesis using take_valueish_tokens [of tok rest0 "option_key tok"] by simp
    next
      case MetaNoValue
      with 2(4) False obtain more where "m = (m @ [tok]) @ more" using scan_globals_meta by (fastforce simp del: append_assoc)
      then show ?thesis by simp
    next
      case Unknown
      with 2 False show ?thesis by auto
    qed
  qed (use 2 in simp)
qed simp

definition leading_metas :: "str list \<Rightarrow> str list" where
  "leading_metas args = fst (snd (scan_globals [] [] args))"

text \<open>The arguments of a command that are neither options nor the values of options.\<close>

fun positionals :: "bool \<Rightarrow> str list \<Rightarrow> str list" where
  "positionals skip_next [] = []"
| "positionals skip_next (arg # args) =
     (if skip_next then positionals False args
      else if starts_with arg ''-'' then positionals (CHR ''='' \<notin> set arg \<and> is_flag_with_value arg) args
      else arg # positionals False args)"

lemma pos_loop_positionals:
  "unat count \<le> unat n \<Longrightarrow> pos_loop n skip count args = get_arg (positionals skip args) (unat n - unat count)"
proof (induction args arbitrary: skip count)
  case (Cons arg args)
  show ?case
  proof (cases "skip \<or> starts_with arg ''-''")
    case True
    with Cons.prems show ?thesis by (auto simp: Cons.IH)
  next
    case False
    show ?thesis
    proof (cases "count = n")
      case neq: False
      with Cons.prems have n: "unat count < unat n" by unat_arith
      then have "count < n" by (simp add: word_less_nat_alt)
      then have c: "unat (count + 1) = Suc (unat count)" by unat_arith
      have "unat n - unat count = Suc (unat n - Suc (unat count))" using n by simp
      with False neq n c show ?thesis by (simp add: Cons.IH get_arg_def)
    qed (use False in \<open>simp add: get_arg_def\<close>)
  qed
qed (simp add: get_arg_def)

section \<open>Properties\<close>

text \<open>C24. Parsing a command line without top-level help, version or path queries loses nothing:
  written out again, global options, the end-of-options mark, command and arguments are the command
  line, token by token. Options with attached and
  with separate values, unknown options and a missing command are all covered.\<close>

theorem parse_git_cli_roundtrip:
  assumes "leading_metas args = []"
  shows "to_invocation_vec (parse_git_cli_args args) = args"
proof -
  obtain g saw rest where scan: "scan_globals [] [] args = (g, [], saw, rest)"
    using assms by (cases "scan_globals [] [] args") (auto simp: leading_metas_def)
  have "to_invocation_vec (parse_git_cli_args args) = g @ (if saw then [''--''] else []) @ rest"
    by (cases rest) (simp_all add: parse_git_cli_args_def scan rewrite_meta_def to_invocation_vec_def)
  then show ?thesis using scan_globals_tokens [OF scan] by simp
qed

theorem parse_git_cli_roundtrip_witness:
  "to_invocation_vec (parse_git_cli_args [''-C'', ''..'', ''commit'', ''-m'', ''x'', ''--help'']) =
     [''-C'', ''..'', ''commit'', ''-m'', ''x'', ''--help'']"
  by (rule parse_git_cli_roundtrip) code_simp

text \<open>\<open>pos_command\<close> gives the n-th argument that is neither an option nor the value of one, for
  every \<open>u8\<close> n and however many arguments there are: its \<open>u8\<close> counter never wraps around.\<close>

theorem pos_command_nth:
  "pos_command p n = get_arg (positionals False (pg_command_args p)) (unat n)"
  by (simp add: pos_command_def pos_loop_positionals)

end
