(* ===== verification/Command_Classification.thy ===== *)
theory Command_Classification
  imports Git_Cli
begin

text \<open>
  Which git invocations can change a repository (\<open>src/git/command_classification.rs\<close>): the daemon
  drops read-only invocations and orders the others inside their repository family.
\<close>

section \<open>Commands\<close>

definition is_definitely_read_only_command :: "str \<Rightarrow> bool" where
  "is_definitely_read_only_command command =
     (command \<in> set [''blame'', ''cat-file'', ''check-attr'', ''check-ignore'', ''check-mailmap'', ''count-objects'',
        ''describe'', ''diff'', ''diff-files'', ''diff-index'', ''diff-tree'', ''for-each-ref'', ''grep'', ''help'',
        ''log'', ''ls-files'', ''ls-tree'', ''merge-base'', ''name-rev'', ''rev-list'', ''rev-parse'', ''shortlog'',
        ''show'', ''status'', ''var'', ''verify-commit'', ''verify-tag'', ''version''])"

definition may_mutate_repo_state_command :: "str \<Rightarrow> bool" where
  "may_mutate_repo_state_command command =
     (command \<in> set [''branch'', ''checkout'', ''cherry-pick'', ''clone'', ''commit'', ''fetch'', ''init'', ''merge'',
        ''pull'', ''push'', ''rebase'', ''remote'', ''reset'', ''revert'', ''stash'', ''switch'', ''tag'', ''update-ref'',
        ''worktree''])"

definition participates_in_family_sequencer_command :: "str \<Rightarrow> bool" where
  "participates_in_family_sequencer_command command =
     (command \<in> set [''branch'', ''checkout'', ''cherry-pick'', ''commit'', ''fetch'', ''merge'', ''pull'', ''push'',
        ''rebase'', ''remote'', ''reset'', ''revert'', ''stash'', ''switch'', ''tag'', ''update-ref'', ''worktree''])"

section \<open>Arguments of branch\<close>

definition branch_arg_is_mutating :: "str \<Rightarrow> bool" where
  "branch_arg_is_mutating arg =
     (arg \<in> set [''-d'', ''-D'', ''--delete'', ''-m'', ''-M'', ''--move'', ''-c'', ''-C'', ''--copy'',
        ''--set-upstream-to'', ''--unset-upstream'', ''--edit-description'', ''--create-reflog''] \<or>
      starts_with arg ''--set-upstream-to='')"

definition branch_arg_takes_optional_query_value :: "str \<Rightarrow> bool" where
  "branch_arg_takes_optional_query_value arg =
     (arg \<in> set [''--contains'', ''--no-contains'', ''--merged'', ''--no-merged''])"

definition branch_arg_takes_required_query_value :: "str \<Rightarrow> bool" where
  "branch_arg_takes_required_query_value arg = (arg \<in> set [''--points-at'', ''--sort'', ''--format'', ''--abbrev''])"

definition branch_arg_is_inline_query_option :: "str \<Rightarrow> bool" where
  "branch_arg_is_inline_query_option arg =
     list_ex (starts_with arg)
       [''--points-at='', ''--sort='', ''--format='', ''--color='', ''--column='', ''--abbrev='']"

definition branch_arg_is_read_only_flag :: "str \<Rightarrow> bool" where
  "branch_arg_is_read_only_flag arg =
     (arg \<in> set [''-a'', ''--all'', ''-r'', ''--remotes'', ''-v'', ''-vv'', ''--verbose'', ''-q'', ''--quiet'',
        ''--show-current'', ''--color'', ''--no-color'', ''--column'', ''--ignore-case'', ''--no-column'',
        ''--no-abbrev'', ''--omit-empty''])"

text \<open>Whether the next argument is the value of a query option.\<close>

definition is_query_value :: "str \<Rightarrow> bool" where
  "is_query_value arg = (\<not> starts_with arg ''-'' \<and> arg \<noteq> ''--'')"

fun branch_loop :: "bool \<Rightarrow> str list \<Rightarrow> bool" where
  "branch_loop saw_list_mode [] = True"
| "branch_loop saw_list_mode (arg # rest) =
     (if arg = ''--'' then False
      else if branch_arg_is_mutating arg then False
      else if arg = ''--list'' \<or> arg = ''-l'' then branch_loop True rest
      else if branch_arg_takes_optional_query_value arg
      then (case rest of
              next # rest' \<Rightarrow> if is_query_value next then branch_loop saw_list_mode rest'
                              else branch_loop saw_list_mode rest
            | [] \<Rightarrow> True)
      else if branch_arg_takes_required_query_value arg
      then (case rest of
              next # rest' \<Rightarrow> if is_query_value next then branch_loop saw_list_mode rest' else False
            | [] \<Rightarrow> False)
      else if branch_arg_is_read_only_flag arg \<or> branch_arg_is_inline_query_option arg
      then branch_loop saw_list_mode rest
      else if \<not> starts_with arg ''-'' \<and> saw_list_mode then branch_loop saw_list_mode rest
      else False)"

definition branch_invocation_is_read_only :: "str list \<Rightarrow> bool" where
  "branch_invocation_is_read_only args = (args = [] \<or> branch_loop False args)"

section \<open>Arguments of tag, remote, stash and worktree\<close>

definition tag_arg_is_mutating :: "str \<Rightarrow> bool" where
  "tag_arg_is_mutating arg =
     (arg \<in> set [''-a'', ''--annotate'', ''-s'', ''--sign'', ''-u'', ''--local-user'', ''-m'', ''--message'', ''-F'',
        ''--file'', ''-d'', ''--delete'', ''-f'', ''--force''] \<or>
      list_ex (starts_with arg) [''--local-user='', ''--message='', ''--file=''])"

definition tag_arg_takes_optional_query_value :: "str \<Rightarrow> bool" where
  "tag_arg_takes_optional_query_value arg =
     (arg \<in> set [''--contains'', ''--no-contains'', ''--merged'', ''--no-merged''])"

definition tag_arg_takes_required_query_value :: "str \<Rightarrow> bool" where
  "tag_arg_takes_required_query_value arg = (arg \<in> set [''--points-at'', ''--sort'', ''--format''])"

definition tag_arg_is_inline_query_option :: "str \<Rightarrow> bool" where
  "tag_arg_is_inline_query_option arg =
     list_ex (starts_with arg) [''--points-at='', ''--sort='', ''--format='', ''--color='', ''--column='']"

definition tag_arg_is_read_only_flag :: "str \<Rightarrow> bool" where
  "tag_arg_is_read_only_flag arg =
     (arg \<in> set [''-n'', ''--color'', ''--column'', ''--ignore-case'', ''--no-column'', ''--no-color''] \<or>
      starts_with arg ''-n'')"

fun tag_loop :: "bool \<Rightarrow> str list \<Rightarrow> bool" where
  "tag_loop query_mode [] = True"
| "tag_loop query_mode (arg # rest) =
     (if arg = ''--'' then False
      else if tag_arg_is_mutating arg then False
      else if arg = ''-l'' \<or> arg = ''--list'' \<or> arg = ''-v'' \<or> arg = ''--verify'' then tag_loop True rest
      else if tag_arg_takes_optional_query_value arg
      then (case rest of
              next # rest' \<Rightarrow> if is_query_value next then tag_loop True rest' else tag_loop True rest
            | [] \<Rightarrow> True)
      else if tag_arg_takes_required_query_value arg
      then (case rest of
              next # rest' \<Rightarrow> if is_query_value next then tag_loop True rest' else False
            | [] \<Rightarrow> False)
      else if tag_arg_is_inline_query_option arg \<or> tag_arg_is_read_only_flag arg then tag_loop True rest
      else if \<not> starts_with arg ''-'' \<and> query_mode then tag_loop query_mode rest
      else False)"

definition tag_invocation_is_read_only :: "str list \<Rightarrow> bool" where
  "tag_invocation_is_read_only args = (args = [] \<or> tag_loop False args)"

definition remote_invocation_is_read_only :: "str list \<Rightarrow> bool" where
  "remote_invocation_is_read_only args =
     (case dropWhile (\<lambda>arg. arg = ''-v'' \<or> arg = ''--verbose'') args of
        [] \<Rightarrow> True
      | arg # _ \<Rightarrow> arg = ''show'' \<or> arg = ''get-url'')"

definition stash_invocation_is_read_only :: "str list \<Rightarrow> bool" where
  "stash_invocation_is_read_only args =
     (find (\<lambda>arg. \<not> starts_with arg ''-'') args \<in> {Some ''list'', Some ''show''})"

definition worktree_invocation_is_read_only :: "str list \<Rightarrow> bool" where
  "worktree_invocation_is_read_only args = (find (\<lambda>arg. \<not> starts_with arg ''-'') args = Some ''list'')"

section \<open>Invocations\<close>

definition is_definitely_read_only_git_invocation :: "str \<Rightarrow> str list \<Rightarrow> bool" where
  "is_definitely_read_only_git_invocation command command_args =
     (if is_definitely_read_only_command command then True
      else if command = ''branch'' then branch_invocation_is_read_only command_args
      else if command = ''notes''
      then (case command_args of arg # _ \<Rightarrow> arg \<in> set [''show'', ''list'', ''get-ref''] | [] \<Rightarrow> False)
      else if command = ''remote'' then remote_invocation_is_read_only command_args
      else if command = ''stash'' then stash_invocation_is_read_only command_args
      else if command = ''tag'' then tag_invocation_is_read_only command_args
      else if command = ''worktree'' then worktree_invocation_is_read_only command_args
      else False)"

definition git_invocation_may_mutate_repo_state :: "str \<Rightarrow> str list \<Rightarrow> bool" where
  "git_invocation_may_mutate_repo_state command command_args =
     (may_mutate_repo_state_command command \<and> \<not> is_definitely_read_only_git_invocation command command_args)"

definition git_invocation_participates_in_family_sequencer :: "str \<Rightarrow> str list \<Rightarrow> bool" where
  "git_invocation_participates_in_family_sequencer command command_args =
     (participates_in_family_sequencer_command command \<and>
      git_invocation_may_mutate_repo_state command command_args)"

section \<open>Lemmas\<close>

lemma starts_with_hd: "starts_with s (c # p) \<Longrightarrow> starts_with s [c]"
  by (cases s) (auto simp: starts_with_def)

lemma starts_with_char [simp]: "starts_with (c # s) [c'] \<longleftrightarrow> c = c'"
  by (simp add: starts_with_def)

text \<open>A changing option is never taken for the value of a query option.\<close>

lemma mutating_options:
  "branch_arg_is_mutating arg \<Longrightarrow> starts_with arg ''-''"
  "tag_arg_is_mutating arg \<Longrightarrow> starts_with arg ''-''"
  by (auto simp: branch_arg_is_mutating_def tag_arg_is_mutating_def dest: starts_with_hd)

lemma mutating_not_value:
  "branch_arg_is_mutating arg \<Longrightarrow> \<not> is_query_value arg"
  "tag_arg_is_mutating arg \<Longrightarrow> \<not> is_query_value arg"
  "\<not> is_query_value ''--''"
  by (simp_all add: is_query_value_def mutating_options)

lemma branch_loop_step:
  assumes "branch_loop m (a # rest)"
  obtains m' rest' where "a \<noteq> ''--''" "\<not> branch_arg_is_mutating a" "branch_loop m' rest'"
    "rest' = rest \<or> (\<exists>v. rest = v # rest' \<and> is_query_value v)"
proof -
  have "a \<noteq> ''--'' \<and> \<not> branch_arg_is_mutating a \<and>
      (\<exists>m' rest'. branch_loop m' rest' \<and> (rest' = rest \<or> (\<exists>v. rest = v # rest' \<and> is_query_value v)))"
    using assms by (subst (asm) branch_loop.simps(2)) (fastforce split: if_splits list.splits simp del: branch_loop.simps(2))
  with that show thesis by blast
qed

lemma tag_loop_step:
  assumes "tag_loop m (a # rest)"
  obtains m' rest' where "a \<noteq> ''--''" "\<not> tag_arg_is_mutating a" "tag_loop m' rest'"
    "rest' = rest \<or> (\<exists>v. rest = v # rest' \<and> is_query_value v)"
proof -
  have "a \<noteq> ''--'' \<and> \<not> tag_arg_is_mutating a \<and>
      (\<exists>m' rest'. tag_loop m' rest' \<and> (rest' = rest \<or> (\<exists>v. rest = v # rest' \<and> is_query_value v)))"
    using assms by (subst (asm) tag_loop.simps(2)) (fastforce split: if_splits list.splits simp del: tag_loop.simps(2))
  with that show thesis by blast
qed

lemma branch_loop_safe: "branch_loop m args \<Longrightarrow> arg \<in> set args \<Longrightarrow> \<not> branch_arg_is_mutating arg \<and> arg \<noteq> ''--''"
proof (induction args arbitrary: m rule: length_induct)
  case (1 args)
  then obtain a rest where args: "args = a # rest" by (cases args) auto
  from 1(2) have "branch_loop m (a # rest)" unfolding args .
  then obtain m' rest' where "a \<noteq> ''--''" "\<not> branch_arg_is_mutating a" "branch_loop m' rest'"
    "rest' = rest \<or> (\<exists>v. rest = v # rest' \<and> is_query_value v)" by (rule branch_loop_step)
  moreover from this(4) have "length rest' < length args" using args by auto
  ultimately show ?case using 1 args mutating_not_value(1,3) by (metis set_ConsD)
qed

lemma tag_loop_safe: "tag_loop m args \<Longrightarrow> arg \<in> set args \<Longrightarrow> \<not> tag_arg_is_mutating arg \<and> arg \<noteq> ''--''"
proof (induction args arbitrary: m rule: length_induct)
  case (1 args)
  then obtain a rest where args: "args = a # rest" by (cases args) auto
  from 1(2) have "tag_loop m (a # rest)" unfolding args .
  then obtain m' rest' where "a \<noteq> ''--''" "\<not> tag_arg_is_mutating a" "tag_loop m' rest'"
    "rest' = rest \<or> (\<exists>v. rest = v # rest' \<and> is_query_value v)" by (rule tag_loop_step)
  moreover from this(4) have "length rest' < length args" using args by auto
  ultimately show ?case using 1 args mutating_not_value(2,3) by (metis set_ConsD)
qed

section \<open>Properties\<close>

text \<open>C26. A branch or tag invocation with an option that changes the repository, wherever the option
  stands among query options and their values, is never dropped as read-only: it is ordered in the
  sequencer of its repository family.\<close>

theorem mutating_option_is_sequenced:
  assumes "command = ''branch'' \<and> list_ex branch_arg_is_mutating args \<or>
           command = ''tag'' \<and> list_ex tag_arg_is_mutating args"
  shows "git_invocation_participates_in_family_sequencer command args"
proof -
  have "\<not> branch_invocation_is_read_only args" if "list_ex branch_arg_is_mutating args"
    using that branch_loop_safe [of False args] by (auto simp: branch_invocation_is_read_only_def list_ex_iff)
  moreover have "\<not> tag_invocation_is_read_only args" if "list_ex tag_arg_is_mutating args"
    using that tag_loop_safe [of False args] by (auto simp: tag_invocation_is_read_only_def list_ex_iff)
  ultimately show ?thesis using assms
    by (elim disjE conjE)
      (simp_all add: git_invocation_participates_in_family_sequencer_def participates_in_family_sequencer_command_def
        git_invocation_may_mutate_repo_state_def may_mutate_repo_state_command_def
        is_definitely_read_only_git_invocation_def is_definitely_read_only_command_def)
qed

theorem mutating_option_is_sequenced_witness:
  "git_invocation_participates_in_family_sequencer ''branch'' [''--list'', ''--contains'', ''x'', ''-d'', ''main'']"
  by (rule mutating_option_is_sequenced) code_simp

text \<open>A stash whose message is the word \<open>list\<close> or \<open>show\<close> is taken for a query: the value of
  \<open>-m\<close> is read as the subcommand, so the stash, which changes the working tree and the stash list,
  is dropped as read-only, although no subcommand stands at its place.\<close>

theorem stash_message_taken_for_query:
  "stash_subcommand [''-m'', ''list''] = None \<and>
   is_definitely_read_only_git_invocation ''stash'' [''-m'', ''list''] \<and>
   \<not> git_invocation_participates_in_family_sequencer ''stash'' [''-m'', ''list'']"
  by code_simp

end
