(* ===== verification/Daemon_Domain.thy ===== *)
theory Daemon_Domain
  imports Command_Classification
begin

text \<open>
  The data of the daemon (\<open>src/daemon/domain.rs\<close>): normalised git commands, the semantic events an
  analysis finds in them, and the state kept per repository family. A \<open>HashMap\<close> is a map, a path is
  its text, a \<open>u128\<close> of nanoseconds is a natural number.
\<close>

type_synonym FamilyKey = str

datatype CommandScope = Family FamilyKey | Global

datatype Confidence = High | Medium | Low

record RefChange =
  rc_reference :: str
  rc_old :: str
  rc_new :: str

record NormalizedCommand =
  nc_scope :: CommandScope
  nc_family_key :: "FamilyKey option"
  nc_worktree :: "str option"
  nc_root_sid :: str
  nc_raw_argv :: "str list"
  nc_primary_command :: "str option"
  nc_invoked_command :: "str option"
  nc_invoked_args :: "str list"
  nc_observed_child_commands :: "str list"
  nc_exit_code :: "32 word"
  nc_started_at_ns :: nat
  nc_finished_at_ns :: nat
  nc_reflog_start_offsets :: "str \<rightharpoonup> u64"
  nc_stash_target_oid :: "str option"
  nc_cherry_pick_source_oids :: "str list"
  nc_revert_source_oids :: "str list"
  nc_ref_changes :: "RefChange list"
  nc_confidence :: Confidence

datatype CommandClass =
  HistoryRewrite | RefMutation | WorkspaceMutation | Transport | RepoAdmin | ReadOnly | Opaque

datatype ResetKind = Soft | Mixed | Hard | ResetMerge | Keep | ResetUnknown

datatype PullStrategy = PullMerge | PullRebase | RebaseMerges | FastForwardOnly | PullUnknown

datatype StashOpKind =
  StashPush | StashApply | StashPop | StashDrop | StashList | StashBranch | StashShow | StashUnknown

datatype SemanticEvent =
  CommitCreated "str option" str
| CommitAmended str str
| Reset ResetKind str str
| RebaseComplete str str bool
| RebaseAbort str
| MergeSquash str str
| CherryPickComplete str str "str list" "str list"
| CherryPickNoCommit "str list" str
| CherryPickAbort str
| RefUpdated str str str
| BranchCreated str str
| BranchDeleted str str
| BranchRenamed str str "str option"
| TagCreated str str
| TagDeleted str str
| SymbolicRefUpdated str "str option" "str option"
| NotesUpdated
| ReplaceUpdated
| CheckoutPaths
| RestorePaths
| CleanedWorkspace
| StashOperation StashOpKind "str option"
| FetchCompleted "str option"
| PullCompleted "str option" PullStrategy
| PushCompleted "str option"
| CloneCompleted str
| LsRemoteCompleted
| RepoInitialized str
| WorktreeAdded str
| WorktreeRemoved str
| RemoteConfigChanged
| ConfigChanged
| MaintenanceRun
| GcRun
| PackRefsRun
| ReflogExpireRun
| ReadOnlyCommand
| OpaqueCommand

record AnalysisResult =
  ar_class :: CommandClass
  ar_events :: "SemanticEvent list"
  ar_confidence :: Confidence

record AppliedCommand =
  ac_seq :: u64
  ac_command :: NormalizedCommand
  ac_analysis :: AnalysisResult

record WorktreeState =
  wt_head :: "str option"
  wt_branch :: "str option"
  wt_detached :: bool
  wt_last_updated_ns :: nat

record WatermarkState =
  wm_per_file :: "str \<rightharpoonup> nat"
  wm_per_worktree :: "str \<rightharpoonup> nat"

record FamilyState =
  fs_family_key :: FamilyKey
  fs_refs :: "str \<rightharpoonup> str"
  fs_worktrees :: "str \<rightharpoonup> WorktreeState"
  fs_last_error :: "str option"
  fs_applied_seq :: u64
  fs_watermarks :: WatermarkState

record GlobalState =
  gs_applied_seq :: u64

record ApplyAck =
  aa_seq :: u64
  aa_applied :: bool

record FamilyStatus =
  st_family_key :: FamilyKey
  st_applied_seq :: u64
  st_last_error :: "str option"

section \<open>Object identifiers and arguments\<close>

text \<open>\<open>is_zero_oid\<close> of the reducer and of the history analyzer, and \<open>is_valid_git_oid\<close> of
  \<open>src/git/repo_state.rs\<close>.\<close>

definition is_zero_oid :: "str \<Rightarrow> bool" where
  "is_zero_oid value = ((length value = 40 \<or> length value = 64) \<and> list_all (\<lambda>ch. ch = CHR ''0'') value)"

definition is_ascii_hexdigit :: "char \<Rightarrow> bool" where
  "is_ascii_hexdigit c =
     (let n = of_char c :: nat in 48 \<le> n \<and> n \<le> 57 \<or> 65 \<le> n \<and> n \<le> 70 \<or> 97 \<le> n \<and> n \<le> 102)"

definition is_valid_git_oid :: "str \<Rightarrow> bool" where
  "is_valid_git_oid value = ((length value = 40 \<or> length value = 64) \<and> list_all is_ascii_hexdigit value)"

definition valid_non_zero_oid :: "str \<Rightarrow> bool" where
  "valid_non_zero_oid value = (is_valid_git_oid value \<and> \<not> is_zero_oid value)"

definition to_ascii_lowercase :: "str \<Rightarrow> str" where
  "to_ascii_lowercase = map (\<lambda>c. let n = of_char c :: nat in if 65 \<le> n \<and> n \<le> 90 then char_of (n + 32) else c)"

text \<open>\<open>Path::file_name\<close> on Unix: the last component, unless there is none or it is \<open>..\<close>.\<close>

definition path_file_name :: "str \<Rightarrow> str option" where
  "path_file_name p =
     (case rev (filter (\<lambda>c. c \<noteq> [] \<and> c \<noteq> ''.'') (split_char (CHR ''/'') p)) of
        [] \<Rightarrow> None
      | c # _ \<Rightarrow> if c = ''..'' then None else Some c)"

definition normalized_args :: "str list \<Rightarrow> str list" where
  "normalized_args argv =
     (case argv of
        arg # rest \<Rightarrow> if path_file_name arg \<in> {Some ''git'', Some ''git.exe''} then rest else argv
      | [] \<Rightarrow> argv)"

definition command_args :: "NormalizedCommand \<Rightarrow> str list" where
  "command_args cmd =
     (if nc_invoked_args cmd \<noteq> [] then nc_invoked_args cmd else normalized_args (nc_raw_argv cmd))"

end
