(* ===== verification/Command_Analyzers.thy ===== *)
theory Command_Analyzers
  imports Daemon_Domain
begin

text \<open>
  The analyzers of the daemon (\<open>src/daemon/analyzers/\<close>): what a git command did, read off its
  arguments and the references it moved. No analyzer returns an error; the \<open>unreachable!\<close> of a name
  the registry should not have routed is a panic, a value of its own.
\<close>

datatype analysis_panic = Unreachable str

type_synonym analysis_outcome = "analysis_panic + AnalysisResult"

definition confidence_of :: "NormalizedCommand \<Rightarrow> Confidence" where
  "confidence_of cmd = (if nc_exit_code cmd = 0 then High else Low)"

section \<open>The generic analyzer\<close>

definition is_transport_command :: "str \<Rightarrow> bool" where
  "is_transport_command command =
     (command \<in> set [''clone'', ''fetch'', ''pull'', ''push'', ''remote'', ''ls-remote''])"

definition is_repo_admin_command :: "str \<Rightarrow> bool" where
  "is_repo_admin_command command =
     (command \<in> set [''init'', ''worktree'', ''config'', ''credential'', ''gc'', ''maintenance'', ''fsck'', ''prune'',
        ''pack-refs'', ''reflog''])"

definition ref_updated :: "RefChange \<Rightarrow> SemanticEvent" where
  "ref_updated change = RefUpdated (rc_reference change) (rc_old change) (rc_new change)"

definition generic_analyze :: "NormalizedCommand \<Rightarrow> AnalysisResult" where
  "generic_analyze cmd =
     (let command_name = to_ascii_lowercase (case nc_primary_command cmd of Some c \<Rightarrow> c | None \<Rightarrow> [])
      in if nc_ref_changes cmd \<noteq> []
         then \<lparr>ar_class = RefMutation, ar_events = map ref_updated (nc_ref_changes cmd), ar_confidence = Medium\<rparr>
         else if is_transport_command command_name
         then \<lparr>ar_class = Transport, ar_events = [OpaqueCommand], ar_confidence = Low\<rparr>
         else if is_repo_admin_command command_name
         then \<lparr>ar_class = RepoAdmin, ar_events = [OpaqueCommand], ar_confidence = Low\<rparr>
         else if is_definitely_read_only_command command_name
         then \<lparr>ar_class = ReadOnly, ar_events = [ReadOnlyCommand], ar_confidence = Medium\<rparr>
         else \<lparr>ar_class = Opaque, ar_events = [OpaqueCommand], ar_confidence = Low\<rparr>)"

section \<open>The workspace analyzer\<close>

definition stash_command_args :: "NormalizedCommand \<Rightarrow> str list" where
  "stash_command_args cmd =
     (let args = normalized_args (nc_raw_argv cmd)
      in if ''stash'' \<in> set args then tl (dropWhile (\<lambda>arg. arg \<noteq> ''stash'') args) else command_args cmd)"

definition infer_stash_kind :: "str list \<Rightarrow> StashOpKind" where
  "infer_stash_kind args =
     (let first = (case args of arg # _ \<Rightarrow> arg | [] \<Rightarrow> ''push'')
      in if first = ''push'' \<or> first = ''save'' then StashPush
         else if first = ''apply'' then StashApply
         else if first = ''pop'' then StashPop
         else if first = ''drop'' then StashDrop
         else if first = ''list'' then StashList
         else if first = ''branch'' then StashBranch
         else if first = ''show'' then StashShow
         else StashUnknown)"

definition is_path_checkout :: "str list \<Rightarrow> bool" where
  "is_path_checkout args =
     (list_ex (\<lambda>arg. arg = ''--'') args \<or>
      list_ex (\<lambda>arg. starts_with arg ''--pathspec'' \<or> arg = ''--ours'' \<or> arg = ''--theirs'') args)"

definition current_head_for_workspace_command :: "NormalizedCommand \<Rightarrow> (str \<rightharpoonup> str) \<Rightarrow> str option" where
  "current_head_for_workspace_command cmd refs =
     (let head = (case refs ''HEAD'' of
                    Some oid \<Rightarrow> Some oid
                  | None \<Rightarrow> map_option rc_old (find (\<lambda>change. rc_reference change = ''HEAD'') (nc_ref_changes cmd)))
      in case head of Some h \<Rightarrow> if trim h = [] then None else Some h | None \<Rightarrow> None)"

definition or_opaque :: "SemanticEvent list \<Rightarrow> SemanticEvent list" where
  "or_opaque events = (if events = [] then [OpaqueCommand] else events)"

definition first_ref_update :: "NormalizedCommand \<Rightarrow> SemanticEvent list" where
  "first_ref_update cmd = (case nc_ref_changes cmd of change # _ \<Rightarrow> [ref_updated change] | [] \<Rightarrow> [])"

definition workspace_analyze :: "NormalizedCommand \<Rightarrow> (str \<rightharpoonup> str) \<Rightarrow> analysis_outcome" where
  "workspace_analyze cmd refs =
     (let name = (case nc_primary_command cmd of Some c \<Rightarrow> c | None \<Rightarrow> []);
          result = (\<lambda>events. Inr \<lparr>ar_class = WorkspaceMutation, ar_events = or_opaque events,
                                  ar_confidence = confidence_of cmd\<rparr>)
      in if name = ''stash''
         then result [StashOperation (infer_stash_kind (stash_command_args cmd))
                        (current_head_for_workspace_command cmd refs)]
         else if name = ''checkout''
         then result (if is_path_checkout (command_args cmd) then [CheckoutPaths] else first_ref_update cmd)
         else if name = ''switch'' then result (first_ref_update cmd)
         else Inl (Unreachable name))"

section \<open>The transport analyzer\<close>

definition first_positional :: "str list \<Rightarrow> str option" where
  "first_positional args = find (\<lambda>arg. \<not> starts_with arg ''-'') args"

definition infer_pull_strategy_from_args :: "str list \<Rightarrow> PullStrategy option" where
  "infer_pull_strategy_from_args args =
     (if list_ex (\<lambda>arg. arg = ''--no-rebase'' \<or> arg = ''--rebase=false'') args then Some PullMerge
      else if list_ex (\<lambda>arg. arg = ''--ff-only'') args then Some FastForwardOnly
      else if list_ex (\<lambda>arg. arg = ''--rebase=merges'' \<or> arg = ''--rebase-merges'') args then Some RebaseMerges
      else if list_ex (\<lambda>arg. arg = ''--rebase'' \<or> arg = ''--rebase=true'') args then Some PullRebase
      else None)"

definition infer_pull_strategy :: "NormalizedCommand \<Rightarrow> str list \<Rightarrow> PullStrategy" where
  "infer_pull_strategy cmd args =
     (case infer_pull_strategy_from_args args of
        Some strategy \<Rightarrow> strategy
      | None \<Rightarrow>
          (case infer_pull_strategy_from_args (normalized_args (nc_raw_argv cmd)) of
             Some strategy \<Rightarrow> strategy
           | None \<Rightarrow> if list_ex (\<lambda>child. child = ''rebase'') (nc_observed_child_commands cmd)
                      then PullRebase else PullMerge))"

fun clone_target_args :: "bool \<Rightarrow> str list \<Rightarrow> str list" where
  "clone_target_args skip_next [] = []"
| "clone_target_args skip_next (arg # args) =
     (if skip_next then clone_target_args False args
      else if arg = ''-C'' \<or> arg = ''--origin'' \<or> arg = ''--template'' then clone_target_args True args
      else if starts_with arg ''-'' then clone_target_args False args
      else arg # clone_target_args False args)"

definition infer_clone_target :: "str list \<Rightarrow> str option" where
  "infer_clone_target args =
     (let filtered = clone_target_args False args in if filtered = [] then None else Some (last filtered))"

definition transport_analyze :: "NormalizedCommand \<Rightarrow> analysis_outcome" where
  "transport_analyze cmd =
     (let name = (case nc_primary_command cmd of Some c \<Rightarrow> c | None \<Rightarrow> []);
          args = command_args cmd;
          result = (\<lambda>event. Inr \<lparr>ar_class = Transport, ar_events = [event], ar_confidence = confidence_of cmd\<rparr>)
      in if name = ''fetch'' then result (FetchCompleted (first_positional args))
         else if name = ''pull'' then result (PullCompleted (first_positional args) (infer_pull_strategy cmd args))
         else if name = ''push'' then result (PushCompleted (first_positional args))
         else if name = ''clone''
         then result (CloneCompleted (case infer_clone_target args of
                                        Some target \<Rightarrow> target
                                      | None \<Rightarrow> (case nc_worktree cmd of Some w \<Rightarrow> w | None \<Rightarrow> ''.'')))
         else if name = ''ls-remote'' then result LsRemoteCompleted
         else Inl (Unreachable name))"

section \<open>The history analyzer\<close>

definition sanitize_base :: "str option \<Rightarrow> str \<Rightarrow> str option" where
  "sanitize_base base new_head =
     (case base of
        Some candidate \<Rightarrow> if candidate \<noteq> new_head \<and> \<not> is_zero_oid candidate then Some candidate else None
      | None \<Rightarrow> None)"

definition merge_option_takes_value :: "str \<Rightarrow> bool" where
  "merge_option_takes_value arg =
     (arg \<in> set [''-m'', ''--message'', ''-s'', ''--strategy'', ''-X'', ''--strategy-option''])"

fun merge_source_args :: "str list \<Rightarrow> str list" where
  "merge_source_args [] = []"
| "merge_source_args (arg # rest) =
     (if arg = ''--'' then filter (\<lambda>value. value \<noteq> []) rest
      else if merge_option_takes_value arg
      then (case rest of _ # rest' \<Rightarrow> merge_source_args rest' | [] \<Rightarrow> [])
      else if starts_with arg ''-'' then merge_source_args rest
      else arg # merge_source_args rest)"

definition oid_of_ref :: "(str \<rightharpoonup> str) \<Rightarrow> str \<Rightarrow> str option" where
  "oid_of_ref refs reference =
     (case refs reference of Some oid \<Rightarrow> if valid_non_zero_oid oid then Some oid else None | None \<Rightarrow> None)"

definition resolve_revision_from_ref_state :: "str \<Rightarrow> (str \<rightharpoonup> str) \<Rightarrow> str option" where
  "resolve_revision_from_ref_state revision refs =
     (if valid_non_zero_oid revision then Some revision
      else if revision = ''HEAD'' then oid_of_ref refs ''HEAD''
      else if starts_with revision ''refs/'' then oid_of_ref refs revision
      else case oid_of_ref refs (''refs/heads/'' @ revision) of
             Some oid \<Rightarrow> Some oid
           | None \<Rightarrow> (case oid_of_ref refs (''refs/remotes/'' @ revision) of
                         Some oid \<Rightarrow> Some oid
                       | None \<Rightarrow> oid_of_ref refs (''refs/tags/'' @ revision)))"

definition squash_source_head :: "str list \<Rightarrow> (str \<rightharpoonup> str) \<Rightarrow> str option" where
  "squash_source_head args refs =
     (case merge_source_args args of source # _ \<Rightarrow> resolve_revision_from_ref_state source refs | [] \<Rightarrow> None)"

definition valid_ref_transition :: "RefChange \<Rightarrow> (str \<times> str) option" where
  "valid_ref_transition change =
     (let old = trim (rc_old change); new = trim (rc_new change)
      in if old = new \<or> \<not> valid_non_zero_oid old \<or> \<not> valid_non_zero_oid new then None else Some (old, new))"

definition first_ref_transition_for :: "NormalizedCommand \<Rightarrow> str \<Rightarrow> (str \<times> str) option" where
  "first_ref_transition_for cmd reference =
     (case List.map_filter valid_ref_transition
             (filter (\<lambda>change. rc_reference change = reference) (nc_ref_changes cmd)) of
        t # _ \<Rightarrow> Some t | [] \<Rightarrow> None)"

definition current_head_from_ref_data :: "NormalizedCommand \<Rightarrow> (str \<rightharpoonup> str) \<Rightarrow> str option" where
  "current_head_from_ref_data cmd refs =
     (let head = (case find (\<lambda>change. rc_reference change = ''HEAD'') (rev (nc_ref_changes cmd)) of
                    Some change \<Rightarrow> Some (rc_new change)
                  | None \<Rightarrow> refs ''HEAD'')
      in case head of Some h \<Rightarrow> if valid_non_zero_oid h then Some h else None | None \<Rightarrow> None)"

definition change_span :: "RefChange list \<Rightarrow> (str \<times> str) option" where
  "change_span changes =
     (if changes = [] then None
      else let old_head = trim (rc_old (hd changes)); new_head = trim (rc_new (last changes))
           in if old_head = [] \<or> new_head = [] \<or> old_head = new_head then None else Some (old_head, new_head))"

definition moves_ref :: "RefChange \<Rightarrow> bool" where
  "moves_ref change = (trim (rc_new change) \<noteq> [] \<and> trim (rc_old change) \<noteq> trim (rc_new change))"

definition single_branch_ref_change :: "NormalizedCommand \<Rightarrow> (str \<times> str) option" where
  "single_branch_ref_change cmd =
     (let branch_refs =
            remdups_adj (sort_key rc_reference
              (filter (\<lambda>change. starts_with (rc_reference change) ''refs/heads/'' \<and> moves_ref change)
                 (nc_ref_changes cmd)))
      in case branch_refs of
           [] \<Rightarrow> None
         | first # _ \<Rightarrow>
             if list_ex (\<lambda>change. rc_reference change \<noteq> rc_reference first) branch_refs then None
             else change_span branch_refs)"

definition amend_head_change :: "NormalizedCommand \<Rightarrow> (str \<times> str) option" where
  "amend_head_change cmd =
     (case first_ref_transition_for cmd ''HEAD'' of
        Some change \<Rightarrow> Some change
      | None \<Rightarrow> single_branch_ref_change cmd)"

definition head_change :: "NormalizedCommand \<Rightarrow> (str \<times> str) option" where
  "head_change cmd =
     (case change_span (filter (\<lambda>change. rc_reference change = ''HEAD'' \<and> moves_ref change) (nc_ref_changes cmd)) of
        Some span \<Rightarrow> Some span
      | None \<Rightarrow> single_branch_ref_change cmd)"

definition cherry_pick_new_commits :: "NormalizedCommand \<Rightarrow> str list" where
  "cherry_pick_new_commits cmd =
     map snd (List.map_filter valid_ref_transition
       (filter (\<lambda>change. rc_reference change = ''HEAD'') (nc_ref_changes cmd)))"

definition inferred_rebase_branch_change :: "NormalizedCommand \<Rightarrow> (str \<times> str) option" where
  "inferred_rebase_branch_change cmd =
     (case filter (\<lambda>change. starts_with (rc_reference change) ''refs/heads/'' \<and> trim (rc_old change) \<noteq> [] \<and>
                            moves_ref change) (nc_ref_changes cmd) of
        [change] \<Rightarrow> Some (trim (rc_old change), trim (rc_new change))
      | _ \<Rightarrow> None)"

definition explicit_rebase_branch_change :: "NormalizedCommand \<Rightarrow> (str \<times> str) option" where
  "explicit_rebase_branch_change cmd =
     (case explicit_rebase_branch_arg (command_args cmd) of
        None \<Rightarrow> None
      | Some branch \<Rightarrow>
          (let branch_ref = (if starts_with branch ''refs/'' then branch else ''refs/heads/'' @ branch)
           in map_option (\<lambda>change. (trim (rc_old change), trim (rc_new change)))
                (find (\<lambda>change. rc_reference change = branch_ref \<and> trim (rc_old change) \<noteq> [] \<and> moves_ref change)
                   (nc_ref_changes cmd))))"

definition rebase_change :: "NormalizedCommand \<Rightarrow> (str \<times> str) option" where
  "rebase_change cmd =
     (case explicit_rebase_branch_change cmd of
        Some span \<Rightarrow> Some span
      | None \<Rightarrow>
          (case inferred_rebase_branch_change cmd of
             Some span \<Rightarrow> Some span
           | None \<Rightarrow>
               (case head_change cmd of
                  Some (old_head, new_head) \<Rightarrow> if old_head \<noteq> new_head then Some (old_head, new_head) else None
                | None \<Rightarrow> None)))"

definition infer_reset_kind :: "str list \<Rightarrow> ResetKind" where
  "infer_reset_kind args =
     (if ''--soft'' \<in> set args then Soft
      else if ''--mixed'' \<in> set args then Mixed
      else if ''--hard'' \<in> set args then Hard
      else if ''--merge'' \<in> set args then ResetMerge
      else if ''--keep'' \<in> set args then Keep
      else Mixed)"

definition or_empty :: "str option \<Rightarrow> str" where
  "or_empty o' = (case o' of Some s \<Rightarrow> s | None \<Rightarrow> [])"

definition commit_events :: "NormalizedCommand \<Rightarrow> str list \<Rightarrow> SemanticEvent list" where
  "commit_events cmd args =
     (if ''--amend'' \<in> set args
      then (case amend_head_change cmd of
              Some (old_head, new_head) \<Rightarrow> [CommitAmended old_head new_head] | None \<Rightarrow> [])
      else (case head_change cmd of
              Some (old_head, new_head) \<Rightarrow> [CommitCreated (sanitize_base (Some old_head) new_head) new_head]
            | None \<Rightarrow> []))"

definition rebase_events :: "NormalizedCommand \<Rightarrow> str list \<Rightarrow> (str \<rightharpoonup> str) \<Rightarrow> SemanticEvent list" where
  "rebase_events cmd args refs =
     (if ''--abort'' \<in> set args then [RebaseAbort (or_empty (current_head_from_ref_data cmd refs))]
      else case rebase_change cmd of
             Some (old_head, new_head) \<Rightarrow>
               [RebaseComplete old_head new_head (''-i'' \<in> set args \<or> ''--interactive'' \<in> set args)]
           | None \<Rightarrow> [])"

definition cherry_pick_events :: "NormalizedCommand \<Rightarrow> str list \<Rightarrow> (str \<rightharpoonup> str) \<Rightarrow> SemanticEvent list" where
  "cherry_pick_events cmd args refs =
     (if ''--abort'' \<in> set args then [CherryPickAbort (or_empty (current_head_from_ref_data cmd refs))]
      else if ''--no-commit'' \<in> set args \<or> ''-n'' \<in> set args
      then [CherryPickNoCommit (nc_cherry_pick_source_oids cmd) (or_empty (current_head_from_ref_data cmd refs))]
      else case head_change cmd of
             Some (old_head, new_head) \<Rightarrow>
               [CherryPickComplete old_head new_head (nc_cherry_pick_source_oids cmd) (cherry_pick_new_commits cmd)]
           | None \<Rightarrow> [])"

definition merge_events :: "NormalizedCommand \<Rightarrow> str list \<Rightarrow> (str \<rightharpoonup> str) \<Rightarrow> SemanticEvent list" where
  "merge_events cmd args refs =
     (if ''--squash'' \<in> set args
      then (case (squash_source_head args refs, current_head_from_ref_data cmd refs) of
              (Some source_head, Some onto) \<Rightarrow> [MergeSquash source_head onto] | _ \<Rightarrow> [])
      else (case head_change cmd of
              Some (old_head, new_head) \<Rightarrow> [RefUpdated ''HEAD'' old_head new_head] | None \<Rightarrow> []))"

definition update_ref_events :: "NormalizedCommand \<Rightarrow> SemanticEvent list" where
  "update_ref_events cmd =
     map ref_updated (filter (\<lambda>change.
       (rc_reference change = ''HEAD'' \<or> starts_with (rc_reference change) ''refs/heads/'') \<and>
       trim (rc_old change) \<noteq> trim (rc_new change)) (nc_ref_changes cmd))"

definition history_analyze :: "NormalizedCommand \<Rightarrow> (str \<rightharpoonup> str) \<Rightarrow> analysis_outcome" where
  "history_analyze cmd refs =
     (let name = (case nc_primary_command cmd of Some c \<Rightarrow> c | None \<Rightarrow> []);
          args = command_args cmd;
          result = (\<lambda>events. Inr \<lparr>ar_class = HistoryRewrite, ar_events = or_opaque events,
                                  ar_confidence = confidence_of cmd\<rparr>)
      in if name = ''commit'' \<or> name = ''revert'' then result (commit_events cmd args)
         else if name = ''reset''
         then result (case head_change cmd of
                        Some (old_head, new_head) \<Rightarrow> [Reset (infer_reset_kind args) old_head new_head] | None \<Rightarrow> [])
         else if name = ''rebase'' then result (rebase_events cmd args refs)
         else if name = ''cherry-pick'' then result (cherry_pick_events cmd args refs)
         else if name = ''merge'' then result (merge_events cmd args refs)
         else if name = ''update-ref'' then result (update_ref_events cmd)
         else Inl (Unreachable name))"

section \<open>The registry\<close>

datatype Analyzer = GenericAnalyzer | HistoryAnalyzer | WorkspaceAnalyzer | TransportAnalyzer

fun run_analyzer :: "Analyzer \<Rightarrow> NormalizedCommand \<Rightarrow> (str \<rightharpoonup> str) \<Rightarrow> analysis_outcome" where
  "run_analyzer GenericAnalyzer cmd refs = Inr (generic_analyze cmd)"
| "run_analyzer HistoryAnalyzer cmd refs = history_analyze cmd refs"
| "run_analyzer WorkspaceAnalyzer cmd refs = workspace_analyze cmd refs"
| "run_analyzer TransportAnalyzer cmd refs = transport_analyze cmd"

definition register_command :: "Analyzer \<Rightarrow> str \<Rightarrow> (str \<rightharpoonup> Analyzer) \<Rightarrow> (str \<rightharpoonup> Analyzer)" where
  "register_command analyzer command by_command = by_command(to_ascii_lowercase command \<mapsto> analyzer)"

definition history_commands :: "str list" where
  "history_commands = [''commit'', ''reset'', ''rebase'', ''cherry-pick'', ''merge'', ''revert'', ''update-ref'']"

definition workspace_commands :: "str list" where
  "workspace_commands = [''stash'', ''checkout'', ''switch'']"

definition transport_commands :: "str list" where
  "transport_commands = [''fetch'', ''pull'', ''push'', ''clone'']"

definition AnalyzerRegistry_new :: "str \<rightharpoonup> Analyzer" where
  "AnalyzerRegistry_new =
     fold (register_command TransportAnalyzer) transport_commands
       (fold (register_command WorkspaceAnalyzer) workspace_commands
         (fold (register_command HistoryAnalyzer) history_commands Map.empty))"

definition registry_analyze ::
  "(str \<rightharpoonup> Analyzer) \<Rightarrow> NormalizedCommand \<Rightarrow> (str \<rightharpoonup> str) \<Rightarrow> analysis_outcome" where
  "registry_analyze by_command cmd refs =
     (case nc_primary_command cmd of
        Some command \<Rightarrow>
          (case by_command (to_ascii_lowercase command) of
             Some analyzer \<Rightarrow> run_analyzer analyzer cmd refs
           | None \<Rightarrow> run_analyzer GenericAnalyzer cmd refs)
      | None \<Rightarrow> run_analyzer GenericAnalyzer cmd refs)"

section \<open>Lemmas\<close>

definition routed_commands :: "str list" where
  "routed_commands = history_commands @ workspace_commands @ transport_commands"

lemma fold_register:
  "fold (register_command a) cs m = (\<lambda>k. if k \<in> set (map to_ascii_lowercase cs) then Some a else m k)"
  by (induction cs arbitrary: m) (auto simp: register_command_def)

lemma routed_lowercase:
  "map to_ascii_lowercase history_commands = history_commands"
  "map to_ascii_lowercase workspace_commands = workspace_commands"
  "map to_ascii_lowercase transport_commands = transport_commands"
  by code_simp+

lemma lowercase_fixed: "name \<in> set routed_commands \<Longrightarrow> to_ascii_lowercase name = name"
  using routed_lowercase by (auto simp: routed_commands_def map_idI dest: map_eq_conv [THEN iffD1, of _ _ id, simplified, rule_format])

lemma registry_lookup:
  "AnalyzerRegistry_new k =
     (if k \<in> set transport_commands then Some TransportAnalyzer
      else if k \<in> set workspace_commands then Some WorkspaceAnalyzer
      else if k \<in> set history_commands then Some HistoryAnalyzer else None)"
  by (simp add: AnalyzerRegistry_new_def fold_register routed_lowercase del: set_map)

text \<open>Every analyzer handles exactly the names it is written for.\<close>

lemma analyzer_names:
  "nc_primary_command cmd = Some name \<Longrightarrow>
     (\<exists>r. history_analyze cmd refs = Inr r) = (name \<in> set history_commands)"
  "nc_primary_command cmd = Some name \<Longrightarrow>
     (\<exists>r. workspace_analyze cmd refs = Inr r) = (name \<in> set workspace_commands)"
  "nc_primary_command cmd = Some name \<Longrightarrow>
     (\<exists>r. transport_analyze cmd = Inr r) = (name \<in> set transport_commands \<or> name = ''ls-remote'')"
  by (simp_all add: history_analyze_def workspace_analyze_def transport_analyze_def Let_def
      history_commands_def workspace_commands_def transport_commands_def disj_ac)

lemma analyzer_panics:
  "nc_primary_command cmd = Some name \<Longrightarrow> history_analyze cmd refs = Inl p \<Longrightarrow> p = Unreachable name"
  "nc_primary_command cmd = Some name \<Longrightarrow> workspace_analyze cmd refs = Inl p \<Longrightarrow> p = Unreachable name"
  "nc_primary_command cmd = Some name \<Longrightarrow> transport_analyze cmd = Inl p \<Longrightarrow> p = Unreachable name"
  by (simp_all add: history_analyze_def workspace_analyze_def transport_analyze_def Let_def split: if_splits)

section \<open>Properties\<close>

text \<open>The analysis of a command panics exactly when its name differs from one of the routed
  names only in the case of its letters: the registry looks names up in lower case, the analyzers
  match them as they are. Every other command is analysed.\<close>

theorem analysis_panics_iff:
  "registry_analyze AnalyzerRegistry_new cmd refs = Inl (Unreachable name) \<longleftrightarrow>
     nc_primary_command cmd = Some name \<and> name \<notin> set routed_commands \<and>
     to_ascii_lowercase name \<in> set routed_commands"
proof (cases "nc_primary_command cmd")
  case (Some c)
  define out where "out = registry_analyze AnalyzerRegistry_new cmd refs"
  have "(\<exists>p. out = Inl p) \<longleftrightarrow> c \<notin> set routed_commands \<and> to_ascii_lowercase c \<in> set routed_commands"
  proof (cases "c \<in> set routed_commands")
    case True
    then have "\<exists>r. out = Inr r"
      using Some lowercase_fixed [OF True] analyzer_names [OF Some]
      by (auto simp: out_def registry_analyze_def registry_lookup routed_commands_def)
    with True show ?thesis by auto
  next
    case False
    moreover have "c \<noteq> ''ls-remote''" if "to_ascii_lowercase c \<in> set routed_commands"
    proof
      assume "c = ''ls-remote''"
      moreover have "to_ascii_lowercase ''ls-remote'' \<notin> set routed_commands" by code_simp
      ultimately show False using that by simp
    qed
    ultimately show ?thesis
      using Some analyzer_names [OF Some]
      by (cases out) (auto simp: out_def registry_analyze_def registry_lookup routed_commands_def split: if_splits)
  qed
  moreover have "p = Unreachable c" if "out = Inl p" for p
    using that Some analyzer_panics [OF Some]
    by (auto simp: out_def registry_analyze_def split: option.splits elim: run_analyzer.elims)
  ultimately show ?thesis using Some unfolding out_def by auto
qed (simp add: registry_analyze_def)

end
