(* ===== verification/Family_Reducer.thy ===== *)
theory Family_Reducer
  imports Command_Analyzers
begin

text \<open>
  The reducer of the daemon (\<open>src/daemon/reducer.rs\<close>): how a command changes the state of its
  repository family, and how watermarks are merged into it (\<open>src/daemon/family_actor.rs\<close>).
  Canonicalising a path asks the file system, so it is an argument.
\<close>

section \<open>References and worktrees\<close>

definition saturating_inc :: "u64 \<Rightarrow> u64" where
  "saturating_inc n = (if n = - 1 then n else n + 1)"

definition apply_ref_change :: "RefChange \<Rightarrow> (str \<rightharpoonup> str) \<Rightarrow> (str \<rightharpoonup> str)" where
  "apply_ref_change change refs =
     (if trim (rc_new change) = [] \<or> is_zero_oid (rc_new change) then refs(rc_reference change := None)
      else refs(rc_reference change \<mapsto> rc_new change))"

definition apply_ref_changes :: "FamilyState \<Rightarrow> NormalizedCommand \<Rightarrow> FamilyState" where
  "apply_ref_changes state cmd = state\<lparr>fs_refs := fold apply_ref_change (nc_ref_changes cmd) (fs_refs state)\<rparr>"

definition unique_branch_for_head_change :: "NormalizedCommand \<Rightarrow> RefChange \<Rightarrow> str option" where
  "unique_branch_for_head_change cmd head_rc =
     (case filter (\<lambda>change. starts_with (rc_reference change) ''refs/heads/'' \<and>
                            rc_old change = rc_old head_rc \<and> rc_new change = rc_new head_rc)
             (nc_ref_changes cmd) of
        [change] \<Rightarrow> Some (rc_reference change)
      | _ \<Rightarrow> None)"

definition reducer_command_args :: "NormalizedCommand \<Rightarrow> str list" where
  "reducer_command_args cmd =
     (if nc_invoked_args cmd \<noteq> []
      then (case nc_invoked_command cmd of
              Some c \<Rightarrow> c
            | None \<Rightarrow> (case nc_primary_command cmd of Some c \<Rightarrow> c | None \<Rightarrow> [])) # nc_invoked_args cmd
      else dropWhile (\<lambda>arg. arg \<noteq> (case nc_primary_command cmd of Some c \<Rightarrow> c | None \<Rightarrow> [])) (nc_raw_argv cmd))"

definition first_of :: "str list \<Rightarrow> str option" where
  "first_of args = (case args of arg # _ \<Rightarrow> Some arg | [] \<Rightarrow> None)"

fun checkout_branch_loop :: "str list \<Rightarrow> str option" where
  "checkout_branch_loop [] = None"
| "checkout_branch_loop (arg # rest) =
     (if arg = ''-b'' \<or> arg = ''-B'' then first_of rest
      else if starts_with arg ''-b'' \<and> length arg > 2 then Some (drop 2 arg)
      else if starts_with arg ''-B'' \<and> length arg > 2 then Some (drop 2 arg)
      else if arg = ''--'' then None
      else checkout_branch_loop rest)"

definition drop_command :: "str \<Rightarrow> str list \<Rightarrow> str list" where
  "drop_command name args = (if first_of args = Some name then tl args else args)"

definition checkout_created_branch_target :: "str list \<Rightarrow> str option" where
  "checkout_created_branch_target args = checkout_branch_loop (drop_command ''checkout'' args)"

fun switch_branch_loop :: "str list \<Rightarrow> str option" where
  "switch_branch_loop [] = None"
| "switch_branch_loop (arg # rest) =
     (if arg \<in> set [''-c'', ''-C'', ''--create'', ''--force-create''] then first_of rest
      else if starts_with arg ''--create='' then Some (drop 9 arg)
      else if starts_with arg ''--force-create='' then Some (drop 15 arg)
      else if starts_with arg ''-c'' \<and> length arg > 2 then Some (drop 2 arg)
      else if starts_with arg ''-C'' \<and> length arg > 2 then Some (drop 2 arg)
      else if arg \<in> set [''--detach'', ''-d'', ''--''] then None
      else if \<not> starts_with arg ''-'' then Some arg
      else switch_branch_loop rest)"

definition switch_branch_target :: "str list \<Rightarrow> str option" where
  "switch_branch_target args = switch_branch_loop (drop_command ''switch'' args)"

definition checkout_or_switch_branch_target :: "NormalizedCommand \<Rightarrow> str option" where
  "checkout_or_switch_branch_target cmd =
     (let args = reducer_command_args cmd;
          target = (case nc_primary_command cmd of
                      Some command \<Rightarrow>
                        if command = ''checkout'' then checkout_created_branch_target args
                        else if command = ''switch'' then switch_branch_target args
                        else None
                    | None \<Rightarrow> None)
      in map_option (\<lambda>branch. if starts_with branch ''refs/'' then branch else ''refs/heads/'' @ branch) target)"

definition apply_worktree_state :: "(str \<Rightarrow> str) \<Rightarrow> FamilyState \<Rightarrow> NormalizedCommand \<Rightarrow> FamilyState" where
  "apply_worktree_state canonicalize_path state cmd =
     (case nc_worktree cmd of
        None \<Rightarrow> state
      | Some worktree \<Rightarrow>
          (let key = canonicalize_path worktree;
               previous = fs_worktrees state key;
               previous_head = (case previous of Some w \<Rightarrow> wt_head w | None \<Rightarrow> None);
               (head, branch, detached) =
                 (case find (\<lambda>change. rc_reference change = ''HEAD'') (rev (nc_ref_changes cmd)) of
                    Some head_rc \<Rightarrow>
                      (let branch = unique_branch_for_head_change cmd head_rc
                       in (Some (rc_new head_rc), branch, branch = None))
                  | None \<Rightarrow>
                      (case checkout_or_switch_branch_target cmd of
                         Some branch \<Rightarrow> (previous_head, Some branch, False)
                       | None \<Rightarrow>
                           (previous_head,
                            (case previous of Some w \<Rightarrow> wt_branch w | None \<Rightarrow> None),
                            (case previous of Some w \<Rightarrow> wt_detached w | None \<Rightarrow> False))))
           in state\<lparr>fs_worktrees := (fs_worktrees state)(key \<mapsto>
                \<lparr>wt_head = head, wt_branch = branch, wt_detached = detached,
                 wt_last_updated_ns = nc_finished_at_ns cmd\<rparr>)\<rparr>))"

section \<open>Commands and checkpoints\<close>

definition reduce_family_command_with_ref_snapshot ::
  "(str \<Rightarrow> str) \<Rightarrow> FamilyState \<Rightarrow> NormalizedCommand \<Rightarrow> (str \<rightharpoonup> Analyzer) \<Rightarrow> (str \<rightharpoonup> str) \<Rightarrow>
   analysis_panic + FamilyState \<times> AppliedCommand" where
  "reduce_family_command_with_ref_snapshot canonicalize_path state cmd analyzers command_start_refs =
     (case registry_analyze analyzers cmd (fs_refs state ++ command_start_refs) of
        Inl panic \<Rightarrow> Inl panic
      | Inr analysis \<Rightarrow>
          (let state = apply_worktree_state canonicalize_path (apply_ref_changes state cmd) cmd;
               state = state\<lparr>fs_applied_seq := saturating_inc (fs_applied_seq state)\<rparr>
           in Inr (state, \<lparr>ac_seq = fs_applied_seq state, ac_command = cmd, ac_analysis = analysis\<rparr>)))"

definition reduce_family_command ::
  "(str \<Rightarrow> str) \<Rightarrow> FamilyState \<Rightarrow> NormalizedCommand \<Rightarrow> (str \<rightharpoonup> Analyzer) \<Rightarrow> analysis_panic + FamilyState \<times> AppliedCommand" where
  "reduce_family_command canonicalize_path state cmd analyzers =
     reduce_family_command_with_ref_snapshot canonicalize_path state cmd analyzers Map.empty"

definition reduce_global_command ::
  "GlobalState \<Rightarrow> NormalizedCommand \<Rightarrow> (str \<rightharpoonup> Analyzer) \<Rightarrow> analysis_panic + GlobalState \<times> AppliedCommand" where
  "reduce_global_command state cmd analyzers =
     (case registry_analyze analyzers cmd Map.empty of
        Inl panic \<Rightarrow> Inl panic
      | Inr analysis \<Rightarrow>
          (let state = state\<lparr>gs_applied_seq := saturating_inc (gs_applied_seq state)\<rparr>
           in Inr (state, \<lparr>ac_seq = gs_applied_seq state, ac_command = cmd, ac_analysis = analysis\<rparr>)))"

definition reduce_checkpoint :: "FamilyState \<Rightarrow> FamilyState" where
  "reduce_checkpoint state = state\<lparr>fs_applied_seq := saturating_inc (fs_applied_seq state)\<rparr>"

section \<open>Watermarks\<close>

text \<open>An update is the list of the entries of the two hash maps, in whatever order they are iterated.\<close>

definition raise_file_watermark :: "str \<times> nat \<Rightarrow> (str \<rightharpoonup> nat) \<Rightarrow> (str \<rightharpoonup> nat)" where
  "raise_file_watermark = (\<lambda>(path, mtime_ns) per_file.
     let entry = (case per_file path of Some t \<Rightarrow> t | None \<Rightarrow> 0)
     in per_file(path \<mapsto> (if entry < mtime_ns then mtime_ns else entry)))"

definition raise_worktree_watermark :: "str \<times> nat \<Rightarrow> WatermarkState \<Rightarrow> WatermarkState" where
  "raise_worktree_watermark = (\<lambda>(worktree, ts) wm.
     let entry = (case wm_per_worktree wm worktree of Some t \<Rightarrow> t | None \<Rightarrow> 0)
     in if entry < ts
        then \<lparr>wm_per_file = (\<lambda>f. case wm_per_file wm f of Some t \<Rightarrow> if ts < t then Some t else None | None \<Rightarrow> None),
              wm_per_worktree = (wm_per_worktree wm)(worktree \<mapsto> ts)\<rparr>
        else wm\<lparr>wm_per_worktree := (wm_per_worktree wm)(worktree \<mapsto> entry)\<rparr>)"

definition update_watermarks :: "(str \<times> nat) list \<Rightarrow> (str \<times> nat) list \<Rightarrow> WatermarkState \<Rightarrow> WatermarkState" where
  "update_watermarks files worktrees wm =
     fold raise_worktree_watermark worktrees (wm\<lparr>wm_per_file := fold raise_file_watermark files (wm_per_file wm)\<rparr>)"

section \<open>Lemmas: references\<close>

text \<open>No reference of a family is recorded with a blank or a zero object.\<close>

definition live_refs :: "(str \<rightharpoonup> str) \<Rightarrow> bool" where
  "live_refs refs \<longleftrightarrow> (\<forall>oid \<in> ran refs. trim oid \<noteq> [] \<and> \<not> is_zero_oid oid)"

lemma live_refs_apply: "live_refs refs \<Longrightarrow> live_refs (apply_ref_change change refs)"
  by (auto simp: live_refs_def apply_ref_change_def ran_def split: if_splits)

lemma live_refs_fold: "live_refs refs \<Longrightarrow> live_refs (fold apply_ref_change changes refs)"
  by (induction changes arbitrary: refs) (simp_all add: live_refs_apply)

text \<open>The last change of a reference decides.\<close>

definition last_change :: "str \<Rightarrow> RefChange list \<Rightarrow> RefChange option" where
  "last_change reference changes = find (\<lambda>change. rc_reference change = reference) (rev changes)"

definition live_oid :: "str \<Rightarrow> str option" where
  "live_oid oid = (if trim oid = [] \<or> is_zero_oid oid then None else Some oid)"

lemma find_append_cases: "find P (xs @ ys) = (case find P xs of Some x \<Rightarrow> Some x | None \<Rightarrow> find P ys)"
  by (induction xs) auto

lemma fold_ref_changes:
  "fold apply_ref_change changes refs reference =
     (case last_change reference changes of Some change \<Rightarrow> live_oid (rc_new change) | None \<Rightarrow> refs reference)"
proof (induction changes arbitrary: refs)
  case (Cons change changes)
  then show ?case
    by (auto simp: last_change_def find_append_cases apply_ref_change_def live_oid_def split: option.splits)
qed (simp add: last_change_def)

section \<open>Lemmas: worktrees\<close>

text \<open>A switch that failed, and so changed no reference, is recorded like one that succeeded.\<close>

lemma failed_switch_is_recorded:
  assumes "nc_worktree cmd = Some w" "nc_ref_changes cmd = []" "nc_exit_code cmd \<noteq> 0"
    and "checkout_or_switch_branch_target cmd = Some branch"
  shows "\<exists>wt. fs_worktrees (apply_worktree_state canon state cmd) (canon w) = Some wt \<and> wt_branch wt = Some branch"
  using assms by (simp add: apply_worktree_state_def Let_def)

section \<open>Lemmas: watermarks\<close>

definition raised :: "(str \<rightharpoonup> nat) \<Rightarrow> (str \<times> nat) list \<Rightarrow> str \<Rightarrow> nat option" where
  "raised m updates k =
     (case map_of updates k of
        Some t \<Rightarrow> Some (max t (case m k of Some t' \<Rightarrow> t' | None \<Rightarrow> 0))
      | None \<Rightarrow> m k)"

lemma raised_Cons:
  "map_of ws w = None \<Longrightarrow>
     raised (m(w \<mapsto> max ts (case m w of Some t \<Rightarrow> t | None \<Rightarrow> 0))) ws = raised m ((w, ts) # ws)"
  by (simp add: raised_def fun_eq_iff split: option.split)

lemma fold_raise_file:
  "distinct (map fst files) \<Longrightarrow> fold raise_file_watermark files m = raised m files"
proof (induction files arbitrary: m)
  case (Cons f files)
  obtain p t where f: "f = (p, t)" by (cases f)
  have "raise_file_watermark f m = m(p \<mapsto> max t (case m p of Some t \<Rightarrow> t | None \<Rightarrow> 0))"
    by (simp add: raise_file_watermark_def f Let_def max_def)
  moreover have "map_of files p = None" using Cons.prems f by (auto simp: map_of_eq_None_iff)
  ultimately show ?case using Cons f raised_Cons [of files p m t] by simp
qed (simp add: raised_def fun_eq_iff)

text \<open>The updates of worktrees that raise their watermark, and the files they leave.\<close>

definition raising :: "(str \<rightharpoonup> nat) \<Rightarrow> (str \<times> nat) list \<Rightarrow> nat set" where
  "raising m updates = {ts. \<exists>w. (w, ts) \<in> set updates \<and> (case m w of Some t \<Rightarrow> t | None \<Rightarrow> 0) < ts}"

definition newer_than :: "nat set \<Rightarrow> (str \<rightharpoonup> nat) \<Rightarrow> (str \<rightharpoonup> nat)" where
  "newer_than bounds m = (\<lambda>f. case m f of Some t \<Rightarrow> if \<forall>b \<in> bounds. b < t then Some t else None | None \<Rightarrow> None)"

lemma newer_than_simps [simp]:
  "newer_than {} m = m" "newer_than a (newer_than b m) = newer_than (a \<union> b) m"
  by (auto simp: newer_than_def fun_eq_iff split: option.splits)

lemma raising_Cons:
  "raising m ((w, ts) # ws) = (if (case m w of Some t \<Rightarrow> t | None \<Rightarrow> 0) < ts then {ts} else {}) \<union> raising m ws"
  by (auto simp: raising_def)

lemma raising_upd: "w \<notin> fst ` set ws \<Longrightarrow> raising (m(w := v)) ws = raising m ws"
  unfolding raising_def by (rule Collect_cong) (force intro!: ex_cong1)

lemma fold_raise_worktree:
  "distinct (map fst ws) \<Longrightarrow>
     fold raise_worktree_watermark ws wm =
       \<lparr>wm_per_file = newer_than (raising (wm_per_worktree wm) ws) (wm_per_file wm),
        wm_per_worktree = raised (wm_per_worktree wm) ws\<rparr>"
proof (induction ws arbitrary: wm)
  case Nil
  then show ?case by (simp add: raising_def raised_def)
next
  case (Cons x ws)
  obtain w ts where x: "x = (w, ts)" by (cases x)
  define entry where "entry = (case wm_per_worktree wm w of Some t \<Rightarrow> t | None \<Rightarrow> 0)"
  define wm' where "wm' = raise_worktree_watermark x wm"
  have fresh: "map_of ws w = None" "w \<notin> fst ` set ws" using Cons.prems x by (auto simp: map_of_eq_None_iff)
  have wt: "wm_per_worktree wm' = (wm_per_worktree wm)(w \<mapsto> max ts entry)"
    by (auto simp: wm'_def raise_worktree_watermark_def x entry_def Let_def)
  have files: "wm_per_file wm' = newer_than (if entry < ts then {ts} else {}) (wm_per_file wm)"
    by (auto simp: wm'_def raise_worktree_watermark_def x entry_def Let_def newer_than_def fun_eq_iff split: option.splits)
  have "raising (wm_per_worktree wm') ws \<union> (if entry < ts then {ts} else {}) = raising (wm_per_worktree wm) (x # ws)"
    unfolding wt x raising_Cons raising_upd [OF fresh(2)] entry_def by (rule Un_commute)
  moreover have "raised (wm_per_worktree wm') ws = raised (wm_per_worktree wm) (x # ws)"
    unfolding wt x entry_def using fresh(1) by (rule raised_Cons)
  ultimately show ?case
    using Cons.IH [of wm'] Cons.prems by (simp add: wm'_def [symmetric] files)
qed

section \<open>Properties\<close>

text \<open>C25. An update of the watermarks raises the mark of every file and worktree it names to the
  larger of the old and the new mark, and drops the files whose mark is not above every worktree mark
  that was raised; the result does not depend on the order in which the hash maps are iterated.\<close>

theorem update_watermarks_exact:
  assumes "distinct (map fst files)" "distinct (map fst worktrees)"
  shows "update_watermarks files worktrees wm =
    \<lparr>wm_per_file = newer_than (raising (wm_per_worktree wm) worktrees) (raised (wm_per_file wm) files),
     wm_per_worktree = raised (wm_per_worktree wm) worktrees\<rparr>"
  by (simp add: update_watermarks_def fold_raise_file [OF assms(1)] fold_raise_worktree [OF assms(2)])

theorem update_watermarks_exact_witness:
  "wm_per_file (update_watermarks [(''a'', 7), (''b'', 5)] [(''w'', 5)]
      \<lparr>wm_per_file = [''a'' \<mapsto> 6, ''c'' \<mapsto> 3], wm_per_worktree = [''w'' \<mapsto> 4]\<rparr>) = [''a'' \<mapsto> 7]"
  by (subst update_watermarks_exact) (auto simp: newer_than_def raising_def raised_def fun_eq_iff)

end
