(* ===== verification/Family_Actors.thy ===== *)
theory Family_Actors
  imports Family_Reducer
begin

text \<open>
  The actors of the daemon (\<open>src/daemon/family_actor.rs\<close>, \<open>global_actor.rs\<close>, \<open>coordinator.rs\<close>): one
  task per repository family takes messages from a bounded channel, one after the other, and the
  coordinator creates the tasks and sends. A step of the system is one send or one message handled by
  one task; steps of different families interleave freely. What the reference cursor
  (\<open>src/daemon/ref_cursor.rs\<close>) reads from the repository is an argument, \<open>enrich\<close>, with a state of its own.
\<close>

section \<open>The loop of a task\<close>

text \<open>\<open>while let Some(msg) = rx.recv().await\<close>: the state after the messages, and the replies.\<close>

fun recv_loop :: "('a \<Rightarrow> 'm \<Rightarrow> 'a \<times> 'r) \<Rightarrow> ('a \<Rightarrow> bool) \<Rightarrow> 'a \<Rightarrow> 'm list \<Rightarrow> 'a \<times> 'r list" where
  "recv_loop handler running actor [] = (actor, [])"
| "recv_loop handler running actor (msg # msgs) =
     (if running actor
      then let (actor', reply) = handler actor msg;
               (actor'', replies) = recv_loop handler running actor' msgs
           in (actor'', reply # replies)
      else (actor, []))"

section \<open>The family actor\<close>

datatype FamilyMsg =
  Apply NormalizedCommand
| ApplyCheckpoint
| Status
| GetWatermarks
| UpdateWatermarks "(str \<times> nat) list" "(str \<times> nat) list"
| Shutdown

datatype FamilyReply =
  Applied AppliedCommand
| ApplyFailed str
| Acknowledged ApplyAck
| StatusIs FamilyStatus
| WatermarksAre WatermarkState

type_synonym 'c enrich =
  "'c \<Rightarrow> NormalizedCommand \<Rightarrow> FamilyState \<Rightarrow> 'c \<times> (str + NormalizedCommand \<times> (str \<rightharpoonup> str))"

record 'c FamilyActor =
  fa_state :: FamilyState
  fa_cursor :: 'c
  fa_running :: bool

definition FamilyState_new :: "FamilyKey \<Rightarrow> FamilyState" where
  "FamilyState_new family_key =
     \<lparr>fs_family_key = family_key, fs_refs = Map.empty, fs_worktrees = Map.empty, fs_last_error = None,
      fs_applied_seq = 0, fs_watermarks = \<lparr>wm_per_file = Map.empty, wm_per_worktree = Map.empty\<rparr>\<rparr>"

definition spawn_family_actor :: "(FamilyKey \<Rightarrow> 'c) \<Rightarrow> FamilyKey \<Rightarrow> 'c FamilyActor" where
  "spawn_family_actor RefCursor_new family_key =
     \<lparr>fa_state = FamilyState_new family_key, fa_cursor = RefCursor_new family_key, fa_running = True\<rparr>"

text \<open>One message: the actor after it, and the reply. A panic of the analysis ends the task.\<close>

fun handle_msg ::
  "(str \<Rightarrow> str) \<Rightarrow> 'c enrich \<Rightarrow> 'c FamilyActor \<Rightarrow> FamilyMsg \<Rightarrow> 'c FamilyActor \<times> FamilyReply option" where
  "handle_msg canon enrich actor (Apply cmd) =
     (case enrich (fa_cursor actor) cmd (fa_state actor) of
        (cursor, Inl err) \<Rightarrow> (actor\<lparr>fa_cursor := cursor\<rparr>, Some (ApplyFailed err))
      | (cursor, Inr (cmd, command_start_refs)) \<Rightarrow>
          (case reduce_family_command_with_ref_snapshot canon (fa_state actor) cmd AnalyzerRegistry_new
                  command_start_refs of
             Inl panic \<Rightarrow> (actor\<lparr>fa_cursor := cursor, fa_running := False\<rparr>, None)
           | Inr (state, applied) \<Rightarrow>
               (actor\<lparr>fa_cursor := cursor, fa_state := state\<rparr>, Some (Applied applied))))"
| "handle_msg canon enrich actor ApplyCheckpoint =
     (let state = reduce_checkpoint (fa_state actor)
      in (actor\<lparr>fa_state := state\<rparr>, Some (Acknowledged \<lparr>aa_seq = fs_applied_seq state, aa_applied = True\<rparr>)))"
| "handle_msg canon enrich actor Status =
     (actor, Some (StatusIs \<lparr>st_family_key = fs_family_key (fa_state actor),
                            st_applied_seq = fs_applied_seq (fa_state actor),
                            st_last_error = fs_last_error (fa_state actor)\<rparr>))"
| "handle_msg canon enrich actor GetWatermarks = (actor, Some (WatermarksAre (fs_watermarks (fa_state actor))))"
| "handle_msg canon enrich actor (UpdateWatermarks files worktrees) =
     (actor\<lparr>fa_state := (fa_state actor)\<lparr>fs_watermarks :=
        update_watermarks files worktrees (fs_watermarks (fa_state actor))\<rparr>\<rparr>, None)"
| "handle_msg canon enrich actor Shutdown = (actor\<lparr>fa_running := False\<rparr>, None)"

text \<open>A task runs through a list of messages until it ends.\<close>

definition run_actor ::
  "(str \<Rightarrow> str) \<Rightarrow> 'c enrich \<Rightarrow> 'c FamilyActor \<Rightarrow> FamilyMsg list \<Rightarrow> 'c FamilyActor \<times> FamilyReply option list" where
  "run_actor canon enrich = recv_loop (handle_msg canon enrich) fa_running"

section \<open>The global actor\<close>

datatype GlobalMsg = GlobalApply NormalizedCommand | GlobalShutdown

record GlobalActor =
  ga_state :: GlobalState
  ga_running :: bool

definition spawn_global_actor :: GlobalActor where
  "spawn_global_actor = \<lparr>ga_state = \<lparr>gs_applied_seq = 0\<rparr>, ga_running = True\<rparr>"

fun handle_global_msg :: "GlobalActor \<Rightarrow> GlobalMsg \<Rightarrow> GlobalActor \<times> AppliedCommand option" where
  "handle_global_msg actor (GlobalApply cmd) =
     (case reduce_global_command (ga_state actor) cmd AnalyzerRegistry_new of
        Inl panic \<Rightarrow> (actor\<lparr>ga_running := False\<rparr>, None)
      | Inr (state, applied) \<Rightarrow> (actor\<lparr>ga_state := state\<rparr>, Some applied))"
| "handle_global_msg actor GlobalShutdown = (actor\<lparr>ga_running := False\<rparr>, None)"

definition run_global_actor :: "GlobalActor \<Rightarrow> GlobalMsg list \<Rightarrow> GlobalActor \<times> AppliedCommand option list" where
  "run_global_actor = recv_loop handle_global_msg ga_running"

section \<open>The coordinator\<close>

definition MAILBOX_CAPACITY :: nat where
  "MAILBOX_CAPACITY = 1024"

text \<open>The tasks, and the messages that wait in their channels.\<close>

record 'c Coordinator =
  co_global :: GlobalActor
  co_global_mailbox :: "GlobalMsg list"
  co_families :: "FamilyKey \<rightharpoonup> 'c FamilyActor"
  co_mailboxes :: "FamilyKey \<Rightarrow> FamilyMsg list"

definition Coordinator_new :: "'c Coordinator" where
  "Coordinator_new =
     \<lparr>co_global = spawn_global_actor, co_global_mailbox = [], co_families = Map.empty, co_mailboxes = (\<lambda>_. [])\<rparr>"

definition get_or_create_family_actor :: "(FamilyKey \<Rightarrow> 'c) \<Rightarrow> FamilyKey \<Rightarrow> 'c Coordinator \<Rightarrow> 'c Coordinator" where
  "get_or_create_family_actor RefCursor_new family_key co =
     (case co_families co family_key of
        Some _ \<Rightarrow> co
      | None \<Rightarrow> co\<lparr>co_families := (co_families co)(family_key \<mapsto> spawn_family_actor RefCursor_new family_key)\<rparr>)"

text \<open>
  The requests: the messages each of them sends, in order. The families of a shutdown come in the
  order in which the hash map lists them. Resolving a worktree to its family may fail.
\<close>

datatype Destination = ToFamily FamilyKey FamilyMsg | ToGlobal GlobalMsg

definition route_command :: "NormalizedCommand \<Rightarrow> Destination" where
  "route_command cmd =
     (case nc_scope cmd of Global \<Rightarrow> ToGlobal (GlobalApply cmd) | Family key \<Rightarrow> ToFamily key (Apply cmd))"

definition apply_checkpoint_family :: "FamilyKey \<Rightarrow> Destination" where
  "apply_checkpoint_family family = ToFamily family ApplyCheckpoint"

definition apply_checkpoint :: "(str \<Rightarrow> 'e + FamilyKey) \<Rightarrow> str \<Rightarrow> 'e + Destination" where
  "apply_checkpoint resolve_family repo_working_dir =
     (case resolve_family repo_working_dir of Inl e \<Rightarrow> Inl e | Inr family \<Rightarrow> Inr (apply_checkpoint_family family))"

definition watermarks_family :: "(str \<Rightarrow> 'e + FamilyKey) \<Rightarrow> str \<Rightarrow> 'e + Destination" where
  "watermarks_family resolve_family repo_working_dir =
     (case resolve_family repo_working_dir of Inl e \<Rightarrow> Inl e | Inr family \<Rightarrow> Inr (ToFamily family GetWatermarks))"

definition update_watermarks_family ::
  "(str \<Rightarrow> 'e + FamilyKey) \<Rightarrow> str \<Rightarrow> (str \<times> nat) list \<Rightarrow> (str \<times> nat) list \<Rightarrow> 'e + Destination" where
  "update_watermarks_family resolve_family repo_working_dir files worktrees =
     (case resolve_family repo_working_dir of
        Inl e \<Rightarrow> Inl e
      | Inr family \<Rightarrow> Inr (ToFamily family (UpdateWatermarks files worktrees)))"

definition status_family :: "(str \<Rightarrow> 'e + FamilyKey) \<Rightarrow> str \<Rightarrow> 'e + Destination" where
  "status_family resolve_family repo_working_dir =
     (case resolve_family repo_working_dir of Inl e \<Rightarrow> Inl e | Inr family \<Rightarrow> Inr (ToFamily family Status))"

definition coordinator_shutdown :: "FamilyKey list \<Rightarrow> Destination list" where
  "coordinator_shutdown families = map (\<lambda>family. ToFamily family Shutdown) families @ [ToGlobal GlobalShutdown]"

text \<open>
  The steps: a message is sent, or a task handles the first message of its channel. Sending waits
  while the channel is full and fails when the task has ended.
\<close>

datatype label =
  Send FamilyKey FamilyMsg | SendFailed FamilyKey FamilyMsg | Handle FamilyKey "FamilyReply option"
| GlobalSend GlobalMsg | GlobalSendFailed GlobalMsg | GlobalHandle "AppliedCommand option"

inductive co_step :: "(str \<Rightarrow> str) \<Rightarrow> 'c enrich \<Rightarrow> (FamilyKey \<Rightarrow> 'c) \<Rightarrow> 'c Coordinator \<Rightarrow> label \<Rightarrow> 'c Coordinator \<Rightarrow> bool"
  for canon enrich RefCursor_new where
  send:
    "co' = get_or_create_family_actor RefCursor_new key co \<Longrightarrow> co_families co' key = Some actor \<Longrightarrow>
     fa_running actor \<Longrightarrow> length (co_mailboxes co' key) < MAILBOX_CAPACITY \<Longrightarrow>
     co_step canon enrich RefCursor_new co (Send key msg)
       (co'\<lparr>co_mailboxes := (co_mailboxes co')(key := co_mailboxes co' key @ [msg])\<rparr>)"
| send_failed:
    "co' = get_or_create_family_actor RefCursor_new key co \<Longrightarrow> co_families co' key = Some actor \<Longrightarrow>
     \<not> fa_running actor \<Longrightarrow> co_step canon enrich RefCursor_new co (SendFailed key msg) co'"
| handle:
    "co_families co key = Some actor \<Longrightarrow> fa_running actor \<Longrightarrow> co_mailboxes co key = msg # msgs \<Longrightarrow>
     handle_msg canon enrich actor msg = (actor', reply) \<Longrightarrow>
     co_step canon enrich RefCursor_new co (Handle key reply)
       (co\<lparr>co_families := (co_families co)(key \<mapsto> actor'), co_mailboxes := (co_mailboxes co)(key := msgs)\<rparr>)"
| global_send:
    "ga_running (co_global co) \<Longrightarrow> length (co_global_mailbox co) < MAILBOX_CAPACITY \<Longrightarrow>
     co_step canon enrich RefCursor_new co (GlobalSend gmsg)
       (co\<lparr>co_global_mailbox := co_global_mailbox co @ [gmsg]\<rparr>)"
| global_send_failed:
    "\<not> ga_running (co_global co) \<Longrightarrow> co_step canon enrich RefCursor_new co (GlobalSendFailed gmsg) co"
| global_handle:
    "ga_running (co_global co) \<Longrightarrow> co_global_mailbox co = gmsg # gmsgs \<Longrightarrow>
     handle_global_msg (co_global co) gmsg = (ga, greply) \<Longrightarrow>
     co_step canon enrich RefCursor_new co (GlobalHandle greply)
       (co\<lparr>co_global := ga, co_global_mailbox := gmsgs\<rparr>)"

inductive co_exec ::
  "(str \<Rightarrow> str) \<Rightarrow> 'c enrich \<Rightarrow> (FamilyKey \<Rightarrow> 'c) \<Rightarrow> 'c Coordinator \<Rightarrow> label list \<Rightarrow> 'c Coordinator \<Rightarrow> bool"
  for canon enrich RefCursor_new co where
  start: "co_exec canon enrich RefCursor_new co [] co"
| step: "co_exec canon enrich RefCursor_new co trace co' \<Longrightarrow> co_step canon enrich RefCursor_new co' l co'' \<Longrightarrow>
     co_exec canon enrich RefCursor_new co (trace @ [l]) co''"

text \<open>The runs of the daemon.\<close>

definition co_run :: "(str \<Rightarrow> str) \<Rightarrow> 'c enrich \<Rightarrow> (FamilyKey \<Rightarrow> 'c) \<Rightarrow> label list \<Rightarrow> 'c Coordinator \<Rightarrow> bool" where
  "co_run canon enrich RefCursor_new = co_exec canon enrich RefCursor_new Coordinator_new"

inductive_cases co_step_cases: "co_step canon enrich RefCursor_new co l co'"

section \<open>Lemmas: numbered replies\<close>

lemma unat_lt_u64: "unat (n :: u64) < 2 ^ 64"
  using unsigned_less [of n, where ?'a = nat] by simp

lemma unat_saturating_inc: "unat (saturating_inc n) = min (unat n + 1) (2 ^ 64 - 1)"
proof (cases "n = - 1")
  case False
  then have "unat n \<noteq> unat (- 1 :: u64)" by (simp add: word_eq_iff_unsigned [where ?'a = nat, symmetric])
  then have "unat n + 1 < 2 ^ 64" using unat_lt_u64 [of n] by (simp add: unsigned_minus_1_eq_mask mask_eq_exp_minus_1)
  then show ?thesis using False by (simp add: saturating_inc_def unat_word_ariths)
qed (simp add: saturating_inc_def unsigned_minus_1_eq_mask mask_eq_exp_minus_1)

text \<open>
  An actor that numbers its replies: a reply with a number carries the number after the message,
  which is one more than the number before it (or the largest one); any other message leaves it.
\<close>

locale sequenced_actor =
  fixes handler :: "'a \<Rightarrow> 'm \<Rightarrow> 'a \<times> 'r"
    and running :: "'a \<Rightarrow> bool"
    and seq :: "'a \<Rightarrow> u64"
    and number :: "'r \<Rightarrow> u64 option"
  assumes numbered: "handler a m = (a', r) \<Longrightarrow> number r = Some n \<Longrightarrow> seq a' = saturating_inc (seq a) \<and> n = seq a'"
    and unnumbered: "handler a m = (a', r) \<Longrightarrow> number r = None \<Longrightarrow> seq a' = seq a"
begin

lemma numbers_consecutive:
  "recv_loop handler running a ms = (a', rs) \<Longrightarrow>
     map unat (List.map_filter number rs) =
       map (\<lambda>i. min (unat (seq a) + i + 1) (2 ^ 64 - 1)) [0..<length (List.map_filter number rs)]"
proof (induction ms arbitrary: a a' rs)
  case (Cons m ms)
  show ?case
  proof (cases "running a")
    case True
    obtain a1 r where h: "handler a m = (a1, r)" by fastforce
    obtain a2 rs' where l: "recv_loop handler running a1 ms = (a2, rs')" by fastforce
    have rs: "rs = r # rs'" using Cons.prems True h l by simp
    note IH = Cons.IH [OF l]
    show ?thesis
    proof (cases "number r")
      case None
      then show ?thesis using IH unnumbered [OF h None] rs by (simp add: map_filter_simps)
    next
      case (Some n)
      then have n: "unat (seq a1) = min (unat (seq a) + 1) (2 ^ 64 - 1)" "n = seq a1"
        using numbered [OF h Some] by (simp_all add: unat_saturating_inc)
      have "map unat (List.map_filter number rs') =
          map (\<lambda>i. min (unat (seq a) + Suc i + 1) (2 ^ 64 - 1)) [0..<length (List.map_filter number rs')]"
        unfolding IH by (rule map_cong) (simp_all add: n(1) min_def)
      then show ?thesis
        using rs Some n by (simp add: map_filter_simps upt_conv_Cons map_Suc_upt [symmetric] del: upt_Suc)
    qed
  next
    case False
    then show ?thesis using Cons.prems by (simp add: map_filter_simps)
  qed
qed (simp add: map_filter_simps)

end

text \<open>The number a reply of the family actor carries.\<close>

fun reply_number :: "FamilyReply option \<Rightarrow> u64 option" where
  "reply_number (Some (Applied applied)) = Some (ac_seq applied)"
| "reply_number (Some (Acknowledged ack)) = Some (aa_seq ack)"
| "reply_number _ = None"

lemma reduce_family_seq:
  "reduce_family_command_with_ref_snapshot canon state cmd analyzers refs = Inr (state', applied) \<Longrightarrow>
     fs_applied_seq state' = saturating_inc (fs_applied_seq state) \<and> ac_seq applied = fs_applied_seq state'"
  by (auto simp: reduce_family_command_with_ref_snapshot_def Let_def apply_worktree_state_def apply_ref_changes_def
      split: sum.splits option.splits prod.splits)

lemma family_reply_cases:
  assumes "handle_msg canon enrich actor m = (actor', r)"
  shows "reply_number r = Some n \<Longrightarrow>
      fs_applied_seq (fa_state actor') = saturating_inc (fs_applied_seq (fa_state actor)) \<and> n = fs_applied_seq (fa_state actor')"
    and "reply_number r = None \<Longrightarrow> fs_applied_seq (fa_state actor') = fs_applied_seq (fa_state actor)"
  using assms by (cases m; auto simp: reduce_checkpoint_def Let_def dest: reduce_family_seq split: prod.splits sum.splits)+

interpretation family_actor: sequenced_actor "handle_msg canon enrich" fa_running
  "\<lambda>actor. fs_applied_seq (fa_state actor)" reply_number
  by unfold_locales (rule family_reply_cases(1) family_reply_cases(2); assumption)+

interpretation global_actor: sequenced_actor handle_global_msg ga_running
  "\<lambda>actor. gs_applied_seq (ga_state actor)" "map_option ac_seq"
proof unfold_locales
  fix a m a' r
  assume h: "handle_global_msg a m = (a', r)"
  show "gs_applied_seq (ga_state a') = saturating_inc (gs_applied_seq (ga_state a)) \<and> n = gs_applied_seq (ga_state a')"
    if "map_option ac_seq r = Some n" for n
    using h that by (cases m) (auto simp: reduce_global_command_def Let_def split: sum.splits)
  show "gs_applied_seq (ga_state a') = gs_applied_seq (ga_state a)" if "map_option ac_seq r = None"
    using h that by (cases m) (auto simp: reduce_global_command_def Let_def split: sum.splits)
qed

section \<open>Lemmas: a channel and its task\<close>

text \<open>
  What a channel owes its task: of the messages sent, as many as there are replies have been
  handled, in the order in which they were sent; the others wait.
\<close>

definition served :: "('a \<Rightarrow> 'm \<Rightarrow> 'a \<times> 'r) \<Rightarrow> ('a \<Rightarrow> bool) \<Rightarrow> 'a \<Rightarrow> 'm list \<Rightarrow> 'm list \<Rightarrow> 'a \<Rightarrow> 'r list \<Rightarrow> bool" where
  "served handler running a0 sent mailbox a replies \<longleftrightarrow>
     length replies \<le> length sent \<and> mailbox = drop (length replies) sent \<and>
     recv_loop handler running a0 (take (length replies) sent) = (a, replies)"

lemma recv_loop_snoc:
  "recv_loop handler running a0 ms = (a, rs) \<Longrightarrow> running a \<Longrightarrow> handler a m = (a', r) \<Longrightarrow>
     recv_loop handler running a0 (ms @ [m]) = (a', rs @ [r])"
  by (induction ms arbitrary: a0 rs) (auto split: prod.splits if_splits)

lemma served_start [simp]: "served handler running a0 [] [] a0 []" "served handler running a0 [m] [m] a0 []"
  by (simp_all add: served_def)

lemma served_send: "served handler running a0 sent mailbox a rs \<Longrightarrow> served handler running a0 (sent @ [m]) (mailbox @ [m]) a rs"
  by (simp add: served_def)

lemma served_handle:
  assumes "served handler running a0 sent (m # mailbox) a rs" "running a" "handler a m = (a', r)"
  shows "served handler running a0 sent mailbox a' (rs @ [r])"
proof -
  have d: "drop (length rs) sent = m # mailbox" and l: "recv_loop handler running a0 (take (length rs) sent) = (a, rs)"
    using assms(1) by (simp_all add: served_def)
  then have lt: "length rs < length sent" by (metis drop_eq_Nil leI list.distinct(1))
  then have "sent ! length rs = m" "drop (Suc (length rs)) sent = mailbox"
    using d by (simp_all add: Cons_nth_drop_Suc [symmetric])
  then show ?thesis
    using lt recv_loop_snoc [OF l assms(2,3)] by (simp add: served_def take_Suc_conv_app_nth)
qed

section \<open>Lemmas: runs\<close>

text \<open>The messages a run sends to a family, and the replies the family gives.\<close>

definition sent :: "FamilyKey \<Rightarrow> label list \<Rightarrow> FamilyMsg list" where
  "sent k trace = concat (map (\<lambda>l. case l of Send key msg \<Rightarrow> if key = k then [msg] else [] | _ \<Rightarrow> []) trace)"

definition replies :: "FamilyKey \<Rightarrow> label list \<Rightarrow> FamilyReply option list" where
  "replies k trace = concat (map (\<lambda>l. case l of Handle key r \<Rightarrow> if key = k then [r] else [] | _ \<Rightarrow> []) trace)"

definition global_sent :: "label list \<Rightarrow> GlobalMsg list" where
  "global_sent trace = concat (map (\<lambda>l. case l of GlobalSend msg \<Rightarrow> [msg] | _ \<Rightarrow> []) trace)"

definition global_replies :: "label list \<Rightarrow> AppliedCommand option list" where
  "global_replies trace = concat (map (\<lambda>l. case l of GlobalHandle r \<Rightarrow> [r] | _ \<Rightarrow> []) trace)"

lemmas projections = sent_def replies_def global_sent_def global_replies_def

lemma projections_append [simp]:
  "sent k [] = []" "replies k [] = []" "global_sent [] = []" "global_replies [] = []"
  "sent k (t @ t') = sent k t @ sent k t'" "replies k (t @ t') = replies k t @ replies k t'"
  "global_sent (t @ t') = global_sent t @ global_sent t'" "global_replies (t @ t') = global_replies t @ global_replies t'"
  by (simp_all add: projections)

lemma projections_label [simp]:
  "sent k [Send key msg] = (if key = k then [msg] else [])" "sent k [SendFailed key msg] = []" "sent k [Handle key r] = []"
  "sent k [GlobalSend gmsg] = []" "sent k [GlobalSendFailed gmsg] = []" "sent k [GlobalHandle gr] = []"
  "replies k [Send key msg] = []" "replies k [SendFailed key msg] = []" "replies k [Handle key r] = (if key = k then [r] else [])"
  "replies k [GlobalSend gmsg] = []" "replies k [GlobalSendFailed gmsg] = []" "replies k [GlobalHandle gr] = []"
  "global_sent [Send key msg] = []" "global_sent [SendFailed key msg] = []" "global_sent [Handle key r] = []"
  "global_sent [GlobalSend gmsg] = [gmsg]" "global_sent [GlobalSendFailed gmsg] = []" "global_sent [GlobalHandle gr] = []"
  "global_replies [Send key msg] = []" "global_replies [SendFailed key msg] = []" "global_replies [Handle key r] = []"
  "global_replies [GlobalSend gmsg] = []" "global_replies [GlobalSendFailed gmsg] = []" "global_replies [GlobalHandle gr] = [gr]"
  by (simp_all add: projections)

lemma get_or_create_simps [simp]:
  "co_mailboxes (get_or_create_family_actor RefCursor_new key co) = co_mailboxes co"
  "co_global (get_or_create_family_actor RefCursor_new key co) = co_global co"
  "co_global_mailbox (get_or_create_family_actor RefCursor_new key co) = co_global_mailbox co"
  "co_families (get_or_create_family_actor RefCursor_new key co) k =
     (if k = key \<and> co_families co key = None then Some (spawn_family_actor RefCursor_new key) else co_families co k)"
  by (simp_all add: get_or_create_family_actor_def split: option.splits)

text \<open>What the system keeps of a family: its channel serves its task; before the first message there is neither.\<close>

definition family_served ::
  "(str \<Rightarrow> str) \<Rightarrow> 'c enrich \<Rightarrow> (FamilyKey \<Rightarrow> 'c) \<Rightarrow> FamilyKey \<Rightarrow> label list \<Rightarrow> 'c Coordinator \<Rightarrow> bool" where
  "family_served canon enrich RefCursor_new k trace co \<longleftrightarrow>
     (case co_families co k of
        None \<Rightarrow> sent k trace = [] \<and> replies k trace = [] \<and> co_mailboxes co k = []
      | Some actor \<Rightarrow> served (handle_msg canon enrich) fa_running (spawn_family_actor RefCursor_new k)
                        (sent k trace) (co_mailboxes co k) actor (replies k trace))"

lemma family_served_step:
  assumes "family_served canon enrich RefCursor_new k trace co" "co_step canon enrich RefCursor_new co l co'"
  shows "family_served canon enrich RefCursor_new k (trace @ [l]) co'"
  using assms(2)
proof cases
  case (send co1 key actor msg)
  then show ?thesis using assms(1)
    by (cases "co_families co k") (auto simp: family_served_def intro: served_send split: if_splits)
next
  case (send_failed key actor msg)
  then show ?thesis using assms(1)
    by (auto simp: family_served_def spawn_family_actor_def split: if_splits option.splits)
next
  case (handle key actor msg msgs actor' reply)
  then show ?thesis using assms(1)
    by (auto simp: family_served_def intro: served_handle split: option.splits)
qed (use assms(1) in \<open>auto simp: family_served_def split: option.splits\<close>)

lemma co_run_family_served: "co_run canon enrich RefCursor_new trace co \<Longrightarrow> family_served canon enrich RefCursor_new k trace co"
  unfolding co_run_def
  by (induction rule: co_exec.induct) (simp_all add: family_served_step, simp add: family_served_def Coordinator_new_def)

lemma global_served_step:
  assumes "served handle_global_msg ga_running a0 (global_sent trace) (co_global_mailbox co) (co_global co) (global_replies trace)"
    and "co_step canon enrich RefCursor_new co l co'"
  shows "served handle_global_msg ga_running a0 (global_sent (trace @ [l])) (co_global_mailbox co') (co_global co')
           (global_replies (trace @ [l]))"
  using assms(2,1) by cases (simp_all add: served_send served_handle)

lemma co_run_global_served:
  "co_run canon enrich RefCursor_new trace co \<Longrightarrow>
     served handle_global_msg ga_running spawn_global_actor (global_sent trace) (co_global_mailbox co) (co_global co)
       (global_replies trace)"
  unfolding co_run_def
  by (induction rule: co_exec.induct) (simp_all only: global_served_step, simp add: Coordinator_new_def)

section \<open>Lemmas: the state of a family\<close>

text \<open>
  The well-formed states of a family: no reference without an object, and a worktree with a
  detached head is on no branch. No operation ever records an error.
\<close>

definition family_ok :: "FamilyKey \<Rightarrow> FamilyState \<Rightarrow> bool" where
  "family_ok k state \<longleftrightarrow>
     fs_family_key state = k \<and> live_refs (fs_refs state) \<and> fs_last_error state = None \<and>
     (\<forall>w \<in> ran (fs_worktrees state). wt_detached w \<longrightarrow> wt_branch w = None)"

lemma apply_worktree_state_ok: "family_ok k state \<Longrightarrow> family_ok k (apply_worktree_state canon state cmd)"
  by (auto simp: family_ok_def apply_worktree_state_def Let_def ran_def split: option.splits)

lemma apply_ref_changes_ok: "family_ok k state \<Longrightarrow> family_ok k (apply_ref_changes state cmd)"
  by (simp add: family_ok_def apply_ref_changes_def live_refs_fold)

lemma family_ok_seq [simp]:
  "family_ok k (state\<lparr>fs_applied_seq := n\<rparr>) = family_ok k state"
  "family_ok k (state\<lparr>fs_watermarks := wm\<rparr>) = family_ok k state"
  by (simp_all add: family_ok_def)

lemma reduce_family_ok:
  "reduce_family_command_with_ref_snapshot canon state cmd analyzers refs = Inr (state', applied) \<Longrightarrow>
     family_ok k state \<Longrightarrow> family_ok k state'"
  by (auto simp: reduce_family_command_with_ref_snapshot_def Let_def apply_worktree_state_ok apply_ref_changes_ok
      split: sum.splits)

lemma handle_msg_ok:
  "handle_msg canon enrich actor msg = (actor', reply) \<Longrightarrow> family_ok k (fa_state actor) \<Longrightarrow> family_ok k (fa_state actor')"
  by (cases msg) (auto simp: reduce_checkpoint_def Let_def dest: reduce_family_ok split: prod.splits sum.splits)

lemma spawn_ok [simp]: "family_ok k (fa_state (spawn_family_actor RefCursor_new k))" "fa_running (spawn_family_actor RefCursor_new k)"
  by (simp_all add: family_ok_def spawn_family_actor_def FamilyState_new_def live_refs_def)

definition families_ok :: "'c Coordinator \<Rightarrow> bool" where
  "families_ok co \<longleftrightarrow>
     (\<forall>k. length (co_mailboxes co k) \<le> MAILBOX_CAPACITY \<and>
          (\<forall>actor. co_families co k = Some actor \<longrightarrow> family_ok k (fa_state actor))) \<and>
     length (co_global_mailbox co) \<le> MAILBOX_CAPACITY"

lemma shorter: "xs = y # ys \<Longrightarrow> \<forall>k. length (f k) \<le> n \<and> P k \<Longrightarrow> f k = xs \<Longrightarrow> length ys \<le> n"
  by (metis Suc_leD length_Cons)

lemma families_ok_step: "co_step canon enrich RefCursor_new co l co' \<Longrightarrow> families_ok co \<Longrightarrow> families_ok co'"
  by (induction rule: co_step.induct) (auto simp: families_ok_def dest: handle_msg_ok shorter split: if_splits)

section \<open>Lemmas: progress and its end\<close>

lemma co_exec_trans:
  "co_exec canon enrich RefCursor_new co2 t2 co3 \<Longrightarrow> co_exec canon enrich RefCursor_new co1 t1 co2 \<Longrightarrow>
     co_exec canon enrich RefCursor_new co1 (t1 @ t2) co3"
  by (induction rule: co_exec.induct) (simp_all add: co_exec.step append_assoc [symmetric] del: append_assoc)

lemma co_exec_Cons:
  "co_step canon enrich RefCursor_new co1 l co2 \<Longrightarrow> co_exec canon enrich RefCursor_new co2 t co3 \<Longrightarrow>
     co_exec canon enrich RefCursor_new co1 (l # t) co3"
  using co_exec_trans [OF _ co_exec.step [OF co_exec.start]] by fastforce

text \<open>A task that has ended stays as it is, and no message reaches it.\<close>

lemma ended_step:
  assumes "co_step canon enrich RefCursor_new co l co'" "co_families co k = Some actor" "\<not> fa_running actor"
  shows "co_families co' k = Some actor \<and> sent k [l] = [] \<and> replies k [l] = []"
  using assms by cases auto

lemma ended_exec:
  "co_exec canon enrich RefCursor_new co trace co' \<Longrightarrow> co_families co k = Some actor \<Longrightarrow> \<not> fa_running actor \<Longrightarrow>
     co_families co' k = Some actor \<and> sent k trace = [] \<and> replies k trace = []"
proof (induction rule: co_exec.induct)
  case (step trace co' l co'')
  then show ?case using ended_step [OF step.hyps(2)] by simp
qed simp

text \<open>Handling the messages of one family, one after the other, empties its channel or ends its task.\<close>

lemma drain:
  "co_families co k = Some actor \<Longrightarrow>
     \<exists>t co' actor'. co_exec canon enrich RefCursor_new co t co' \<and> (\<forall>l \<in> set t. \<exists>r. l = Handle k r) \<and>
       co_families co' k = Some actor' \<and> (fa_running actor' \<longrightarrow> co_mailboxes co' k = []) \<and> sent k t = []"
proof (induction "co_mailboxes co k" arbitrary: co actor)
  case Nil
  then show ?case by (intro exI [of _ "[]"] exI [of _ co]) (auto intro: co_exec.start)
next
  case (Cons msg msgs)
  show ?case
  proof (cases "fa_running actor")
    case True
    obtain actor1 r where h: "handle_msg canon enrich actor msg = (actor1, r)" by fastforce
    define co1 where "co1 = co\<lparr>co_families := (co_families co)(k \<mapsto> actor1), co_mailboxes := (co_mailboxes co)(k := msgs)\<rparr>"
    have st: "co_step canon enrich RefCursor_new co (Handle k r) co1"
      unfolding co1_def using Cons.prems True Cons.hyps(2) [symmetric] h by (rule co_step.handle)
    obtain t co' actor' where t: "co_exec canon enrich RefCursor_new co1 t co'" "\<forall>l \<in> set t. \<exists>r. l = Handle k r"
        "co_families co' k = Some actor'" "fa_running actor' \<longrightarrow> co_mailboxes co' k = []" "sent k t = []"
      using Cons.hyps(1) [of co1 actor1] by (auto simp: co1_def)
    then show ?thesis
      using co_exec_Cons [OF st t(1)] projections_append(5) [of k "[Handle k r]" t]
      by (intro exI [of _ "Handle k r # t"] exI [of _ co'] exI [of _ actor']) simp
  next
    case False
    then show ?thesis using Cons.prems
      by (intro exI [of _ "[]"] exI [of _ co]) (auto intro: co_exec.start)
  qed
qed

lemma served_emptied:
  "served handler running a0 ms [] a rs \<Longrightarrow> length rs = length ms"
  by (simp add: served_def)

section \<open>A run\<close>

text \<open>A reference cursor that adds nothing, and a command.\<close>

definition plain_enrich :: "unit enrich" where
  "plain_enrich cursor cmd state = (cursor, Inr (cmd, Map.empty))"

definition plain_command :: "str \<Rightarrow> NormalizedCommand" where
  "plain_command name =
     \<lparr>nc_scope = Family ''f'', nc_family_key = Some ''f'', nc_worktree = Some ''/repo'', nc_root_sid = ''s'',
      nc_raw_argv = [''git'', name], nc_primary_command = Some name, nc_invoked_command = Some name,
      nc_invoked_args = [], nc_observed_child_commands = [], nc_exit_code = 0, nc_started_at_ns = 1,
      nc_finished_at_ns = 2, nc_reflog_start_offsets = Map.empty, nc_stash_target_oid = None,
      nc_cherry_pick_source_oids = [], nc_revert_source_oids = [], nc_ref_changes = [], nc_confidence = Low\<rparr>"

definition plain_actor :: "FamilyMsg list \<Rightarrow> unit FamilyActor" where
  "plain_actor msgs = fst (run_actor id plain_enrich (spawn_family_actor (\<lambda>_. ()) ''f'') msgs)"

definition plain_state :: "FamilyMsg list \<Rightarrow> FamilyMsg list \<Rightarrow> unit Coordinator" where
  "plain_state handled mailbox = Coordinator_new
     \<lparr>co_families := [''f'' \<mapsto> plain_actor handled], co_mailboxes := (\<lambda>_. [])(''f'' := mailbox)\<rparr>"

definition plain_trace :: "label list" where
  "plain_trace = [Send ''f'' ApplyCheckpoint, Send ''f'' Status, Handle ''f'' (Some (Acknowledged \<lparr>aa_seq = 1, aa_applied = True\<rparr>))]"

lemma plain_run: "co_run id plain_enrich (\<lambda>_. ()) plain_trace (plain_state [ApplyCheckpoint] [Status])"
proof -
  let ?step = "co_step id plain_enrich (\<lambda>_. ())"
  have 1: "?step Coordinator_new (Send ''f'' ApplyCheckpoint) (plain_state [] [ApplyCheckpoint])"
    using co_step.send [OF refl, of "\<lambda>_. ()" "''f''" Coordinator_new _ id plain_enrich ApplyCheckpoint]
    by (simp add: plain_state_def plain_actor_def run_actor_def Coordinator_new_def MAILBOX_CAPACITY_def
        get_or_create_family_actor_def)
  have 2: "?step (plain_state [] [ApplyCheckpoint]) (Send ''f'' Status) (plain_state [] [ApplyCheckpoint, Status])"
    using co_step.send [OF refl, of "\<lambda>_. ()" "''f''" "plain_state [] [ApplyCheckpoint]" _ id plain_enrich Status]
    by (simp add: plain_state_def plain_actor_def run_actor_def Coordinator_new_def MAILBOX_CAPACITY_def
        get_or_create_family_actor_def)
  have "handle_msg id plain_enrich (plain_actor []) ApplyCheckpoint =
      (plain_actor [ApplyCheckpoint], Some (Acknowledged \<lparr>aa_seq = 1, aa_applied = True\<rparr>))"
    by (simp add: plain_actor_def run_actor_def spawn_family_actor_def FamilyState_new_def reduce_checkpoint_def
        saturating_inc_def Let_def)
  then have 3: "?step (plain_state [] [ApplyCheckpoint, Status])
      (Handle ''f'' (Some (Acknowledged \<lparr>aa_seq = 1, aa_applied = True\<rparr>))) (plain_state [ApplyCheckpoint] [Status])"
    using co_step.handle [of "plain_state [] [ApplyCheckpoint, Status]" "''f''" "plain_actor []"]
    by (simp add: plain_state_def plain_actor_def run_actor_def)
  from co_exec_Cons [OF 1 co_exec_Cons [OF 2 co_exec_Cons [OF 3 co_exec.start]]]
  show ?thesis by (simp add: co_run_def plain_trace_def)
qed

lemma plain_projections:
  "sent ''f'' plain_trace = [ApplyCheckpoint, Status]"
  "replies ''f'' plain_trace = [Some (Acknowledged \<lparr>aa_seq = 1, aa_applied = True\<rparr>)]"
  "co_families (plain_state handled mailbox) ''f'' = Some (plain_actor handled)"
  "co_mailboxes (plain_state handled mailbox) ''f'' = mailbox"
  by (simp_all add: plain_trace_def projections plain_state_def)

section \<open>Properties\<close>

text \<open>C5. Isolation and order: whatever the interleaving of sends and handled messages of all
  families, the task of a family is in the state in which a task of its own, alone, would be after a
  prefix of the messages sent to that family, its replies are the replies to that prefix, and the
  other messages wait in its channel in the order in which they were sent.\<close>

theorem family_refines_sequential_actor:
  assumes "co_run canon enrich RefCursor_new trace co"
  shows "case co_families co k of
      None \<Rightarrow> sent k trace = [] \<and> replies k trace = []
    | Some actor \<Rightarrow>
        (let n = length (replies k trace)
         in run_actor canon enrich (spawn_family_actor RefCursor_new k) (take n (sent k trace)) = (actor, replies k trace) \<and>
            co_mailboxes co k = drop n (sent k trace))"
  using co_run_family_served [OF assms, of k]
  by (auto simp: family_served_def served_def run_actor_def Let_def split: option.splits)

theorem family_refines_sequential_actor_witness:
  "run_actor id plain_enrich (spawn_family_actor (\<lambda>_. ()) ''f'') [ApplyCheckpoint] =
     (plain_actor [ApplyCheckpoint], [Some (Acknowledged \<lparr>aa_seq = 1, aa_applied = True\<rparr>)])"
  using family_refines_sequential_actor [OF plain_run, of "''f''"] by (simp add: plain_projections)

text \<open>C11. In every reachable state every channel holds at most 1024 messages, the state of each
  task is the state of its own family, no reference is recorded with a blank or a zero object, and a
  worktree with a detached head is on no branch.\<close>

theorem reachable_families_ok:
  assumes "co_run canon enrich RefCursor_new trace co"
  shows "families_ok co"
  using assms unfolding co_run_def
  by (induction rule: co_exec.induct) (simp_all add: families_ok_step, simp add: families_ok_def Coordinator_new_def)

theorem reachable_families_ok_witness: "families_ok (plain_state [ApplyCheckpoint] [Status])"
  by (rule reachable_families_ok [OF plain_run])

text \<open>C12. The applied commands and acknowledged checkpoints of a family are numbered 1, 2, 3, ... in
  the order of the replies, without gap or repetition, up to the largest 64-bit number, where the
  numbering stays; so are the commands of the global task.\<close>

theorem replies_numbered:
  assumes "co_run canon enrich RefCursor_new trace co"
  shows "map unat (List.map_filter reply_number (replies k trace)) =
           map (\<lambda>i. min (i + 1) (2 ^ 64 - 1)) [0..<length (List.map_filter reply_number (replies k trace))] \<and>
         map unat (List.map_filter (map_option ac_seq) (global_replies trace)) =
           map (\<lambda>i. min (i + 1) (2 ^ 64 - 1)) [0..<length (List.map_filter (map_option ac_seq) (global_replies trace))]"
proof
  show "map unat (List.map_filter reply_number (replies k trace)) =
           map (\<lambda>i. min (i + 1) (2 ^ 64 - 1)) [0..<length (List.map_filter reply_number (replies k trace))]"
  proof (cases "co_families co k")
    case None
    then show ?thesis
      using co_run_family_served [OF assms, of k] by (simp add: family_served_def map_filter_simps)
  next
    case (Some actor)
    then have "recv_loop (handle_msg canon enrich) fa_running (spawn_family_actor RefCursor_new k)
        (take (length (replies k trace)) (sent k trace)) = (actor, replies k trace)"
      using co_run_family_served [OF assms, of k] by (simp add: family_served_def served_def)
    from family_actor.numbers_consecutive [OF this] show ?thesis
      by (simp add: spawn_family_actor_def FamilyState_new_def)
  qed
  have "recv_loop handle_global_msg ga_running spawn_global_actor
      (take (length (global_replies trace)) (global_sent trace)) = (co_global co, global_replies trace)"
    using co_run_global_served [OF assms] by (simp add: served_def)
  from global_actor.numbers_consecutive [OF this]
  show "map unat (List.map_filter (map_option ac_seq) (global_replies trace)) =
      map (\<lambda>i. min (i + 1) (2 ^ 64 - 1)) [0..<length (List.map_filter (map_option ac_seq) (global_replies trace))]"
    by (simp add: spawn_global_actor_def)
qed

theorem replies_numbered_witness:
  "map unat (List.map_filter reply_number (replies ''f'' plain_trace)) = [1]"
  using replies_numbered [OF plain_run, of "''f''"] by (simp add: plain_projections map_filter_simps)



text \<open>C37. When a task takes a command whose name is a routed name in another case, the analysis
  panics and the task ends without a reply; the coordinator keeps its handle, so no later message to
  that family is ever accepted or answered.\<close>

theorem panicked_family_is_lost:
  assumes "co_families co k = Some actor" "fa_running actor" "co_mailboxes co k = Apply cmd # msgs"
    and "enrich (fa_cursor actor) cmd (fa_state actor) = (cursor, Inr (cmd', refs))"
    and "nc_primary_command cmd' = Some name" "name \<notin> set routed_commands"
    and "to_ascii_lowercase name \<in> set routed_commands"
  shows "\<exists>co'. co_step canon enrich RefCursor_new co (Handle k None) co' \<and>
           (\<forall>trace co''. co_exec canon enrich RefCursor_new co' trace co'' \<longrightarrow> sent k trace = [] \<and> replies k trace = [])"
proof -
  have "registry_analyze AnalyzerRegistry_new cmd' (fs_refs (fa_state actor) ++ refs) = Inl (Unreachable name)"
    using assms(5-7) by (simp add: analysis_panics_iff)
  then have "handle_msg canon enrich actor (Apply cmd) = (actor\<lparr>fa_cursor := cursor, fa_running := False\<rparr>, None)"
    using assms(4) by (simp add: reduce_family_command_with_ref_snapshot_def)
  from co_step.handle [OF assms(1-3) this]
  show ?thesis by (intro exI conjI) (auto dest!: ended_exec [where k = k])
qed

theorem panicked_family_is_lost_witness:
  "\<exists>co'. co_step id plain_enrich (\<lambda>_. ()) (plain_state [] [Apply (plain_command ''Commit''), Status]) (Handle ''f'' None) co' \<and>
     (\<forall>trace co''. co_exec id plain_enrich (\<lambda>_. ()) co' trace co'' \<longrightarrow> sent ''f'' trace = [] \<and> replies ''f'' trace = [])"
  by (rule panicked_family_is_lost [OF plain_projections(3) _ plain_projections(4), where name = "''Commit''"])
    (simp add: plain_actor_def run_actor_def, simp add: plain_enrich_def, simp add: plain_command_def, code_simp, code_simp)

end
