(* ===== verification/Carryover_Merge.thy ===== *)
theory Carryover_Merge
  imports Diff_Utils Hunk_Shift "HOL-Library.Sublist"
begin

text \<open>
  Reconciliation of file contents (\<open>src/authorship/virtual_attribution.rs\<close>): the hunks between two
  contents, the three-way merge of a parent, a committed and an observed content that feeds the
  carryover of uncommitted attributions, and the rebase of observed edits onto the target of a
  checkout. An index or a slice out of range panics; here that is None.
\<close>

section \<open>Lines and hunks\<close>

definition split_lines_preserving_terminators :: "str \<Rightarrow> str list" where
  "split_lines_preserving_terminators s = terminated_loop s 0 0 s"

definition hunk_of_op :: "DiffOp \<Rightarrow> DiffHunk option" where
  "hunk_of_op op =
     (case op of
        Insert old_index new_index new_len \<Rightarrow>
          Some \<lparr>hk_old_start = of_nat old_index, hk_old_count = 0,
                hk_new_start = of_nat new_index + 1, hk_new_count = of_nat new_len\<rparr>
      | Delete old_index old_len new_index \<Rightarrow>
          Some \<lparr>hk_old_start = of_nat old_index + 1, hk_old_count = of_nat old_len,
                hk_new_start = of_nat new_index + 1, hk_new_count = 0\<rparr>
      | Replace old_index old_len new_index new_len \<Rightarrow>
          Some \<lparr>hk_old_start = of_nat old_index + 1, hk_old_count = of_nat old_len,
                hk_new_start = of_nat new_index + 1, hk_new_count = of_nat new_len\<rparr>
      | Equal _ _ _ \<Rightarrow> None)"

definition diff_hunks_between_contents :: "str differ \<Rightarrow> str \<Rightarrow> str \<Rightarrow> DiffHunk list" where
  "diff_hunks_between_contents diff old_content new_content =
     (let old_lines = split_lines_preserving_terminators (normalize_line_endings old_content);
          new_lines = split_lines_preserving_terminators (normalize_line_endings new_content)
      in List.map_filter hunk_of_op (capture_diff_slices diff old_lines new_lines))"

fun sequence_loop :: "str list \<Rightarrow> str list \<Rightarrow> bool" where
  "sequence_loop needle_lines [] = False"
| "sequence_loop [] (haystack_line # haystack) = True"
| "sequence_loop (needle_line # needle_lines) (haystack_line # haystack) =
     (if haystack_line = needle_line
      then (if needle_lines = [] then True else sequence_loop needle_lines haystack)
      else sequence_loop (needle_line # needle_lines) haystack)"

definition line_sequence_contains :: "str \<Rightarrow> str \<Rightarrow> bool" where
  "line_sequence_contains needle haystack =
     (let needle_lines = split_lines_preserving_terminators (normalize_line_endings needle)
      in needle_lines = [] \<or>
         sequence_loop needle_lines (split_lines_preserving_terminators (normalize_line_endings haystack)))"

section \<open>The three-way merge\<close>

text \<open>\<open>&xs[i..j]\<close>, which panics unless i \<open>\<le>\<close> j \<open>\<le>\<close> the length.\<close>

definition checked_slice :: "'a list \<Rightarrow> nat \<Rightarrow> nat \<Rightarrow> 'a list option" where
  "checked_slice xs i j = (if i \<le> j \<and> j \<le> length xs then Some (slice xs i j) else None)"

text \<open>\<open>for k in 0..len { map[old_index + k] = Some(new_index + k) }\<close>.\<close>

fun mark_equal :: "nat option list \<Rightarrow> nat \<Rightarrow> nat \<Rightarrow> nat \<Rightarrow> nat option list" where
  "mark_equal m old_index new_index 0 = m"
| "mark_equal m old_index new_index (Suc k) =
     (mark_equal m old_index new_index k)[old_index + k := Some (new_index + k)]"

fun align_loop :: "nat option list \<Rightarrow> DiffOp list \<Rightarrow> nat option list option" where
  "align_loop m [] = Some m"
| "align_loop m (op # ops) =
     (case op of
        Equal old_index new_index n \<Rightarrow>
          if n = 0 \<or> old_index + n \<le> length m then align_loop (mark_equal m old_index new_index n) ops
          else None
      | _ \<Rightarrow> align_loop m ops)"

definition align_to_base :: "str differ \<Rightarrow> str list \<Rightarrow> str list \<Rightarrow> nat option list option" where
  "align_to_base diff base side = align_loop (replicate (length base) None) (capture_diff_slices diff base side)"

definition is_stable :: "nat option list \<Rightarrow> nat option list \<Rightarrow> nat \<Rightarrow> bool" where
  "is_stable committed_map observed_map i \<longleftrightarrow> committed_map ! i \<noteq> None \<and> observed_map ! i \<noteq> None"

function skip_unstable :: "nat option list \<Rightarrow> nat option list \<Rightarrow> nat \<Rightarrow> nat \<Rightarrow> nat" where
  "skip_unstable committed_map observed_map base_len base_i =
     (if base_i < base_len \<and> \<not> is_stable committed_map observed_map base_i
      then skip_unstable committed_map observed_map base_len (base_i + 1) else base_i)"
  by pat_completeness auto
termination by (relation "measure (\<lambda>(c, o', base_len, base_i). base_len - base_i)") auto

declare skip_unstable.simps [simp del]

record MergeInput =
  mi_base :: "str list"
  mi_committed :: "str list"
  mi_observed :: "str list"
  mi_base_cmp :: "str list"
  mi_committed_cmp :: "str list"
  mi_observed_cmp :: "str list"
  mi_committed_map :: "nat option list"
  mi_observed_map :: "nat option list"

text \<open>What both sides inserted before an anchor, or after the last base line.\<close>

definition resolve_pending :: "MergeInput \<Rightarrow> nat \<Rightarrow> nat \<Rightarrow> nat \<Rightarrow> nat \<Rightarrow> str list option" where
  "resolve_pending mi committed_i c_anchor observed_i o_anchor =
     (case (if committed_i < c_anchor then checked_slice (mi_committed mi) committed_i c_anchor else Some []) of
        None \<Rightarrow> None
      | Some c_pending \<Rightarrow>
          (case (if observed_i < o_anchor then checked_slice (mi_observed mi) observed_i o_anchor else Some []) of
             None \<Rightarrow> None
           | Some o_pending \<Rightarrow>
               if c_pending \<noteq> [] \<and> o_pending \<noteq> []
               then (case (checked_slice (mi_committed_cmp mi) committed_i c_anchor,
                           checked_slice (mi_observed_cmp mi) observed_i o_anchor) of
                       (Some c_cmp, Some o_cmp) \<Rightarrow> Some (if c_cmp = o_cmp then c_pending else o_pending)
                     | _ \<Rightarrow> None)
               else if c_pending \<noteq> [] then Some c_pending
               else Some o_pending))"

definition resolve_chunk :: "MergeInput \<Rightarrow> nat \<Rightarrow> nat \<Rightarrow> nat \<Rightarrow> nat \<Rightarrow> nat \<Rightarrow> nat \<Rightarrow> str list option" where
  "resolve_chunk mi chunk_base_start base_i committed_i c_anchor observed_i o_anchor =
     (case (checked_slice (mi_committed mi) committed_i c_anchor, checked_slice (mi_observed mi) observed_i o_anchor,
            checked_slice (mi_base mi) chunk_base_start base_i, checked_slice (mi_base_cmp mi) chunk_base_start base_i,
            checked_slice (mi_committed_cmp mi) committed_i c_anchor, checked_slice (mi_observed_cmp mi) observed_i o_anchor) of
        (Some committed_chunk, Some observed_chunk, Some base_chunk, Some base_cmp_chunk,
         Some committed_cmp_chunk, Some observed_cmp_chunk) \<Rightarrow>
          (let committed_changed = committed_cmp_chunk \<noteq> base_cmp_chunk;
               observed_changed = observed_cmp_chunk \<noteq> base_cmp_chunk
           in Some (if committed_changed \<and> \<not> observed_changed then committed_chunk
                    else if \<not> committed_changed \<and> observed_changed then observed_chunk
                    else if committed_changed \<and> observed_changed
                    then (if committed_cmp_chunk = observed_cmp_chunk then committed_chunk else observed_chunk)
                    else base_chunk))
      | _ \<Rightarrow> None)"

text \<open>The loop over the base lines; the result so far is returned by the callers.\<close>

lemma skip_unstable_le: "base_i \<le> skip_unstable c o' n base_i"
proof (induction c o' n base_i rule: skip_unstable.induct)
  case (1 c o' n base_i)
  then show ?case by (subst skip_unstable.simps) auto
qed

lemma skip_unstable_less: "base_i < n \<Longrightarrow> \<not> is_stable c o' base_i \<Longrightarrow> base_i < skip_unstable c o' n base_i"
  using skip_unstable_le [of "base_i + 1" c o' n] by (subst skip_unstable.simps) simp

function merge_loop :: "MergeInput \<Rightarrow> nat \<Rightarrow> nat \<Rightarrow> nat \<Rightarrow> str list option" where
  "merge_loop mi base_i committed_i observed_i =
     (if base_i < length (mi_base mi)
      then if is_stable (mi_committed_map mi) (mi_observed_map mi) base_i
           then let c_anchor = the (mi_committed_map mi ! base_i); o_anchor = the (mi_observed_map mi ! base_i)
                in (case resolve_pending mi committed_i c_anchor observed_i o_anchor of
                      None \<Rightarrow> None
                    | Some pending \<Rightarrow>
                        map_option (\<lambda>rest. pending @ [mi_base mi ! base_i] @ rest)
                          (merge_loop mi (base_i + 1) (c_anchor + 1) (o_anchor + 1)))
           else let chunk_base_start = base_i;
                    base_i = skip_unstable (mi_committed_map mi) (mi_observed_map mi) (length (mi_base mi)) base_i;
                    (c_anchor, o_anchor) =
                      (if base_i < length (mi_base mi)
                       then (the (mi_committed_map mi ! base_i), the (mi_observed_map mi ! base_i))
                       else (length (mi_committed mi), length (mi_observed mi)))
                in (case resolve_chunk mi chunk_base_start base_i committed_i c_anchor observed_i o_anchor of
                      None \<Rightarrow> None
                    | Some chunk \<Rightarrow> map_option (\<lambda>rest. chunk @ rest) (merge_loop mi base_i c_anchor o_anchor))
      else if committed_i \<le> length (mi_committed mi) \<and> observed_i \<le> length (mi_observed mi)
      then resolve_pending mi committed_i (length (mi_committed mi)) observed_i (length (mi_observed mi))
      else None)"
  by pat_completeness auto
termination
  by (relation "measure (\<lambda>(mi, base_i, committed_i, observed_i). length (mi_base mi) - base_i)")
    (auto dest: skip_unstable_less split: if_splits)

declare merge_loop.simps [simp del]

definition carryover_merge_lines :: "str differ \<Rightarrow> str \<Rightarrow> str \<Rightarrow> str \<Rightarrow> str list option" where
  "carryover_merge_lines diff parent committed observed =
     (let base_cmp = split_lines_preserving_terminators (normalize_line_endings parent);
          committed_cmp = split_lines_preserving_terminators (normalize_line_endings committed);
          observed_cmp = split_lines_preserving_terminators (normalize_line_endings observed)
      in case (align_to_base diff base_cmp committed_cmp, align_to_base diff base_cmp observed_cmp) of
           (Some committed_map, Some observed_map) \<Rightarrow>
             merge_loop
               \<lparr>mi_base = split_lines_preserving_terminators parent,
                mi_committed = split_lines_preserving_terminators committed,
                mi_observed = split_lines_preserving_terminators observed,
                mi_base_cmp = base_cmp, mi_committed_cmp = committed_cmp, mi_observed_cmp = observed_cmp,
                mi_committed_map = committed_map, mi_observed_map = observed_map\<rparr> 0 0 0
         | _ \<Rightarrow> None)"

definition carryover_merge_content :: "str differ \<Rightarrow> str \<Rightarrow> str \<Rightarrow> str \<Rightarrow> str option" where
  "carryover_merge_content diff parent committed observed =
     (if content_eq_ignoring_line_endings committed observed then Some committed
      else if content_eq_ignoring_line_endings parent committed then Some observed
      else if content_eq_ignoring_line_endings parent observed then Some committed
      else map_option concat (carryover_merge_lines diff parent committed observed))"

definition merged_carryover_content_pure :: "str differ \<Rightarrow> str \<Rightarrow> str \<Rightarrow> str \<Rightarrow> str option" where
  "merged_carryover_content_pure diff parent_content committed_content observed_content =
     (if content_eq_ignoring_line_endings committed_content observed_content then Some committed_content
      else if line_sequence_contains committed_content observed_content then Some observed_content
      else if line_sequence_contains observed_content committed_content then Some committed_content
      else if content_eq_ignoring_line_endings committed_content parent_content then Some observed_content
      else if content_eq_ignoring_line_endings observed_content parent_content then Some committed_content
      else carryover_merge_content diff parent_content committed_content observed_content)"

section \<open>Specification: a merge by chunks\<close>

text \<open>The merge of one chunk: the changed side, or the observed one when both changed it differently.\<close>

definition three_way :: "str list \<Rightarrow> str list \<Rightarrow> str list \<Rightarrow> str list" where
  "three_way base committed observed =
     (let norm = map normalize_line_endings;
          committed_changed = norm committed \<noteq> norm base; observed_changed = norm observed \<noteq> norm base
      in if committed_changed \<and> observed_changed
         then (if norm committed = norm observed then committed else observed)
         else if committed_changed then committed
         else if observed_changed then observed
         else base)"

text \<open>
  A chunk is given by the numbers of lines it has in the three texts. The chunks from the lines i, j
  and k to the ends: an anchor is one base line that both sides keep, with its two counterparts; any
  other chunk has no base line that both sides keep.
\<close>

fun chunked :: "nat option list \<Rightarrow> nat option list \<Rightarrow> nat \<Rightarrow> nat \<Rightarrow> nat \<Rightarrow> nat \<Rightarrow> nat \<Rightarrow> nat \<Rightarrow> (nat \<times> nat \<times> nat) list \<Rightarrow> bool" where
  "chunked cm om nb nc no i j k [] \<longleftrightarrow> i = nb \<and> j = nc \<and> k = no"
| "chunked cm om nb nc no i j k ((b, c, d) # chunks) \<longleftrightarrow>
     i + b \<le> nb \<and> j + c \<le> nc \<and> k + d \<le> no \<and>
     (b = 1 \<and> c = 1 \<and> d = 1 \<and> cm ! i = Some j \<and> om ! i = Some k \<or>
      (\<forall>x \<in> {i..<i + b}. \<not> is_stable cm om x)) \<and>
     chunked cm om nb nc no (i + b) (j + c) (k + d) chunks"

fun merge_of_chunks :: "str list \<Rightarrow> str list \<Rightarrow> str list \<Rightarrow> nat \<Rightarrow> nat \<Rightarrow> nat \<Rightarrow> (nat \<times> nat \<times> nat) list \<Rightarrow> str list" where
  "merge_of_chunks base committed observed i j k [] = []"
| "merge_of_chunks base committed observed i j k ((b, c, d) # chunks) =
     three_way (slice base i (i + b)) (slice committed j (j + c)) (slice observed k (k + d)) @
     merge_of_chunks base committed observed (i + b) (j + c) (k + d) chunks"

section \<open>Lemmas: lines\<close>

lemma split_preserving_is_split_inclusive: "split_lines_preserving_terminators s = split_inclusive s"
  using terminated_loop_spec [of s "[]" "[]" s 0 0] by (simp add: split_lines_preserving_terminators_def)

lemma split_preserving_normalized:
  "split_lines_preserving_terminators (normalize_line_endings s) =
     map normalize_line_endings (split_lines_preserving_terminators s)"
  by (simp add: split_preserving_is_split_inclusive normalize_is_replace [abs_def] split_inclusive_replace_crlf)

lemma concat_split_preserving [simp]: "concat (split_lines_preserving_terminators s) = s"
  by (simp add: split_preserving_is_split_inclusive)

section \<open>Lemmas: lines that a diff matches\<close>

text \<open>Line x of the old sequence is matched with line y of the new one.\<close>

definition matched :: "DiffOp list \<Rightarrow> nat \<Rightarrow> nat \<Rightarrow> bool" where
  "matched ops x y \<longleftrightarrow> (\<exists>a b n. Equal a b n \<in> set ops \<and> a \<le> x \<and> x < a + n \<and> y = b + (x - a))"

lemma matched_simps [simp]:
  "\<not> matched [] x y"
  "matched (Equal a b n # ops) x y \<longleftrightarrow> a \<le> x \<and> x < a + n \<and> y = b + (x - a) \<or> matched ops x y"
  "matched (Delete a n b # ops) x y \<longleftrightarrow> matched ops x y"
  "matched (Insert a b n # ops) x y \<longleftrightarrow> matched ops x y"
  "matched (Replace a n b m # ops) x y \<longleftrightarrow> matched ops x y"
  by (auto simp: matched_def)

lemma nth_slices_equal:
  "slice old i (i + n) = slice new j (j + n) \<Longrightarrow> i + n \<le> length old \<Longrightarrow> j + n \<le> length new \<Longrightarrow> k < n \<Longrightarrow>
     old ! (i + k) = new ! (j + k)"
  by (drule arg_cong [where f = "\<lambda>l. l ! k"]) (simp add: slice_def)

lemma tiles_matched:
  "tiles old new i j ops \<Longrightarrow> matched ops x y \<Longrightarrow>
     i \<le> x \<and> x < length old \<and> j \<le> y \<and> y < length new \<and> old ! x = new ! y"
proof (induction old new i j ops rule: tiles.induct)
  case (2 old new i j a b n ops)
  show ?case
  proof (cases "matched ops x y")
    case True
    then show ?thesis using 2 by auto
  next
    case False
    then have "i \<le> x" "x < i + n" "y = j + (x - i)" using 2 by auto
    then show ?thesis using 2 nth_slices_equal [of old i n new j "x - i"] by auto
  qed
qed auto

lemma tiles_matched_mono:
  "tiles old new i j ops \<Longrightarrow> matched ops x y \<Longrightarrow> matched ops x' y' \<Longrightarrow> (x < x' \<longrightarrow> y < y') \<and> (x = x' \<longrightarrow> y = y')"
proof (induction old new i j ops rule: tiles.induct)
  case (2 old new i j a b n ops)
  have t: "tiles old new (i + n) (j + n) ops" using 2 by simp
  show ?case
    using 2 tiles_matched [OF t, of x y] tiles_matched [OF t, of x' y'] by auto
qed auto

lemma mark_equal_length [simp]: "length (mark_equal m a b n) = length m"
  by (induction n) auto

lemma mark_equal_nth:
  "a + n \<le> length m \<Longrightarrow> x < length m \<Longrightarrow>
     mark_equal m a b n ! x = (if a \<le> x \<and> x < a + n then Some (b + (x - a)) else m ! x)"
  by (induction n) (auto simp: nth_list_update)

lemma align_loop_spec:
  "tiles old new i j ops \<Longrightarrow> length m = length old \<Longrightarrow>
     \<exists>m'. align_loop m ops = Some m' \<and> length m' = length old \<and>
       (\<forall>x < length old. (\<forall>y. matched ops x y \<longrightarrow> m' ! x = Some y) \<and> ((\<nexists>y. matched ops x y) \<longrightarrow> m' ! x = m ! x))"
proof (induction old new i j ops arbitrary: m rule: tiles.induct)
  case (2 old new i j a b n ops)
  define m1 where "m1 = mark_equal m a b n"
  have t: "tiles old new (i + n) (j + n) ops" and n: "a = i" "b = j" "i + n \<le> length old"
    and len: "length m1 = length old" using 2 by (simp_all add: m1_def)
  obtain m' where m': "align_loop m1 ops = Some m'" "length m' = length old"
      "\<And>x y. x < length old \<Longrightarrow> matched ops x y \<Longrightarrow> m' ! x = Some y"
      "\<And>x. x < length old \<Longrightarrow> \<nexists>y. matched ops x y \<Longrightarrow> m' ! x = m1 ! x"
    using "2.IH" [OF t, of m1] len by blast
  have "m' ! x = Some y" if "x < length old" "a \<le> x" "x < a + n" "y = b + (x - a)" for x y
  proof -
    have "\<nexists>y. matched ops x y" using tiles_matched [OF t] that n by fastforce
    then show ?thesis using m'(4) [of x] that mark_equal_nth [of a n m x b] n 2 by (simp add: m1_def)
  qed
  moreover have "m' ! x = m ! x" if "x < length old" "\<nexists>y. matched (Equal a b n # ops) x y" for x
    using that m'(4) [of x] mark_equal_nth [of a n m x b] n 2 by (auto simp: m1_def)
  ultimately show ?case
    using m' n 2 by (intro exI [of _ m']) (auto simp: m1_def)
qed auto

text \<open>An alignment: lines are matched with equal lines, in the same order.\<close>

definition aligned :: "'a list \<Rightarrow> 'a list \<Rightarrow> nat option list \<Rightarrow> bool" where
  "aligned old new m \<longleftrightarrow> length m = length old \<and>
     (\<forall>x < length old. \<forall>y. m ! x = Some y \<longrightarrow> y < length new \<and> old ! x = new ! y) \<and>
     (\<forall>x' < length old. \<forall>x < x'. \<forall>y y'. m ! x = Some y \<longrightarrow> m ! x' = Some y' \<longrightarrow> y < y')"

lemma alignedD:
  assumes "aligned old new m"
  shows "length m = length old"
    and "x < length old \<Longrightarrow> m ! x = Some y \<Longrightarrow> y < length new \<and> old ! x = new ! y"
    and "x < x' \<Longrightarrow> x' < length old \<Longrightarrow> m ! x = Some y \<Longrightarrow> m ! x' = Some y' \<Longrightarrow> y < y'"
  using assms unfolding aligned_def by blast+

lemma align_to_base_aligned:
  assumes "valid_diff base side (diff base side)"
  shows "\<exists>m. align_to_base diff base side = Some m \<and> aligned base side m"
proof -
  define ops where "ops = capture_diff_slices diff base side"
  have t: "tiles base side 0 0 ops" unfolding ops_def using assms by (rule capture_diff_slices_tiles)
  obtain m where m: "align_loop (replicate (length base) None) ops = Some m" "length m = length base"
      "\<And>x y. x < length base \<Longrightarrow> matched ops x y \<Longrightarrow> m ! x = Some y"
      "\<And>x. x < length base \<Longrightarrow> \<nexists>y. matched ops x y \<Longrightarrow> m ! x = None"
    using align_loop_spec [OF t, of "replicate (length base) None"] by auto
  have "matched ops x y" if "x < length base" "m ! x = Some y" for x y
    using m(3) [OF that(1)] m(4) [OF that(1)] that(2) by (metis option.distinct(1) option.inject)
  then have "aligned base side m"
    unfolding aligned_def using m(2) tiles_matched [OF t] tiles_matched_mono [OF t] by (meson order_less_trans)
  then show ?thesis using m(1) by (simp add: align_to_base_def ops_def)
qed

section \<open>Lemmas: the merge\<close>

lemma checked_slice_Some [simp]: "i \<le> j \<Longrightarrow> j \<le> length xs \<Longrightarrow> checked_slice xs i j = Some (slice xs i j)"
  by (simp add: checked_slice_def)

lemma slice_Nil_iff: "i \<le> j \<Longrightarrow> j \<le> length xs \<Longrightarrow> slice xs i j = [] \<longleftrightarrow> i = j"
  by (auto simp: slice_def)

text \<open>What the loop relies on: the compared lines are the normalised lines, aligned with the base.\<close>

definition merge_input :: "MergeInput \<Rightarrow> bool" where
  "merge_input mi \<longleftrightarrow>
     mi_base_cmp mi = map normalize_line_endings (mi_base mi) \<and>
     mi_committed_cmp mi = map normalize_line_endings (mi_committed mi) \<and>
     mi_observed_cmp mi = map normalize_line_endings (mi_observed mi) \<and>
     aligned (mi_base_cmp mi) (mi_committed_cmp mi) (mi_committed_map mi) \<and>
     aligned (mi_base_cmp mi) (mi_observed_cmp mi) (mi_observed_map mi)"

lemma resolve_pending_three_way:
  assumes "merge_input mi" "j \<le> ca" "ca \<le> length (mi_committed mi)" "k \<le> oa" "oa \<le> length (mi_observed mi)"
  shows "resolve_pending mi j ca k oa = Some (three_way [] (slice (mi_committed mi) j ca) (slice (mi_observed mi) k oa))"
  using assms
  by (auto simp: resolve_pending_def three_way_def merge_input_def Let_def slice_Nil_iff slice_map)

lemma resolve_chunk_three_way:
  assumes "merge_input mi" "i \<le> i'" "i' \<le> length (mi_base mi)" "j \<le> ca" "ca \<le> length (mi_committed mi)"
    "k \<le> oa" "oa \<le> length (mi_observed mi)"
  shows "resolve_chunk mi i i' j ca k oa =
    Some (three_way (slice (mi_base mi) i i') (slice (mi_committed mi) j ca) (slice (mi_observed mi) k oa))"
  using assms by (simp add: resolve_chunk_def three_way_def merge_input_def Let_def slice_map)

lemma skip_unstable_spec:
  assumes "base_i \<le> n" "skip_unstable c d n base_i = i'"
  shows "i' \<le> n \<and> (i' < n \<longrightarrow> is_stable c d i') \<and> (\<forall>x \<in> {base_i..<i'}. \<not> is_stable c d x)"
  using assms
proof (induction c d n base_i arbitrary: i' rule: skip_unstable.induct)
  case (1 c d n base_i)
  show ?case
  proof (cases "base_i < n \<and> \<not> is_stable c d base_i")
    case True
    then have "skip_unstable c d n (base_i + 1) = i'" using "1.prems" by (subst (asm) skip_unstable.simps) simp
    with "1.IH" [OF True] True show ?thesis
      by (metis Suc_eq_plus1 Suc_leI atLeastLessThan_iff le_neq_implies_less not_less_eq_eq order_le_less)
  next
    case False
    then have "i' = base_i" using "1.prems" by (subst (asm) skip_unstable.simps) auto
    then show ?thesis using False "1.prems"(1) by auto
  qed
qed

text \<open>The positions the loop reaches: no anchor ahead is before the lines already consumed.\<close>

definition ahead :: "MergeInput \<Rightarrow> nat \<Rightarrow> nat \<Rightarrow> nat \<Rightarrow> bool" where
  "ahead mi i j k \<longleftrightarrow> i \<le> length (mi_base mi) \<and> j \<le> length (mi_committed mi) \<and> k \<le> length (mi_observed mi) \<and>
     (\<forall>x \<ge> i. x < length (mi_base mi) \<longrightarrow>
        (\<forall>y. mi_committed_map mi ! x = Some y \<longrightarrow> j \<le> y) \<and> (\<forall>y. mi_observed_map mi ! x = Some y \<longrightarrow> k \<le> y))"

lemma anchor_facts:
  assumes "merge_input mi" "x < length (mi_base mi)" "is_stable (mi_committed_map mi) (mi_observed_map mi) x"
  obtains ca oa where "mi_committed_map mi ! x = Some ca" "mi_observed_map mi ! x = Some oa"
    "ca < length (mi_committed mi)" "oa < length (mi_observed mi)"
    "normalize_line_endings (mi_committed mi ! ca) = normalize_line_endings (mi_base mi ! x)"
    "normalize_line_endings (mi_observed mi ! oa) = normalize_line_endings (mi_base mi ! x)"
    "ahead mi (x + 1) (ca + 1) (oa + 1)" "ahead mi x ca oa"
proof -
  obtain ca oa where m: "mi_committed_map mi ! x = Some ca" "mi_observed_map mi ! x = Some oa"
    using assms(3) by (auto simp: is_stable_def)
  have al: "aligned (map normalize_line_endings (mi_base mi)) (map normalize_line_endings (mi_committed mi)) (mi_committed_map mi)"
      "aligned (map normalize_line_endings (mi_base mi)) (map normalize_line_endings (mi_observed mi)) (mi_observed_map mi)"
    using assms(1) by (auto simp: merge_input_def)
  have b: "ca < length (mi_committed mi)" "oa < length (mi_observed mi)"
    and e: "normalize_line_endings (mi_committed mi ! ca) = normalize_line_endings (mi_base mi ! x)"
    "normalize_line_endings (mi_observed mi ! oa) = normalize_line_endings (mi_base mi ! x)"
    using alignedD(2) [OF al(1) _ m(1)] alignedD(2) [OF al(2) _ m(2)] assms(2) by simp_all
  have mono: "ca < y" if "x < x'" "x' < length (mi_base mi)" "mi_committed_map mi ! x' = Some y" for x' y
    using alignedD(3) [OF al(1) that(1) _ m(1) that(3)] that(2) by simp
  have mono': "oa < y" if "x < x'" "x' < length (mi_base mi)" "mi_observed_map mi ! x' = Some y" for x' y
    using alignedD(3) [OF al(2) that(1) _ m(2) that(3)] that(2) by simp
  have "ahead mi (x + 1) (ca + 1) (oa + 1)"
    using b assms(2) mono mono' by (auto simp: ahead_def Suc_le_eq)
  moreover have "ahead mi x ca oa"
    unfolding ahead_def
  proof (intro conjI allI impI)
    fix x' y
    assume "x \<le> x'" "x' < length (mi_base mi)"
    then show "ca \<le> y" if "mi_committed_map mi ! x' = Some y"
      using mono [of x' y] that m(1) by (cases "x = x'") auto
    show "oa \<le> y" if "mi_observed_map mi ! x' = Some y"
      using mono' [of x' y] that m(2) \<open>x \<le> x'\<close> \<open>x' < length (mi_base mi)\<close> by (cases "x = x'") auto
  qed (use b assms(2) in simp_all)
  ultimately show thesis using that m b e by blast
qed

lemma three_way_anchor:
  "normalize_line_endings c = normalize_line_endings b \<Longrightarrow> normalize_line_endings d = normalize_line_endings b \<Longrightarrow>
     three_way [b] [c] [d] = [b]"
  by (simp add: three_way_def)

lemma slice_one: "i < length xs \<Longrightarrow> slice xs i (i + 1) = [xs ! i]"
  by (simp add: slice_def take_Suc_conv_app_nth hd_drop_conv_nth take_Suc)

lemma merge_loop_chunks:
  assumes "merge_input mi" "ahead mi i j k"
  shows "\<exists>chunks. chunked (mi_committed_map mi) (mi_observed_map mi) (length (mi_base mi)) (length (mi_committed mi))
             (length (mi_observed mi)) i j k chunks \<and>
           merge_loop mi i j k = Some (merge_of_chunks (mi_base mi) (mi_committed mi) (mi_observed mi) i j k chunks)"
  using assms
proof (induction mi i j k rule: merge_loop.induct)
  case (1 mi i j k)
  let ?cm = "mi_committed_map mi" and ?om = "mi_observed_map mi" and ?b = "mi_base mi"
  let ?c = "mi_committed mi" and ?o = "mi_observed mi"
  have le: "i \<le> length ?b" "j \<le> length ?c" "k \<le> length ?o" using "1.prems" by (auto simp: ahead_def)
  consider (stable) "i < length ?b" "is_stable ?cm ?om i" | (chunk) "i < length ?b" "\<not> is_stable ?cm ?om i"
    | (finish) "i = length ?b" using le by linarith
  then show ?case
  proof cases
    case stable
    obtain ca oa where a: "?cm ! i = Some ca" "?om ! i = Some oa" "ca < length ?c" "oa < length ?o"
        "normalize_line_endings (?c ! ca) = normalize_line_endings (?b ! i)"
        "normalize_line_endings (?o ! oa) = normalize_line_endings (?b ! i)" "ahead mi (i + 1) (ca + 1) (oa + 1)"
      using anchor_facts [OF "1.prems"(1) stable] by blast
    have jk: "j \<le> ca" "k \<le> oa" using "1.prems"(2) stable(1) a(1,2) by (auto simp: ahead_def)
    have pend: "resolve_pending mi j ca k oa = Some (three_way [] (slice ?c j ca) (slice ?o k oa))"
      using "1.prems"(1) jk a(3,4) by (intro resolve_pending_three_way) simp_all
    obtain chunks where ch: "chunked ?cm ?om (length ?b) (length ?c) (length ?o) (i + 1) (ca + 1) (oa + 1) chunks"
        "merge_loop mi (i + 1) (ca + 1) (oa + 1) = Some (merge_of_chunks ?b ?c ?o (i + 1) (ca + 1) (oa + 1) chunks)"
      using "1.IH"(1) [OF stable refl refl, of "three_way [] (slice ?c j ca) (slice ?o k oa)"] a pend "1.prems"(1) by auto
    have "merge_loop mi i j k = Some (three_way [] (slice ?c j ca) (slice ?o k oa) @ [?b ! i] @
        merge_of_chunks ?b ?c ?o (i + 1) (ca + 1) (oa + 1) chunks)"
      using stable a pend ch(2) by (subst merge_loop.simps) simp
    moreover have "chunked ?cm ?om (length ?b) (length ?c) (length ?o) i j k ((0, ca - j, oa - k) # (1, 1, 1) # chunks)"
      using ch(1) stable(1) a jk by simp
    ultimately show ?thesis
      using jk a stable(1) three_way_anchor [OF a(5,6)] slice_one [of i ?b] slice_one [of ca ?c] slice_one [of oa ?o]
      by (intro exI [of _ "(0, ca - j, oa - k) # (1, 1, 1) # chunks"]) simp
  next
    case chunk
    define i' where "i' = skip_unstable ?cm ?om (length ?b) i"
    have i': "i' \<le> length ?b" "i' < length ?b \<longrightarrow> is_stable ?cm ?om i'" "\<forall>x \<in> {i..<i'}. \<not> is_stable ?cm ?om x"
      using skip_unstable_spec [OF le(1) i'_def [symmetric]] by blast+
    have ii: "i \<le> i'" unfolding i'_def by (rule skip_unstable_le)
    define ca where "ca = (if i' < length ?b then the (?cm ! i') else length ?c)"
    define oa where "oa = (if i' < length ?b then the (?om ! i') else length ?o)"
    have a: "j \<le> ca" "ca \<le> length ?c" "k \<le> oa" "oa \<le> length ?o" "ahead mi i' ca oa"
    proof -
      have "j \<le> ca \<and> ca \<le> length ?c \<and> k \<le> oa \<and> oa \<le> length ?o \<and> ahead mi i' ca oa"
      proof (cases "i' < length ?b")
        case True
        obtain ca' oa' where f: "?cm ! i' = Some ca'" "?om ! i' = Some oa'" "ca' < length ?c" "oa' < length ?o"
            "ahead mi i' ca' oa'"
          using anchor_facts [OF "1.prems"(1) True] i'(2) True by blast
        then have "j \<le> ca'" "k \<le> oa'" using "1.prems"(2) True ii unfolding ahead_def by blast+
        then show ?thesis using f True by (simp add: ca_def oa_def)
      next
        case False
        then show ?thesis using le i'(1) by (simp add: ca_def oa_def ahead_def)
      qed
      then show "j \<le> ca" "ca \<le> length ?c" "k \<le> oa" "oa \<le> length ?o" "ahead mi i' ca oa" by blast+
    qed
    have res: "resolve_chunk mi i i' j ca k oa = Some (three_way (slice ?b i i') (slice ?c j ca) (slice ?o k oa))"
      using "1.prems"(1) ii i'(1) a by (intro resolve_chunk_three_way) simp_all
    obtain chunks where ch: "chunked ?cm ?om (length ?b) (length ?c) (length ?o) i' ca oa chunks"
        "merge_loop mi i' ca oa = Some (merge_of_chunks ?b ?c ?o i' ca oa chunks)"
      using "1.IH"(2) [OF chunk refl i'_def, of "(ca, oa)" ca oa] res a(5) "1.prems"(1)
      by (auto simp: ca_def oa_def split: if_splits)
    have "merge_loop mi i j k = Some (three_way (slice ?b i i') (slice ?c j ca) (slice ?o k oa) @ merge_of_chunks ?b ?c ?o i' ca oa chunks)"
      using chunk res ch(2) by (subst merge_loop.simps) (auto simp: i'_def [symmetric] ca_def oa_def Let_def split: if_splits)
    then show ?thesis
      using ch(1) ii i' a by (intro exI [of _ "(i' - i, ca - j, oa - k) # chunks"]) simp
  next
    case finish
    have "merge_loop mi i j k = Some (three_way [] (slice ?c j (length ?c)) (slice ?o k (length ?o)))"
      using finish le resolve_pending_three_way [OF "1.prems"(1)] by (subst merge_loop.simps) simp
    then show ?thesis
      using finish le by (intro exI [of _ "[(0, length ?c - j, length ?o - k)]"]) simp
  qed
qed

section \<open>Lemmas: hunks between contents\<close>

lemma uint_of_nat_u32: "n \<le> 4294967295 \<Longrightarrow> uint (of_nat n :: u32) = int n"
  by (simp add: unsigned_of_nat take_bit_nat_eq_self)

lemma uint_of_nat_u32_Suc:
  "n < 4294967295 \<Longrightarrow> uint (of_nat n + 1 :: u32) = int n + 1" "n < 4294967295 \<Longrightarrow> uint (1 + of_nat n :: u32) = int n + 1"
  by (simp_all add: uint_of_nat_u32 uint_u32_add)

lemma of_nat_u32_zero: "n \<le> 4294967295 \<Longrightarrow> (of_nat n :: u32) = 0 \<longleftrightarrow> n = 0"
  by (simp add: u32_zero_iff uint_of_nat_u32)

definition hunks_of :: "DiffOp list \<Rightarrow> DiffHunk list" where
  "hunks_of ops = List.map_filter hunk_of_op ops"

lemma hunks_of_simps [simp]:
  "hunks_of [] = []"
  "hunks_of (Equal a b n # ops) = hunks_of ops"
  "hunks_of (Delete a n b # ops) =
     \<lparr>hk_old_start = of_nat a + 1, hk_old_count = of_nat n, hk_new_start = of_nat b + 1, hk_new_count = 0\<rparr> # hunks_of ops"
  "hunks_of (Insert a b n # ops) =
     \<lparr>hk_old_start = of_nat a, hk_old_count = 0, hk_new_start = of_nat b + 1, hk_new_count = of_nat n\<rparr> # hunks_of ops"
  "hunks_of (Replace a n b m # ops) =
     \<lparr>hk_old_start = of_nat a + 1, hk_old_count = of_nat n, hk_new_start = of_nat b + 1, hk_new_count = of_nat m\<rparr> # hunks_of ops"
  by (simp_all add: hunks_of_def hunk_of_op_def map_filter_simps)

lemma ordered_hunks_earlier: "ordered_hunks p hs \<Longrightarrow> p' \<le> p \<Longrightarrow> ordered_hunks p' hs"
  by (cases hs) auto

lemmas u32_small = uint_of_nat_u32 uint_of_nat_u32_Suc of_nat_u32_zero

lemma tiles_ordered_hunks:
  "tiles old new i j ops \<Longrightarrow> length old < 4294967295 \<Longrightarrow> length new \<le> 4294967295 \<Longrightarrow>
     ordered_hunks (int i + 1) (hunks_of ops)"
proof (induction old new i j ops rule: tiles.induct)
  case (2 old new i j a b n ops)
  then show ?case by (auto elim: ordered_hunks_earlier)
qed (auto simp: u32_small ac_simps dest: tiles_bounds)

lemma op_before:
  assumes "uint l = int x + 1" "i + n \<le> x" "i + n < 4294967295" "0 < n"
  shows "hunk_before \<lparr>hk_old_start = of_nat i + 1, hk_old_count = of_nat n, hk_new_start = s, hk_new_count = c\<rparr> l"
    and "\<not> hunk_deletes \<lparr>hk_old_start = of_nat i + 1, hk_old_count = of_nat n, hk_new_start = s, hk_new_count = c\<rparr> l"
  using assms by (auto simp: hunk_before_def hunk_deletes_def u32_small word_less_def)

lemma tiles_kept_line:
  "tiles old new i j ops \<Longrightarrow> length old < 4294967295 \<Longrightarrow> length new \<le> 4294967295 \<Longrightarrow> matched ops x y \<Longrightarrow>
     uint l = int x + 1 \<Longrightarrow> \<not> deleted (hunks_of ops) l \<and> new_line (hunks_of ops) l + (int j - int i) = int y + 1"
proof (induction old new i j ops rule: tiles.induct)
  case (2 old new i j a b n ops)
  have t: "tiles old new (i + n) (j + n) ops" using 2 by simp
  show ?case
  proof (cases "matched ops x y")
    case True
    then show ?thesis using 2 by simp
  next
    case False
    then have "i \<le> x" "x < i + n" "y = j + (x - i)" using 2 by auto
    then show ?thesis
      using before_hunks [OF tiles_ordered_hunks [OF t 2(3,4)], of l] 2(6) by simp
  qed
next
  case (3 old new i j a n b ops)
  have t: "tiles old new (i + n) j ops" and n: "a = i" "b = j" "i + n \<le> length old" using 3 by simp_all
  have "i + n \<le> x" using tiles_matched [OF t, of x y] 3 by simp
  note b = op_before [OF 3(6) this]
  show ?case using 3 n b by (simp add: new_line_Cons u32_small)
next
  case (4 old new i j a b n ops)
  have t: "tiles old new i (j + n) ops" and n: "a = i" "b = j" "j + n \<le> length new" "i \<le> length old"
    using 4 tiles_bounds [of old new i "j + n" ops] by simp_all
  have "i \<le> x" using tiles_matched [OF t, of x y] 4 by simp
  then show ?case using 4 n by (simp add: new_line_Cons hunk_before_def hunk_deletes_def word_less_def u32_small)
next
  case (5 old new i j a n b m ops)
  have t: "tiles old new (i + n) (j + m) ops" and n: "a = i" "b = j" "i + n \<le> length old" "j + m \<le> length new" using 5 by simp_all
  have "i + n \<le> x" using tiles_matched [OF t, of x y] 5 by simp
  note b = op_before [OF 5(6) this]
  show ?case using 5 n b by (simp add: new_line_Cons u32_small)
qed simp

lemma op_deletes:
  assumes "uint l = int x + 1" "i \<le> x" "x < i + n" "i + n < 4294967295"
  shows "hunk_deletes \<lparr>hk_old_start = of_nat i + 1, hk_old_count = of_nat n, hk_new_start = s, hk_new_count = c\<rparr> l"
  using assms by (simp add: hunk_deletes_def u32_small)

lemma tiles_deleted_line:
  "tiles old new i j ops \<Longrightarrow> length old < 4294967295 \<Longrightarrow> i \<le> x \<Longrightarrow> x < length old \<Longrightarrow> \<nexists>y. matched ops x y \<Longrightarrow>
     uint l = int x + 1 \<Longrightarrow> deleted (hunks_of ops) l"
proof (induction old new i j ops rule: tiles.induct)
  case (2 old new i j a b n ops)
  then show ?case by (cases "x < i + n") auto
next
  case (3 old new i j a n b ops)
  then show ?case using op_deletes [OF 3(7) 3(4)] by (cases "x < i + n") auto
next
  case (5 old new i j a n b m ops)
  then show ?case using op_deletes [OF 5(7) 5(4)] by (cases "x < i + n") auto
qed auto

text \<open>Line m of the new content is the old line l, kept by the diff of the normalised contents.\<close>

definition content_lines :: "str \<Rightarrow> str list" where
  "content_lines content = split_lines_preserving_terminators (normalize_line_endings content)"

definition keeps_line :: "str differ \<Rightarrow> str \<Rightarrow> str \<Rightarrow> u32 \<Rightarrow> u32 \<Rightarrow> bool" where
  "keeps_line diff old new l m \<longleftrightarrow> 1 \<le> l \<and> 1 \<le> m \<and>
     matched (capture_diff_slices diff (content_lines old) (content_lines new)) (unat l - 1) (unat m - 1)"

lemma u32_one_le: "(1 :: u32) \<le> l \<longleftrightarrow> 1 \<le> unat l"
  by (simp add: word_le_nat_alt)

lemma int_unat: "int (unat w) = uint w"
  by simp

lemma carried_iff_keeps_line:
  assumes "valid_diff (content_lines old) (content_lines new) (diff (content_lines old) (content_lines new))"
    and "length (content_lines old) < 4294967295" "length (content_lines new) \<le> 4294967295"
    and "1 \<le> l" "unat l \<le> length (content_lines old)"
  shows "carried (diff_hunks_between_contents diff old new) l m \<longleftrightarrow> keeps_line diff old new l m"
    and "movable (diff_hunks_between_contents diff old new) l"
proof -
  define ops where "ops = capture_diff_slices diff (content_lines old) (content_lines new)"
  have t: "tiles (content_lines old) (content_lines new) 0 0 ops"
    unfolding ops_def using assms(1) by (rule capture_diff_slices_tiles)
  have h: "diff_hunks_between_contents diff old new = hunks_of ops"
    by (simp add: diff_hunks_between_contents_def hunks_of_def ops_def content_lines_def)
  define x where "x = unat l - 1"
  have x: "uint l = int x + 1" "x < length (content_lines old)"
    using assms(4,5) int_unat [of l] by (simp_all add: x_def u32_one_le)
  have kept: "\<not> deleted (hunks_of ops) l \<and> new_line (hunks_of ops) l = int y + 1 \<and> y < length (content_lines new)"
    if "matched ops x y" for y
    using tiles_kept_line [OF t assms(2,3) that x(1)] tiles_matched [OF t that] by simp
  have gone: "deleted (hunks_of ops) l" if "\<nexists>y. matched ops x y"
    using tiles_deleted_line [OF t assms(2) _ x(2) that x(1)] by simp
  have "carried (hunks_of ops) l m \<longleftrightarrow> 1 \<le> m \<and> matched ops x (unat m - 1)"
  proof
    assume "carried (hunks_of ops) l m"
    then have c: "\<not> deleted (hunks_of ops) l" "uint m = new_line (hunks_of ops) l" by (auto simp: carried_def)
    then obtain y where y: "matched ops x y" using gone by blast
    then have "int (unat m) = int y + 1" using kept [OF y] c(2) unfolding int_unat by simp
    then have "unat m = y + 1" by linarith
    then show "1 \<le> m \<and> matched ops x (unat m - 1)" using y by (simp add: u32_one_le)
  next
    assume m: "1 \<le> m \<and> matched ops x (unat m - 1)"
    then show "carried (hunks_of ops) l m"
      using kept [of "unat m - 1"] assms(4) int_unat [of m] by (auto simp: carried_def u32_one_le of_nat_diff)
  qed
  then show "carried (diff_hunks_between_contents diff old new) l m \<longleftrightarrow> keeps_line diff old new l m"
    using assms(4) by (auto simp: h keeps_line_def ops_def x_def)
  show "movable (diff_hunks_between_contents diff old new) l"
  proof (cases "\<exists>y. matched ops x y")
    case True
    then obtain y where "matched ops x y" by blast
    from kept [OF this] show ?thesis using assms(3,4) by (simp add: movable_def h)
  next
    case False
    then show ?thesis using gone assms(4) by (simp add: movable_def h)
  qed
qed

section \<open>Lemmas: subsequences of lines\<close>

lemma sequence_loop_subseq: "needle \<noteq> [] \<Longrightarrow> sequence_loop needle hay \<longleftrightarrow> subseq needle hay"
proof (induction needle hay rule: sequence_loop.induct)
  case (3 n ns h hay)
  then show ?case by (cases "ns = []") (auto simp: subseq_Cons2_iff)
qed auto

lemma line_sequence_contains_iff:
  "line_sequence_contains needle haystack \<longleftrightarrow> subseq (content_lines needle) (content_lines haystack)"
  by (cases "content_lines needle = []")
    (simp_all add: line_sequence_contains_def sequence_loop_subseq content_lines_def Let_def)

section \<open>A diff\<close>

text \<open>A diff of contents: hunks given by what was inserted and removed.\<close>

definition sample_diff :: "str differ" where
  "sample_diff old new =
     (if length old = 3 \<and> length new = 5
      then [\<lparr>before_start = 1, before_end = 1, after_start = 1, after_end = 2\<rparr>,
            \<lparr>before_start = 2, before_end = 2, after_start = 3, after_end = 4\<rparr>]
      else if length old = 3 \<and> length new = 2
      then [\<lparr>before_start = 1, before_end = 2, after_start = 1, after_end = 1\<rparr>]
      else [\<lparr>before_start = 0, before_end = length old, after_start = 0, after_end = length new\<rparr>])"

definition sample_base :: str where "sample_base = ''a'' @ [newline] @ ''b'' @ [newline] @ ''c'' @ [newline]"
definition sample_target :: str where "sample_target = ''a'' @ [newline] @ ''c'' @ [newline]"
definition sample_observed :: str where
  "sample_observed = ''a'' @ [newline] @ ''x'' @ [newline] @ ''b'' @ [newline] @ ''y'' @ [newline] @ ''c'' @ [newline]"

section \<open>Properties\<close>



text \<open>C29. Shifting line attributions through the hunks between two contents gives a line of the new
  content exactly the authors of the old line it was matched with, and that line has the same text up
  to its line ending; a line that was matched with none has no author.\<close>

theorem line_attributions_follow_contents:
  assumes "valid_diff (content_lines old) (content_lines new) (diff (content_lines old) (content_lines new))"
    and "length (content_lines old) < 4294967295" "length (content_lines new) \<le> 4294967295"
    and "\<And>l. authored attrs author ov l \<Longrightarrow> 1 \<le> l \<and> unat l \<le> length (content_lines old)"
  shows "(authored (apply_hunk_shifts_to_line_attributions attrs (diff_hunks_between_contents diff old new)) author ov m \<longleftrightarrow>
            (\<exists>l. authored attrs author ov l \<and> keeps_line diff old new l m)) \<and>
         (\<forall>l. keeps_line diff old new l m \<longrightarrow> content_lines old ! (unat l - 1) = content_lines new ! (unat m - 1))"
proof
  have t: "tiles (content_lines old) (content_lines new) 0 0 (capture_diff_slices diff (content_lines old) (content_lines new))"
    using assms(1) by (rule capture_diff_slices_tiles)
  have h: "diff_hunks_between_contents diff old new = hunks_of (capture_diff_slices diff (content_lines old) (content_lines new))"
    by (simp add: diff_hunks_between_contents_def hunks_of_def content_lines_def)
  have v: "valid_hunks (diff_hunks_between_contents diff old new)"
    using tiles_ordered_hunks [OF t assms(2,3)] by (simp add: h valid_hunks_def)
  have k: "movable (diff_hunks_between_contents diff old new) l"
      "carried (diff_hunks_between_contents diff old new) l m \<longleftrightarrow> keeps_line diff old new l m"
    if "authored attrs author ov l" for l
    using carried_iff_keeps_line [where diff = diff, OF assms(1-3)] assms(4) [OF that] by simp_all
  show "authored (apply_hunk_shifts_to_line_attributions attrs (diff_hunks_between_contents diff old new)) author ov m \<longleftrightarrow>
      (\<exists>l. authored attrs author ov l \<and> keeps_line diff old new l m)"
    using line_attributions_follow_diff [OF v k(1)] k(2) by blast
  show "\<forall>l. keeps_line diff old new l m \<longrightarrow> content_lines old ! (unat l - 1) = content_lines new ! (unat m - 1)"
    using tiles_matched [OF t] by (auto simp: keeps_line_def)
qed

theorem line_attributions_follow_contents_witness:
  "authored (apply_hunk_shifts_to_line_attributions [LineAttribution_new 2 2 ''ai'' None]
      (diff_hunks_between_contents sample_diff sample_base sample_observed)) ''ai'' None 3 \<longleftrightarrow>
   (\<exists>l. authored [LineAttribution_new 2 2 ''ai'' None] ''ai'' None l \<and> keeps_line sample_diff sample_base sample_observed l 3)"
proof (rule line_attributions_follow_contents [THEN conjunct1])
  show "valid_diff (content_lines sample_base) (content_lines sample_observed)
      (sample_diff (content_lines sample_base) (content_lines sample_observed))" by code_simp
  have len: "length (content_lines sample_base) = 3" "length (content_lines sample_observed) = 5" by code_simp+
  then show "length (content_lines sample_base) < 4294967295" "length (content_lines sample_observed) \<le> 4294967295"
    by simp_all
  fix l assume "authored [LineAttribution_new 2 2 ''ai'' None] ''ai'' None l"
  then have "l = 2" by (auto simp: authored_def line_attributed_def)
  then show "1 \<le> l \<and> unat l \<le> length (content_lines sample_base)" using len by simp
qed

end
