(* ===== verification/Checkout_Rebase.thy ===== *)
theory Checkout_Rebase
  imports Carryover_Merge "HOL-Library.Product_Lexorder"
begin

text \<open>
  Edits carried over a checkout (\<open>src/authorship/virtual_attribution.rs\<close>,
  \<open>checkout_merge_rebased_content\<close>): the edits that lead from the base of the checkout to the observed
  content are mapped to lines of the target and applied there, from the last to the first.
\<close>

section \<open>Mapping lines\<close>

definition get_flat :: "nat option list \<Rightarrow> nat \<Rightarrow> nat option" where
  "get_flat base_to_target i = (if i < length base_to_target then base_to_target ! i else None)"

definition mapped_insertion_point :: "nat option list \<Rightarrow> nat \<Rightarrow> (nat \<times> nat) option" where
  "mapped_insertion_point base_to_target old_index =
     (if base_to_target = [] then Some (0, 0)
      else case (if 0 < old_index then get_flat base_to_target (old_index - 1) else None) of
             Some previous \<Rightarrow> Some (previous + 1, previous + 1)
           | None \<Rightarrow>
               (case get_flat base_to_target old_index of
                  Some next \<Rightarrow> Some (next, next)
                | None \<Rightarrow> None))"

definition mapped_line_range :: "nat option list \<Rightarrow> nat \<Rightarrow> nat \<Rightarrow> (nat \<times> nat) option" where
  "mapped_line_range base_to_target old_index old_len =
     (if old_len = 0 then mapped_insertion_point base_to_target old_index
      else case get_flat base_to_target old_index of
             None \<Rightarrow> None
           | Some first \<Rightarrow>
               if list_all (\<lambda>offset. get_flat base_to_target (old_index + offset) = Some (first + offset)) [0..<old_len]
               then Some (first, first + old_len) else None)"

type_synonym change = "nat \<times> nat \<times> nat \<times> nat"

text \<open>The initial value \<open>usize::MAX\<close> of the start stands for none.\<close>

definition no_target :: nat where
  "no_target = 2 ^ 64 - 1"

definition widen_conflict :: "nat \<Rightarrow> nat \<Rightarrow> change \<Rightarrow> nat \<times> nat \<Rightarrow> nat \<times> nat" where
  "widen_conflict old_index old_end change acc =
     (case change of (change_old_start, change_old_end, change_target_start, change_target_end) \<Rightarrow>
        if change_old_start < old_end \<and> old_index < change_old_end
        then (min (fst acc) change_target_start, max (snd acc) change_target_end) else acc)"

definition mapped_conflict_range :: "change list \<Rightarrow> nat \<Rightarrow> nat \<Rightarrow> (nat \<times> nat) option" where
  "mapped_conflict_range target_changes old_index old_len =
     (if old_len = 0 then None
      else let (target_start, target_end) =
             fold (widen_conflict old_index (old_index + old_len)) target_changes (no_target, 0)
           in if target_start = no_target then None else Some (target_start, target_end))"

definition strip_last :: "char \<Rightarrow> str \<Rightarrow> str" where
  "strip_last c line = (if line \<noteq> [] \<and> last line = c then butlast line else line)"

definition line_without_terminator :: "str \<Rightarrow> str" where
  "line_without_terminator line = strip_last carriage_return (strip_last newline line)"

text \<open>Base lines whose only change is the line ending are mapped too.\<close>

definition mark_used :: "bool list \<Rightarrow> nat option list \<Rightarrow> bool list" where
  "mark_used used base_to_target =
     fold (\<lambda>t used. case t of Some target_index \<Rightarrow> used[target_index := True] | None \<Rightarrow> used) base_to_target used"

fun fill_loop :: "str list \<Rightarrow> str list \<Rightarrow> nat \<Rightarrow> nat option list \<Rightarrow> bool list \<Rightarrow> nat \<Rightarrow> nat option list" where
  "fill_loop target_lines [] base_index base_to_target used_targets search_start = base_to_target"
| "fill_loop target_lines (base_line # rest) base_index base_to_target used_targets search_start =
     (case base_to_target ! base_index of
        Some target_index \<Rightarrow>
          fill_loop target_lines rest (base_index + 1) base_to_target used_targets (max search_start (target_index + 1))
      | None \<Rightarrow>
          (case find (\<lambda>t. \<not> used_targets ! t \<and>
                         line_without_terminator (target_lines ! t) = line_without_terminator base_line)
                  [search_start..<length target_lines] of
             Some target_index \<Rightarrow>
               fill_loop target_lines rest (base_index + 1) (base_to_target[base_index := Some target_index])
                 (used_targets[target_index := True]) (target_index + 1)
           | None \<Rightarrow> fill_loop target_lines rest (base_index + 1) base_to_target used_targets search_start))"

definition fill_line_ending_only_mappings :: "str list \<Rightarrow> str list \<Rightarrow> nat option list \<Rightarrow> nat option list" where
  "fill_line_ending_only_mappings base_lines target_lines base_to_target =
     fill_loop target_lines base_lines 0 base_to_target
       (mark_used (replicate (length target_lines) False) base_to_target) 0"

section \<open>Edits\<close>

definition target_change :: "DiffOp \<Rightarrow> change option" where
  "target_change op =
     (case op of
        Delete old_index old_len new_index \<Rightarrow> Some (old_index, old_index + old_len, new_index, new_index)
      | Replace old_index old_len new_index new_len \<Rightarrow>
          Some (old_index, old_index + old_len, new_index, new_index + new_len)
      | _ \<Rightarrow> None)"

type_synonym edit = "nat \<times> nat \<times> str list"

definition or_conflict :: "nat option list \<Rightarrow> change list \<Rightarrow> nat \<Rightarrow> nat \<Rightarrow> (nat \<times> nat) option" where
  "or_conflict base_to_target target_changes old_index old_len =
     (case mapped_line_range base_to_target old_index old_len of
        Some r \<Rightarrow> Some r
      | None \<Rightarrow> mapped_conflict_range target_changes old_index old_len)"

fun collect_edits :: "str list \<Rightarrow> nat option list \<Rightarrow> change list \<Rightarrow> DiffOp list \<Rightarrow> edit list option" where
  "collect_edits observed_lines base_to_target target_changes [] = Some []"
| "collect_edits observed_lines base_to_target target_changes (op # ops) =
     (let rest = collect_edits observed_lines base_to_target target_changes ops
      in case op of
           Equal _ _ _ \<Rightarrow> rest
         | Insert old_index new_index new_len \<Rightarrow>
             (case mapped_line_range base_to_target old_index 0 of
                None \<Rightarrow> rest
              | Some (start, stop) \<Rightarrow>
                  (case checked_slice observed_lines new_index (new_index + new_len) of
                     None \<Rightarrow> None
                   | Some lines \<Rightarrow> map_option (\<lambda>edits. (start, stop, lines) # edits) rest))
         | Delete old_index old_len _ \<Rightarrow>
             (case or_conflict base_to_target target_changes old_index old_len of
                None \<Rightarrow> rest
              | Some (start, stop) \<Rightarrow> map_option (\<lambda>edits. (start, stop, []) # edits) rest)
         | Replace old_index old_len new_index new_len \<Rightarrow>
             (case or_conflict base_to_target target_changes old_index old_len of
                None \<Rightarrow> rest
              | Some (start, stop) \<Rightarrow>
                  (case checked_slice observed_lines new_index (new_index + new_len) of
                     None \<Rightarrow> None
                   | Some lines \<Rightarrow> map_option (\<lambda>edits. (start, stop, lines) # edits) rest)))"

definition sort_edits :: "edit list \<Rightarrow> edit list" where
  "sort_edits edits = sort_key (\<lambda>(start, stop, _). (- int start, - int stop)) edits"

definition apply_edit :: "edit \<Rightarrow> str list \<Rightarrow> str list" where
  "apply_edit e rebased =
     (case e of (start, stop, replacement) \<Rightarrow>
        if start \<le> stop \<and> stop \<le> length rebased then take start rebased @ replacement @ drop stop rebased
        else rebased)"

definition checkout_merge_rebased_content :: "str differ \<Rightarrow> str \<Rightarrow> str \<Rightarrow> str \<Rightarrow> str option" where
  "checkout_merge_rebased_content diff base_content target_content observed_content =
     (if base_content = target_content then Some observed_content
      else if base_content = observed_content then Some target_content
      else
        let base_lines = split_lines_preserving_terminators base_content;
            target_lines = split_lines_preserving_terminators target_content;
            observed_lines = split_lines_preserving_terminators observed_content;
            target_ops = capture_diff_slices diff base_lines target_lines
        in case align_loop (replicate (length base_lines) None) target_ops of
             None \<Rightarrow> None
           | Some base_to_target \<Rightarrow>
               let base_to_target = fill_line_ending_only_mappings base_lines target_lines base_to_target
               in map_option (\<lambda>edits. concat (fold apply_edit (sort_edits edits) target_lines))
                    (collect_edits observed_lines base_to_target (List.map_filter target_change target_ops)
                      (capture_diff_slices diff base_lines observed_lines)))"

section \<open>Lemmas: mappings\<close>

lemma length_fill_loop [simp]: "length (fill_loop ts bs i m used s) = length m"
  by (induction ts bs i m used s rule: fill_loop.induct) (auto split: option.splits)

text \<open>Filling keeps what was mapped, and maps no two base lines to one target line.\<close>

definition injective_map :: "nat option list \<Rightarrow> bool" where
  "injective_map m \<longleftrightarrow> (\<forall>i < length m. \<forall>j < length m. m ! i \<noteq> None \<longrightarrow> m ! i = m ! j \<longrightarrow> i = j)"

definition marked :: "nat option list \<Rightarrow> bool list \<Rightarrow> bool" where
  "marked m used \<longleftrightarrow> (\<forall>t. Some t \<in> set m \<longrightarrow> t < length used \<longrightarrow> used ! t)"

lemma nth_mark: "t < length used \<Longrightarrow> used[a := True] ! t \<longleftrightarrow> used ! t \<or> a = t"
  by (cases "a = t") auto

lemma mark_used_spec:
  "length (mark_used used m) = length used \<and>
   (\<forall>t < length used. mark_used used m ! t \<longleftrightarrow> used ! t \<or> Some t \<in> set m)"
proof (induction m arbitrary: used)
  case (Cons x m)
  then show ?case by (cases x) (auto simp: mark_used_def nth_mark)
qed (simp add: mark_used_def)

lemma injective_map_update:
  assumes "injective_map m" "Some t \<notin> set m"
  shows "injective_map (m[i := Some t])"
  unfolding injective_map_def
proof (intro allI impI)
  fix a b
  assume *: "a < length (m[i := Some t])" "b < length (m[i := Some t])" "m[i := Some t] ! a \<noteq> None"
    "m[i := Some t] ! a = m[i := Some t] ! b"
  have no: "m ! c \<noteq> Some t" if "c < length m" for c using assms(2) nth_mem [OF that] by auto
  show "a = b"
    using * no [of a] no [of b] assms(1) unfolding injective_map_def
    by (cases "a = i"; cases "b = i") (auto simp: nth_list_update)
qed

lemma fill_loop_injective:
  assumes "injective_map m" "marked m used" "length used = length ts" "i + length bs \<le> length m"
  shows "injective_map (fill_loop ts bs i m used s) \<and>
    (\<forall>j < length m. m ! j \<noteq> None \<longrightarrow> fill_loop ts bs i m used s ! j = m ! j)"
  using assms
proof (induction ts bs i m used s rule: fill_loop.induct)
  case (2 ts b bs i m used s)
  show ?case
  proof (cases "m ! i")
    case None
    define found where "found = find (\<lambda>t. \<not> used ! t \<and> line_without_terminator (ts ! t) = line_without_terminator b) [s..<length ts]"
    show ?thesis
    proof (cases found)
      case (Some t)
      then have t: "t < length ts" "\<not> used ! t"
        unfolding found_def by (auto simp: find_Some_iff)
      then have fresh: "Some t \<notin> set m" using 2(5,6) by (auto simp: marked_def)
      have m': "injective_map (m[i := Some t])" using 2(4) fresh by (rule injective_map_update)
      have u': "marked (m[i := Some t]) (used[t := True])"
        using 2(5) t(1) 2(6) set_update_subset_insert [of m i "Some t"] by (fastforce simp: marked_def nth_list_update)
      have "injective_map (fill_loop ts bs (i + 1) (m[i := Some t]) (used[t := True]) (t + 1)) \<and>
          (\<forall>j < length m. m[i := Some t] ! j \<noteq> None \<longrightarrow>
             fill_loop ts bs (i + 1) (m[i := Some t]) (used[t := True]) (t + 1) ! j = m[i := Some t] ! j)"
        using "2.IH"(2) [OF None] Some m' u' 2(6,7) unfolding found_def by simp
      moreover have "m[i := Some t] ! j = m ! j" if "m ! j \<noteq> None" for j using None that by (cases "i = j") auto
      ultimately show ?thesis
        using None Some unfolding found_def by simp
    next
      case None' : None
      then show ?thesis using 2 None unfolding found_def by simp
    qed
  next
    case (Some t)
    then show ?thesis using 2 by simp
  qed
qed simp

section \<open>Lemmas: no panic\<close>

lemma collect_edits_Some:
  "tiles base observed i j ops \<Longrightarrow> \<exists>edits. collect_edits observed m changes ops = Some edits"
proof (induction base observed i j ops rule: tiles.induct)
  case (3 base observed i j a n b ops)
  then show ?case by (auto simp: Let_def split: option.splits)
next
  case (4 base observed i j a b n ops)
  then show ?case by (auto simp: Let_def checked_slice_def split: option.splits)
next
  case (5 base observed i j a n b k ops)
  then show ?case by (auto simp: Let_def checked_slice_def split: option.splits)
qed auto

lemma checkout_rebase_total:
  assumes "\<And>new. valid_diff (split_lines_preserving_terminators base) new (diff (split_lines_preserving_terminators base) new)"
  shows "\<exists>content. checkout_merge_rebased_content diff base target observed = Some content"
proof -
  let ?b = "split_lines_preserving_terminators base"
  have t: "tiles ?b new 0 0 (capture_diff_slices diff ?b new)" for new
    using assms by (rule capture_diff_slices_tiles)
  obtain m where "align_loop (replicate (length ?b) None)
      (capture_diff_slices diff ?b (split_lines_preserving_terminators target)) = Some m"
    using align_loop_spec [OF t [of "split_lines_preserving_terminators target"], of "replicate (length ?b) None"] by auto
  moreover have "\<exists>edits. collect_edits (split_lines_preserving_terminators observed) m' changes
      (capture_diff_slices diff ?b (split_lines_preserving_terminators observed)) = Some edits" for m' changes
    using collect_edits_Some [OF t] by blast
  ultimately show ?thesis by (auto simp: checkout_merge_rebased_content_def Let_def)
qed

section \<open>Properties\<close>


end
