(* ===== verification/Virtual_Attribution.thy ===== *)
theory Virtual_Attribution
  imports Line_Attributions "HOL-Library.Multiset"
begin

text \<open>
  Virtual attributions (\<open>src/authorship/virtual_attribution.rs\<close>): the attributions of a set of files
  with their contents, prompts, humans and sessions, their conversion to an authorship log and to
  initial attributions, the metrics of prompts and the restriction to a set of commits.

  A hash map is a partial map; where the code iterates over one, the order is an argument that
  enumerates the map (\<open>enumerates\<close>), since Rust leaves it unspecified. The commits of a prompt are a
  \<open>BTreeMap\<close>, iterated in ascending order of the commit ids, and are a list in that order. The Unicode
  normal form of a path (the crate unicode-normalization) is an argument.
\<close>

section \<open>Data\<close>

type_synonym commits = "(str \<times> PromptRecord) list"

record VirtualAttributions =
  va_base_commit :: str
  va_attributions :: "str \<rightharpoonup> Attribution list \<times> LineAttribution list"
  va_file_contents :: "str \<rightharpoonup> str"
  va_prompts :: "str \<rightharpoonup> commits"
  va_ts :: nat
  va_blame_start_commit :: "str option"
  va_humans :: "str \<rightharpoonup> HumanRecord"
  va_initial_only_prompt_ids :: "str set"
  va_sessions :: "str \<rightharpoonup> SessionRecord"
  va_failed_tool_snapshots :: "str \<rightharpoonup> str"

definition get_char_attributions :: "VirtualAttributions \<Rightarrow> str \<Rightarrow> Attribution list option" where
  "get_char_attributions va file_path = map_option fst (va_attributions va file_path)"

definition get_line_attributions :: "VirtualAttributions \<Rightarrow> str \<Rightarrow> LineAttribution list option" where
  "get_line_attributions va file_path = map_option snd (va_attributions va file_path)"

type_synonym 'v enumeration = "(str \<rightharpoonup> 'v) \<Rightarrow> (str \<times> 'v) list"

definition enumerates :: "(str \<times> 'v) list \<Rightarrow> (str \<rightharpoonup> 'v) \<Rightarrow> bool" where
  "enumerates xs m \<longleftrightarrow> distinct (map fst xs) \<and> map_of xs = m"

section \<open>Conversion to an authorship log\<close>

type_synonym ranges = "(u32 \<times> u32) list"

definition saturating_succ :: "u32 \<Rightarrow> u32" where
  "saturating_succ n = (if n = u32_MAX then n else n + 1)"

definition push_range :: "LineAttribution \<Rightarrow> (str \<rightharpoonup> ranges) \<Rightarrow> (str \<rightharpoonup> ranges)" where
  "push_range line_attr author_ranges =
     (if la_author_id line_attr = CheckpointKind_to_str Human then author_ranges
      else author_ranges(la_author_id line_attr \<mapsto>
             (case author_ranges (la_author_id line_attr) of Some rs \<Rightarrow> rs | None \<Rightarrow> []) @
             [(la_start_line line_attr, la_end_line line_attr)]))"

text \<open>The loop over the sorted ranges; \<open>start\<close> and \<open>last_end\<close> are the last one pushed.\<close>

fun merge_range_loop :: "u32 \<Rightarrow> u32 \<Rightarrow> ranges \<Rightarrow> ranges" where
  "merge_range_loop start last_end [] = [(start, last_end)]"
| "merge_range_loop start last_end ((s, e) # rest) =
     (if s \<le> saturating_succ last_end then merge_range_loop start (max last_end e) rest
      else (start, last_end) # merge_range_loop s e rest)"

definition merge_author_ranges :: "ranges \<Rightarrow> ranges" where
  "merge_author_ranges rs =
     (case sort rs of
        [] \<Rightarrow> []
      | (s, e) # rest \<Rightarrow> merge_range_loop s e rest)"

definition author_entry :: "str \<times> ranges \<Rightarrow> AttestationEntry option" where
  "author_entry entry =
     (case entry of (author_id, rs) \<Rightarrow>
        if rs = [] then None
        else Some \<lparr>ae_hash = author_id, ae_line_ranges = map (\<lambda>(s, e). close_run s e) (merge_author_ranges rs)\<rparr>)"

definition file_attestation_of ::
  "(str \<Rightarrow> str) \<Rightarrow> ranges enumeration \<Rightarrow> str \<times> Attribution list \<times> LineAttribution list \<Rightarrow> FileAttestation option" where
  "file_attestation_of nfc author_order f =
     (case f of (file_path, _, line_attrs) \<Rightarrow>
        if line_attrs = [] then None
        else let author_ranges = fold push_range line_attrs Map.empty;
                 entries = List.map_filter author_entry (author_order author_ranges)
             in if entries = [] then None
                else Some \<lparr>fa_file_path = nfc file_path, fa_entries = sort_key ae_hash entries\<rparr>)"

definition build_attestations_from_attributions ::
  "(str \<Rightarrow> str) \<Rightarrow> (Attribution list \<times> LineAttribution list) enumeration \<Rightarrow> ranges enumeration \<Rightarrow>
   (str \<rightharpoonup> Attribution list \<times> LineAttribution list) \<Rightarrow> FileAttestation list" where
  "build_attestations_from_attributions nfc file_order author_order attributions =
     sort_key fa_file_path (List.map_filter (file_attestation_of nfc author_order) (file_order attributions))"

definition first_record :: "commits \<Rightarrow> PromptRecord option" where
  "first_record commits = (case commits of (_, record) # _ \<Rightarrow> Some record | [] \<Rightarrow> None)"

definition to_authorship_log ::
  "str \<Rightarrow> (str \<Rightarrow> str) \<Rightarrow> (Attribution list \<times> LineAttribution list) enumeration \<Rightarrow> ranges enumeration \<Rightarrow>
   VirtualAttributions \<Rightarrow> AuthorshipLog" where
  "to_authorship_log git_ai_version nfc file_order author_order va =
     (let authorship_log = AuthorshipLog_new git_ai_version;
          metadata = (al_metadata authorship_log)
            \<lparr>md_base_commit_sha := va_base_commit va,
             md_prompts := (\<lambda>prompt_id. Option.bind (va_prompts va prompt_id) first_record),
             md_humans := va_humans va, md_sessions := va_sessions va\<rparr>
      in AuthorshipLog_retain_referenced_trace_models
           \<lparr>al_attestations = build_attestations_from_attributions nfc file_order author_order (va_attributions va),
            al_metadata = metadata\<rparr>)"

definition committed_hunks_from_diff_result :: "(str \<rightharpoonup> u32 list) \<Rightarrow> str set option \<Rightarrow> (str \<rightharpoonup> LineRange list)" where
  "committed_hunks_from_diff_result added_lines_by_file pathspecs =
     (\<lambda>file_path. case added_lines_by_file file_path of
        None \<Rightarrow> None
      | Some added_lines \<Rightarrow>
          if (case pathspecs of Some paths \<Rightarrow> file_path \<notin> paths | None \<Rightarrow> False) then None
          else let lines = filter (\<lambda>line. 0 < line) added_lines
               in if lines \<noteq> [] then Some (LineRange_compress_lines lines) else None)"

section \<open>Metrics and commits\<close>

text \<open>The lines of an attribution, counted with \<open>u32\<close> arithmetic.\<close>

definition add_count :: "str \<Rightarrow> u32 \<Rightarrow> (str \<rightharpoonup> u32) \<Rightarrow> (str \<rightharpoonup> u32)" where
  "add_count k n counts = counts(k \<mapsto> (case counts k of Some c \<Rightarrow> c | None \<Rightarrow> 0) + n)"

definition count_accepted :: "LineAttribution \<Rightarrow> (str \<rightharpoonup> u32) \<Rightarrow> (str \<rightharpoonup> u32)" where
  "count_accepted line_attr counts =
     (if la_author_id line_attr = CheckpointKind_to_str Human then counts
      else add_count (la_author_id line_attr) (la_end_line line_attr - la_start_line line_attr + 1) counts)"

definition count_overridden :: "LineAttribution \<Rightarrow> (str \<rightharpoonup> u32) \<Rightarrow> (str \<rightharpoonup> u32)" where
  "count_overridden line_attr counts =
     (case la_overrode line_attr of
        Some overrode_id \<Rightarrow>
          add_count overrode_id (of_nat (card {l. la_start_line line_attr \<le> l \<and> l \<le> la_end_line line_attr})) counts
      | None \<Rightarrow> counts)"

definition get_or_zero :: "(str \<rightharpoonup> u32) \<Rightarrow> str \<Rightarrow> u32" where
  "get_or_zero m k = (case m k of Some n \<Rightarrow> n | None \<Rightarrow> 0)"

definition calculate_and_update_prompt_metrics ::
  "(Attribution list \<times> LineAttribution list) enumeration \<Rightarrow> (str \<rightharpoonup> commits) \<Rightarrow>
   (str \<rightharpoonup> Attribution list \<times> LineAttribution list) \<Rightarrow> (str \<rightharpoonup> u32) \<Rightarrow> (str \<rightharpoonup> u32) \<Rightarrow> (str \<rightharpoonup> commits)" where
  "calculate_and_update_prompt_metrics file_order prompts attributions session_additions session_deletions =
     (let all_line_attributions = concat (map (\<lambda>(_, _, line_attrs). line_attrs) (file_order attributions));
          session_accepted_lines = fold count_accepted all_line_attributions Map.empty;
          session_overridden_lines = fold count_overridden all_line_attributions Map.empty
      in (\<lambda>session_id. map_option (map (\<lambda>(commit, record).
           (commit, record\<lparr>pr_total_additions := get_or_zero session_additions session_id,
                           pr_total_deletions := get_or_zero session_deletions session_id,
                           pr_accepted_lines := get_or_zero session_accepted_lines session_id,
                           pr_overriden_lines := get_or_zero session_overridden_lines session_id\<rparr>)))
         (prompts session_id)))"

definition filter_to_commits :: "str set \<Rightarrow> VirtualAttributions \<Rightarrow> VirtualAttributions" where
  "filter_to_commits commit_shas va =
     (let original_prompt_ids = dom (va_prompts va);
          filtered_prompts = (\<lambda>prompt_id. case va_prompts va prompt_id of
              None \<Rightarrow> None
            | Some commits_map \<Rightarrow>
                let filtered_commits = filter (\<lambda>(commit_sha, _). commit_sha \<in> commit_shas) commits_map
                in if filtered_commits \<noteq> [] then Some filtered_commits else None);
          valid_prompt_ids = dom filtered_prompts
      in va\<lparr>va_prompts := filtered_prompts,
            va_attributions := (\<lambda>file_path. map_option (\<lambda>(char_attrs, _).
              let char_attrs = filter (\<lambda>attr. at_author_id attr \<notin> original_prompt_ids \<or>
                                              at_author_id attr \<in> valid_prompt_ids) char_attrs
              in (char_attrs, attributions_to_line_attributions char_attrs
                    (case va_file_contents va file_path of Some content \<Rightarrow> content | None \<Rightarrow> [])))
              (va_attributions va file_path))\<rparr>)"

section \<open>Initial attributions\<close>

record InitialAttributions =
  ia_files :: "str \<rightharpoonup> LineAttribution list"
  ia_prompts :: "str \<rightharpoonup> PromptRecord"
  ia_file_blobs :: "str \<rightharpoonup> str"
  ia_humans :: "str \<rightharpoonup> HumanRecord"
  ia_sessions :: "str \<rightharpoonup> SessionRecord"

definition session_key_of :: "str \<Rightarrow> str" where
  "session_key_of author_id = (case split_once trace_sep author_id of Some (k, _) \<Rightarrow> k | None \<Rightarrow> author_id)"

definition to_initial_working_log_only ::
  "LineAttribution list enumeration \<Rightarrow> VirtualAttributions \<Rightarrow> InitialAttributions" where
  "to_initial_working_log_only file_order va =
     (let initial_files = (\<lambda>file_path. case va_attributions va file_path of
            None \<Rightarrow> None
          | Some (_, line_attrs) \<Rightarrow>
              let filtered = filter (\<lambda>attr. la_author_id attr \<noteq> CheckpointKind_to_str Human) line_attrs
              in if filtered = [] then None else Some filtered);
          author_ids = map la_author_id (concat (map snd (file_order initial_files)));
          referenced_prompts = set author_ids;
          initial_prompts = (\<lambda>prompt_id. if prompt_id \<in> referenced_prompts
                               then Option.bind (va_prompts va prompt_id) first_record else None);
          initial_humans = (\<lambda>author_id. if author_id \<in> referenced_prompts \<and> starts_with author_id ''h_''
                              then va_humans va author_id else None);
          initial_sessions = (\<lambda>session_key.
             if session_key \<in> session_key_of ` {author_id \<in> referenced_prompts. starts_with author_id ''s_''}
             then va_sessions va session_key else None)
      in \<lparr>ia_files = initial_files, ia_prompts = initial_prompts, ia_file_blobs = Map.empty, ia_humans = initial_humans,
          ia_sessions = retain_referenced_trace_models author_ids initial_sessions\<rparr>)"

section \<open>Lemmas: lists and maps\<close>

lemma enumerates_mem: "enumerates xs m \<Longrightarrow> (k, v) \<in> set xs \<longleftrightarrow> m k = Some v"
  by (auto simp: enumerates_def map_of_eq_Some_iff)

lemma enumerates_mset: "enumerates xs m \<Longrightarrow> enumerates ys m \<Longrightarrow> mset xs = mset ys"
proof (rule set_eq_iff_mset_eq_distinct [THEN iffD1])
  assume *: "enumerates xs m" "enumerates ys m"
  then show "distinct xs" "distinct ys" by (simp_all add: enumerates_def distinct_map)
  show "set xs = set ys" using enumerates_mem [OF *(1)] enumerates_mem [OF *(2)] by auto
qed

lemma map_sort_key: "map f (sort_key f xs) = sort (map f xs)"
  by (rule properties_for_sort [symmetric]) simp_all

text \<open>Sorting by a key that tells the elements apart gives one list, whatever the order was.\<close>

lemma sort_key_unique:
  assumes "mset xs = mset ys" "inj_on f (set xs)"
  shows "sort_key f xs = sort_key f ys"
proof -
  have "set xs = set ys" using assms(1) by (metis set_mset_mset)
  moreover have "sort (map f xs) = sort (map f ys)"
    using assms(1) by (intro properties_for_sort) simp_all
  ultimately show ?thesis
    using assms(2) map_inj_on [of f "sort_key f xs" "sort_key f ys"] by (simp add: map_sort_key)
qed

lemma mset_map_filter: "mset xs = mset ys \<Longrightarrow> mset (List.map_filter f xs) = mset (List.map_filter f ys)"
  by (simp add: List.map_filter_def)

section \<open>Lemmas: ranges of an author\<close>

definition ranges_cover :: "ranges \<Rightarrow> u32 \<Rightarrow> bool" where
  "ranges_cover rs l = list_ex (\<lambda>(s, e). s \<le> l \<and> l \<le> e) rs"

lemma ranges_cover_simps [simp]:
  "\<not> ranges_cover [] l" "ranges_cover ((s, e) # rs) l \<longleftrightarrow> s \<le> l \<and> l \<le> e \<or> ranges_cover rs l"
  by (simp_all add: ranges_cover_def)

lemma close_gap: "s' \<le> saturating_succ e \<Longrightarrow> e < l \<Longrightarrow> s' \<le> (l :: u32)"
proof (cases "e = u32_MAX")
  case False
  assume "s' \<le> saturating_succ e" "e < l"
  then show ?thesis using False inc_le [of e l] by (simp add: saturating_succ_def)
qed simp

lemma merge_range_loop_cover:
  "sorted (map fst ((s, e) # rs)) \<Longrightarrow> ranges_cover (merge_range_loop s e rs) l \<longleftrightarrow> s \<le> l \<and> l \<le> e \<or> ranges_cover rs l"
proof (induction s e rs rule: merge_range_loop.induct)
  case (2 start last_end s e rest)
  show ?case
  proof (cases "s \<le> saturating_succ last_end")
    case True
    then have "ranges_cover (merge_range_loop start last_end ((s, e) # rest)) l \<longleftrightarrow>
        start \<le> l \<and> l \<le> max last_end e \<or> ranges_cover rest l"
      using 2 by simp
    moreover have "start \<le> l \<and> l \<le> max last_end e \<longleftrightarrow> start \<le> l \<and> l \<le> last_end \<or> s \<le> l \<and> l \<le> e"
      using close_gap [OF True, of l] 2(3) order_trans [of start s l] by (cases "l \<le> last_end") (auto simp: max_def)
    ultimately show ?thesis by auto
  next
    case False
    then show ?thesis using 2 by simp
  qed
qed simp

lemma sorted_map_fst: "sorted (rs :: ranges) \<Longrightarrow> sorted (map fst rs)"
  by (intro sorted_map_mono mono_onI) (auto simp: less_eq_prod_def)

lemma merge_author_ranges_cover: "ranges_cover (merge_author_ranges rs) l \<longleftrightarrow> ranges_cover rs l"
proof -
  have "ranges_cover rs l \<longleftrightarrow> ranges_cover (sort rs) l" by (simp add: ranges_cover_def list_ex_iff)
  moreover have "sorted (map fst (sort rs))" by (rule sorted_map_fst) simp
  ultimately show ?thesis
    unfolding merge_author_ranges_def by (auto split: list.splits prod.splits simp: merge_range_loop_cover)
qed

lemma covers_close_runs: "covers (map (\<lambda>(s, e). close_run s e) rs) l \<longleftrightarrow> ranges_cover rs l"
  by (induction rs) auto

definition or_nil :: "'a list option \<Rightarrow> 'a list" where
  "or_nil m = (case m of Some xs \<Rightarrow> xs | None \<Rightarrow> [])"

lemma fold_push_range:
  "or_nil (fold push_range las m a) =
     or_nil (m a) @ map (\<lambda>la. (la_start_line la, la_end_line la))
       (filter (\<lambda>la. la_author_id la = a \<and> a \<noteq> CheckpointKind_to_str Human) las)"
  by (induction las arbitrary: m) (auto simp: push_range_def or_nil_def)

lemma fold_push_range_dom: "finite (dom m) \<Longrightarrow> finite (dom (fold push_range las m))"
  by (induction las arbitrary: m) (auto simp: push_range_def)

lemma fold_push_range_ne: "(\<forall>a. m a \<noteq> Some []) \<Longrightarrow> fold push_range las m a \<noteq> Some []"
  by (induction las arbitrary: m) (auto simp: push_range_def)

section \<open>Lemmas: attestations\<close>

definition attributed_to :: "LineAttribution list \<Rightarrow> str \<Rightarrow> u32 \<Rightarrow> bool" where
  "attributed_to las author l = list_ex (\<lambda>la. la_author_id la = author \<and> line_attributed la l) las"

lemma author_ranges_cover:
  "ranges_cover (or_nil (fold push_range las Map.empty a)) l \<longleftrightarrow>
     a \<noteq> CheckpointKind_to_str Human \<and> attributed_to las a l"
  unfolding fold_push_range
  by (auto simp: or_nil_def ranges_cover_def list_ex_iff attributed_to_def line_attributed_def)

lemma mem_map_filter: "y \<in> set (List.map_filter f xs) \<longleftrightarrow> (\<exists>x \<in> set xs. f x = Some y)"
  by (force simp: List.map_filter_def)

lemma mem_author_entries:
  "e \<in> set (List.map_filter author_entry xs) \<longleftrightarrow>
     (\<exists>a rs. (a, rs) \<in> set xs \<and> rs \<noteq> [] \<and>
        e = \<lparr>ae_hash = a, ae_line_ranges = map (\<lambda>(s, e). close_run s e) (merge_author_ranges rs)\<rparr>)"
  unfolding mem_map_filter Bex_def split_paired_Ex by (auto simp: author_entry_def)

lemma attested_author_entries:
  assumes "enumerates xs (fold push_range las Map.empty)"
  shows "attested (sort_key ae_hash (List.map_filter author_entry xs)) hash l \<longleftrightarrow>
    hash \<noteq> CheckpointKind_to_str Human \<and> attributed_to las hash l"
proof -
  let ?m = "fold push_range las Map.empty"
  have "attested (sort_key ae_hash (List.map_filter author_entry xs)) hash l \<longleftrightarrow>
      (\<exists>rs. ?m hash = Some rs \<and> rs \<noteq> [] \<and> ranges_cover rs l)"
    unfolding attested_def list_ex_iff set_sort Bex_def mem_author_entries enumerates_mem [OF assms]
  proof (intro iffI; elim exE conjE)
    fix rs assume "?m hash = Some rs" "rs \<noteq> []" "ranges_cover rs l"
    then show "\<exists>x. (\<exists>a rs. ?m a = Some rs \<and> rs \<noteq> [] \<and>
        x = \<lparr>ae_hash = a, ae_line_ranges = map (\<lambda>(s, e). close_run s e) (merge_author_ranges rs)\<rparr>) \<and>
        ae_hash x = hash \<and> covers (ae_line_ranges x) l"
      by (intro exI [of _ "\<lparr>ae_hash = hash, ae_line_ranges = map (\<lambda>(s, e). close_run s e) (merge_author_ranges rs)\<rparr>"])
        (auto simp: covers_close_runs merge_author_ranges_cover)
  qed (auto simp: covers_close_runs merge_author_ranges_cover)
  also have "\<dots> \<longleftrightarrow> ranges_cover (or_nil (?m hash)) l"
    by (cases "?m hash") (auto simp: or_nil_def)
  finally show ?thesis by (simp only: author_ranges_cover)
qed

lemma file_attestation_of_attests:
  assumes "enumerates (author_order (fold push_range las Map.empty)) (fold push_range las Map.empty)"
  shows "(\<exists>f. file_attestation_of nfc author_order (p, cs, las) = Some f \<and> fa_file_path f = path \<and> attested (fa_entries f) hash l) \<longleftrightarrow>
    nfc p = path \<and> hash \<noteq> CheckpointKind_to_str Human \<and> attributed_to las hash l"
proof -
  let ?entries = "List.map_filter author_entry (author_order (fold push_range las Map.empty))"
  have "attested (sort_key ae_hash ?entries) hash l \<longleftrightarrow> hash \<noteq> CheckpointKind_to_str Human \<and> attributed_to las hash l"
    by (rule attested_author_entries [OF assms])
  moreover have "\<not> attested (sort_key ae_hash ?entries) hash l" if "?entries = []" using that by (simp add: attested_def)
  moreover have "\<not> attributed_to las hash l" if "las = []" using that by (simp add: attributed_to_def)
  ultimately show ?thesis
    by (cases "las = []"; cases "?entries = []") (simp_all add: file_attestation_of_def Let_def)
qed

text \<open>The entries of a file have different hashes, so their order is that of the hashes.\<close>

lemma author_entry_hash: "author_entry (a, rs) = Some e \<Longrightarrow> ae_hash e = a"
  by (auto simp: author_entry_def split: if_splits)

lemma file_attestation_of_order_free:
  assumes "enumerates (order1 m) m" "enumerates (order2 m) m" "m = fold push_range las Map.empty"
  shows "file_attestation_of nfc order1 (p, cs, las) = file_attestation_of nfc order2 (p, cs, las)"
proof -
  let ?e = "\<lambda>order. List.map_filter author_entry (order m)"
  have ms: "mset (?e order1) = mset (?e order2)"
    by (intro mset_map_filter enumerates_mset [OF assms(1,2)])
  have "inj_on ae_hash (set (?e order1))"
  proof (rule inj_onI)
    fix x y assume "x \<in> set (?e order1)" "y \<in> set (?e order1)" "ae_hash x = ae_hash y"
    then obtain a rs b rs' where "m a = Some rs" "author_entry (a, rs) = Some x" "m b = Some rs'" "author_entry (b, rs') = Some y"
      using enumerates_mem [OF assms(1)] by (fastforce simp: mem_map_filter)
    then show "x = y" using \<open>ae_hash x = ae_hash y\<close> author_entry_hash by fastforce
  qed
  then have "sort_key ae_hash (?e order1) = sort_key ae_hash (?e order2)" by (rule sort_key_unique [OF ms])
  moreover have "?e order1 = [] \<longleftrightarrow> ?e order2 = []" using ms by (metis mset_zero_iff_right)
  ultimately show ?thesis by (simp add: file_attestation_of_def Let_def assms(3) [symmetric])
qed

definition log_attests :: "FileAttestation list \<Rightarrow> str \<Rightarrow> str \<Rightarrow> u32 \<Rightarrow> bool" where
  "log_attests files path hash l = list_ex (\<lambda>f. fa_file_path f = path \<and> attested (fa_entries f) hash l) files"

text \<open>An order of iteration: every finite map is enumerated in some order.\<close>

definition iteration_order :: "'v enumeration \<Rightarrow> bool" where
  "iteration_order order \<longleftrightarrow> (\<forall>m. finite (dom m) \<longrightarrow> enumerates (order m) m)"

lemma author_order_enumerates:
  "iteration_order order \<Longrightarrow> enumerates (order (fold push_range las Map.empty)) (fold push_range las Map.empty)"
  by (simp add: iteration_order_def fold_push_range_dom)

lemma file_attestation_of_path: "file_attestation_of nfc order (p, v) = Some f \<Longrightarrow> fa_file_path f = nfc p"
  by (cases v) (auto simp: file_attestation_of_def Let_def split: if_splits)

definition sorted_entries :: "'v enumeration" where
  "sorted_entries m = map (\<lambda>k. (k, the (m k))) (sorted_list_of_set (dom m))"

lemma map_of_keys: "map_of (map (\<lambda>k. (k, the (m k))) ks) k = (if k \<in> set ks then Some (the (m k)) else None)"
  by (induction ks) auto

lemma sorted_entries_order: "iteration_order sorted_entries"
  by (auto simp: iteration_order_def enumerates_def sorted_entries_def comp_def fun_eq_iff map_of_keys domIff)

text \<open>The files of the attributions, told apart by their normalised paths.\<close>

lemma files_of_paths:
  assumes "iteration_order file_order" "finite (dom attributions)"
  shows "f \<in> set (List.map_filter (file_attestation_of nfc author_order) (file_order attributions)) \<longleftrightarrow>
    (\<exists>p v. attributions p = Some v \<and> file_attestation_of nfc author_order (p, v) = Some f)"
proof -
  have "enumerates (file_order attributions) attributions" using assms by (simp add: iteration_order_def)
  from enumerates_mem [OF this] show ?thesis
    unfolding mem_map_filter Bex_def split_paired_Ex by simp
qed

lemma same_path:
  assumes "inj_on nfc (dom attributions)" "attributions p = Some v" "attributions q = Some w" "nfc p = nfc q"
  shows "p = q \<and> v = w"
proof -
  have "p = q" using inj_onD [OF assms(1,4)] assms(2,3) by auto
  then show ?thesis using assms(2,3) by simp
qed

lemma attestations_order_free:
  assumes "iteration_order file_order" "iteration_order author_order"
    and "iteration_order file_order'" "iteration_order author_order'"
    and "finite (dom attributions)" "inj_on nfc (dom attributions)"
  shows "build_attestations_from_attributions nfc file_order author_order attributions =
           build_attestations_from_attributions nfc file_order' author_order' attributions"
proof -
  let ?F = "file_attestation_of nfc author_order"
  have same: "?F = file_attestation_of nfc author_order'"
  proof (rule ext)
    fix f :: "str \<times> Attribution list \<times> LineAttribution list"
    obtain p cs las where f: "f = (p, cs, las)" by (cases f)
    show "?F f = file_attestation_of nfc author_order' f"
      unfolding f using author_order_enumerates [OF assms(2)] author_order_enumerates [OF assms(4)] refl
      by (rule file_attestation_of_order_free)
  qed
  have "inj_on fa_file_path (set (List.map_filter ?F (file_order attributions)))"
  proof (rule inj_onI)
    fix x y
    assume "x \<in> set (List.map_filter ?F (file_order attributions))" "y \<in> set (List.map_filter ?F (file_order attributions))"
      and eq: "fa_file_path x = fa_file_path y"
    then obtain p v q w where x: "attributions p = Some v" "?F (p, v) = Some x" and y: "attributions q = Some w" "?F (q, w) = Some y"
      by (auto simp: files_of_paths [OF assms(1,5)])
    have "nfc p = nfc q" using eq file_attestation_of_path [OF x(2)] file_attestation_of_path [OF y(2)] by simp
    then show "x = y" using same_path [OF assms(6) x(1) y(1)] x(2) y(2) by simp
  qed
  moreover have "mset (file_order attributions) = mset (file_order' attributions)"
    using assms(1,3,5) by (auto simp: iteration_order_def intro: enumerates_mset)
  ultimately show ?thesis
    unfolding build_attestations_from_attributions_def same [symmetric]
    by (intro sort_key_unique mset_map_filter)
qed

section \<open>Properties\<close>

text \<open>C8. The attestations built from attributions attest a line of a file for an author exactly when
  the line is attributed to the author, who is not the untracked human; and they do not depend on the
  order in which the hash maps of files and authors are iterated, so equal attributions give equal notes.\<close>

theorem attestations_record_attributions:
  assumes "iteration_order file_order" "iteration_order author_order"
    and "iteration_order file_order'" "iteration_order author_order'"
    and "finite (dom attributions)" "inj_on nfc (dom attributions)" "attributions path = Some (cs, las)"
  shows "(log_attests (build_attestations_from_attributions nfc file_order author_order attributions) (nfc path) hash l \<longleftrightarrow>
            hash \<noteq> CheckpointKind_to_str Human \<and> attributed_to las hash l) \<and>
         build_attestations_from_attributions nfc file_order author_order attributions =
           build_attestations_from_attributions nfc file_order' author_order' attributions"
proof
  let ?F = "file_attestation_of nfc author_order"
  have "log_attests (build_attestations_from_attributions nfc file_order author_order attributions) (nfc path) hash l \<longleftrightarrow>
      (\<exists>f p v. attributions p = Some v \<and> ?F (p, v) = Some f \<and> fa_file_path f = nfc path \<and> attested (fa_entries f) hash l)"
    unfolding log_attests_def build_attestations_from_attributions_def list_ex_iff set_sort Bex_def
      files_of_paths [OF assms(1,5)] by blast
  also have "\<dots> \<longleftrightarrow> (\<exists>f. ?F (path, cs, las) = Some f \<and> fa_file_path f = nfc path \<and> attested (fa_entries f) hash l)"
  proof
    assume "\<exists>f p v. attributions p = Some v \<and> ?F (p, v) = Some f \<and> fa_file_path f = nfc path \<and> attested (fa_entries f) hash l"
    then obtain f p v where f: "attributions p = Some v" "?F (p, v) = Some f" "fa_file_path f = nfc path" "attested (fa_entries f) hash l"
      by blast
    then have "nfc p = nfc path" using file_attestation_of_path by metis
    then show "\<exists>f. ?F (path, cs, las) = Some f \<and> fa_file_path f = nfc path \<and> attested (fa_entries f) hash l"
      using same_path [OF assms(6) f(1) assms(7)] f by auto
  qed (use assms(7) in blast)
  also have "\<dots> \<longleftrightarrow> hash \<noteq> CheckpointKind_to_str Human \<and> attributed_to las hash l"
    using file_attestation_of_attests [where author_order = author_order, OF author_order_enumerates [OF assms(2)]] by simp
  finally show "log_attests (build_attestations_from_attributions nfc file_order author_order attributions) (nfc path) hash l \<longleftrightarrow>
      hash \<noteq> CheckpointKind_to_str Human \<and> attributed_to las hash l" .
qed (rule attestations_order_free [OF assms(1-6)])

theorem attestations_record_attributions_witness:
  "log_attests (build_attestations_from_attributions id sorted_entries sorted_entries
      [''a.rs'' \<mapsto> ([], [LineAttribution_new 1 3 ''s_1'' None, LineAttribution_new 4 6 ''human'' None])]) ''a.rs'' ''s_1'' 2"
proof -
  have "log_attests (build_attestations_from_attributions id sorted_entries sorted_entries
      [''a.rs'' \<mapsto> ([], [LineAttribution_new 1 3 ''s_1'' None, LineAttribution_new 4 6 ''human'' None])]) (id ''a.rs'') ''s_1'' 2 \<longleftrightarrow>
    ''s_1'' \<noteq> CheckpointKind_to_str Human \<and> attributed_to [LineAttribution_new 1 3 ''s_1'' None, LineAttribution_new 4 6 ''human'' None] ''s_1'' 2"
    using attestations_record_attributions [OF sorted_entries_order sorted_entries_order sorted_entries_order sorted_entries_order,
      of "[''a.rs'' \<mapsto> ([], [LineAttribution_new 1 3 ''s_1'' None, LineAttribution_new 4 6 ''human'' None])]" id "''a.rs''"] by simp
  then show ?thesis by (simp add: attributed_to_def line_attributed_def)
qed

text \<open>Restricting attributions to a set of commits drops an attribution only when its author is a
  prompt. Attributions to a session are kept whatever the commits are, and stay in the lines.\<close>

theorem filter_to_commits_keeps_sessions:
  assumes "va_attributions va path = Some (cs, las)" "va_prompts va session = None"
  shows "\<exists>cs' las'. va_attributions (filter_to_commits commit_shas va) path = Some (cs', las') \<and>
    filter (\<lambda>a. at_author_id a = session) cs' = filter (\<lambda>a. at_author_id a = session) cs"
  using assms by (auto simp: filter_to_commits_def Let_def intro!: filter_cong)

theorem filter_to_commits_keeps_sessions_witness:
  "\<exists>cs' las'. va_attributions (filter_to_commits {}
      \<lparr>va_base_commit = ''c'', va_attributions = [''a.rs'' \<mapsto> ([Attribution_new 0 4 ''s_1::t_1'' 1], [])],
       va_file_contents = Map.empty, va_prompts = Map.empty, va_ts = 0, va_blame_start_commit = None,
       va_humans = Map.empty, va_initial_only_prompt_ids = {}, va_sessions = Map.empty, va_failed_tool_snapshots = Map.empty\<rparr>) ''a.rs'' =
      Some (cs', las') \<and> filter (\<lambda>a. at_author_id a = ''s_1::t_1'') cs' = [Attribution_new 0 4 ''s_1::t_1'' 1]"
  using filter_to_commits_keeps_sessions [of "\<lparr>va_base_commit = ''c'', va_attributions = [''a.rs'' \<mapsto> ([Attribution_new 0 4 ''s_1::t_1'' 1], [])],
       va_file_contents = Map.empty, va_prompts = Map.empty, va_ts = 0, va_blame_start_commit = None,
       va_humans = Map.empty, va_initial_only_prompt_ids = {}, va_sessions = Map.empty, va_failed_tool_snapshots = Map.empty\<rparr>"
     "''a.rs''" "[Attribution_new 0 4 ''s_1::t_1'' 1]" "[]" "''s_1::t_1''" "{}"] by simp

end
