(* ===== verification/Attribution_Merge.thy ===== *)
theory Attribution_Merge
  imports Virtual_Attribution Tracker_Properties Carryover_Merge
begin

text \<open>
  Merging attributions (\<open>src/authorship/virtual_attribution.rs\<close>): the attributions of two sources,
  carried to a final content, with the first source winning where both cover a character; the
  projection of checkpoint evidence onto committed content; and conflict markers.
\<close>

section \<open>Two sources\<close>

definition DUMMY_AUTHOR :: str where
  "DUMMY_AUTHOR = ''__DUMMY__''"

definition transform_attributions_to_final ::
  "TrackerConfig \<Rightarrow> str \<Rightarrow> Attribution list \<Rightarrow> str \<Rightarrow> nat \<Rightarrow> tracker_error + Attribution list" where
  "transform_attributions_to_final tracker old_content old_attributions new_content ts =
     (case update_attributions tracker old_content new_content old_attributions DUMMY_AUTHOR ts of
        Inl e \<Rightarrow> Inl e
      | Inr transformed \<Rightarrow> Inr (filter (\<lambda>attr. at_author_id attr \<noteq> DUMMY_AUTHOR) transformed))"

definition coverage_map :: "Attribution list \<Rightarrow> nat \<Rightarrow> bool list" where
  "coverage_map primary content_len =
     map (\<lambda>i. list_ex (\<lambda>attr. at_start attr \<le> i \<and> i < min (at_end attr) content_len) primary) [0..<content_len]"

definition close_gap_range :: "nat option \<Rightarrow> nat \<Rightarrow> Attribution \<Rightarrow> Attribution list" where
  "close_gap_range range_start stop attr =
     (case range_start of
        Some range_start_idx \<Rightarrow>
          if range_start_idx < stop then [Attribution_new range_start_idx stop (at_author_id attr) (at_ts attr)] else []
      | None \<Rightarrow> [])"

text \<open>The characters of the slice \<open>[safe_start, safe_end)\<close>, from \<open>rel_idx\<close> on.\<close>

function gap_loop :: "bool list \<Rightarrow> str \<Rightarrow> nat \<Rightarrow> Attribution \<Rightarrow> nat \<Rightarrow> nat option \<Rightarrow> Attribution list" where
  "gap_loop covered sl safe_start attr rel_idx range_start =
     (if length sl \<le> rel_idx then close_gap_range range_start (safe_start + length sl) attr
      else let start = safe_start + rel_idx;
               next = rel_idx + length (char_at sl rel_idx);
               is_covered = list_ex (\<lambda>i. covered ! i) [start..<min (safe_start + next) (length covered)]
           in if is_covered then close_gap_range range_start start attr @ gap_loop covered sl safe_start attr next None
              else gap_loop covered sl safe_start attr next (case range_start of None \<Rightarrow> Some start | Some s \<Rightarrow> Some s))"
  by pat_completeness auto
termination
  by (relation "measure (\<lambda>(covered, sl, safe_start, attr, rel_idx, range_start). length sl - rel_idx)")
    (auto simp: char_at_nonempty diff_less_mono2)

declare gap_loop.simps [simp del]

definition secondary_gaps :: "bool list \<Rightarrow> str \<Rightarrow> Attribution \<Rightarrow> Attribution list" where
  "secondary_gaps covered content attr =
     (let safe_start = floor_char_boundary content (at_start attr);
          safe_end = ceil_char_boundary content (at_end attr)
      in if safe_end \<le> safe_start then []
         else gap_loop covered (slice content safe_start safe_end) safe_start attr 0 None)"

definition merge_char_attributions :: "Attribution list \<Rightarrow> Attribution list \<Rightarrow> str \<Rightarrow> Attribution list" where
  "merge_char_attributions primary secondary content =
     (if length content = 0 then primary
      else let covered = coverage_map primary (length content)
           in sort_key (\<lambda>a. (at_start a, at_end a))
                (primary @ concat (map (secondary_gaps covered content) secondary)))"

definition merge_humans :: "(str \<rightharpoonup> HumanRecord) \<Rightarrow> (str \<rightharpoonup> HumanRecord) \<Rightarrow> (str \<rightharpoonup> HumanRecord)" where
  "merge_humans a b = a ++ b"

definition merge_favored_sessions :: "(str \<rightharpoonup> SessionRecord) \<Rightarrow> (str \<rightharpoonup> SessionRecord) \<Rightarrow> (str \<rightharpoonup> SessionRecord)" where
  "merge_favored_sessions primary secondary =
     (\<lambda>id. case primary id of
        None \<Rightarrow> secondary id
      | Some record \<Rightarrow>
          Some (case secondary id of Some secondary_record \<Rightarrow> merge_from record secondary_record | None \<Rightarrow> record))"

definition transform_source :: "TrackerConfig \<Rightarrow> VirtualAttributions \<Rightarrow> str \<Rightarrow> str \<Rightarrow> nat \<Rightarrow> tracker_error + Attribution list" where
  "transform_source tracker va file_path final_content ts =
     (case (get_char_attributions va file_path, va_file_contents va file_path) of
        (Some attrs, Some content) \<Rightarrow> transform_attributions_to_final tracker content attrs final_content ts
      | _ \<Rightarrow> Inr [])"

definition merge_file ::
  "TrackerConfig \<Rightarrow> VirtualAttributions \<Rightarrow> VirtualAttributions \<Rightarrow> str \<Rightarrow> str \<Rightarrow>
   tracker_error + Attribution list \<times> LineAttribution list" where
  "merge_file tracker primary secondary file_path final_content =
     (case transform_source tracker primary file_path final_content (va_ts primary) of
        Inl e \<Rightarrow> Inl e
      | Inr transformed_primary \<Rightarrow>
          (case transform_source tracker secondary file_path final_content (va_ts primary) of
             Inl e \<Rightarrow> Inl e
           | Inr transformed_secondary \<Rightarrow>
               let merged_char_attrs = merge_char_attributions transformed_primary transformed_secondary final_content
               in Inr (merged_char_attrs, attributions_to_line_attributions merged_char_attrs final_content)))"

text \<open>The loop over the files; a file that is not in the final state is skipped.\<close>

fun merge_files ::
  "TrackerConfig \<Rightarrow> VirtualAttributions \<Rightarrow> VirtualAttributions \<Rightarrow> (str \<rightharpoonup> str) \<Rightarrow> str list \<Rightarrow>
   tracker_error + (str \<rightharpoonup> Attribution list \<times> LineAttribution list)" where
  "merge_files tracker primary secondary final_state [] = Inr Map.empty"
| "merge_files tracker primary secondary final_state (file_path # rest) =
     (case final_state file_path of
        None \<Rightarrow> merge_files tracker primary secondary final_state rest
      | Some final_content \<Rightarrow>
          (case merge_file tracker primary secondary file_path final_content of
             Inl e \<Rightarrow> Inl e
           | Inr merged \<Rightarrow>
               (case merge_files tracker primary secondary final_state rest of
                  Inl e \<Rightarrow> Inl e
                | Inr others \<Rightarrow> Inr (others(file_path \<mapsto> merged)))))"

definition saturating_add_u32 :: "u32 \<Rightarrow> u32 \<Rightarrow> u32" where
  "saturating_add_u32 a b = (if a + b < a then u32_MAX else a + b)"

definition add_totals :: "commits \<Rightarrow> u32 \<times> u32 \<Rightarrow> u32 \<times> u32" where
  "add_totals commits totals =
     fold (\<lambda>(_, record) (additions, deletions).
             (saturating_add_u32 additions (pr_total_additions record), saturating_add_u32 deletions (pr_total_deletions record)))
       commits totals"

definition saved_totals :: "commits option \<Rightarrow> commits option \<Rightarrow> (u32 \<times> u32) option" where
  "saved_totals primary secondary =
     (let all_commits = (case primary of Some cs \<Rightarrow> cs | None \<Rightarrow> []) @ (case secondary of Some cs \<Rightarrow> cs | None \<Rightarrow> [])
      in if all_commits = [] then None else Some (add_totals all_commits (0, 0)))"

definition restore_totals :: "(u32 \<times> u32) option \<Rightarrow> commits \<Rightarrow> commits" where
  "restore_totals totals commits =
     (case totals of
        None \<Rightarrow> commits
      | Some (additions, deletions) \<Rightarrow>
          map (\<lambda>(commit, record). (commit, record\<lparr>pr_total_additions := additions, pr_total_deletions := deletions\<rparr>)) commits)"

definition merge_attributions_favoring_first ::
  "TrackerConfig \<Rightarrow> (Attribution list \<times> LineAttribution list) enumeration \<Rightarrow> str list \<Rightarrow>
   VirtualAttributions \<Rightarrow> VirtualAttributions \<Rightarrow> (str \<rightharpoonup> str) \<Rightarrow> tracker_error + VirtualAttributions" where
  "merge_attributions_favoring_first tracker file_order all_files primary secondary final_state =
     (case merge_files tracker primary secondary final_state all_files of
        Inl e \<Rightarrow> Inl e
      | Inr attributions \<Rightarrow>
          (let merged_prompts = va_prompts secondary ++ va_prompts primary;
               prompts = calculate_and_update_prompt_metrics file_order merged_prompts attributions Map.empty Map.empty
           in Inr \<lparr>va_base_commit = va_base_commit primary,
                   va_attributions = attributions,
                   va_file_contents = final_state |` dom attributions,
                   va_prompts = (\<lambda>id. map_option (restore_totals (saved_totals (va_prompts primary id) (va_prompts secondary id))) (prompts id)),
                   va_ts = va_ts primary,
                   va_blame_start_commit = None,
                   va_humans = merge_humans (va_humans primary) (va_humans secondary),
                   va_initial_only_prompt_ids = {},
                   va_sessions = merge_favored_sessions (va_sessions primary) (va_sessions secondary),
                   va_failed_tool_snapshots = va_failed_tool_snapshots secondary ++ va_failed_tool_snapshots primary\<rparr>))"

section \<open>Conflict markers\<close>

fun conflict_loop :: "bool \<Rightarrow> bool \<Rightarrow> str list \<Rightarrow> bool" where
  "conflict_loop has_open has_close [] = False"
| "conflict_loop has_open has_close (line # lines) =
     (let has_open' = has_open \<or> starts_with line ''<<<<<<<'';
          has_close' = has_close \<or> \<not> starts_with line ''<<<<<<<'' \<and> starts_with line ''>>>>>>>''
      in if has_open' \<and> has_close' then True else conflict_loop has_open' has_close' lines)"

definition content_has_conflict_markers :: "str \<Rightarrow> bool" where
  "content_has_conflict_markers content = conflict_loop False False (str_lines content)"

fun strip_loop :: "bool \<Rightarrow> bool \<Rightarrow> str list \<Rightarrow> str list" where
  "strip_loop in_conflict in_ours [] = []"
| "strip_loop in_conflict in_ours (line # lines) =
     (if starts_with line ''<<<<<<<'' then strip_loop True False lines
      else if in_conflict \<and> starts_with line ''|||||||'' then strip_loop in_conflict False lines
      else if in_conflict \<and> starts_with line ''======='' then strip_loop in_conflict True lines
      else if in_conflict \<and> starts_with line ''>>>>>>>'' then strip_loop False False lines
      else if \<not> in_conflict \<or> in_ours then line # strip_loop in_conflict in_ours lines
      else strip_loop in_conflict in_ours lines)"

definition strip_conflict_markers_keep_ours :: "str \<Rightarrow> str" where
  "strip_conflict_markers_keep_ours content =
     join [newline] (strip_loop False False (str_lines content)) @ (if ends_with content [newline] then [newline] else [])"

section \<open>Projection onto committed content\<close>

definition project_failed_tool_lines :: "str differ \<Rightarrow> str \<Rightarrow> str \<Rightarrow> u32 list" where
  "project_failed_tool_lines diff failed committed =
     concat (map (\<lambda>op. case op of
                    Equal _ new_index n \<Rightarrow> map (\<lambda>index. of_nat index + 1) [new_index..<new_index + n]
                  | _ \<Rightarrow> [])
       (capture_diff_slices diff (str_lines (normalize_line_endings failed)) (str_lines (normalize_line_endings committed))))"

record CommittedLineProjection =
  clp_authors :: "str \<rightharpoonup> u32 list"
  clp_overwritten :: "u32 list"
  clp_preexisting :: "u32 list"

definition push_lines :: "LineAttribution \<Rightarrow> (str \<rightharpoonup> u32 list) \<Rightarrow> (str \<rightharpoonup> u32 list)" where
  "push_lines attr projected =
     projected(la_author_id attr \<mapsto>
       (case projected (la_author_id attr) of Some ls \<Rightarrow> ls | None \<Rightarrow> []) @
       LineRange_expand (Range (la_start_line attr) (la_end_line attr)))"

text \<open>The author of each observed line: the last attribution that covers it.\<close>

definition line_authors :: "LineAttribution list \<Rightarrow> u32 \<rightharpoonup> str" where
  "line_authors attrs =
     fold (\<lambda>attr authors line. if la_start_line attr \<le> line \<and> line \<le> la_end_line attr then Some (la_author_id attr) else authors line)
       attrs Map.empty"

definition preexisting_of_op :: "(u32 \<rightharpoonup> str) \<Rightarrow> DiffOp \<Rightarrow> u32 list" where
  "preexisting_of_op authors op =
     (case op of
        Equal old_index new_index n \<Rightarrow>
          map (\<lambda>offset. of_nat (new_index + offset + 1))
            (filter (\<lambda>offset. case authors (of_nat (old_index + offset + 1)) of
                                None \<Rightarrow> True | Some author \<Rightarrow> author = CheckpointKind_to_str Human) [0..<n])
      | _ \<Rightarrow> [])"

definition overwritten_of_op :: "(u32 \<rightharpoonup> str) \<Rightarrow> DiffOp \<Rightarrow> u32 list" where
  "overwritten_of_op authors op =
     (case op of
        Replace old_index old_len new_index new_len \<Rightarrow>
          if list_ex (\<lambda>index. case authors (of_nat (index + 1)) of
                                Some author \<Rightarrow> author \<noteq> CheckpointKind_to_str Human | None \<Rightarrow> False)
               [old_index..<old_index + old_len]
          then map (\<lambda>index. of_nat index + 1) [new_index..<new_index + new_len] else []
      | _ \<Rightarrow> [])"

definition project_committed_lines ::
  "TrackerConfig \<Rightarrow> str differ \<Rightarrow> str \<Rightarrow> str \<Rightarrow> LineAttribution list \<Rightarrow> tracker_error + CommittedLineProjection" where
  "project_committed_lines tracker diff observed committed attrs =
     (case update_attributions tracker observed committed (line_attributions_to_attributions attrs observed 0)
             (CheckpointKind_to_str Human) 1 of
        Inl e \<Rightarrow> Inl e
      | Inr updated \<Rightarrow>
          (let projected = fold push_lines (attributions_to_line_attributions updated committed) Map.empty;
               ops = capture_diff_slices diff (str_lines (normalize_line_endings observed))
                       (str_lines (normalize_line_endings committed));
               authors = line_authors attrs
           in Inr \<lparr>clp_authors = projected,
                   clp_overwritten = concat (map (overwritten_of_op authors) ops),
                   clp_preexisting = concat (map (preexisting_of_op authors) ops)\<rparr>))"

section \<open>Lemmas: gaps\<close>

definition author_at :: "Attribution list \<Rightarrow> str \<Rightarrow> nat \<Rightarrow> bool" where
  "author_at attrs author p = list_ex (\<lambda>a. at_author_id a = author \<and> byte_attributed a p) attrs"

definition someone_at :: "Attribution list \<Rightarrow> nat \<Rightarrow> bool" where
  "someone_at attrs p = list_ex (\<lambda>a. byte_attributed a p) attrs"

lemma someone_at_simps [simp]:
  "\<not> someone_at [] p" "someone_at (xs @ ys) p \<longleftrightarrow> someone_at xs p \<or> someone_at ys p"
  by (simp_all add: someone_at_def)

lemma close_gap_range_spec:
  "someone_at (close_gap_range rs stop attr) p \<longleftrightarrow> (\<exists>s. rs = Some s \<and> s \<le> p \<and> p < stop)"
  by (auto simp: close_gap_range_def someone_at_def byte_attributed_def split: option.splits)

text \<open>The characters of the slice from \<open>rel\<close> on that nothing covers.\<close>

definition free_char :: "bool list \<Rightarrow> nat \<Rightarrow> nat \<times> nat \<Rightarrow> bool" where
  "free_char covered st c \<longleftrightarrow> \<not> list_ex (\<lambda>i. covered ! i) [st + fst c..<min (st + snd c) (length covered)]"

definition in_free_char :: "bool list \<Rightarrow> str \<Rightarrow> nat \<Rightarrow> nat \<Rightarrow> nat \<Rightarrow> bool" where
  "in_free_char covered sl st rel p =
     list_ex (\<lambda>c. st + fst c \<le> p \<and> p < st + snd c \<and> free_char covered st c) (char_ranges sl rel)"

lemma in_free_char_step:
  "rel < length sl \<Longrightarrow>
     in_free_char covered sl st rel p \<longleftrightarrow>
       st + rel \<le> p \<and> p < st + (rel + length (char_at sl rel)) \<and> free_char covered st (rel, rel + length (char_at sl rel)) \<or>
       in_free_char covered sl st (rel + length (char_at sl rel)) p"
  unfolding in_free_char_def by (subst char_ranges.simps) simp

lemma gap_loop_spec:
  assumes "\<And>s. rs = Some s \<Longrightarrow> s \<le> st + rel" "rel \<le> length sl"
  shows "someone_at (gap_loop covered sl st attr rel rs) p \<longleftrightarrow>
    (\<exists>s. rs = Some s \<and> s \<le> p \<and> p < st + rel) \<or> in_free_char covered sl st rel p"
  using assms
proof (induction covered sl st attr rel rs rule: gap_loop.induct)
  case (1 covered sl st attr rel rs)
  show ?case
  proof (cases "length sl \<le> rel")
    case True
    then have "rel = length sl" using 1(4) by simp
    then show ?thesis
      by (subst gap_loop.simps) (simp add: close_gap_range_spec in_free_char_def char_ranges.simps)
  next
    case False
    then have lt: "rel < length sl" by simp
    define nx where "nx = rel + length (char_at sl rel)"
    have n: "rel < nx" "nx \<le> length sl"
      using lt char_at_pos [OF lt] by (simp_all add: nx_def char_at_def)
    have free: "free_char covered st (rel, nx) \<longleftrightarrow> \<not> list_ex (\<lambda>i. covered ! i) [st + rel..<min (st + nx) (length covered)]"
      by (simp add: free_char_def)
    note step = in_free_char_step [OF lt, of covered st p, folded nx_def]
    show ?thesis
    proof (cases "free_char covered st (rel, nx)")
      case True
      let ?rs = "case rs of None \<Rightarrow> Some (st + rel) | Some s \<Rightarrow> Some s"
      have "gap_loop covered sl st attr rel rs = gap_loop covered sl st attr nx ?rs"
        using False True free by (subst gap_loop.simps) (simp add: Let_def nx_def)
      moreover have "someone_at (gap_loop covered sl st attr nx ?rs) p \<longleftrightarrow>
          (\<exists>s. ?rs = Some s \<and> s \<le> p \<and> p < st + nx) \<or> in_free_char covered sl st nx p"
        using 1(2) [OF False refl nx_def refl] True free n 1(3) by (auto split: option.splits)
      ultimately show ?thesis using True step n 1(3) by (cases rs) auto
    next
      case cov: False
      have "gap_loop covered sl st attr rel rs =
          close_gap_range rs (st + rel) attr @ gap_loop covered sl st attr nx None"
        using False cov free by (subst gap_loop.simps) (simp add: Let_def nx_def)
      moreover have "someone_at (gap_loop covered sl st attr nx None) p \<longleftrightarrow> in_free_char covered sl st nx p"
        using 1(1) [OF False refl nx_def refl] cov free n by simp
      ultimately show ?thesis using cov step by (simp add: close_gap_range_spec)
    qed
  qed
qed

lemma gap_loop_start: "someone_at (gap_loop covered sl st attr 0 None) p \<longleftrightarrow> in_free_char covered sl st 0 p"
  using gap_loop_spec [of None st 0 sl covered attr p] by simp

lemma gap_loop_author: "a \<in> set (gap_loop covered sl st attr rel rs) \<Longrightarrow> at_author_id a = at_author_id attr"
proof (induction covered sl st attr rel rs rule: gap_loop.induct)
  case (1 covered sl st attr rel rs)
  then show ?case
    by (subst (asm) (3) gap_loop.simps) (auto simp: Let_def close_gap_range_def split: if_splits option.splits)
qed

lemma coverage_map_nth [simp]: "length (coverage_map primary n) = n"
  "i < n \<Longrightarrow> coverage_map primary n ! i \<longleftrightarrow> someone_at primary i"
  by (auto simp: coverage_map_def someone_at_def byte_attributed_def list_ex_iff)

lemma floor_char_boundary_le: "floor_char_boundary content i \<le> length content"
  using floor_loop_le [of content "min i (length content)"] by (simp add: floor_char_boundary_def)

lemma ceil_loop_le: "i \<le> length content \<Longrightarrow> ceil_loop content i \<le> length content"
proof (induction content i rule: ceil_loop.induct)
  case (1 content i)
  then show ?case by (subst ceil_loop.simps) auto
qed

lemma ceil_char_boundary_le: "ceil_char_boundary content i \<le> length content"
  by (simp add: ceil_char_boundary_def ceil_loop_le)

text \<open>The bytes that an attribution of the second source gets: the characters it touches of which the
  first source covers no byte.\<close>

definition fills_gap :: "Attribution list \<Rightarrow> str \<Rightarrow> Attribution \<Rightarrow> nat \<Rightarrow> bool" where
  "fills_gap primary content attr p \<longleftrightarrow>
     (let st = floor_char_boundary content (at_start attr); stop = ceil_char_boundary content (at_end attr)
      in st < stop \<and>
         list_ex (\<lambda>(c, d). st + c \<le> p \<and> p < st + d \<and> (\<forall>i \<in> {st + c..<st + d}. \<not> someone_at primary i))
           (char_ranges (slice content st stop) 0))"

lemma char_ranges_bound: "(c, d) \<in> set (char_ranges s pos) \<Longrightarrow> d \<le> length s"
proof (induction s pos rule: char_ranges.induct)
  case (1 s pos)
  then show ?case by (subst (asm) (2) char_ranges.simps) (auto simp: char_at_def split: if_splits)
qed

lemma secondary_gaps_spec:
  "someone_at (secondary_gaps (coverage_map primary (length content)) content attr) p \<longleftrightarrow> fills_gap primary content attr p"
proof -
  define st where "st = floor_char_boundary content (at_start attr)"
  define stop where "stop = ceil_char_boundary content (at_end attr)"
  have b: "st \<le> length content" "stop \<le> length content"
    by (simp_all add: st_def stop_def floor_char_boundary_le ceil_char_boundary_le)
  have "free_char (coverage_map primary (length content)) st (c, d) \<longleftrightarrow> (\<forall>i \<in> {st + c..<st + d}. \<not> someone_at primary i)"
    if "(c, d) \<in> set (char_ranges (slice content st stop) 0)" "st < stop" for c d
  proof -
    have "st + d \<le> length content" using char_ranges_bound [OF that(1)] that(2) b by simp
    then show ?thesis by (auto simp: free_char_def list_ex_iff)
  qed
  then have "st < stop \<Longrightarrow> in_free_char (coverage_map primary (length content)) (slice content st stop) st 0 p \<longleftrightarrow>
      list_ex (\<lambda>(c, d). st + c \<le> p \<and> p < st + d \<and> (\<forall>i \<in> {st + c..<st + d}. \<not> someone_at primary i))
        (char_ranges (slice content st stop) 0)"
    unfolding in_free_char_def list_ex_iff by (intro bex_cong) auto
  then show ?thesis
    unfolding secondary_gaps_def fills_gap_def Let_def st_def [symmetric] stop_def [symmetric]
    by (cases "st < stop") (simp_all add: gap_loop_start)
qed

lemma secondary_gaps_author: "a \<in> set (secondary_gaps covered content attr) \<Longrightarrow> at_author_id a = at_author_id attr"
  by (auto simp: secondary_gaps_def Let_def dest: gap_loop_author split: if_splits)

lemma author_at_gaps:
  "author_at (secondary_gaps covered content attr) author p \<longleftrightarrow>
     at_author_id attr = author \<and> someone_at (secondary_gaps covered content attr) p"
  by (auto simp: author_at_def someone_at_def list_ex_iff dest: secondary_gaps_author)

lemma author_at_merged:
  "content \<noteq> [] \<Longrightarrow> author_at (merge_char_attributions primary secondary content) author p \<longleftrightarrow>
     author_at primary author p \<or> (\<exists>attr \<in> set secondary. at_author_id attr = author \<and> fills_gap primary content attr p)"
proof -
  assume "content \<noteq> []"
  then have "author_at (merge_char_attributions primary secondary content) author p \<longleftrightarrow>
      author_at primary author p \<or>
      (\<exists>attr \<in> set secondary. author_at (secondary_gaps (coverage_map primary (length content)) content attr) author p)"
    by (auto simp: merge_char_attributions_def Let_def author_at_def list_ex_iff)
  then show ?thesis by (simp add: author_at_gaps secondary_gaps_spec)
qed

lemma fills_gap_uncovered: "fills_gap primary content attr p \<Longrightarrow> \<not> someone_at primary p"
  by (fastforce simp: fills_gap_def Let_def list_ex_iff)

lemma author_at_someone: "author_at attrs author p \<Longrightarrow> someone_at attrs p"
  by (auto simp: author_at_def someone_at_def list_ex_iff)

section \<open>Lemmas: merged files\<close>

lemma merge_files_spec:
  "merge_files tracker primary secondary final_state files = Inr merged \<Longrightarrow>
     merged f = (if f \<in> set files
                 then Option.bind (final_state f) (\<lambda>content. case merge_file tracker primary secondary f content of Inr v \<Rightarrow> Some v | Inl e \<Rightarrow> None)
                 else None) \<and>
     (f \<in> set files \<longrightarrow> (\<forall>content. final_state f = Some content \<longrightarrow> (\<exists>v. merge_file tracker primary secondary f content = Inr v)))"
  by (induction files arbitrary: merged) (auto split: option.splits sum.splits)

text \<open>Contents the tracker can diff, before and after their line endings are normalised.\<close>

definition diffable :: "str \<Rightarrow> bool" where
  "diffable content \<longleftrightarrow> is_text content \<and> is_text (normalize_line_endings content)"

definition diffable_contents :: "(str \<rightharpoonup> str) \<Rightarrow> bool" where
  "diffable_contents contents \<longleftrightarrow> (\<forall>f content. contents f = Some content \<longrightarrow> diffable content)"

lemma update_attributions_total:
  assumes "diff_contract (ex_diff (Externals.truncate tracker))" "diffable old" "diffable new"
  shows "\<exists>result. update_attributions tracker old new attrs author ts = Inr result"
proof -
  have n: "\<exists>result. update_attributions_normalized tracker o' n' attrs' author ts ai = Inr result"
    if t: "is_text o'" "is_text n'" for o' n' attrs' ai
  proof -
    obtain dc where "compute_diffs (Externals.truncate tracker) o' n' ai = Inr dc"
      using compute_diffs_sides [OF assms(1) t, of ai] by blast
    then show ?thesis by (simp add: update_attributions_normalized_def Let_def split_beta)
  qed
  show ?thesis
  proof (cases "\<not> contains_crlf old \<and> \<not> contains_crlf new")
    case True
    then show ?thesis
      using n [of old new attrs False] assms(2,3)
      by (simp add: update_attributions_def update_attributions_for_checkpoint_def diffable_def)
  next
    case False
    obtain updated where "update_attributions_normalized tracker (normalize_line_endings old) (normalize_line_endings new)
        (List.map_filter (normalize_attribution (LineEndingOffsets_new old)) attrs) author ts False = Inr updated"
      using n assms(2,3) unfolding diffable_def by blast
    then show ?thesis
      using False by (auto simp: update_attributions_def update_attributions_for_checkpoint_def Let_def)
  qed
qed

lemma transform_source_total:
  assumes "diff_contract (ex_diff (Externals.truncate tracker))" "diffable_contents (va_file_contents va)" "diffable content"
  shows "\<exists>attrs. transform_source tracker va f content ts = Inr attrs"
proof (cases "get_char_attributions va f = None \<or> va_file_contents va f = None")
  case False
  then obtain attrs old where "get_char_attributions va f = Some attrs" "va_file_contents va f = Some old" by auto
  moreover from this have "diffable old" using assms(2) by (simp add: diffable_contents_def)
  ultimately show ?thesis
    using update_attributions_total [OF assms(1) _ assms(3), of old attrs DUMMY_AUTHOR ts]
    by (auto simp: transform_source_def transform_attributions_to_final_def)
qed (auto simp: transform_source_def split: option.splits)

lemma merge_files_total:
  "(\<And>f content. f \<in> set files \<Longrightarrow> final_state f = Some content \<Longrightarrow> \<exists>v. merge_file tracker primary secondary f content = Inr v) \<Longrightarrow>
     \<exists>merged. merge_files tracker primary secondary final_state files = Inr merged"
proof (induction files)
  case (Cons f files)
  then obtain others where "merge_files tracker primary secondary final_state files = Inr others" by fastforce
  then show ?case using Cons.prems [of f] by (cases "final_state f") fastforce+
qed simp

section \<open>Lemmas: lines without markers\<close>

lemma strip_loop_no_open: "line \<in> set (strip_loop c o' ls) \<Longrightarrow> line \<in> set ls \<and> \<not> starts_with line ''<<<<<<<''"
  by (induction c o' ls rule: strip_loop.induct) (auto split: if_splits)

lemma split_inclusive_shape: "x \<in> set (split_inclusive s) \<Longrightarrow> newline \<notin> set x \<or> (\<exists>y. x = y @ [newline] \<and> newline \<notin> set y)"
proof (induction s arbitrary: x)
  case (Cons c s)
  show ?case
  proof (cases "c = newline")
    case True
    then show ?thesis using Cons by auto
  next
    case False
    show ?thesis
    proof (cases "split_inclusive s")
      case Nil
      then show ?thesis using Cons.prems False by auto
    next
      case (Cons y ys)
      then have "x = c # y \<or> x \<in> set ys" using Cons.prems False \<open>x \<in> set (split_inclusive (c # s))\<close> by auto
      then show ?thesis
        using Cons.IH [of y] Cons.IH [of x] \<open>split_inclusive s = y # ys\<close> False
        by (auto simp: Cons_eq_append_conv)
    qed
  qed
qed simp

lemma str_lines_no_newline: "line \<in> set (str_lines s) \<Longrightarrow> newline \<notin> set line"
  by (auto simp: str_lines_def strip_eol_def Let_def dest!: split_inclusive_shape split: if_splits dest: in_set_butlastD)

lemma conflict_loop_open: "conflict_loop False has_close ls \<Longrightarrow> \<exists>line \<in> set ls. starts_with line ''<<<<<<<''"
proof (induction ls arbitrary: has_close)
  case (Cons a ls)
  then show ?case by (cases "starts_with a ''<<<<<<<''") (auto simp: Let_def)
qed simp

lemma starts_with_snoc: "starts_with (l @ [c]) p \<Longrightarrow> c \<notin> set p \<Longrightarrow> starts_with l p"
  by (auto simp: starts_with_iff append_eq_append_conv2 append_eq_Cons_conv Cons_eq_append_conv)

lemma strip_eol_prefix: "starts_with (strip_eol x) p \<Longrightarrow> starts_with x p"
proof -
  assume s: "starts_with (strip_eol x) p"
  have "strip_eol x = take (length x) x \<or> strip_eol x = take (length x - 1) x \<or> strip_eol x = take (length x - 1 - 1) x"
    by (simp add: strip_eol_def Let_def butlast_conv_take)
  then obtain k where "strip_eol x = take k x" by blast
  then have "x = strip_eol x @ drop k x" by simp
  then show "starts_with x p" using s by (auto simp: starts_with_iff)
qed

text \<open>The lines of joined lines are the lines, perhaps without a carriage return, and an empty one.\<close>

lemma split_inclusive_joined:
  assumes "\<forall>l \<in> set ls. newline \<notin> set l" "t = [] \<or> t = [newline]" "x \<in> set (split_inclusive (join [newline] ls @ t))"
  shows "x = [newline] \<or> (\<exists>l \<in> set ls. x = l \<or> x = l @ [newline])"
  using assms(1,3)
proof (induction "[newline]" ls rule: join.induct)
  case 1
  then show ?case using assms(2) by auto
next
  case (2 l)
  then show ?case
    using assms(2) split_inclusive_line [of l "[]"] split_inclusive_last [of l] by (cases "l = []") auto
next
  case (3 l l' ls)
  then show ?case using split_inclusive_line [of l "join [newline] (l' # ls) @ t"] by auto
qed

lemma stripped_no_open:
  assumes "line \<in> set (str_lines (strip_conflict_markers_keep_ours content))"
  shows "\<not> starts_with line ''<<<<<<<''"
proof
  assume s: "starts_with line ''<<<<<<<''"
  let ?ls = "strip_loop False False (str_lines content)"
  obtain x where x: "x \<in> set (split_inclusive (strip_conflict_markers_keep_ours content))" "line = strip_eol x"
    using assms by (auto simp: str_lines_def)
  have ls: "\<forall>l \<in> set ?ls. newline \<notin> set l \<and> \<not> starts_with l ''<<<<<<<''"
    using strip_loop_no_open str_lines_no_newline by blast
  have "x = [newline] \<or> (\<exists>l \<in> set ?ls. x = l \<or> x = l @ [newline])"
    using ls x(1) by (intro split_inclusive_joined [where t = "if ends_with content [newline] then [newline] else []"])
      (auto simp: strip_conflict_markers_keep_ours_def)
  moreover have "starts_with x ''<<<<<<<''" using s x(2) strip_eol_prefix by simp
  ultimately show False
    using ls starts_with_snoc [of _ newline "''<<<<<<<''"] by (auto simp: starts_with_def)
qed

section \<open>Lemmas: projections\<close>

text \<open>The committed lines taken for preexisting are those the diff matches with an observed line that
  no AI is recorded for.\<close>

definition untracked :: "(u32 \<rightharpoonup> str) \<Rightarrow> nat \<Rightarrow> bool" where
  "untracked authors x \<longleftrightarrow>
     (case authors (of_nat (x + 1)) of None \<Rightarrow> True | Some author \<Rightarrow> author = CheckpointKind_to_str Human)"

lemma set_preexisting_of_op:
  "set (preexisting_of_op authors op) =
     {of_nat (y + 1) | y. \<exists>a b n x. op = Equal a b n \<and> a \<le> x \<and> x < a + n \<and> y = b + (x - a) \<and> untracked authors x}"
proof (cases op)
  case (Equal a b n)
  have "set (preexisting_of_op authors op) = (\<lambda>k. of_nat (b + k + 1)) ` {k. k < n \<and> untracked authors (a + k)}"
    by (auto simp: Equal preexisting_of_op_def untracked_def)
  also have "\<dots> = {of_nat (y + 1) | y. \<exists>x. a \<le> x \<and> x < a + n \<and> y = b + (x - a) \<and> untracked authors x}" (is "?l = ?r")
  proof (rule set_eqI)
    fix m
    have "m \<in> ?r" if "k < n" "untracked authors (a + k)" "m = of_nat (b + k + 1)" for k
      using that by (intro CollectI exI [of _ "b + k"]) (auto intro!: exI [of _ "a + k"])
    moreover have "m \<in> ?l" if "a \<le> x" "x < a + n" "untracked authors x" "m = of_nat (b + (x - a) + 1)" for x
      using that by (intro image_eqI [of _ _ "x - a"]) auto
    ultimately show "m \<in> ?l \<longleftrightarrow> m \<in> ?r" by (auto simp del: of_nat_add of_nat_Suc)
  qed
  finally show ?thesis by (simp add: Equal)
qed (simp_all add: preexisting_of_op_def)

lemma preexisting_iff:
  "m \<in> set (concat (map (preexisting_of_op authors) ops)) \<longleftrightarrow>
     (\<exists>x y. matched ops x y \<and> m = of_nat (y + 1) \<and> untracked authors x)"
    (is "?lhs \<longleftrightarrow> ?rhs")
proof
  assume ?lhs
  then obtain op where op: "op \<in> set ops" "m \<in> set (preexisting_of_op authors op)" by auto
  from op(2) obtain a b n x where x: "op = Equal a b n" "a \<le> x" "x < a + n" "m = of_nat (b + (x - a) + 1)" "untracked authors x"
    unfolding set_preexisting_of_op by blast
  then have "matched ops x (b + (x - a))" using op(1) unfolding matched_def by blast
  then show ?rhs using x(4,5) by blast
next
  assume ?rhs
  then obtain x y where xy: "matched ops x y" "m = of_nat (y + 1)" "untracked authors x" by blast
  then obtain a b n where op: "Equal a b n \<in> set ops" "a \<le> x" "x < a + n" "y = b + (x - a)" unfolding matched_def by blast
  then have "m \<in> set (preexisting_of_op authors (Equal a b n))"
    unfolding set_preexisting_of_op using xy(2,3) by blast
  then show ?lhs using op(1) by auto
qed

section \<open>Properties\<close>

text \<open>C7. Merging two sources of attributions never fails on texts. The result has exactly the files of
  the final state, and in each the first source wins: a byte that it covers has exactly its authors,
  and any other byte has the authors of the second source that touch its character, provided the first
  source covers no byte of that character.\<close>

theorem merge_favors_first:
  assumes "diff_contract (ex_diff (Externals.truncate tracker))"
    and "diffable_contents (va_file_contents primary)" "diffable_contents (va_file_contents secondary)"
    and "diffable_contents final_state" "dom final_state \<subseteq> set all_files"
  shows "\<exists>merged. merge_attributions_favoring_first tracker file_order all_files primary secondary final_state = Inr merged \<and>
    dom (va_attributions merged) = dom final_state \<and>
    (\<forall>f content. final_state f = Some content \<and> content \<noteq> [] \<longrightarrow>
      (\<exists>first second cs.
         transform_source tracker primary f content (va_ts primary) = Inr first \<and>
         transform_source tracker secondary f content (va_ts primary) = Inr second \<and>
         get_char_attributions merged f = Some cs \<and>
         (\<forall>author p. author_at cs author p \<longleftrightarrow>
            (if someone_at first p then author_at first author p
             else \<exists>attr \<in> set second. at_author_id attr = author \<and> fills_gap first content attr p))))"
proof -
  have per_file: "\<exists>first second. transform_source tracker primary f content (va_ts primary) = Inr first \<and>
      transform_source tracker secondary f content (va_ts primary) = Inr second \<and>
      merge_file tracker primary secondary f content = Inr (merge_char_attributions first second content,
        attributions_to_line_attributions (merge_char_attributions first second content) content)"
    if "final_state f = Some content" for f content
  proof -
    have d: "diffable content" using assms(4) that by (simp add: diffable_contents_def)
    obtain first second where "transform_source tracker primary f content (va_ts primary) = Inr first"
        "transform_source tracker secondary f content (va_ts primary) = Inr second"
      using transform_source_total [OF assms(1,2) d] transform_source_total [OF assms(1,3) d] by blast
    then show ?thesis by (simp add: merge_file_def Let_def)
  qed
  then obtain attributions where m: "merge_files tracker primary secondary final_state all_files = Inr attributions"
    using merge_files_total [of all_files final_state tracker primary secondary] by blast
  have a: "attributions f = Option.bind (final_state f) (\<lambda>content.
      case merge_file tracker primary secondary f content of Inr v \<Rightarrow> Some v | Inl e \<Rightarrow> None)" for f
    using merge_files_spec [OF m, of f] assms(5) by (cases "final_state f") (auto split: if_splits)
  have "\<exists>first second cs.
      transform_source tracker primary f content (va_ts primary) = Inr first \<and>
      transform_source tracker secondary f content (va_ts primary) = Inr second \<and>
      map_option fst (attributions f) = Some cs \<and>
      (\<forall>author p. author_at cs author p \<longleftrightarrow>
         (if someone_at first p then author_at first author p
          else \<exists>attr \<in> set second. at_author_id attr = author \<and> fills_gap first content attr p))"
    if c: "final_state f = Some content" "content \<noteq> []" for f content
  proof -
    obtain first second where fs: "transform_source tracker primary f content (va_ts primary) = Inr first"
        "transform_source tracker secondary f content (va_ts primary) = Inr second"
        "attributions f = Some (merge_char_attributions first second content,
           attributions_to_line_attributions (merge_char_attributions first second content) content)"
      using per_file [OF c(1)] a [of f] c(1) by auto
    then show ?thesis
      using author_at_merged [OF c(2)] fills_gap_uncovered author_at_someone
      by (intro exI [of _ first] exI [of _ second] exI [of _ "merge_char_attributions first second content"]) auto
  qed
  moreover have "dom attributions = dom final_state"
  proof -
    have "attributions f = None \<longleftrightarrow> final_state f = None" for f
      using a [of f] per_file [of f] by (cases "final_state f") fastforce+
    then show ?thesis by (simp add: dom_def)
  qed
  ultimately show ?thesis
    using m by (auto simp: merge_attributions_favoring_first_def get_char_attributions_def Let_def)
qed

definition sample_source :: "(str \<rightharpoonup> Attribution list \<times> LineAttribution list) \<Rightarrow> (str \<rightharpoonup> str) \<Rightarrow> VirtualAttributions" where
  "sample_source attributions contents =
     \<lparr>va_base_commit = ''c'', va_attributions = attributions, va_file_contents = contents, va_prompts = Map.empty, va_ts = 5,
      va_blame_start_commit = None, va_humans = Map.empty, va_initial_only_prompt_ids = {}, va_sessions = Map.empty,
      va_failed_tool_snapshots = Map.empty\<rparr>"

lemma sample_diffable: "diffable ''a = 1''" "diffable ''a = 2''"
proof -
  have "normalize_line_endings ''a = 1'' = ''a = 1''" "normalize_line_endings ''a = 2'' = ''a = 2''" by code_simp+
  then show "diffable ''a = 1''" "diffable ''a = 2''" using short_text by (simp_all add: diffable_def)
qed

theorem merge_favors_first_witness:
  "\<exists>merged. merge_attributions_favoring_first example_config sorted_entries [''f'']
      (sample_source [''f'' \<mapsto> ([Attribution_new 0 5 ''s_1'' 1], [])] [''f'' \<mapsto> ''a = 1'']) (sample_source Map.empty Map.empty)
      [''f'' \<mapsto> ''a = 2''] = Inr merged \<and> dom (va_attributions merged) = {''f''}"
proof -
  have "diffable_contents [''f'' \<mapsto> ''a = 1'']" "diffable_contents Map.empty" "diffable_contents [''f'' \<mapsto> ''a = 2'']"
    using sample_diffable by (auto simp: diffable_contents_def split: if_splits)
  then show ?thesis
    using merge_favors_first [OF example_config_contract,
      of "sample_source [''f'' \<mapsto> ([Attribution_new 0 5 ''s_1'' 1], [])] [''f'' \<mapsto> ''a = 1'']" "sample_source Map.empty Map.empty"
         "[''f'' \<mapsto> ''a = 2'']" "[''f'']" sorted_entries]
    by (auto simp: sample_source_def)
qed

text \<open>A conflict whose local side is empty and that is the whole file leaves an empty line.\<close>

lemma stripped_empty_side_leaves_line:
  "strip_conflict_markers_keep_ours
     (''<<<<<<< x'' @ [newline] @ ''t'' @ [newline] @ ''======='' @ [newline] @ ''>>>>>>> y'' @ [newline]) = [newline]"
  by code_simp

text \<open>Content whose conflict markers were stripped has no conflict any more.\<close>

theorem stripped_content_has_no_conflict:
  "\<not> content_has_conflict_markers (strip_conflict_markers_keep_ours content)"
  using conflict_loop_open stripped_no_open unfolding content_has_conflict_markers_def by blast

end
