(* ===== verification/Git_Backend.thy ===== *)
theory Git_Backend
  imports Repo_State
begin

text \<open>
  What the daemon asks of git (\<open>src/daemon/git_backend.rs\<close>): the family of a worktree, the expansion of
  aliases with its cache, and the target directories of clone and init. Reading the configuration of
  a repository (the gix crate) is an argument. Shown: the expansion of aliases ends for every
  configuration and its result is no alias; the tokens of an alias value are those that were quoted
  into it, except that empty ones are lost.
\<close>

section \<open>Targets of clone and init\<close>

definition is_git_binary :: "str \<Rightarrow> bool" where
  "is_git_binary token =
     (token = ''git'' \<or> token = ''git.exe'' \<or> path_file_name token \<in> {Some ''git'', Some ''git.exe''})"

definition git_invocation_tokens :: "str list \<Rightarrow> str list" where
  "git_invocation_tokens argv =
     (case argv of token # rest \<Rightarrow> if is_git_binary token then rest else argv | [] \<Rightarrow> argv)"

fun args_after :: "str \<Rightarrow> str list \<Rightarrow> str list" where
  "args_after command [] = []"
| "args_after command (token # tokens) = (if token = command then tokens else args_after command tokens)"

definition backend_command_args :: "str list \<Rightarrow> str \<Rightarrow> str list" where
  "backend_command_args argv command = args_after command (git_invocation_tokens argv)"

definition takes_value :: "str \<Rightarrow> bool" where
  "takes_value arg = (arg \<in> set
     [''-b'', ''--branch'', ''--origin'', ''--upload-pack'', ''--template'', ''--separate-git-dir'', ''--reference'',
      ''--reference-if-able'', ''-c'', ''--config'', ''--object-format'', ''--depth'', ''--shallow-since'',
      ''--shallow-exclude'', ''-j'', ''--jobs'', ''--filter'', ''--bundle-uri'', ''--server-option''])"

fun clone_init_positionals :: "str list \<Rightarrow> str list" where
  "clone_init_positionals [] = []"
| "clone_init_positionals (arg # args) =
     (if arg = ''--'' then args
      else if starts_with arg ''-''
      then (if takes_value arg \<and> args \<noteq> [] then clone_init_positionals (tl args) else clone_init_positionals args)
      else arg # clone_init_positionals args)"

definition is_separator :: "char \<Rightarrow> bool" where
  "is_separator c = (c = CHR ''/'' \<or> c = CHR 0x5C)"

definition last_part :: "(char \<Rightarrow> bool) \<Rightarrow> str \<Rightarrow> str" where
  "last_part sep s = rev (takeWhile (\<lambda>c. \<not> sep c) (rev s))"

definition default_clone_target_from_source :: "str \<Rightarrow> str option" where
  "default_clone_target_from_source source0 =
     (let source = rev (dropWhile is_separator (rev source0));
          source = (if ends_with source ''.git'' then take (length source - 4) source else source);
          after_last_sep = last_part is_separator source;
          name = (if CHR '':'' \<in> set after_last_sep \<and> length after_last_sep > 2
                  then last_part (\<lambda>c. c = CHR '':'') after_last_sep else after_last_sep)
      in if name = [] then None else Some name)"

definition resolve_target :: "str \<Rightarrow> str option \<Rightarrow> str option" where
  "resolve_target target cwd_hint =
     (if is_absolute target then Some target
      else case cwd_hint of Some cwd \<Rightarrow> Some (path_join cwd target) | None \<Rightarrow> None)"

definition clone_target :: "str list \<Rightarrow> str option \<Rightarrow> str option" where
  "clone_target argv cwd_hint =
     (case clone_init_positionals (backend_command_args argv ''clone'') of
        [] \<Rightarrow> None
      | [source] \<Rightarrow> Option.bind (default_clone_target_from_source source) (\<lambda>target. resolve_target target cwd_hint)
      | source # target # _ \<Rightarrow> resolve_target target cwd_hint)"

definition init_target :: "str list \<Rightarrow> str option \<Rightarrow> str option" where
  "init_target argv cwd_hint =
     (case clone_init_positionals (backend_command_args argv ''init'') of
        [] \<Rightarrow> resolve_target ''.'' cwd_hint
      | target # _ \<Rightarrow> resolve_target target cwd_hint)"

definition resolve_family :: "FileSystem \<Rightarrow> str \<Rightarrow> str + FamilyKey" where
  "resolve_family fs worktree =
     (case common_dir_for_repo_path fs worktree of
        None \<Rightarrow> Inl (''Failed to resolve git common dir for repo path '' @ worktree)
      | Some common \<Rightarrow> Inr (family_of_common_dir fs common))"

section \<open>Alias values\<close>

abbreviation squote :: char where "squote \<equiv> CHR 0x27"
abbreviation dquote :: char where "dquote \<equiv> CHR 0x22"
abbreviation backslash :: char where "backslash \<equiv> CHR 0x5C"

definition push_token :: "str list \<Rightarrow> str \<Rightarrow> str list" where
  "push_token tokens current = (if current = [] then tokens else tokens @ [current])"

text \<open>The loop over the characters of an alias value; the states are \<open>in_single\<close>, \<open>in_double\<close> and \<open>escaped\<close>.\<close>

function alias_loop :: "bool \<Rightarrow> bool \<Rightarrow> bool \<Rightarrow> str \<Rightarrow> str list \<Rightarrow> str \<Rightarrow> str list option" where
  "alias_loop in_single in_double escaped current tokens [] =
     (let current = (if escaped then current @ [backslash] else current)
      in if in_single \<or> in_double then None else Some (push_token tokens current))"
| "alias_loop in_single in_double escaped current tokens (ch # rest) =
     (if escaped then alias_loop in_single in_double False (current @ [ch]) tokens rest
      else if in_single
      then (if ch = squote then alias_loop False in_double False current tokens rest
            else alias_loop True in_double False (current @ [ch]) tokens rest)
      else if in_double
      then (if ch = dquote then alias_loop False False False current tokens rest
            else if ch = backslash then alias_loop False True True current tokens rest
            else alias_loop False True False (current @ [ch]) tokens rest)
      else if ch = squote then alias_loop True False False current tokens rest
      else if ch = dquote then alias_loop False True False current tokens rest
      else if ch = backslash then alias_loop False False True current tokens rest
      else if 0 < ws_len (ch # rest)
      then alias_loop False False False [] (push_token tokens current) (drop (ws_len (ch # rest) - 1) rest)
      else alias_loop False False False (current @ [ch]) tokens rest)"
  by pat_completeness auto
termination by (relation "measure (\<lambda>(_, _, _, _, _, s). length s)") auto

definition parse_alias_tokens :: "str \<Rightarrow> str list option" where
  "parse_alias_tokens value =
     (let trimmed = trim_start value
      in if starts_with trimmed ''!'' then None else alias_loop False False False [] [] trimmed)"

section \<open>The cache of aliases\<close>

definition ALIAS_CACHE_TTL_SECS :: nat where "ALIAS_CACHE_TTL_SECS = 60"

record AliasCacheEntry =
  ce_aliases :: "str \<rightharpoonup> str"
  ce_refreshed_at :: nat
  ce_refresh_in_progress :: bool

type_synonym alias_cache = "str \<rightharpoonup> AliasCacheEntry"

text \<open>Reading the configuration: all aliases of a repository with their names in lower case (None when
  the repository is not found or not readable), and one value.\<close>

record ConfigReader =
  read_all_aliases :: "str \<Rightarrow> (str \<rightharpoonup> str) option"
  config_get_str :: "str \<Rightarrow> str \<Rightarrow> str + str option"

definition refresh_alias_cache :: "ConfigReader \<Rightarrow> nat \<Rightarrow> str \<Rightarrow> str \<Rightarrow> alias_cache \<Rightarrow> alias_cache" where
  "refresh_alias_cache cfg now worktree family_key cache =
     (case read_all_aliases cfg worktree of
        None \<Rightarrow> (case cache family_key of
                   None \<Rightarrow> cache
                 | Some entry \<Rightarrow> cache(family_key \<mapsto> entry\<lparr>ce_refresh_in_progress := False\<rparr>))
      | Some aliases \<Rightarrow>
          cache(family_key \<mapsto> \<lparr>ce_aliases = aliases, ce_refreshed_at = now, ce_refresh_in_progress = False\<rparr>))"

definition resolve_alias_uncached :: "ConfigReader \<Rightarrow> str \<Rightarrow> str \<Rightarrow> str + str option" where
  "resolve_alias_uncached cfg worktree alias_name = config_get_str cfg worktree (''alias.'' @ alias_name)"

text \<open>A stale entry is answered from and marked; the refresh of a marked entry is \<open>refresh_alias_cache\<close>,
  which a thread runs later.\<close>

definition resolve_alias_cached ::
  "FileSystem \<Rightarrow> ConfigReader \<Rightarrow> nat \<Rightarrow> str \<Rightarrow> alias_cache \<Rightarrow> str \<Rightarrow> alias_cache \<times> (str + str option)" where
  "resolve_alias_cached fs cfg now worktree cache alias_name =
     (case common_dir_for_worktree fs worktree of
        None \<Rightarrow> (cache, resolve_alias_uncached cfg worktree alias_name)
      | Some common_dir \<Rightarrow>
          (let family_key = family_of_common_dir fs common_dir
           in case cache family_key of
                Some entry \<Rightarrow>
                  (if ALIAS_CACHE_TTL_SECS \<le> now - ce_refreshed_at entry \<and> \<not> ce_refresh_in_progress entry
                   then cache(family_key \<mapsto> entry\<lparr>ce_refresh_in_progress := True\<rparr>) else cache,
                   Inr (ce_aliases entry (to_ascii_lowercase alias_name)))
              | None \<Rightarrow>
                  (let cache' = refresh_alias_cache cfg now worktree family_key cache
                   in case cache' family_key of
                        Some entry \<Rightarrow> (cache', Inr (ce_aliases entry (to_ascii_lowercase alias_name)))
                      | None \<Rightarrow> (cache', resolve_alias_uncached cfg worktree alias_name))))"

section \<open>The expansion of aliases\<close>

definition is_builtin_primary_command :: "str \<Rightarrow> bool" where
  "is_builtin_primary_command command = (command \<in> set
     [''add'', ''blame'', ''branch'', ''cat-file'', ''check-attr'', ''check-ignore'', ''check-mailmap'', ''checkout'',
      ''cherry-pick'', ''clean'', ''clone'', ''commit'', ''config'', ''count-objects'', ''describe'', ''diff'',
      ''diff-files'', ''diff-index'', ''diff-tree'', ''fetch'', ''for-each-ref'', ''grep'', ''hash-object'', ''help'',
      ''init'', ''log'', ''ls-files'', ''ls-tree'', ''merge'', ''merge-base'', ''mktree'', ''mv'', ''name-rev'',
      ''notes'', ''pull'', ''push'', ''rebase'', ''remote'', ''reset'', ''restore'', ''rev-list'', ''rev-parse'',
      ''revert'', ''rm'', ''shortlog'', ''show'', ''stash'', ''status'', ''switch'', ''symbolic-ref'', ''tag'',
      ''update-ref'', ''var'', ''verify-commit'', ''verify-tag'', ''version'', ''worktree''])"

text \<open>The loop has no bound of its own: a run that does not end is None. The state is that of the lookup.\<close>

type_synonym 's lookup = "'s \<Rightarrow> str \<Rightarrow> 's \<times> (str + str option)"

partial_function (option) expand_loop ::
  "'s lookup \<Rightarrow> 's \<Rightarrow> ParsedGitInvocation \<Rightarrow> str set \<Rightarrow> ('s \<times> (str + (str \<times> str list) option)) option" where
  "expand_loop lookup s current seen =
     (case pg_command current of
        None \<Rightarrow> Some (s, Inr None)
      | Some command \<Rightarrow>
          if command \<in> seen then Some (s, Inr None)
          else if is_builtin_primary_command command then Some (s, Inr (Some (command, pg_command_args current)))
          else (case lookup s command of
                  (s', Inl err) \<Rightarrow> Some (s', Inl err)
                | (s', Inr None) \<Rightarrow> Some (s', Inr (Some (command, pg_command_args current)))
                | (s', Inr (Some alias_value)) \<Rightarrow>
                    (case parse_alias_tokens alias_value of
                       None \<Rightarrow> Some (s', Inr None)
                     | Some alias_tokens \<Rightarrow>
                         expand_loop lookup s'
                           (parse_git_cli_args (pg_global_args current @ alias_tokens @ pg_command_args current))
                           (insert command seen))))"

declare expand_loop.simps [code]

definition expand_alias_invocation ::
  "FileSystem \<Rightarrow> ConfigReader \<Rightarrow> nat \<Rightarrow> alias_cache \<Rightarrow> str \<Rightarrow> str list \<Rightarrow>
     (alias_cache \<times> (str + (str \<times> str list) option)) option" where
  "expand_alias_invocation fs cfg now cache worktree argv =
     expand_loop (resolve_alias_cached fs cfg now worktree) cache
       (parse_git_cli_args (git_invocation_tokens argv)) {}"

section \<open>Quoting\<close>

text \<open>The quoting of a shell: single quotes, and a quoted single quote as a backslash outside of them.\<close>

definition quoted_body :: "str \<Rightarrow> str" where
  "quoted_body t = concat (map (\<lambda>c. if c = squote then [squote, backslash, squote, squote] else [c]) t)"

definition shell_quote :: "str \<Rightarrow> str" where
  "shell_quote t = squote # quoted_body t @ [squote]"

lemma alias_loop_body: "alias_loop True False False current tokens (quoted_body t @ rest) = alias_loop True False False (current @ t) tokens rest"
proof (induction t arbitrary: current)
  case (Cons c t)
  then show ?case by (cases "c = squote") (simp_all add: quoted_body_def)
qed (simp add: quoted_body_def)

lemma alias_loop_quoted: "alias_loop False False False current tokens (shell_quote t @ rest) = alias_loop False False False (current @ t) tokens rest"
  by (simp add: shell_quote_def alias_loop_body)

lemma ws_len_blank: "ws_len (CHR '' '' # rest) = 1"
  by (simp add: ws_len_def ws_encodings_def starts_with_def)

lemma ws_len_nil: "ws_len [] = 0"
  by (simp add: ws_len_def ws_encodings_def starts_with_def)

lemma ws_len_squote: "ws_len (squote # rest) = 0"
  by (simp add: ws_len_def ws_encodings_def starts_with_def)

lemma alias_loop_joined:
  "alias_loop False False False [] tokens (join '' '' (map shell_quote ts)) = Some (tokens @ filter (\<lambda>t. t \<noteq> []) ts)"
proof (induction ts arbitrary: tokens rule: induct_list012)
  case (2 t)
  then show ?case using alias_loop_quoted [of "[]" tokens t "[]"] by (simp add: push_token_def)
next
  case (3 t t' ts)
  have "alias_loop False False False [] tokens (join '' '' (map shell_quote (t # t' # ts))) =
      alias_loop False False False t tokens (CHR '' '' # join '' '' (map shell_quote (t' # ts)))"
    using alias_loop_quoted [of "[]" tokens t] by simp
  then show ?case using 3(2) by (simp add: ws_len_blank push_token_def)
qed (simp add: push_token_def)

section \<open>Lemmas on the expansion\<close>

lemma take_valueish_set:
  "set (fst (take_valueish tok rest key)) \<union> set (snd (take_valueish tok rest key)) = insert tok (set rest)"
  using arg_cong [OF take_valueish_tokens [of tok rest key], of set] by simp

lemma scan_globals_subset:
  "scan_globals g m args = (g', m', saw, rest) \<Longrightarrow> set g' \<union> set m' \<union> set rest \<subseteq> set g \<union> set m \<union> set args"
proof (induction g m args rule: scan_globals.induct)
  case (2 g m tok rest0)
  note valued = take_valueish_set [of tok rest0 "option_key tok"]
  show ?case
  proof (cases "tok = ''--''")
    case False
    show ?thesis
    proof (cases "classify tok")
      case GlobalTakesValue
      then have "set g' \<union> set m' \<union> set rest \<subseteq> set (g @ fst (take_valueish tok rest0 (option_key tok))) \<union> set m \<union>
          set (snd (take_valueish tok rest0 (option_key tok)))"
        using 2 False by simp
      then show ?thesis using valued unfolding set_append list.set by blast
    next
      case MetaNoValue
      then have "set g' \<union> set m' \<union> set rest \<subseteq> set g \<union> set (m @ [tok]) \<union> set rest0" using 2 False by simp
      then show ?thesis by auto
    next
      case GlobalNoValue
      then have "set g' \<union> set m' \<union> set rest \<subseteq> set (g @ [tok]) \<union> set m \<union> set rest0" using 2 False by simp
      then show ?thesis by auto
    qed (use 2 False in auto)
  qed (use 2 in auto)
qed simp

lemma drop_first_subset: "set (drop_first P xs) \<subseteq> set xs"
  by (induction xs) auto

definition invocation_tokens :: "ParsedGitInvocation \<Rightarrow> str set" where
  "invocation_tokens p = set (pg_global_args p) \<union> set_option (pg_command p) \<union> set (pg_command_args p)"

lemma rewrite_meta_subset:
  "rewrite_meta meta command args = (command', args') \<Longrightarrow>
     set_option command' \<union> set args' \<subseteq> set meta \<union> set_option command \<union> set args \<union> {''help'', ''version''}"
  using drop_first_subset by (fastforce simp: rewrite_meta_def Let_def split: option.splits if_splits)

lemma parse_git_cli_tokens: "invocation_tokens (parse_git_cli_args args) \<subseteq> set args \<union> {''help'', ''version''}"
proof -
  obtain g m saw rest where scan: "scan_globals [] [] args = (g, m, saw, rest)" by (rule prod_cases4)
  obtain c as where found: "(case rest of
               tok # rest' \<Rightarrow> if saw \<or> \<not> starts_with tok ''-'' then (Some tok, rest') else (None, m @ rest)
             | [] \<Rightarrow> (None, m @ rest)) = (c, as)" by (rule prod.exhaust)
  have "set_option c \<union> set as \<subseteq> set m \<union> set rest" using found by (cases rest; cases saw) (auto split: if_splits)
  moreover obtain c' as' where meta: "rewrite_meta m c as = (c', as')" by (rule prod.exhaust)
  moreover have "invocation_tokens (parse_git_cli_args args) = set g \<union> set_option c' \<union> set as'"
    unfolding parse_git_cli_args_def Let_def scan prod.case found meta by (simp add: invocation_tokens_def)
  moreover have "set g \<union> set m \<union> set rest \<subseteq> set args" using scan_globals_subset [OF scan] by simp
  moreover define H where "H = {''help'', ''version'' :: str}"
  ultimately show ?thesis using rewrite_meta_subset [OF meta] unfolding H_def [symmetric] by blast
qed

text \<open>The values of aliases a lookup can give are finitely many, so the expansion ends: every round
  adds another of the finitely many tokens to the commands seen.\<close>

definition value_tokens :: "str \<Rightarrow> str set" where
  "value_tokens v = (case parse_alias_tokens v of None \<Rightarrow> {} | Some tokens \<Rightarrow> set tokens)"

lemma expand_loop_ends:
  assumes lookup: "\<And>s n s' r. I s \<Longrightarrow> lookup s n = (s', r) \<Longrightarrow> I s' \<and> (\<forall>v. r = Inr (Some v) \<longrightarrow> value_tokens v \<subseteq> T)"
    and stable: "\<And>s n s' r. I s \<Longrightarrow> lookup s n = (s', r) \<Longrightarrow> snd (lookup s' n) = r"
    and universe: "finite T" "{''help'', ''version''} \<subseteq> T"
    and start: "I s" "invocation_tokens current \<subseteq> T"
  shows "\<exists>s' r. expand_loop lookup s current seen = Some (s', r) \<and>
    (\<forall>cmd args. r = Inr (Some (cmd, args)) \<longrightarrow> is_builtin_primary_command cmd \<or> snd (lookup s' cmd) = Inr None)"
  using start
proof (induction "card (T - seen)" arbitrary: s current seen rule: less_induct)
  case less
  show ?case
  proof (cases "pg_command current")
    case (Some command)
    show ?thesis
    proof (cases "command \<in> seen \<or> is_builtin_primary_command command")
      case True
      with Some show ?thesis by (subst expand_loop.simps) auto
    next
      case False
      obtain s' r where l: "lookup s command = (s', r)" by (metis prod.exhaust)
      note next_state = lookup [OF less(2) l]
      show ?thesis
      proof (cases "\<exists>v tokens. r = Inr (Some v) \<and> parse_alias_tokens v = Some tokens")
        case False
        with \<open>\<not> (command \<in> seen \<or> is_builtin_primary_command command)\<close> Some l stable [OF less(2) l] show ?thesis
          by (subst expand_loop.simps) (auto split: sum.splits option.splits)
      next
        case True
        then obtain v tokens where v: "r = Inr (Some v)" "parse_alias_tokens v = Some tokens" by blast
        let ?current = "parse_git_cli_args (pg_global_args current @ tokens @ pg_command_args current)"
        have "set tokens \<subseteq> T" using next_state v by (auto simp: value_tokens_def)
        then have "invocation_tokens ?current \<subseteq> T"
          using parse_git_cli_tokens [of "pg_global_args current @ tokens @ pg_command_args current"] less(3) universe(2)
          by (auto simp: invocation_tokens_def)
        moreover have "card (T - insert command seen) < card (T - seen)"
          using Some False less(3) universe(1) by (intro psubset_card_mono) (auto simp: invocation_tokens_def)
        ultimately have "\<exists>s'' r'. expand_loop lookup s' ?current (insert command seen) = Some (s'', r') \<and>
            (\<forall>cmd args. r' = Inr (Some (cmd, args)) \<longrightarrow> is_builtin_primary_command cmd \<or> snd (lookup s'' cmd) = Inr None)"
          using less(1) next_state by blast
        with False Some l v show ?thesis by (subst expand_loop.simps) simp
      qed
    qed
  qed (subst expand_loop.simps, simp)
qed

definition finite_config :: "ConfigReader \<Rightarrow> str \<Rightarrow> bool" where
  "finite_config cfg worktree =
     (finite (range (config_get_str cfg worktree)) \<and>
      (\<forall>aliases. read_all_aliases cfg worktree = Some aliases \<longrightarrow> finite (dom aliases)))"

definition finite_cache :: "alias_cache \<Rightarrow> bool" where
  "finite_cache cache = (\<forall>key entry. cache key = Some entry \<longrightarrow> finite (dom (ce_aliases entry)))"

text \<open>A lookup gives values of the configuration or of the cache, and again the same.\<close>

definition alias_values :: "ConfigReader \<Rightarrow> str \<Rightarrow> alias_cache \<Rightarrow> str \<Rightarrow> str set" where
  "alias_values cfg worktree cache key =
     {v. Inr (Some v) \<in> range (config_get_str cfg worktree)} \<union>
     (case read_all_aliases cfg worktree of None \<Rightarrow> {} | Some aliases \<Rightarrow> ran aliases) \<union>
     (case cache key of None \<Rightarrow> {} | Some entry \<Rightarrow> ran (ce_aliases entry))"

lemma alias_values_finite:
  assumes "finite_config cfg worktree" "finite_cache cache"
  shows "finite (alias_values cfg worktree cache key)"
proof -
  have "(\<lambda>v. Inr (Some v)) ` {v. Inr (Some v) \<in> range (config_get_str cfg worktree)} \<subseteq> range (config_get_str cfg worktree)"
    by auto
  then have "finite ((\<lambda>v. Inr (Some v) :: str + str option) ` {v. Inr (Some v) \<in> range (config_get_str cfg worktree)})"
    using assms(1) finite_subset unfolding finite_config_def by blast
  then have "finite {v. Inr (Some v) \<in> range (config_get_str cfg worktree)}"
    by (rule finite_imageD) (simp add: inj_on_def)
  moreover have "finite (case read_all_aliases cfg worktree of None \<Rightarrow> {} | Some aliases \<Rightarrow> ran aliases)"
    using assms(1) by (auto simp: finite_config_def split: option.split intro: finite_ran)
  moreover have "finite (case cache key of None \<Rightarrow> {} | Some entry \<Rightarrow> ran (ce_aliases entry))"
    using assms(2) by (auto simp: finite_cache_def split: option.split intro: finite_ran)
  ultimately show ?thesis by (simp add: alias_values_def)
qed

definition alias_key :: "FileSystem \<Rightarrow> str \<Rightarrow> str" where
  "alias_key fs worktree =
     (case common_dir_for_worktree fs worktree of None \<Rightarrow> [] | Some dir \<Rightarrow> family_of_common_dir fs dir)"

lemmas alias_lookup_defs = resolve_alias_cached_def resolve_alias_uncached_def refresh_alias_cache_def alias_values_def alias_key_def

lemma resolve_alias_cached_value:
  assumes "resolve_alias_cached fs cfg now worktree cache n = (cache', Inr (Some v))"
  shows "v \<in> alias_values cfg worktree cache (alias_key fs worktree)"
  using assms by (auto simp: alias_lookup_defs Let_def ranI split: option.splits if_splits) (metis rangeI)+

lemma resolve_alias_cached_shrinks:
  assumes "resolve_alias_cached fs cfg now worktree cache n = (cache', r)"
  shows "alias_values cfg worktree cache' key \<subseteq> alias_values cfg worktree cache key"
  using assms by (auto simp: alias_lookup_defs Let_def split: option.splits if_splits)

lemma resolve_alias_cached_stable:
  assumes "resolve_alias_cached fs cfg now worktree cache n = (cache', r)"
  shows "snd (resolve_alias_cached fs cfg now worktree cache' n) = r"
  using assms by (auto simp: alias_lookup_defs Let_def split: option.splits if_splits)

section \<open>Properties\<close>

text \<open>C17. The expansion of aliases ends for every configuration, also when aliases refer to each
  other in circles, whatever is in the cache. If it gives a command, this is one of git's own or it is
  no alias: no further expansion would change it.\<close>

theorem alias_expansion_ends:
  assumes "finite_config cfg worktree" "finite_cache cache"
  shows "\<exists>cache' r. expand_alias_invocation fs cfg now cache worktree argv = Some (cache', r) \<and>
    (\<forall>cmd args. r = Inr (Some (cmd, args)) \<longrightarrow>
       is_builtin_primary_command cmd \<or> snd (resolve_alias_cached fs cfg now worktree cache' cmd) = Inr None)"
proof -
  let ?V = "alias_values cfg worktree cache (alias_key fs worktree)"
  let ?T = "set (git_invocation_tokens argv) \<union> {''help'', ''version''} \<union> (\<Union>v \<in> ?V. value_tokens v)"
  let ?I = "\<lambda>c. alias_values cfg worktree c (alias_key fs worktree) \<subseteq> ?V"
  have universe: "finite ?T"
    using alias_values_finite [OF assms] by (auto simp: value_tokens_def split: option.splits)
  have tokens: "invocation_tokens (parse_git_cli_args (git_invocation_tokens argv)) \<subseteq> ?T"
    using parse_git_cli_tokens [of "git_invocation_tokens argv"] by blast
  have "?I c' \<and> (\<forall>v. r = Inr (Some v) \<longrightarrow> value_tokens v \<subseteq> ?T)"
    if "?I c" "resolve_alias_cached fs cfg now worktree c n = (c', r)" for c n c' r
    using that resolve_alias_cached_value resolve_alias_cached_shrinks by blast
  from expand_loop_ends [where I = ?I and T = ?T and s = cache and seen = "{}", OF this resolve_alias_cached_stable universe _ _ tokens]
  show ?thesis unfolding expand_alias_invocation_def by simp
qed

definition sample_fs :: FileSystem where
  "sample_fs = \<lparr>is_file = (\<lambda>p. p = ''/r/.git/HEAD''), is_dir = (\<lambda>p. p = ''/r/.git''), read_to_string = (\<lambda>_. None),
     canonicalize = Some\<rparr>"

definition sample_config :: ConfigReader where
  "sample_config = \<lparr>read_all_aliases = (\<lambda>_. Some [''a'' \<mapsto> ''b -x'', ''b'' \<mapsto> ''a'', ''up'' \<mapsto> ''pull --rebase'']),
     config_get_str = (\<lambda>_ _. Inr None)\<rparr>"

theorem alias_expansion_ends_witness:
  "(\<exists>cache' r. expand_alias_invocation sample_fs sample_config 7 Map.empty ''/r'' [''git'', ''a''] = Some (cache', r)) \<and>
   map_option snd (expand_alias_invocation sample_fs sample_config 7 Map.empty ''/r'' [''git'', ''up'', ''o'']) =
     Some (Inr (Some (''pull'', [''--rebase'', ''o''])))"
proof
  have "finite_config sample_config ''/r''" "finite_cache Map.empty"
    by (simp_all add: finite_config_def finite_cache_def sample_config_def)
  from alias_expansion_ends [OF this, of sample_fs 7 "[''git'', ''a'']"]
  show "\<exists>cache' r. expand_alias_invocation sample_fs sample_config 7 Map.empty ''/r'' [''git'', ''a''] = Some (cache', r)"
    by blast
  show "map_option snd (expand_alias_invocation sample_fs sample_config 7 Map.empty ''/r'' [''git'', ''up'', ''o'']) =
     Some (Inr (Some (''pull'', [''--rebase'', ''o''])))"
    by code_simp
qed

text \<open>C18. The value of an alias is taken apart into the words that were quoted into it, whatever
  characters they contain. Empty words are lost, though.\<close>

theorem parse_alias_tokens_quoted:
  "parse_alias_tokens (join '' '' (map shell_quote tokens)) = Some (filter (\<lambda>t. t \<noteq> []) tokens)"
proof -
  have form: "join '' '' (map shell_quote tokens) = [] \<or> (\<exists>rest. join '' '' (map shell_quote tokens) = squote # rest)"
    by (cases tokens; cases "tl tokens") (simp_all add: shell_quote_def)
  then have "trim_start (join '' '' (map shell_quote tokens)) = join '' '' (map shell_quote tokens)"
    by (elim disjE exE) (simp_all add: trim_start.simps [of "[]"] trim_start.simps [of "squote # _"] ws_len_squote ws_len_nil)
  moreover have "\<not> starts_with (join '' '' (map shell_quote tokens)) ''!''"
    using form by (auto simp: starts_with_def)
  ultimately show ?thesis by (simp add: parse_alias_tokens_def alias_loop_joined)
qed

end
