(* ===== verification/Trace_Normalizer.thy ===== *)
theory Trace_Normalizer
  imports Git_Backend
begin

text \<open>
  The trace normalizer of the daemon (\<open>src/daemon/trace_normalizer.rs\<close>): it collects the trace2 events
  that the processes of a git command write and gives one normalised command when the root process
  has ended. Events of different commands arrive interleaved, and the events of one command may
  arrive out of order. An event is a JSON value, which is read through the accessors of serde_json;
  these, the clock, the file system and the backend are the fields of \<open>TraceEnv\<close>, an argument of every
  step. A step changes the state also when it ends in an error, so its result is the new state with
  an error or an answer.
\<close>

section \<open>State\<close>

record PendingTraceCommand =
  pt_root_sid :: str
  pt_raw_argv :: "str list"
  pt_root_cmd_name :: "str option"
  pt_observed_child_commands :: "str list"
  pt_invocation_worktree :: "str option"
  pt_worktree :: "str option"
  pt_family_key :: "FamilyKey option"
  pt_started_at_ns :: nat
  pt_exit_code :: "32 word option"
  pt_finished_at_ns :: "nat option"
  pt_reflog_start_offsets :: "str \<rightharpoonup> u64"
  pt_saw_def_repo :: bool

record DeferredRootExit =
  de_exit_code :: "32 word"
  de_finished_at_ns :: nat
  de_is_atexit :: bool

record TraceNormalizerState =
  tn_pending :: "str \<rightharpoonup> PendingTraceCommand"
  tn_deferred_exits :: "str \<rightharpoonup> DeferredRootExit"
  tn_completed_roots :: "str set"
  tn_completed_root_order :: "str list"
  tn_sid_to_worktree :: "str \<rightharpoonup> str"
  tn_sid_to_family :: "str \<rightharpoonup> FamilyKey"
  tn_prestart_root_cmd_names :: "str \<rightharpoonup> str"

record OrphanTraceRoot =
  or_root_sid :: str
  or_raw_argv :: "str list"
  or_deferred_exit_only :: bool

definition COMPLETED_ROOT_RETENTION_LIMIT :: nat where "COMPLETED_ROOT_RETENTION_LIMIT = 16384"

definition TraceNormalizer_new :: TraceNormalizerState where
  "TraceNormalizer_new = \<lparr>tn_pending = Map.empty, tn_deferred_exits = Map.empty, tn_completed_roots = {},
     tn_completed_root_order = [], tn_sid_to_worktree = Map.empty, tn_sid_to_family = Map.empty,
     tn_prestart_root_cmd_names = Map.empty\<rparr>"

text \<open>The accessors of a JSON value, the conversions of times to nanoseconds, and what the steps ask of
  the machine.\<close>

record 'v Json =
  js_get :: "'v \<Rightarrow> str \<Rightarrow> 'v option"
  js_as_str :: "'v \<Rightarrow> str option"
  js_as_u64 :: "'v \<Rightarrow> u64 option"
  js_as_i64 :: "'v \<Rightarrow> u64 option"
  js_as_array :: "'v \<Rightarrow> 'v list option"
  js_as_object :: "'v \<Rightarrow> (str \<times> 'v) list option"

record GitBackend =
  gb_resolve_primary_command :: "str \<Rightarrow> str list \<Rightarrow> str + str option"
  gb_resolve_invocation :: "str \<Rightarrow> str list \<Rightarrow> str + (str \<times> str list) option"
  gb_clone_target :: "str list \<Rightarrow> str option \<Rightarrow> str option"
  gb_init_target :: "str list \<Rightarrow> str option \<Rightarrow> str option"

record 'v TraceEnv =
  te_json :: "'v Json"
  te_fs :: FileSystem
  te_backend :: GitBackend
  te_rfc3339_to_unix_nanos :: "str \<Rightarrow> nat option"
  te_seconds_as_nanos :: "'v \<Rightarrow> nat option"
  te_now :: nat

type_synonym 'a outcome = "TraceNormalizerState \<times> (str + 'a)"

section \<open>Roots\<close>

definition is_completed_root :: "TraceNormalizerState \<Rightarrow> str \<Rightarrow> bool" where
  "is_completed_root st root_sid = (root_sid \<in> tn_completed_roots st)"

text \<open>The oldest roots are forgotten until the limit is kept or the order has run out.\<close>

fun evict_roots :: "nat \<Rightarrow> str set \<Rightarrow> str list \<Rightarrow> str set \<times> str list" where
  "evict_roots limit roots [] = (roots, [])"
| "evict_roots limit roots (oldest # order) =
     (if limit < card roots then evict_roots limit (roots - {oldest}) order else (roots, oldest # order))"

definition mark_completed_root_with_limit :: "nat \<Rightarrow> str \<Rightarrow> TraceNormalizerState \<Rightarrow> TraceNormalizerState" where
  "mark_completed_root_with_limit limit root_sid st =
     (let order = (if root_sid \<in> tn_completed_roots st then tn_completed_root_order st
                   else tn_completed_root_order st @ [root_sid]);
          (roots, order) = evict_roots limit (insert root_sid (tn_completed_roots st)) order
      in st\<lparr>tn_completed_roots := roots, tn_completed_root_order := order\<rparr>)"

definition mark_completed_root :: "str \<Rightarrow> TraceNormalizerState \<Rightarrow> TraceNormalizerState" where
  "mark_completed_root = mark_completed_root_with_limit COMPLETED_ROOT_RETENTION_LIMIT"

definition forget_sid :: "str \<Rightarrow> TraceNormalizerState \<Rightarrow> TraceNormalizerState" where
  "forget_sid root_sid st =
     st\<lparr>tn_sid_to_worktree := (tn_sid_to_worktree st)(root_sid := None),
        tn_sid_to_family := (tn_sid_to_family st)(root_sid := None),
        tn_prestart_root_cmd_names := (tn_prestart_root_cmd_names st)(root_sid := None)\<rparr>"

definition remove_pending_root :: "str \<Rightarrow> TraceNormalizerState \<Rightarrow> TraceNormalizerState \<times> PendingTraceCommand option" where
  "remove_pending_root root_sid st =
     (case tn_pending st root_sid of
        None \<Rightarrow> (st, None)
      | Some pending \<Rightarrow> (forget_sid root_sid (st\<lparr>tn_pending := (tn_pending st)(root_sid := None)\<rparr>), Some pending))"

definition remove_deferred_root :: "str \<Rightarrow> TraceNormalizerState \<Rightarrow> TraceNormalizerState" where
  "remove_deferred_root root_sid st =
     forget_sid root_sid (st\<lparr>tn_deferred_exits := (tn_deferred_exits st)(root_sid := None)\<rparr>)"

text \<open>The two loops of \<open>sweep_orphans\<close>, over the keys of the hash maps in the order they are iterated.\<close>

fun sweep_pending :: "str list \<Rightarrow> TraceNormalizerState \<Rightarrow> TraceNormalizerState \<times> OrphanTraceRoot list" where
  "sweep_pending [] st = (st, [])"
| "sweep_pending (root_sid # roots) st =
     (case remove_pending_root root_sid st of
        (st', None) \<Rightarrow> sweep_pending roots st'
      | (st', Some pending) \<Rightarrow>
          (let (st'', removed) = sweep_pending roots st'
           in (st'', \<lparr>or_root_sid = root_sid, or_raw_argv = pt_raw_argv pending, or_deferred_exit_only = False\<rparr> # removed)))"

fun sweep_deferred :: "str list \<Rightarrow> TraceNormalizerState \<Rightarrow> TraceNormalizerState \<times> OrphanTraceRoot list" where
  "sweep_deferred [] st = (st, [])"
| "sweep_deferred (root_sid # roots) st =
     (let (st', removed) = sweep_deferred roots (remove_deferred_root root_sid st)
      in (st', \<lparr>or_root_sid = root_sid, or_raw_argv = [], or_deferred_exit_only = True\<rparr> # removed))"

definition sweep_orphans ::
  "str list \<Rightarrow> str list \<Rightarrow> TraceNormalizerState \<Rightarrow> TraceNormalizerState \<times> OrphanTraceRoot list" where
  "sweep_orphans pending_roots deferred_roots st =
     (let (st', removed) = sweep_pending pending_roots st;
          (st'', removed') = sweep_deferred deferred_roots st'
      in (st'', removed @ removed'))"

fun sweep_orphans_for_roots :: "str list \<Rightarrow> TraceNormalizerState \<Rightarrow> TraceNormalizerState \<times> OrphanTraceRoot list" where
  "sweep_orphans_for_roots [] st = (st, [])"
| "sweep_orphans_for_roots (root_sid # roots) st =
     (case remove_pending_root root_sid st of
        (st', Some pending) \<Rightarrow>
          (let (st'', removed) = sweep_orphans_for_roots roots st'
           in (st'', \<lparr>or_root_sid = root_sid, or_raw_argv = pt_raw_argv pending, or_deferred_exit_only = False\<rparr> # removed))
      | (st', None) \<Rightarrow>
          (if tn_deferred_exits st' root_sid = None then sweep_orphans_for_roots roots st'
           else let (st'', removed) = sweep_orphans_for_roots roots (remove_deferred_root root_sid st')
                in (st'', \<lparr>or_root_sid = root_sid, or_raw_argv = [], or_deferred_exit_only = True\<rparr> # removed)))"

section \<open>Reading a payload\<close>

definition payload_str :: "'v TraceEnv \<Rightarrow> 'v \<Rightarrow> str \<Rightarrow> str option" where
  "payload_str env payload key = Option.bind (js_get (te_json env) payload key) (js_as_str (te_json env))"

definition payload_u64 :: "'v TraceEnv \<Rightarrow> 'v \<Rightarrow> str \<Rightarrow> u64 option" where
  "payload_u64 env payload key = Option.bind (js_get (te_json env) payload key) (js_as_u64 (te_json env))"

definition or_else :: "'a option \<Rightarrow> 'a option \<Rightarrow> 'a option" where
  "or_else a b = (case a of None \<Rightarrow> b | Some x \<Rightarrow> Some x)"

definition payload_timestamp_ns :: "'v TraceEnv \<Rightarrow> 'v \<Rightarrow> nat" where
  "payload_timestamp_ns env payload =
     (case or_else (payload_u64 env payload ''ts'')
             (or_else (payload_u64 env payload ''time_ns'') (payload_u64 env payload ''time'')) of
        Some time \<Rightarrow> unat time
      | None \<Rightarrow>
          (case Option.bind (payload_str env payload ''time'') (te_rfc3339_to_unix_nanos env) of
             Some time \<Rightarrow> time
           | None \<Rightarrow>
               (case Option.bind (js_get (te_json env) payload ''t_abs'') (te_seconds_as_nanos env) of
                  Some time \<Rightarrow> time
                | None \<Rightarrow> te_now env)))"

definition payload_argv :: "'v TraceEnv \<Rightarrow> 'v \<Rightarrow> str list" where
  "payload_argv env payload =
     (case Option.bind (js_get (te_json env) payload ''argv'') (js_as_array (te_json env)) of
        None \<Rightarrow> [] | Some argv \<Rightarrow> List.map_filter (js_as_str (te_json env)) argv)"

definition def_repo_is_secondary :: "'v TraceEnv \<Rightarrow> 'v \<Rightarrow> bool" where
  "def_repo_is_secondary env payload =
     (case payload_u64 env payload ''repo'' of None \<Rightarrow> False | Some index \<Rightarrow> 1 < index)"

definition worktree_root_or :: "FileSystem \<Rightarrow> str \<Rightarrow> str" where
  "worktree_root_or fs path = (case worktree_root_for_path fs path of Some root \<Rightarrow> root | None \<Rightarrow> path)"

definition payload_worktree :: "'v TraceEnv \<Rightarrow> 'v \<Rightarrow> str option" where
  "payload_worktree env payload =
     map_option (worktree_root_or (te_fs env))
       (Option.bind (or_else (js_get (te_json env) payload ''worktree'') (js_get (te_json env) payload ''repo_working_dir''))
          (js_as_str (te_json env)))"

definition payload_cwd :: "'v TraceEnv \<Rightarrow> 'v \<Rightarrow> str option" where
  "payload_cwd env payload = map_option (worktree_root_or (te_fs env)) (payload_str env payload ''cwd'')"

definition payload_reflog_start_offsets :: "'v TraceEnv \<Rightarrow> 'v \<Rightarrow> (str \<rightharpoonup> u64)" where
  "payload_reflog_start_offsets env payload =
     (case Option.bind (js_get (te_json env) payload ''git_ai_root_reflog_start_offsets'') (js_as_object (te_json env)) of
        None \<Rightarrow> Map.empty
      | Some object \<Rightarrow>
          map_of (rev (List.map_filter (\<lambda>(key, value). map_option (Pair key) (js_as_u64 (te_json env) value)) object)))"

definition merge_reflog_start_offsets_from_payload ::
  "'v TraceEnv \<Rightarrow> 'v \<Rightarrow> PendingTraceCommand \<Rightarrow> PendingTraceCommand" where
  "merge_reflog_start_offsets_from_payload env payload pending =
     pending\<lparr>pt_reflog_start_offsets := payload_reflog_start_offsets env payload ++ pt_reflog_start_offsets pending\<rparr>"

definition worktree_from_def_repo_repo :: "FileSystem \<Rightarrow> str \<Rightarrow> str option" where
  "worktree_from_def_repo_repo fs repo =
     (if path_file_name repo = Some ''.git'' then path_parent repo
      else let linked_gitdir = path_join repo ''gitdir''
           in if is_file fs linked_gitdir
              then (case read_to_string fs linked_gitdir of
                      None \<Rightarrow> None
                    | Some content \<Rightarrow>
                        let path = trim content in if path_file_name path = Some ''.git'' then path_parent path else None)
              else None)"

definition root_sid_of :: "str \<Rightarrow> str" where
  "root_sid_of sid = takeWhile (\<lambda>c. c \<noteq> CHR ''/'') sid"

definition is_internal_cmd_name :: "str \<Rightarrow> bool" where
  "is_internal_cmd_name name = starts_with name ''_run_''"

section \<open>The command line of an event\<close>

definition eq_ignore_ascii_case :: "str \<Rightarrow> str \<Rightarrow> bool" where
  "eq_ignore_ascii_case a b = (to_ascii_lowercase a = to_ascii_lowercase b)"

definition trace_argv_has_executable_prefix :: "str list \<Rightarrow> bool" where
  "trace_argv_has_executable_prefix argv =
     (case argv of
        [] \<Rightarrow> False
      | first # _ \<Rightarrow>
          (let name = (case path_file_name first of Some name \<Rightarrow> name | None \<Rightarrow> first)
           in eq_ignore_ascii_case name ''git'' \<or> eq_ignore_ascii_case name ''git.exe''))"

definition trace_argv_invocation_tokens :: "str list \<Rightarrow> str list" where
  "trace_argv_invocation_tokens argv = (if trace_argv_has_executable_prefix argv then tl argv else argv)"

definition args_after_command :: "str list \<Rightarrow> str \<Rightarrow> str list" where
  "args_after_command argv command = drop 1 (dropWhile (\<lambda>arg. arg \<noteq> command) argv)"

definition canonical_invocation :: "str list \<Rightarrow> str option \<Rightarrow> str option \<times> str list" where
  "canonical_invocation raw_argv primary_command =
     (let tokens = trace_argv_invocation_tokens raw_argv;
          parsed = parse_git_cli_args tokens
      in case pg_command parsed of
           Some command \<Rightarrow> (Some command, pg_command_args parsed)
         | None \<Rightarrow>
             (case primary_command of
                Some command \<Rightarrow>
                  if trim command \<noteq> [] then (Some command, args_after_command tokens command) else (None, [])
              | None \<Rightarrow> (None, [])))"

fun worktree_from_argv :: "FileSystem \<Rightarrow> str list \<Rightarrow> str option" where
  "worktree_from_argv fs (arg # path # argv) =
     (if arg = ''-C'' then Some (worktree_root_or fs path) else worktree_from_argv fs (path # argv))"
| "worktree_from_argv fs argv = None"

definition takes_value_option :: "str \<Rightarrow> bool" where
  "takes_value_option token = (token \<in> set
     [''-c'', ''--config-env'', ''--git-dir'', ''--work-tree'', ''--namespace'', ''--super-prefix'', ''--exec-path'',
      ''--worktree-attributes'', ''--attr-source''])"

fun primary_loop :: "str list \<Rightarrow> str option" where
  "primary_loop [] = None"
| "primary_loop (token # argv) =
     (if token = ''-C'' \<or> takes_value_option token then primary_loop (tl argv)
      else if starts_with token ''-'' then primary_loop argv
      else Some token)"

definition argv_primary_command :: "str list \<Rightarrow> str option" where
  "argv_primary_command argv =
     (case argv of
        [] \<Rightarrow> None
      | first # rest \<Rightarrow> if is_git_binary first then primary_loop rest else primary_loop argv)"

definition usable_cmd_name :: "str \<Rightarrow> bool" where
  "usable_cmd_name name = (\<not> is_internal_cmd_name name \<and> \<not> is_git_binary name)"

definition select_primary_command :: "str option \<Rightarrow> str list \<Rightarrow> str list \<Rightarrow> str option" where
  "select_primary_command root_cmd_name observed_child_commands argv =
     (case root_cmd_name of
        Some name \<Rightarrow> if usable_cmd_name name then Some name
                     else or_else (find usable_cmd_name observed_child_commands) (argv_primary_command argv)
      | None \<Rightarrow> or_else (find usable_cmd_name observed_child_commands) (argv_primary_command argv))"

definition command_may_mutate_refs :: "str option \<Rightarrow> str list \<Rightarrow> bool" where
  "command_may_mutate_refs primary_command raw_argv =
     (case primary_command of
        None \<Rightarrow> False
      | Some command \<Rightarrow>
          git_invocation_may_mutate_repo_state command (snd (canonical_invocation raw_argv (Some command))))"

definition resolve_primary_hint ::
  "'v TraceEnv \<Rightarrow> str option \<Rightarrow> str list \<Rightarrow> str list \<Rightarrow> str option \<Rightarrow> FamilyKey option \<Rightarrow> str + str option" where
  "resolve_primary_hint env root_cmd_name observed_child_commands raw_argv worktree family_key =
     (let argv_primary = argv_primary_command raw_argv;
          selected = or_else (select_primary_command root_cmd_name observed_child_commands raw_argv) argv_primary;
          should_resolve_alias = (case (selected, argv_primary) of
                                    (Some selected_cmd, Some argv_cmd) \<Rightarrow> selected_cmd = argv_cmd
                                  | (None, Some _) \<Rightarrow> True
                                  | _ \<Rightarrow> False)
      in case (should_resolve_alias, worktree, family_key) of
           (True, Some worktree, Some family) \<Rightarrow>
             (case gb_resolve_primary_command (te_backend env) worktree raw_argv of
                Inl err \<Rightarrow> Inl err
              | Inr (Some resolved) \<Rightarrow> Inr (Some resolved)
              | Inr None \<Rightarrow> Inr selected)
         | _ \<Rightarrow> Inr selected)"

definition refresh_pending_mutation_capture :: "'v TraceEnv \<Rightarrow> TraceNormalizerState \<Rightarrow> str \<Rightarrow> str + unit" where
  "refresh_pending_mutation_capture env st root_sid =
     (case tn_pending st root_sid of
        None \<Rightarrow> Inr ()
      | Some pending \<Rightarrow>
          (case (pt_worktree pending, pt_family_key pending) of
             (Some worktree, Some family) \<Rightarrow>
               (case resolve_primary_hint env (pt_root_cmd_name pending) (pt_observed_child_commands pending)
                       (pt_raw_argv pending) (Some worktree) (Some family) of
                  Inl err \<Rightarrow> Inl err
                | Inr primary_hint \<Rightarrow>
                    if \<not> command_may_mutate_refs primary_hint (pt_raw_argv pending) then Inr () else Inr ())
           | _ \<Rightarrow> Inr ()))"

section \<open>The end of a command\<close>

definition is_clone_or_init :: "str option \<Rightarrow> bool" where
  "is_clone_or_init command = (command = Some ''clone'' \<or> command = Some ''init'')"

text \<open>The first candidate that is a repository, with its family.\<close>

fun resolve_candidates :: "FileSystem \<Rightarrow> str list \<Rightarrow> (str \<times> FamilyKey) option" where
  "resolve_candidates fs [] = None"
| "resolve_candidates fs (candidate # candidates) =
     (case common_dir_for_repo_path fs candidate of
        Some common_dir \<Rightarrow> Some (candidate, family_of_common_dir fs common_dir)
      | None \<Rightarrow> resolve_candidates fs candidates)"

definition target_candidates :: "str option \<Rightarrow> str option \<Rightarrow> str list" where
  "target_candidates from_def_repo from_argv =
     (let candidates = (case from_def_repo of Some target \<Rightarrow> [target] | None \<Rightarrow> [])
      in case from_argv of
           None \<Rightarrow> candidates
         | Some target \<Rightarrow> if list_ex (\<lambda>existing. path_eq existing target) candidates then candidates
                          else candidates @ [target])"

text \<open>The worktree, the family and the scope of a command, with the target of a successful clone or init.\<close>

definition clone_init_scope ::
  "'v TraceEnv \<Rightarrow> PendingTraceCommand \<Rightarrow> str option \<Rightarrow> str option \<times> FamilyKey option" where
  "clone_init_scope env pending primary_command =
     (let target_from_def_repo = (if pt_saw_def_repo pending then pt_worktree pending else None);
          target_from_argv = (if primary_command = Some ''clone''
                              then gb_clone_target (te_backend env) (pt_raw_argv pending) (pt_invocation_worktree pending)
                              else gb_init_target (te_backend env) (pt_raw_argv pending) (pt_invocation_worktree pending))
      in case resolve_candidates (te_fs env) (target_candidates target_from_def_repo target_from_argv) of
           Some (worktree, family) \<Rightarrow> (Some worktree, Some family)
         | None \<Rightarrow>
             (or_else (or_else target_from_def_repo target_from_argv) (pt_worktree pending), pt_family_key pending))"

text \<open>What is known of the worktree and the family when the root process has ended.\<close>

definition complete_pending ::
  "'v TraceEnv \<Rightarrow> TraceNormalizerState \<Rightarrow> str \<Rightarrow> 32 word \<Rightarrow> nat \<Rightarrow> PendingTraceCommand \<Rightarrow> PendingTraceCommand" where
  "complete_pending env st root_sid exit_code finished_at_ns pending =
     (let worktree = or_else (pt_worktree pending) (tn_sid_to_worktree st root_sid);
          family = or_else (or_else (pt_family_key pending) (tn_sid_to_family st root_sid))
                     (map_option (family_of_common_dir (te_fs env))
                        (Option.bind worktree (common_dir_for_worktree (te_fs env))))
      in pending\<lparr>pt_exit_code := Some exit_code, pt_finished_at_ns := Some finished_at_ns,
                 pt_worktree := worktree, pt_family_key := family\<rparr>)"

definition expanded_invocation ::
  "'v TraceEnv \<Rightarrow> PendingTraceCommand \<Rightarrow> str option \<Rightarrow> str + (str option \<times> str list)" where
  "expanded_invocation env pending primary_command =
     (let (invoked_command, invoked_args) = canonical_invocation (pt_raw_argv pending) primary_command
      in case pt_worktree pending of
           Some worktree \<Rightarrow>
             if primary_command \<noteq> invoked_command
             then (case gb_resolve_invocation (te_backend env) worktree (pt_raw_argv pending) of
                     Inl err \<Rightarrow> Inl err
                   | Inr (Some (expanded_command, expanded_args)) \<Rightarrow>
                       Inr (if Some expanded_command \<noteq> invoked_command then (Some expanded_command, expanded_args)
                            else (invoked_command, invoked_args))
                   | Inr None \<Rightarrow> Inr (invoked_command, invoked_args))
             else Inr (invoked_command, invoked_args)
         | None \<Rightarrow> Inr (invoked_command, invoked_args))"

definition normalized_command ::
  "'v TraceEnv \<Rightarrow> PendingTraceCommand \<Rightarrow> 32 word \<Rightarrow> nat \<Rightarrow> str + NormalizedCommand" where
  "normalized_command env pending exit_code finished_at_ns =
     (case resolve_primary_hint env (pt_root_cmd_name pending) (pt_observed_child_commands pending)
             (pt_raw_argv pending) (pt_worktree pending) (pt_family_key pending) of
        Inl err \<Rightarrow> Inl err
      | Inr hint \<Rightarrow>
          (case expanded_invocation env pending hint of
             Inl err \<Rightarrow> Inl err
           | Inr (invoked_command, invoked_args) \<Rightarrow>
               (let primary_command = or_else hint invoked_command;
                    (worktree, family_key) =
                      (if exit_code = 0 \<and> is_clone_or_init primary_command
                       then clone_init_scope env pending primary_command
                       else (pt_worktree pending, pt_family_key pending))
                in Inr \<lparr>nc_scope = (case family_key of Some key \<Rightarrow> Family key | None \<Rightarrow> Global),
                        nc_family_key = family_key, nc_worktree = worktree, nc_root_sid = pt_root_sid pending,
                        nc_raw_argv = pt_raw_argv pending, nc_primary_command = primary_command,
                        nc_invoked_command = invoked_command, nc_invoked_args = invoked_args,
                        nc_observed_child_commands = pt_observed_child_commands pending,
                        nc_exit_code = exit_code, nc_started_at_ns = pt_started_at_ns pending,
                        nc_finished_at_ns = finished_at_ns,
                        nc_reflog_start_offsets = pt_reflog_start_offsets pending,
                        nc_stash_target_oid = None, nc_cherry_pick_source_oids = [], nc_revert_source_oids = [],
                        nc_ref_changes = [], nc_confidence = Low\<rparr>)))"

definition finalize_root_exit ::
  "'v TraceEnv \<Rightarrow> str \<Rightarrow> 32 word \<Rightarrow> nat \<Rightarrow> TraceNormalizerState \<Rightarrow> NormalizedCommand option outcome" where
  "finalize_root_exit env root_sid exit_code finished_at_ns st =
     (case tn_pending st root_sid of
        None \<Rightarrow> (st, Inl ''missing pending command at finalize'')
      | Some pending \<Rightarrow>
          (let st' = st\<lparr>tn_pending := (tn_pending st)(root_sid := None)\<rparr>
           in case normalized_command env (complete_pending env st' root_sid exit_code finished_at_ns pending)
                     exit_code finished_at_ns of
                Inl err \<Rightarrow> (st', Inl err)
              | Inr normalized \<Rightarrow> (forget_sid root_sid (mark_completed_root root_sid st'), Inr (Some normalized))))"

section \<open>Events\<close>

definition insert_pending :: "'v TraceEnv \<Rightarrow> 'v \<Rightarrow> str \<Rightarrow> nat \<Rightarrow> TraceNormalizerState \<Rightarrow> TraceNormalizerState" where
  "insert_pending env payload root_sid started_at_ns st =
     (let raw_argv = payload_argv env payload;
          worktree = or_else (payload_worktree env payload)
                       (or_else (worktree_from_argv (te_fs env) raw_argv)
                          (or_else (payload_cwd env payload) (tn_sid_to_worktree st root_sid)));
          family = map_option (family_of_common_dir (te_fs env))
                     (Option.bind worktree (common_dir_for_worktree (te_fs env)));
          sid_to_family = (case family of Some key \<Rightarrow> (tn_sid_to_family st)(root_sid \<mapsto> key) | None \<Rightarrow> tn_sid_to_family st);
          pending = \<lparr>pt_root_sid = root_sid, pt_raw_argv = raw_argv,
                     pt_root_cmd_name = tn_prestart_root_cmd_names st root_sid,
                     pt_observed_child_commands = [], pt_invocation_worktree = worktree, pt_worktree = worktree,
                     pt_family_key = or_else family (tn_sid_to_family st root_sid),
                     pt_started_at_ns = started_at_ns, pt_exit_code = None, pt_finished_at_ns = None,
                     pt_reflog_start_offsets = payload_reflog_start_offsets env payload, pt_saw_def_repo = False\<rparr>
      in st\<lparr>tn_sid_to_family := sid_to_family,
            tn_pending := (tn_pending st)(root_sid \<mapsto> pending),
            tn_prestart_root_cmd_names := (tn_prestart_root_cmd_names st)(root_sid := None)\<rparr>)"

definition remove_deferred :: "str \<Rightarrow> TraceNormalizerState \<Rightarrow> TraceNormalizerState" where
  "remove_deferred root_sid st = st\<lparr>tn_deferred_exits := (tn_deferred_exits st)(root_sid := None)\<rparr>"

definition handle_start :: "'v TraceEnv \<Rightarrow> 'v \<Rightarrow> str \<Rightarrow> str \<Rightarrow> nat \<Rightarrow> TraceNormalizerState \<Rightarrow> NormalizedCommand option outcome" where
  "handle_start env payload sid root_sid started_at_ns st =
     (if sid \<noteq> root_sid then (st, Inr None)
      else if is_completed_root st root_sid then (st, Inr None)
      else
        let st' = insert_pending env payload root_sid started_at_ns st
        in case tn_deferred_exits st' root_sid of
             None \<Rightarrow> (st', Inr None)
           | Some deferred \<Rightarrow>
               if de_is_atexit deferred
               then finalize_root_exit env root_sid (de_exit_code deferred) (de_finished_at_ns deferred)
                      (remove_deferred root_sid st')
               else (st', Inr None))"

definition update_pending ::
  "str \<Rightarrow> (PendingTraceCommand \<Rightarrow> PendingTraceCommand) \<Rightarrow> TraceNormalizerState \<Rightarrow> TraceNormalizerState" where
  "update_pending root_sid f st =
     (case tn_pending st root_sid of
        None \<Rightarrow> st | Some pending \<Rightarrow> st\<lparr>tn_pending := (tn_pending st)(root_sid \<mapsto> f pending)\<rparr>)"

definition with_result :: "TraceNormalizerState \<Rightarrow> str + unit \<Rightarrow> NormalizedCommand option outcome" where
  "with_result st r = (st, case r of Inl err \<Rightarrow> Inl err | Inr _ \<Rightarrow> Inr None)"

text \<open>The repository of a command is known: it is noted for the root and for the pending command.\<close>

definition retarget_root :: "'v TraceEnv \<Rightarrow> 'v \<Rightarrow> str \<Rightarrow> str \<Rightarrow> TraceNormalizerState \<Rightarrow> TraceNormalizerState" where
  "retarget_root env payload root_sid repo st =
     (let family = map_option (family_of_common_dir (te_fs env)) (common_dir_for_repo_path (te_fs env) repo);
          st' = st\<lparr>tn_sid_to_worktree := (tn_sid_to_worktree st)(root_sid \<mapsto> repo),
                   tn_sid_to_family := (case family of
                                          Some key \<Rightarrow> (tn_sid_to_family st)(root_sid \<mapsto> key)
                                        | None \<Rightarrow> tn_sid_to_family st)\<rparr>
      in update_pending root_sid (\<lambda>pending.
           (merge_reflog_start_offsets_from_payload env payload pending)
             \<lparr>pt_saw_def_repo := True, pt_worktree := Some repo,
              pt_family_key := or_else family (pt_family_key pending)\<rparr>) st')"

text \<open>For clone and init the repository of the event wins, otherwise the worktree the command was started in.\<close>

definition prefer_def_repo_target :: "TraceNormalizerState \<Rightarrow> str \<Rightarrow> bool" where
  "prefer_def_repo_target st root_sid =
     is_clone_or_init (Option.bind (tn_pending st root_sid) (\<lambda>pending. argv_primary_command (pt_raw_argv pending)))"

definition already_saw_def_repo :: "TraceNormalizerState \<Rightarrow> str \<Rightarrow> bool" where
  "already_saw_def_repo st root_sid =
     (case tn_pending st root_sid of None \<Rightarrow> False | Some pending \<Rightarrow> pt_saw_def_repo pending)"

definition payload_repo :: "'v TraceEnv \<Rightarrow> 'v \<Rightarrow> str option" where
  "payload_repo env payload =
     map_option (\<lambda>repo. worktree_root_or (te_fs env)
         (case worktree_from_def_repo_repo (te_fs env) repo of Some p \<Rightarrow> p | None \<Rightarrow> repo))
       (payload_str env payload ''repo'')"

definition def_repo_target :: "'v TraceEnv \<Rightarrow> 'v \<Rightarrow> str \<Rightarrow> TraceNormalizerState \<Rightarrow> str option" where
  "def_repo_target env payload root_sid st =
     (let pending_worktree = Option.bind (tn_pending st root_sid) pt_worktree
      in if prefer_def_repo_target st root_sid
         then or_else (payload_worktree env payload) (or_else (payload_repo env payload) pending_worktree)
         else or_else (payload_worktree env payload) (or_else pending_worktree (payload_repo env payload)))"

definition handle_def_repo :: "'v TraceEnv \<Rightarrow> 'v \<Rightarrow> str \<Rightarrow> TraceNormalizerState \<Rightarrow> NormalizedCommand option outcome" where
  "handle_def_repo env payload root_sid st =
     (if def_repo_is_secondary env payload
      then (update_pending root_sid (merge_reflog_start_offsets_from_payload env payload) st, Inr None)
      else if prefer_def_repo_target st root_sid \<and> already_saw_def_repo st root_sid then (st, Inr None)
      else case def_repo_target env payload root_sid st of
             None \<Rightarrow> (st, Inl ''def_repo missing repo path'')
           | Some target \<Rightarrow>
               (let st' = retarget_root env payload root_sid (worktree_root_or (te_fs env) target) st
                in with_result st' (refresh_pending_mutation_capture env st' root_sid)))"

definition handle_cmd_name :: "'v TraceEnv \<Rightarrow> 'v \<Rightarrow> str \<Rightarrow> str \<Rightarrow> TraceNormalizerState \<Rightarrow> NormalizedCommand option outcome" where
  "handle_cmd_name env payload sid root_sid st =
     (case payload_str env payload ''name'' of
        None \<Rightarrow> (st, Inl ''cmd_name missing name'')
      | Some cmd \<Rightarrow>
          if is_internal_cmd_name cmd then (st, Inr None)
          else if sid = root_sid
          then (if tn_pending st root_sid = None
                then (st\<lparr>tn_prestart_root_cmd_names := (tn_prestart_root_cmd_names st)(root_sid \<mapsto> cmd)\<rparr>, Inr None)
                else let st' = update_pending root_sid (\<lambda>pending.
                                 (merge_reflog_start_offsets_from_payload env payload pending)
                                   \<lparr>pt_root_cmd_name := Some cmd\<rparr>) st
                     in with_result st' (refresh_pending_mutation_capture env st' root_sid))
          else let st' = update_pending root_sid (\<lambda>pending.
                           pending\<lparr>pt_observed_child_commands := pt_observed_child_commands pending @ [cmd]\<rparr>) st
               in with_result st' (refresh_pending_mutation_capture env st' root_sid))"

text \<open>The exit code and the time of an exit, added to one that is already known.\<close>

definition defer_exit :: "32 word \<Rightarrow> nat \<Rightarrow> bool \<Rightarrow> DeferredRootExit option \<Rightarrow> DeferredRootExit" where
  "defer_exit exit_code finished_at_ns is_atexit known =
     (case known of
        None \<Rightarrow> \<lparr>de_exit_code = exit_code, de_finished_at_ns = finished_at_ns, de_is_atexit = is_atexit\<rparr>
      | Some deferred \<Rightarrow>
          \<lparr>de_exit_code = exit_code,
           de_finished_at_ns = (if de_finished_at_ns deferred < finished_at_ns then finished_at_ns else de_finished_at_ns deferred),
           de_is_atexit = (de_is_atexit deferred \<or> is_atexit)\<rparr>)"

definition payload_exit_code :: "'v TraceEnv \<Rightarrow> 'v \<Rightarrow> 32 word" where
  "payload_exit_code env payload =
     (case Option.bind (or_else (js_get (te_json env) payload ''code'') (js_get (te_json env) payload ''exit_code''))
             (js_as_i64 (te_json env)) of
        None \<Rightarrow> 0 | Some code \<Rightarrow> ucast code)"

definition handle_exit ::
  "'v TraceEnv \<Rightarrow> 'v \<Rightarrow> str \<Rightarrow> str \<Rightarrow> nat \<Rightarrow> bool \<Rightarrow> TraceNormalizerState \<Rightarrow> NormalizedCommand option outcome" where
  "handle_exit env payload sid root_sid finished_at_ns is_atexit st =
     (if sid \<noteq> root_sid then (st, Inr None)
      else if is_completed_root st root_sid then (st, Inr None)
      else
        let st' = update_pending root_sid (merge_reflog_start_offsets_from_payload env payload) st;
            exit_code = payload_exit_code env payload
        in if tn_pending st' root_sid = None \<or> \<not> is_atexit
           then (st'\<lparr>tn_deferred_exits := (tn_deferred_exits st')(root_sid \<mapsto>
                       defer_exit exit_code finished_at_ns is_atexit (tn_deferred_exits st' root_sid))\<rparr>, Inr None)
           else finalize_root_exit env root_sid exit_code finished_at_ns
                  (remove_deferred root_sid st'))"

definition ingest_payload :: "'v TraceEnv \<Rightarrow> 'v \<Rightarrow> TraceNormalizerState \<Rightarrow> NormalizedCommand option outcome" where
  "ingest_payload env payload st =
     (case payload_str env payload ''event'' of
        None \<Rightarrow> (st, Inl ''trace payload missing event'')
      | Some event \<Rightarrow>
          (case payload_str env payload ''sid'' of
             None \<Rightarrow> (st, Inl ''trace payload missing sid'')
           | Some sid \<Rightarrow>
               (let root_sid = root_sid_of sid; ts = payload_timestamp_ns env payload
                in if is_completed_root st root_sid then (st, Inr None)
                   else if event = ''start'' then handle_start env payload sid root_sid ts st
                   else if event = ''def_repo'' then handle_def_repo env payload root_sid st
                   else if event = ''cmd_name'' then handle_cmd_name env payload sid root_sid st
                   else if event = ''exit'' then handle_exit env payload sid root_sid ts False st
                   else if event = ''atexit'' then handle_exit env payload sid root_sid ts True st
                   else (st, Inr None))))"

end
