(* ===== verification/Trace_Properties.thy ===== *)
theory Trace_Properties
  imports Trace_Normalizer
begin

text \<open>
  Properties of the trace normalizer. What matters of the events of a command is the phase of its
  root: the theory gives the phases as an abstract machine per root and shows that the normalizer, on
  any interleaving of the events of any number of commands, refines it: exactly one command comes out
  for a root whose start and end have both been seen, in either order. The roots do not influence
  each other, and the memory of completed roots is the last 16384 commands given.
\<close>

section \<open>Memory of completed roots\<close>

lemma evict_roots_within: "card roots \<le> limit \<Longrightarrow> evict_roots limit roots order = (roots, order)"
  by (cases order) auto

lemma mark_completed_within:
  "card (insert q (tn_completed_roots st)) \<le> COMPLETED_ROOT_RETENTION_LIMIT \<Longrightarrow>
   mark_completed_root q st = st\<lparr>tn_completed_roots := insert q (tn_completed_roots st),
     tn_completed_root_order := (if q \<in> tn_completed_roots st then tn_completed_root_order st
                                 else tn_completed_root_order st @ [q])\<rparr>"
  by (simp add: mark_completed_root_def mark_completed_root_with_limit_def evict_roots_within)

lemma evict_roots_suffix:
  "distinct order \<Longrightarrow> evict_roots limit (set order) order = (set (drop (length order - limit) order), drop (length order - limit) order)"
proof (induction order)
  case (Cons r order)
  show ?case
  proof (cases "limit < card (set (r # order))")
    case True
    with Cons have "set (r # order) - {r} = set order" "limit < Suc (length order)" by (auto simp: distinct_card)
    with Cons True show ?thesis by (simp add: Suc_diff_le del: set_simps)
  next
    case False
    with Cons.prems have "length (r # order) \<le> limit" by (metis distinct_card linorder_not_less)
    with False show ?thesis by simp
  qed
qed simp

lemma mark_completed_order:
  assumes "tn_completed_roots st = set (tn_completed_root_order st)" "distinct (tn_completed_root_order st)"
    and "q \<notin> tn_completed_roots st"
  shows "\<exists>order. order = tn_completed_root_order st @ [q] \<and>
    mark_completed_root q st =
      st\<lparr>tn_completed_roots := set (drop (length order - COMPLETED_ROOT_RETENTION_LIMIT) order),
         tn_completed_root_order := drop (length order - COMPLETED_ROOT_RETENTION_LIMIT) order\<rparr>"
proof -
  have "insert q (tn_completed_roots st) = set (tn_completed_root_order st @ [q])" using assms(1) by auto
  then show ?thesis
    using assms evict_roots_suffix [of "tn_completed_root_order st @ [q]" COMPLETED_ROOT_RETENTION_LIMIT]
    by (simp add: mark_completed_root_def mark_completed_root_with_limit_def del: set_append)
qed

section \<open>The state of a root\<close>

definition nothing_left :: "TraceNormalizerState \<Rightarrow> str \<Rightarrow> bool" where
  "nothing_left st r =
     (tn_pending st r = None \<and> tn_deferred_exits st r = None \<and> tn_sid_to_worktree st r = None \<and>
      tn_sid_to_family st r = None \<and> tn_prestart_root_cmd_names st r = None)"

text \<open>A pending command is kept under its own root, and only an exit, not the end, is deferred beside it.\<close>

definition root_ok :: "TraceNormalizerState \<Rightarrow> str \<Rightarrow> bool" where
  "root_ok st r =
     (\<forall>pending. tn_pending st r = Some pending \<longrightarrow>
        pt_root_sid pending = r \<and> (\<forall>d. tn_deferred_exits st r = Some d \<longrightarrow> \<not> de_is_atexit d))"

definition trace_ok :: "TraceNormalizerState \<Rightarrow> bool" where
  "trace_ok st =
     (tn_completed_roots st = set (tn_completed_root_order st) \<and> distinct (tn_completed_root_order st) \<and>
      length (tn_completed_root_order st) \<le> COMPLETED_ROOT_RETENTION_LIMIT \<and>
      (\<forall>r \<in> tn_completed_roots st. nothing_left st r) \<and>
      (\<forall>r. root_ok st r))"

lemma trace_ok_new: "trace_ok TraceNormalizer_new"
  by (simp add: trace_ok_def root_ok_def TraceNormalizer_new_def)

lemma normalized_command_root:
  "normalized_command env pending exit_code finished = Inr c \<Longrightarrow> nc_root_sid c = pt_root_sid pending"
  by (auto simp: normalized_command_def Let_def split: sum.splits prod.splits if_splits)

lemma complete_pending_root [simp]: "pt_root_sid (complete_pending env st r x t pending) = pt_root_sid pending"
  by (simp add: complete_pending_def Let_def)

text \<open>What a handler may do to the state of a root that is not completed: keep the memory of completed
  roots and change only what is kept for this root, or complete the root.\<close>

definition same_elsewhere :: "str \<Rightarrow> TraceNormalizerState \<Rightarrow> TraceNormalizerState \<Rightarrow> bool" where
  "same_elsewhere q st st' =
     (\<forall>r. r \<noteq> q \<longrightarrow> tn_pending st' r = tn_pending st r \<and> tn_deferred_exits st' r = tn_deferred_exits st r \<and>
        tn_sid_to_worktree st' r = tn_sid_to_worktree st r \<and> tn_sid_to_family st' r = tn_sid_to_family st r \<and>
        tn_prestart_root_cmd_names st' r = tn_prestart_root_cmd_names st r)"

definition same_memory :: "TraceNormalizerState \<Rightarrow> TraceNormalizerState \<Rightarrow> bool" where
  "same_memory st st' =
     (tn_completed_roots st' = tn_completed_roots st \<and> tn_completed_root_order st' = tn_completed_root_order st)"

definition local_step :: "str \<Rightarrow> TraceNormalizerState \<Rightarrow> NormalizedCommand option outcome \<Rightarrow> bool" where
  "local_step q st out =
     (case out of (st', res) \<Rightarrow>
        same_elsewhere q st st' \<and>
        (case res of
           Inr (Some c) \<Rightarrow> nc_root_sid c = q \<and> nothing_left st' q \<and>
             (\<exists>mid. same_memory st mid \<and> same_memory (mark_completed_root q mid) st')
         | _ \<Rightarrow> same_memory st st' \<and> root_ok st' q))"

lemma mark_completed_kept [simp]:
  "tn_pending (mark_completed_root q st) = tn_pending st"
  "tn_deferred_exits (mark_completed_root q st) = tn_deferred_exits st"
  "tn_sid_to_worktree (mark_completed_root q st) = tn_sid_to_worktree st"
  "tn_sid_to_family (mark_completed_root q st) = tn_sid_to_family st"
  "tn_prestart_root_cmd_names (mark_completed_root q st) = tn_prestart_root_cmd_names st"
  by (simp_all add: mark_completed_root_def mark_completed_root_with_limit_def Let_def split: prod.splits)

lemma finalize_local:
  assumes "root_ok st q" "tn_deferred_exits st q = None"
  shows "local_step q st (finalize_root_exit env q x t st)"
proof (cases "tn_pending st q")
  case None
  then show ?thesis by (simp add: finalize_root_exit_def local_step_def same_elsewhere_def same_memory_def root_ok_def)
next
  case (Some pending)
  let ?st = "st\<lparr>tn_pending := (tn_pending st)(q := None)\<rparr>"
  show ?thesis
  proof (cases "normalized_command env (complete_pending env ?st q x t pending) x t")
    case (Inl err)
    with Some show ?thesis by (simp add: finalize_root_exit_def local_step_def same_elsewhere_def same_memory_def root_ok_def)
  next
    case (Inr c)
    then have "nc_root_sid c = q" using normalized_command_root [OF Inr] assms(1) Some by (simp add: root_ok_def)
    with Some Inr assms(2) show ?thesis
      by (auto simp: finalize_root_exit_def local_step_def same_elsewhere_def same_memory_def forget_sid_def nothing_left_def
          intro!: exI [of _ ?st])
  qed
qed

lemma local_step_after:
  assumes "same_elsewhere q st st1" "same_memory st st1" "local_step q st1 out"
  shows "local_step q st out"
proof (cases out)
  case (Pair st' res)
  show ?thesis
  proof (cases res)
    case (Inr answer)
    with Pair assms show ?thesis
      by (cases answer) (auto simp: local_step_def same_elsewhere_def same_memory_def root_ok_def)
  qed (use Pair assms in \<open>auto simp: local_step_def same_elsewhere_def same_memory_def\<close>)
qed

lemma local_step_quiet:
  assumes "same_elsewhere q st st'" "same_memory st st'" "root_ok st' q"
    and "\<And>c. res \<noteq> Inr (Some c)"
  shows "local_step q st (st', res)"
  using assms by (auto simp: local_step_def split: sum.split option.split)

lemma update_pending_kept [simp]:
  "tn_deferred_exits (update_pending q f st) = tn_deferred_exits st"
  "tn_sid_to_worktree (update_pending q f st) = tn_sid_to_worktree st"
  "tn_sid_to_family (update_pending q f st) = tn_sid_to_family st"
  "tn_prestart_root_cmd_names (update_pending q f st) = tn_prestart_root_cmd_names st"
  "tn_completed_roots (update_pending q f st) = tn_completed_roots st"
  "tn_completed_root_order (update_pending q f st) = tn_completed_root_order st"
  "tn_pending (update_pending q f st) r = (if r = q then map_option f (tn_pending st q) else tn_pending st r)"
  by (auto simp: update_pending_def split: option.splits)

lemma merge_offsets_root [simp]: "pt_root_sid (merge_reflog_start_offsets_from_payload env payload pending) = pt_root_sid pending"
  by (simp add: merge_reflog_start_offsets_from_payload_def)

lemma remove_deferred_kept [simp]:
  "tn_pending (remove_deferred q st) = tn_pending st"
  "tn_sid_to_worktree (remove_deferred q st) = tn_sid_to_worktree st"
  "tn_sid_to_family (remove_deferred q st) = tn_sid_to_family st"
  "tn_prestart_root_cmd_names (remove_deferred q st) = tn_prestart_root_cmd_names st"
  "tn_completed_roots (remove_deferred q st) = tn_completed_roots st"
  "tn_completed_root_order (remove_deferred q st) = tn_completed_root_order st"
  "tn_deferred_exits (remove_deferred q st) r = (if r = q then None else tn_deferred_exits st r)"
  by (simp_all add: remove_deferred_def)

lemma insert_pending_kept [simp]:
  "tn_deferred_exits (insert_pending env payload q t st) = tn_deferred_exits st"
  "tn_sid_to_worktree (insert_pending env payload q t st) = tn_sid_to_worktree st"
  "tn_completed_roots (insert_pending env payload q t st) = tn_completed_roots st"
  "tn_completed_root_order (insert_pending env payload q t st) = tn_completed_root_order st"
  by (simp_all add: insert_pending_def Let_def)

lemma insert_pending_elsewhere: "same_elsewhere q st (insert_pending env payload q t st)"
  by (auto simp: insert_pending_def Let_def same_elsewhere_def split: option.splits)

lemma insert_pending_pending: "\<exists>pending. tn_pending (insert_pending env payload q t st) q = Some pending \<and> pt_root_sid pending = q"
  by (simp add: insert_pending_def Let_def)

lemma handle_start_local:
  assumes "root_ok st q"
  shows "local_step q st (handle_start env payload sid q t st)"
proof (cases "sid \<noteq> q \<or> is_completed_root st q")
  case True
  then show ?thesis
    using assms by (auto simp: handle_start_def intro!: local_step_quiet simp: same_elsewhere_def same_memory_def root_ok_def)
next
  case False
  let ?st1 = "insert_pending env payload q t st"
  have memory: "same_memory st ?st1" by (simp add: same_memory_def)
  have "same_elsewhere q st (remove_deferred q ?st1)" "same_memory st (remove_deferred q ?st1)"
    using insert_pending_elsewhere [of q st env payload t] by (simp_all add: same_elsewhere_def same_memory_def root_ok_def)
  then have final: "local_step q st (finalize_root_exit env q x u (remove_deferred q ?st1))" for x u
    using insert_pending_pending [of env payload q t st] by (intro local_step_after [OF _ _ finalize_local]) (auto simp: root_ok_def)
  have "local_step q st (?st1, Inr None)" if "\<And>d. tn_deferred_exits st q = Some d \<Longrightarrow> \<not> de_is_atexit d"
    using insert_pending_pending [of env payload q t st] that
    by (intro local_step_quiet [OF insert_pending_elsewhere memory]) (auto simp: root_ok_def)
  with final False show ?thesis by (auto simp: handle_start_def Let_def split: option.splits)
qed

lemma retarget_root_kept [simp]:
  "tn_deferred_exits (retarget_root env payload q repo st) = tn_deferred_exits st"
  "tn_prestart_root_cmd_names (retarget_root env payload q repo st) = tn_prestart_root_cmd_names st"
  "tn_completed_roots (retarget_root env payload q repo st) = tn_completed_roots st"
  "tn_completed_root_order (retarget_root env payload q repo st) = tn_completed_root_order st"
  "(tn_pending (retarget_root env payload q repo st) r = None) = (tn_pending st r = None)"
  by (simp_all add: retarget_root_def Let_def)

lemma retarget_root_local:
  assumes "root_ok st q"
  shows "local_step q st (with_result (retarget_root env payload q repo st) r)"
  unfolding with_result_def
proof (rule local_step_quiet)
  show "same_elsewhere q st (retarget_root env payload q repo st)"
    by (auto simp: same_elsewhere_def retarget_root_def Let_def split: option.splits)
  show "root_ok (retarget_root env payload q repo st) q"
    using assms by (auto simp: retarget_root_def Let_def root_ok_def)
qed (auto simp: same_memory_def split: sum.split)

lemma handle_def_repo_local:
  assumes "root_ok st q"
  shows "local_step q st (handle_def_repo env payload q st)"
proof -
  have "local_step q st (update_pending q (merge_reflog_start_offsets_from_payload env payload) st, Inr None)"
    using assms by (intro local_step_quiet) (auto simp: same_elsewhere_def same_memory_def root_ok_def)
  moreover have "local_step q st (st, res)" if "\<And>c. res \<noteq> Inr (Some c)" for res
    using that assms by (intro local_step_quiet) (auto simp: same_elsewhere_def same_memory_def root_ok_def)
  ultimately show ?thesis
    unfolding handle_def_repo_def Let_def
    by (simp add: retarget_root_local [OF assms] split: option.split)
qed

lemma handle_cmd_name_local:
  assumes "root_ok st q"
  shows "local_step q st (handle_cmd_name env payload sid q st)"
  using assms unfolding handle_cmd_name_def Let_def with_result_def
  by (auto split: option.splits sum.splits intro!: local_step_quiet simp: same_elsewhere_def same_memory_def root_ok_def)

lemma defer_exit_atexit:
  "de_is_atexit (defer_exit x t is_atexit known) = (is_atexit \<or> (\<exists>d. known = Some d \<and> de_is_atexit d))"
  by (auto simp: defer_exit_def split: option.split)

lemma handle_exit_local:
  assumes "root_ok st q"
  shows "local_step q st (handle_exit env payload sid q t is_atexit st)"
proof (cases "sid \<noteq> q \<or> is_completed_root st q")
  case True
  then show ?thesis
    using assms by (auto simp: handle_exit_def intro!: local_step_quiet simp: same_elsewhere_def same_memory_def root_ok_def)
next
  case False
  let ?st1 = "update_pending q (merge_reflog_start_offsets_from_payload env payload) st"
  let ?st2 = "remove_deferred q ?st1"
  have "same_elsewhere q st ?st2" "same_memory st ?st2" by (auto simp: same_elsewhere_def same_memory_def root_ok_def)
  then have final: "local_step q st (finalize_root_exit env q x u ?st2)" for x u
    using assms by (intro local_step_after [OF _ _ finalize_local]) (auto simp: root_ok_def)
  show ?thesis
    using False assms final unfolding handle_exit_def Let_def
    by (auto intro!: local_step_quiet simp: same_elsewhere_def same_memory_def root_ok_def defer_exit_atexit)
qed

definition payload_root :: "'v TraceEnv \<Rightarrow> 'v \<Rightarrow> str option" where
  "payload_root env payload = map_option root_sid_of (payload_str env payload ''sid'')"

lemma ingest_local:
  assumes "trace_ok st" "payload_root env payload = Some q"
  shows "local_step q st (ingest_payload env payload st)"
proof -
  obtain sid where sid: "payload_str env payload ''sid'' = Some sid" "q = root_sid_of sid"
    using assms(2) by (auto simp: payload_root_def)
  have root: "root_ok st q"
    using assms(1) by (auto simp: trace_ok_def)
  have quiet: "local_step q st (st, res)" if "\<And>c. res \<noteq> Inr (Some c)" for res
    using that root by (intro local_step_quiet) (auto simp: same_elsewhere_def same_memory_def root_ok_def)
  show ?thesis
    unfolding ingest_payload_def sid(1) option.case Let_def sid(2) [symmetric]
    by (simp add: quiet handle_start_local [OF root] handle_def_repo_local [OF root]
        handle_cmd_name_local [OF root] handle_exit_local [OF root] split: option.split)
qed

section \<open>Runs\<close>

text \<open>A root that is completed takes no part any more; any other step keeps the invariant, and the
  memory of completed roots grows by the root of the command it gives.\<close>

lemma ingest_completed:
  assumes "payload_root env payload = Some q" "q \<in> tn_completed_roots st"
  shows "fst (ingest_payload env payload st) = st \<and> (\<forall>c. snd (ingest_payload env payload st) \<noteq> Inr (Some c))"
proof -
  obtain sid where sid: "payload_str env payload ''sid'' = Some sid" "root_sid_of sid = q"
    using assms(1) by (auto simp: payload_root_def)
  show ?thesis
    unfolding ingest_payload_def sid(1) option.case Let_def sid(2) is_completed_root_def if_P [OF assms(2)]
    by (simp split: option.split)
qed

lemma ingest_no_root:
  assumes "payload_root env payload = None"
  shows "fst (ingest_payload env payload st) = st \<and> (\<forall>c. snd (ingest_payload env payload st) \<noteq> Inr (Some c))"
proof -
  have sid: "payload_str env payload ''sid'' = None" using assms by (simp add: payload_root_def)
  show ?thesis unfolding ingest_payload_def sid option.case by (simp split: option.split)
qed

definition answered_root :: "str + NormalizedCommand option \<Rightarrow> str list" where
  "answered_root res = (case res of Inr (Some c) \<Rightarrow> [nc_root_sid c] | _ \<Rightarrow> [])"

lemma answered_root_nil: "(\<And>c. res \<noteq> Inr (Some c)) \<Longrightarrow> answered_root res = []"
  by (auto simp: answered_root_def split: sum.split option.split)

definition last_roots :: "str list \<Rightarrow> str list" where
  "last_roots roots = drop (length roots - COMPLETED_ROOT_RETENTION_LIMIT) roots"

lemma last_roots_within: "length roots \<le> COMPLETED_ROOT_RETENTION_LIMIT \<Longrightarrow> last_roots roots = roots"
  by (simp add: last_roots_def)

lemma last_roots_twice: "last_roots (last_roots roots @ [q]) = last_roots (roots @ [q])"
proof (cases "length roots \<le> COMPLETED_ROOT_RETENTION_LIMIT")
  case False
  then have "Suc (length roots - COMPLETED_ROOT_RETENTION_LIMIT) = Suc (length roots) - COMPLETED_ROOT_RETENTION_LIMIT" by simp
  moreover have "0 < COMPLETED_ROOT_RETENTION_LIMIT" by (simp add: COMPLETED_ROOT_RETENTION_LIMIT_def)
  ultimately show ?thesis using False by (simp add: last_roots_def)
qed (simp add: last_roots_within)

lemma local_step_ok:
  assumes ok: "trace_ok st" and q: "q \<notin> tn_completed_roots st" and step: "local_step q st (st', res)"
  shows "trace_ok st' \<and> tn_completed_root_order st' = last_roots (tn_completed_root_order st @ answered_root res)"
proof (cases "\<exists>c. res = Inr (Some c)")
  case False
  then have "same_elsewhere q st st'" "same_memory st st'" "root_ok st' q" "answered_root res = []"
    using step by (auto simp: local_step_def answered_root_def split: sum.splits option.splits)
  moreover have "root_ok st' r" if "r \<noteq> q" for r
    using ok that \<open>same_elsewhere q st st'\<close> by (auto simp: trace_ok_def root_ok_def same_elsewhere_def)
  moreover have "nothing_left st' r" if "r \<in> tn_completed_roots st" for r
    using ok q that \<open>same_elsewhere q st st'\<close> by (cases "r = q") (auto simp: trace_ok_def nothing_left_def same_elsewhere_def)
  ultimately show ?thesis
    using ok unfolding trace_ok_def same_memory_def by (metis append_Nil2 last_roots_within)
next
  case True
  then obtain c mid where c: "res = Inr (Some c)" "nc_root_sid c = q" "nothing_left st' q" "same_elsewhere q st st'"
      and mid: "same_memory st mid" "same_memory (mark_completed_root q mid) st'"
    using step by (auto simp: local_step_def)
  let ?order = "tn_completed_root_order st @ [q]"
  have "tn_completed_roots mid = set (tn_completed_root_order mid)" "distinct (tn_completed_root_order mid)" "q \<notin> tn_completed_roots mid"
    using ok q mid(1) by (auto simp: trace_ok_def same_memory_def)
  from mark_completed_order [OF this] have new: "tn_completed_root_order st' = last_roots ?order" "tn_completed_roots st' = set (last_roots ?order)"
    using mid by (auto simp: same_memory_def last_roots_def)
  have "distinct ?order" using ok q by (auto simp: trace_ok_def)
  then have order: "distinct (last_roots ?order)" "length (last_roots ?order) \<le> COMPLETED_ROOT_RETENTION_LIMIT"
    "set (last_roots ?order) \<subseteq> insert q (tn_completed_roots st)"
    using ok set_drop_subset [of "length ?order - COMPLETED_ROOT_RETENTION_LIMIT" ?order]
    unfolding last_roots_def trace_ok_def by (auto simp del: drop_append)
  have "nothing_left st' r" if "r \<in> tn_completed_roots st'" for r
    using that c(3,4) ok new(2) order(3) by (cases "r = q") (auto simp: trace_ok_def nothing_left_def same_elsewhere_def)
  moreover have "root_ok st' r" for r
    using c(3,4) ok by (cases "r = q") (auto simp: trace_ok_def nothing_left_def same_elsewhere_def root_ok_def)
  ultimately show ?thesis using new order c by (simp add: trace_ok_def answered_root_def)
qed

lemma ingest_ok:
  assumes "trace_ok st"
  shows "trace_ok (fst (ingest_payload env payload st)) \<and>
    tn_completed_root_order (fst (ingest_payload env payload st)) =
      last_roots (tn_completed_root_order st @ answered_root (snd (ingest_payload env payload st)))"
proof (cases "\<exists>q. payload_root env payload = Some q \<and> q \<notin> tn_completed_roots st")
  case True
  then show ?thesis
    using local_step_ok [OF assms, of _ "fst (ingest_payload env payload st)" "snd (ingest_payload env payload st)"]
      ingest_local [OF assms, of env payload]
    by auto
next
  case False
  then have "fst (ingest_payload env payload st) = st \<and> (\<forall>c. snd (ingest_payload env payload st) \<noteq> Inr (Some c))"
    by (cases "payload_root env payload") (simp_all add: ingest_completed ingest_no_root)
  then have "fst (ingest_payload env payload st) = st" "answered_root (snd (ingest_payload env payload st)) = []"
    by (auto simp: answered_root_def split: sum.splits option.splits)
  then show ?thesis using assms by (simp add: trace_ok_def last_roots_within)
qed

text \<open>Removing what is kept for roots keeps the invariant.\<close>

lemma forget_sid_kept [simp]:
  "tn_pending (forget_sid q st) = tn_pending st" "tn_deferred_exits (forget_sid q st) = tn_deferred_exits st"
  "tn_completed_roots (forget_sid q st) = tn_completed_roots st"
  "tn_completed_root_order (forget_sid q st) = tn_completed_root_order st"
  by (simp_all add: forget_sid_def)

lemma forget_sid_nothing_left: "nothing_left st r \<Longrightarrow> nothing_left (forget_sid q st) r"
  by (simp add: nothing_left_def forget_sid_def)

lemma remove_pending_root_ok:
  "trace_ok st \<Longrightarrow> trace_ok (fst (remove_pending_root q st)) \<and>
     tn_completed_root_order (fst (remove_pending_root q st)) = tn_completed_root_order st"
  by (auto simp: remove_pending_root_def trace_ok_def root_ok_def nothing_left_def forget_sid_def split: option.splits)

lemma remove_deferred_root_ok:
  "trace_ok st \<Longrightarrow> trace_ok (remove_deferred_root q st) \<and>
     tn_completed_root_order (remove_deferred_root q st) = tn_completed_root_order st"
  by (auto simp: remove_deferred_root_def trace_ok_def root_ok_def nothing_left_def forget_sid_def)

lemma sweep_pending_ok: "trace_ok st \<Longrightarrow> trace_ok (fst (sweep_pending roots st)) \<and>
    tn_completed_root_order (fst (sweep_pending roots st)) = tn_completed_root_order st"
proof (induction roots arbitrary: st)
  case (Cons q roots)
  show ?case
    using Cons.IH [of "fst (remove_pending_root q st)"] remove_pending_root_ok [OF Cons.prems, of q]
    by (auto split: prod.splits option.splits)
qed simp

lemma sweep_deferred_ok: "trace_ok st \<Longrightarrow> trace_ok (fst (sweep_deferred roots st)) \<and>
    tn_completed_root_order (fst (sweep_deferred roots st)) = tn_completed_root_order st"
proof (induction roots arbitrary: st)
  case (Cons q roots)
  show ?case
    using Cons.IH [of "remove_deferred_root q st"] remove_deferred_root_ok [OF Cons.prems, of q] by (auto split: prod.splits)
qed simp

lemma sweep_orphans_ok: "trace_ok st \<Longrightarrow> trace_ok (fst (sweep_orphans ps ds st)) \<and>
    tn_completed_root_order (fst (sweep_orphans ps ds st)) = tn_completed_root_order st"
  using sweep_pending_ok [of st ps] sweep_deferred_ok [of "fst (sweep_pending ps st)" ds]
  by (auto simp: sweep_orphans_def split: prod.splits)

lemma sweep_orphans_for_roots_ok: "trace_ok st \<Longrightarrow> trace_ok (fst (sweep_orphans_for_roots roots st)) \<and>
    tn_completed_root_order (fst (sweep_orphans_for_roots roots st)) = tn_completed_root_order st"
proof (induction roots arbitrary: st)
  case (Cons q roots)
  obtain st' removed where removed: "remove_pending_root q st = (st', removed)" by fastforce
  then have "trace_ok st'" "tn_completed_root_order st' = tn_completed_root_order st"
    using remove_pending_root_ok [OF Cons.prems, of q] by auto
  then show ?case
    using Cons.IH [of st'] Cons.IH [of "remove_deferred_root q st'"] remove_deferred_root_ok [of st' q] removed
    by (auto split: prod.splits option.splits)
qed simp

section \<open>Phases\<close>

text \<open>The abstract machine of one root. A start is kept until the end is seen, and the end until the
  start is seen; the second of the two completes the root.\<close>

datatype phase = Idle | Started | Ended | Done

datatype root_event = Start | End | Other

fun phase_step :: "root_event \<Rightarrow> phase \<Rightarrow> phase" where
  "phase_step Start Idle = Started"
| "phase_step Start Ended = Done"
| "phase_step End Idle = Ended"
| "phase_step End Started = Done"
| "phase_step _ p = p"

definition ended :: "TraceNormalizerState \<Rightarrow> str \<Rightarrow> bool" where
  "ended st r = (\<exists>d. tn_deferred_exits st r = Some d \<and> de_is_atexit d)"

definition phase :: "TraceNormalizerState \<Rightarrow> str \<Rightarrow> phase" where
  "phase st r =
     (if r \<in> tn_completed_roots st then Done
      else if tn_pending st r \<noteq> None then Started
      else if ended st r then Ended else Idle)"

definition event_kind :: "'v TraceEnv \<Rightarrow> 'v \<Rightarrow> root_event" where
  "event_kind env payload =
     (case (payload_str env payload ''event'', payload_str env payload ''sid'') of
        (Some event, Some sid) \<Rightarrow>
          if sid \<noteq> root_sid_of sid then Other
          else if event = ''start'' then Start else if event = ''atexit'' then End else Other
      | _ \<Rightarrow> Other)"

definition total_backend :: "'v TraceEnv \<Rightarrow> bool" where
  "total_backend env =
     (\<forall>worktree argv. \<not> isl (gb_resolve_primary_command (te_backend env) worktree argv) \<and>
                      \<not> isl (gb_resolve_invocation (te_backend env) worktree argv))"

lemma total_backend_Inl:
  assumes "total_backend env"
  shows "gb_resolve_primary_command (te_backend env) w argv \<noteq> Inl e" "gb_resolve_invocation (te_backend env) w argv \<noteq> Inl e"
proof -
  have "\<not> isl (gb_resolve_primary_command (te_backend env) w argv)" "\<not> isl (gb_resolve_invocation (te_backend env) w argv)"
    using assms by (auto simp: total_backend_def)
  then show "gb_resolve_primary_command (te_backend env) w argv \<noteq> Inl e" "gb_resolve_invocation (te_backend env) w argv \<noteq> Inl e"
    by auto
qed

lemma resolve_primary_hint_total: "total_backend env \<Longrightarrow> \<exists>hint. resolve_primary_hint env n cs argv w f = Inr hint"
  unfolding resolve_primary_hint_def Let_def
  by (auto split: option.split bool.split sum.split simp: total_backend_Inl)

lemma expanded_invocation_total: "total_backend env \<Longrightarrow> \<exists>inv. expanded_invocation env pending hint = Inr inv"
  unfolding expanded_invocation_def Let_def
  by (auto split: option.split prod.split sum.split simp: total_backend_Inl)

lemma normalized_command_total: "total_backend env \<Longrightarrow> \<exists>c. normalized_command env pending x t = Inr c"
proof -
  assume total: "total_backend env"
  obtain hint where hint: "resolve_primary_hint env (pt_root_cmd_name pending) (pt_observed_child_commands pending)
             (pt_raw_argv pending) (pt_worktree pending) (pt_family_key pending) = Inr hint"
    using resolve_primary_hint_total [OF total] by blast
  obtain inv where inv: "expanded_invocation env pending hint = Inr inv"
    using expanded_invocation_total [OF total] by blast
  show ?thesis by (simp add: normalized_command_def hint inv Let_def split: prod.split)
qed

lemma finalize_phase:
  assumes "total_backend env" "tn_pending st q = Some pending" "pt_root_sid pending = q"
    and "card (insert q (tn_completed_roots st)) \<le> COMPLETED_ROOT_RETENTION_LIMIT"
  shows "\<exists>st' c. finalize_root_exit env q x t st = (st', Inr (Some c)) \<and> nc_root_sid c = q \<and>
    tn_completed_roots st' = insert q (tn_completed_roots st)"
proof -
  let ?st = "st\<lparr>tn_pending := (tn_pending st)(q := None)\<rparr>"
  obtain c where c: "normalized_command env (complete_pending env ?st q x t pending) x t = Inr c"
    using normalized_command_total [OF assms(1)] by blast
  have "nc_root_sid c = q" using normalized_command_root [OF c] assms(3) by simp
  moreover have "tn_completed_roots (mark_completed_root q ?st) = insert q (tn_completed_roots st)"
    using assms(4) by (simp add: mark_completed_within)
  ultimately show ?thesis using assms(2) by (simp add: finalize_root_exit_def c)
qed

lemma phase_completed: "q \<in> tn_completed_roots st \<Longrightarrow> phase st q = Done"
  by (simp add: phase_def)

lemma phase_kept:
  assumes "tn_completed_roots st' = tn_completed_roots st" "(tn_pending st' r = None) = (tn_pending st r = None)"
    and "tn_pending st r = None \<Longrightarrow> ended st' r = ended st r"
  shows "phase st' r = phase st r"
  using assms by (simp add: phase_def)

definition steps_to :: "TraceNormalizerState \<Rightarrow> str \<Rightarrow> root_event \<Rightarrow> NormalizedCommand option outcome \<Rightarrow> bool" where
  "steps_to st q k out =
     (phase (fst out) q = phase_step k (phase st q) \<and>
      tn_completed_roots (fst out) = tn_completed_roots st \<union> set (answered_root (snd out)) \<and>
      answered_root (snd out) = (if phase st q \<noteq> Done \<and> phase_step k (phase st q) = Done then [q] else []))"

lemma steps_to_other:
  assumes "phase st' q = phase st q" "tn_completed_roots st' = tn_completed_roots st" "\<And>c. res \<noteq> Inr (Some c)"
  shows "steps_to st q Other (st', res)"
proof -
  have "answered_root res = []" using assms(3) by (rule answered_root_nil)
  with assms show ?thesis by (simp add: steps_to_def)
qed

lemma finalize_steps:
  assumes "total_backend env" "tn_pending st' q = Some pending" "pt_root_sid pending = q" "q \<notin> tn_completed_roots st"
    and "card (insert q (tn_completed_roots st)) \<le> COMPLETED_ROOT_RETENTION_LIMIT"
    and "tn_completed_roots st' = tn_completed_roots st" "phase_step k (phase st q) = Done"
  shows "steps_to st q k (finalize_root_exit env q x t st')"
proof -
  obtain st'' c where final: "finalize_root_exit env q x t st' = (st'', Inr (Some c))" "nc_root_sid c = q"
      "tn_completed_roots st'' = insert q (tn_completed_roots st)"
    using finalize_phase [OF assms(1-3)] assms(5,6) by metis
  moreover have "phase st q \<noteq> Done" using assms(4) by (auto simp: phase_def)
  ultimately show ?thesis using assms(7) by (simp add: steps_to_def phase_completed answered_root_def)
qed

lemma handle_start_steps:
  assumes "total_backend env" "root_ok st q" "q \<notin> tn_completed_roots st"
    and "card (insert q (tn_completed_roots st)) \<le> COMPLETED_ROOT_RETENTION_LIMIT"
  shows "steps_to st q (if sid = q then Start else Other) (handle_start env payload sid q t st)"
proof (cases "sid = q")
  case True
  let ?st = "insert_pending env payload q t st"
  obtain pending where pending: "tn_pending ?st q = Some pending" "pt_root_sid pending = q"
    using insert_pending_pending [of env payload q t st] by blast
  show ?thesis
  proof (cases "ended st q")
    case ended: True
    then obtain d where d: "tn_deferred_exits st q = Some d" "de_is_atexit d" by (auto simp: ended_def)
    have "phase st q = Ended" using assms(2,3) d ended by (auto simp: phase_def root_ok_def)
    then have "steps_to st q Start (finalize_root_exit env q (de_exit_code d) (de_finished_at_ns d) (remove_deferred q ?st))"
      using assms(1,3,4) pending by (intro finalize_steps) simp_all
    with True d assms(3) show ?thesis by (simp add: handle_start_def is_completed_root_def)
  next
    case False
    then have "handle_start env payload sid q t st = (?st, Inr None)"
      using True assms(3) by (auto simp: handle_start_def is_completed_root_def ended_def Let_def split: option.split)
    with True False assms(3) pending show ?thesis by (simp add: steps_to_def phase_def answered_root_def)
  qed
qed (simp add: handle_start_def steps_to_other)

lemma handle_exit_steps:
  assumes "total_backend env" "root_ok st q" "q \<notin> tn_completed_roots st"
    and "card (insert q (tn_completed_roots st)) \<le> COMPLETED_ROOT_RETENTION_LIMIT"
  shows "steps_to st q (if sid = q \<and> is_atexit then End else Other) (handle_exit env payload sid q t is_atexit st)"
proof (cases "sid = q")
  case True
  let ?st = "update_pending q (merge_reflog_start_offsets_from_payload env payload) st"
  show ?thesis
  proof (cases "tn_pending st q = None \<or> \<not> is_atexit")
    case deferred: True
    let ?st' = "?st\<lparr>tn_deferred_exits := (tn_deferred_exits ?st)(q \<mapsto>
                       defer_exit (payload_exit_code env payload) t is_atexit (tn_deferred_exits ?st q))\<rparr>"
    have "handle_exit env payload sid q t is_atexit st = (?st', Inr None)"
      using deferred True assms(3) by (auto simp: handle_exit_def is_completed_root_def Let_def)
    moreover have "ended ?st' q = (is_atexit \<or> ended st q)" by (simp add: ended_def defer_exit_atexit)
    ultimately show ?thesis
      using True deferred assms(3) by (auto simp: steps_to_def phase_def answered_root_def)
  next
    case False
    then obtain pending where "tn_pending ?st q = Some pending" "pt_root_sid pending = q"
      using assms(2) by (auto simp: root_ok_def)
    moreover have "phase st q = Started" using False assms(3) by (simp add: phase_def)
    ultimately have "steps_to st q End (finalize_root_exit env q (payload_exit_code env payload) t (remove_deferred q ?st))"
      using assms by (intro finalize_steps) simp_all
    with True False assms(3) show ?thesis by (auto simp: handle_exit_def is_completed_root_def Let_def)
  qed
qed (simp add: handle_exit_def steps_to_other)

lemma retarget_steps: "steps_to st q Other (with_result (retarget_root env payload q repo st) r)"
  unfolding with_result_def
  by (intro steps_to_other phase_kept) (simp_all add: ended_def split: sum.split)

lemma handle_def_repo_steps: "steps_to st q Other (handle_def_repo env payload q st)"
proof -
  have "steps_to st q Other (update_pending q f st, Inr None)" for f
    by (intro steps_to_other phase_kept) (simp_all add: ended_def)
  then show ?thesis
    unfolding handle_def_repo_def Let_def by (simp add: retarget_steps steps_to_other split: option.split)
qed

lemma handle_cmd_name_steps: "steps_to st q Other (handle_cmd_name env payload sid q st)"
proof -
  have "steps_to st q Other (with_result (update_pending q f st) r)" for f r
    unfolding with_result_def by (intro steps_to_other phase_kept) (simp_all add: ended_def split: sum.split)
  moreover have "steps_to st q Other (st\<lparr>tn_prestart_root_cmd_names := m\<rparr>, Inr None)" for m
    by (intro steps_to_other phase_kept) (simp_all add: ended_def)
  ultimately show ?thesis
    unfolding handle_cmd_name_def Let_def by (simp add: steps_to_other split: option.split)
qed

lemma ingest_steps:
  assumes "trace_ok st" "total_backend env" "payload_root env payload = Some q"
    and "card (insert q (tn_completed_roots st)) \<le> COMPLETED_ROOT_RETENTION_LIMIT"
  shows "steps_to st q (event_kind env payload) (ingest_payload env payload st)"
proof (cases "q \<in> tn_completed_roots st")
  case True
  then have "fst (ingest_payload env payload st) = st" "answered_root (snd (ingest_payload env payload st)) = []"
    using ingest_completed [OF assms(3), of st] by (simp_all add: answered_root_nil)
  moreover have "phase_step k Done = Done" for k by (cases k) simp_all
  ultimately show ?thesis using True by (simp add: steps_to_def phase_def)
next
  case False
  obtain sid where sid: "payload_str env payload ''sid'' = Some sid" "q = root_sid_of sid"
    using assms(3) by (auto simp: payload_root_def)
  have root: "root_ok st q" using assms(1) by (simp add: trace_ok_def)
  note handlers = handle_start_steps [OF assms(2) root False assms(4)] handle_exit_steps [OF assms(2) root False assms(4)]
    handle_def_repo_steps handle_cmd_name_steps
  have start: "steps_to st q Start (handle_start env payload q q t st)" "sid \<noteq> q \<Longrightarrow> steps_to st q Other (handle_start env payload sid q t st)" for t
    using handlers(1) [of q payload t] handlers(1) [of sid payload t] by simp_all
  have exit: "steps_to st q End (handle_exit env payload q q t True st)" "steps_to st q Other (handle_exit env payload sid q t False st)"
      "sid \<noteq> q \<Longrightarrow> steps_to st q Other (handle_exit env payload sid q t b st)" for t b
    using handlers(2) [of q True payload t] handlers(2) [of sid False payload t] handlers(2) [of sid b payload t] by simp_all
  have quiet: "steps_to st q Other (st, res)" if "\<And>c. res \<noteq> Inr (Some c)" for res
    using that by (intro steps_to_other) simp_all
  show ?thesis
  proof (cases "payload_str env payload ''event''")
    case None
    then show ?thesis by (simp add: ingest_payload_def event_kind_def quiet)
  next
    case (Some event)
    let ?t = "payload_timestamp_ns env payload"
    have ingest: "ingest_payload env payload st =
        (if event = ''start'' then handle_start env payload sid q ?t st
         else if event = ''def_repo'' then handle_def_repo env payload q st
         else if event = ''cmd_name'' then handle_cmd_name env payload sid q st
         else if event = ''exit'' then handle_exit env payload sid q ?t False st
         else if event = ''atexit'' then handle_exit env payload sid q ?t True st
         else (st, Inr None))"
      unfolding ingest_payload_def Some sid(1) option.case Let_def sid(2) [symmetric] is_completed_root_def if_not_P [OF False] ..
    have kind: "event_kind env payload = (if sid \<noteq> q then Other else if event = ''start'' then Start else if event = ''atexit'' then End else Other)"
      unfolding event_kind_def Some sid(1) option.case prod.case sid(2) [symmetric] ..
    consider "event = ''start''" | "event = ''def_repo''" | "event = ''cmd_name''" | "event = ''exit''" | "event = ''atexit''"
      | "event \<noteq> ''start''" "event \<noteq> ''def_repo''" "event \<noteq> ''cmd_name''" "event \<noteq> ''exit''" "event \<noteq> ''atexit''" by blast
    then show ?thesis
    proof cases
      case 1
      then show ?thesis using start [of ?t] by (cases "sid = q") (simp_all add: ingest kind)
    next
      case 2
      then show ?thesis by (simp add: ingest kind handlers(3))
    next
      case 3
      then show ?thesis by (simp add: ingest kind handlers(4))
    next
      case 4
      then show ?thesis using exit(2) [of ?t] by (cases "sid = q") (simp_all add: ingest kind)
    next
      case 5
      then show ?thesis using exit(1,3) [of ?t] by (cases "sid = q") (simp_all add: ingest kind)
    next
      case 6
      then show ?thesis by (simp add: ingest kind quiet)
    qed
  qed
qed

section \<open>Sequences of operations\<close>

datatype 'v trace_op =
  Ingest "'v TraceEnv" 'v
| Sweep_Orphans "str list" "str list"
| Sweep_Roots "str list"

fun trace_step :: "'v trace_op \<Rightarrow> TraceNormalizerState \<Rightarrow> TraceNormalizerState \<times> NormalizedCommand list" where
  "trace_step (Ingest env payload) st =
     (case ingest_payload env payload st of (st', res) \<Rightarrow> (st', case res of Inr (Some c) \<Rightarrow> [c] | _ \<Rightarrow> []))"
| "trace_step (Sweep_Orphans ps ds) st = (fst (sweep_orphans ps ds st), [])"
| "trace_step (Sweep_Roots roots) st = (fst (sweep_orphans_for_roots roots st), [])"

fun run_trace :: "'v trace_op list \<Rightarrow> TraceNormalizerState \<Rightarrow> TraceNormalizerState \<times> NormalizedCommand list" where
  "run_trace [] st = (st, [])"
| "run_trace (op # ops) st =
     (let (st', cs) = trace_step op st; (st'', cs') = run_trace ops st' in (st'', cs @ cs'))"

lemma answered_root_commands: "answered_root res = map nc_root_sid (case res of Inr (Some c) \<Rightarrow> [c] | _ \<Rightarrow> [])"
  by (simp add: answered_root_def split: sum.split option.split)

lemma trace_step_ok:
  "trace_ok st \<Longrightarrow> trace_ok (fst (trace_step op st)) \<and>
     tn_completed_root_order (fst (trace_step op st)) =
       last_roots (tn_completed_root_order st @ map nc_root_sid (snd (trace_step op st)))"
proof (cases op)
  case (Ingest env payload)
  then show "trace_ok st \<Longrightarrow> ?thesis"
    using ingest_ok [of st env payload] by (auto simp: answered_root_commands split: prod.splits)
qed (use sweep_orphans_ok sweep_orphans_for_roots_ok last_roots_within in \<open>auto simp: trace_ok_def\<close>)

lemma last_roots_append: "last_roots (last_roots xs @ ys) = last_roots (xs @ ys)"
proof (induction ys rule: rev_induct)
  case (snoc y ys)
  then show ?case using last_roots_twice [of "last_roots xs @ ys" y] last_roots_twice [of "xs @ ys" y] by simp
next
  case Nil
  then show ?case by (auto simp: last_roots_def)
qed

lemma run_trace_ok:
  "trace_ok st \<Longrightarrow> trace_ok (fst (run_trace ops st)) \<and>
     tn_completed_root_order (fst (run_trace ops st)) =
       last_roots (tn_completed_root_order st @ map nc_root_sid (snd (run_trace ops st)))"
proof (induction ops arbitrary: st)
  case (Cons op ops)
  obtain st' cs where step: "trace_step op st = (st', cs)" by fastforce
  obtain st'' cs' where run: "run_trace ops st' = (st'', cs')" by fastforce
  show ?case
    using Cons.IH [of st'] trace_step_ok [OF Cons.prems, of op] step run
      last_roots_append [of "tn_completed_root_order st @ map nc_root_sid cs"] by simp
qed (simp add: trace_ok_def last_roots_within)

text \<open>What an operation does to the phase of a root.\<close>

definition un_pend :: "bool \<Rightarrow> bool \<Rightarrow> phase \<Rightarrow> phase" where
  "un_pend pending deferred p =
     (case p of Started \<Rightarrow> if pending then Idle else Started | Ended \<Rightarrow> if deferred then Idle else Ended | _ \<Rightarrow> p)"

fun phase_op :: "'v trace_op \<Rightarrow> str \<Rightarrow> phase \<Rightarrow> phase" where
  "phase_op (Ingest env payload) r p =
     (if payload_root env payload = Some r then phase_step (event_kind env payload) p else p)"
| "phase_op (Sweep_Orphans ps ds) r p = un_pend (r \<in> set ps) (r \<in> set ds) p"
| "phase_op (Sweep_Roots roots) r p = un_pend (r \<in> set roots) (r \<in> set roots) p"

lemma remove_pending_phase:
  assumes "trace_ok st"
  shows "phase (fst (remove_pending_root q st)) r = un_pend (r = q) False (phase st r)"
  using assms by (auto simp: remove_pending_root_def phase_def ended_def un_pend_def trace_ok_def root_ok_def split: option.splits)

lemma remove_deferred_phase: "phase (remove_deferred_root q st) r = un_pend False (r = q) (phase st r)"
  by (auto simp: remove_deferred_root_def phase_def ended_def un_pend_def)

lemma un_pend_un_pend [simp]: "un_pend a b (un_pend c d p) = un_pend (a \<or> c) (b \<or> d) p"
  by (cases p) (auto simp: un_pend_def)

lemma un_pend_False [simp]: "un_pend False False p = p"
  by (cases p) (auto simp: un_pend_def)

lemma sweep_pending_phase: "trace_ok st \<Longrightarrow> phase (fst (sweep_pending roots st)) r = un_pend (r \<in> set roots) False (phase st r)"
proof (induction roots arbitrary: st)
  case (Cons q roots)
  obtain st' removed where removed: "remove_pending_root q st = (st', removed)" by fastforce
  with Cons.IH [of st'] remove_pending_root_ok [OF Cons.prems, of q] remove_pending_phase [OF Cons.prems, of q r]
  show ?case by (auto simp: disj_commute split: option.splits prod.splits)
qed simp

lemma sweep_deferred_phase: "phase (fst (sweep_deferred roots st)) r = un_pend False (r \<in> set roots) (phase st r)"
proof (induction roots arbitrary: st)
  case (Cons q roots)
  show ?case
    using Cons.IH [of "remove_deferred_root q st"] remove_deferred_phase [of q st r] by (auto simp: disj_commute split: prod.splits)
qed simp

lemma sweep_roots_phase: "trace_ok st \<Longrightarrow> phase (fst (sweep_orphans_for_roots roots st)) r = un_pend (r \<in> set roots) (r \<in> set roots) (phase st r)"
proof (induction roots arbitrary: st)
  case (Cons q roots)
  obtain st' removed where removed: "remove_pending_root q st = (st', removed)" by fastforce
  then have st': "trace_ok st'" "phase st' r = un_pend (r = q) False (phase st r)"
    using remove_pending_root_ok [OF Cons.prems, of q] remove_pending_phase [OF Cons.prems, of q r] by auto
  consider (pending) p where "removed = Some p" | (deferred) "removed = None" "tn_deferred_exits st' q \<noteq> None"
    | (none) "removed = None" "tn_deferred_exits st' q = None" by blast
  then show ?case
  proof cases
    case pending
    then have "phase st q = Started \<or> phase st q = Done"
      using removed by (auto simp: remove_pending_root_def phase_def split: option.splits)
    then have "un_pend (r = q) False (phase st r) = un_pend (r = q) (r = q) (phase st r)"
      by (cases "r = q") (auto simp: un_pend_def)
    with pending Cons.IH [OF st'(1)] st'(2) removed show ?thesis by (auto simp: disj_commute split: prod.splits)
  next
    case deferred
    with Cons.IH [of "remove_deferred_root q st'"] remove_deferred_root_ok [OF st'(1), of q] remove_deferred_phase [of q st' r] st'(2) removed
    show ?thesis by (auto simp: disj_commute split: prod.splits)
  next
    case none
    then have "phase st q \<noteq> Ended" using removed by (auto simp: remove_pending_root_def phase_def ended_def split: option.splits if_splits)
    then have "un_pend (r = q) False (phase st r) = un_pend (r = q) (r = q) (phase st r)"
      by (cases "r = q") (auto simp: un_pend_def split: phase.split)
    with none Cons.IH [OF st'(1)] st'(2) removed show ?thesis by (auto simp: disj_commute)
  qed
qed simp

text \<open>One operation, within the memory of completed roots.\<close>

definition op_roots :: "'v trace_op \<Rightarrow> str set" where
  "op_roots op = (case op of Ingest env payload \<Rightarrow> set_option (payload_root env payload) | _ \<Rightarrow> {})"

definition op_total :: "'v trace_op \<Rightarrow> bool" where
  "op_total op = (case op of Ingest env payload \<Rightarrow> total_backend env | _ \<Rightarrow> True)"

definition commands_of_root :: "str \<Rightarrow> NormalizedCommand list \<Rightarrow> NormalizedCommand list" where
  "commands_of_root r cs = filter (\<lambda>c. nc_root_sid c = r) cs"

lemma un_pend_Done: "(un_pend a b p = Done) = (p = Done)"
  by (cases p) (auto simp: un_pend_def)

lemma sweep_completed:
  "trace_ok st \<Longrightarrow> tn_completed_roots (fst (sweep_orphans ps ds st)) = tn_completed_roots st"
  "trace_ok st \<Longrightarrow> tn_completed_roots (fst (sweep_orphans_for_roots roots st)) = tn_completed_roots st"
  using sweep_orphans_ok [of st ps ds] sweep_orphans_for_roots_ok [of st roots] by (simp_all add: trace_ok_def)

lemma trace_step_phase:
  assumes ok: "trace_ok st" "op_total op" and roots: "tn_completed_roots st \<union> op_roots op \<subseteq> R" "finite R" "card R \<le> COMPLETED_ROOT_RETENTION_LIMIT"
    and step: "trace_step op st = (st', cs)"
  shows "phase st' r = phase_op op r (phase st r) \<and> tn_completed_roots st' \<subseteq> R \<and>
    length (commands_of_root r cs) = (if phase st r \<noteq> Done \<and> phase st' r = Done then 1 else 0)"
proof (cases op)
  case (Sweep_Orphans ps ds)
  then have "st' = fst (sweep_orphans ps ds st)" "cs = []" using step by auto
  moreover have "phase (fst (sweep_orphans ps ds st)) r = un_pend (r \<in> set ps) (r \<in> set ds) (phase st r)"
    using sweep_pending_phase [OF ok(1), of ps r] sweep_deferred_phase [of ds "fst (sweep_pending ps st)" r]
    by (auto simp: sweep_orphans_def split: prod.splits)
  ultimately show ?thesis using Sweep_Orphans roots sweep_completed(1) [OF ok(1)] by (simp add: un_pend_Done commands_of_root_def)
next
  case (Sweep_Roots rs)
  then have "st' = fst (sweep_orphans_for_roots rs st)" "cs = []" using step by auto
  then show ?thesis
    using Sweep_Roots roots sweep_completed(2) [OF ok(1)] sweep_roots_phase [OF ok(1), of rs r]
    by (simp add: un_pend_Done commands_of_root_def)
next
  case (Ingest env payload)
  let ?out = "ingest_payload env payload st"
  have cs: "st' = fst ?out" "map nc_root_sid cs = answered_root (snd ?out)"
    using step Ingest by (auto simp: answered_root_commands split: prod.splits)
  have count: "length (commands_of_root r cs) = length (filter (\<lambda>x. x = r) (answered_root (snd ?out)))"
    unfolding commands_of_root_def cs(2) [symmetric] filter_map by (simp add: comp_def)
  show ?thesis
  proof (cases "payload_root env payload")
    case None
    then have "fst ?out = st" "answered_root (snd ?out) = []"
      using ingest_no_root [OF None, of st] by (simp_all add: answered_root_nil)
    with None Ingest cs count roots show ?thesis by simp
  next
    case (Some q)
    then have "insert q (tn_completed_roots st) \<subseteq> R" using roots(1) Ingest by (simp add: op_roots_def)
    then have "card (insert q (tn_completed_roots st)) \<le> COMPLETED_ROOT_RETENTION_LIMIT"
      using card_mono [OF roots(2)] roots(3) le_trans by blast
    then have q: "steps_to st q (event_kind env payload) ?out"
      using ingest_steps ok Some Ingest by (simp add: op_total_def)
    then have answers: "set (answered_root (snd ?out)) \<subseteq> {q}" "tn_completed_roots st' = tn_completed_roots st \<union> set (answered_root (snd ?out))"
      using cs by (auto simp: steps_to_def)
    have "phase st' r = phase st r" if "r \<noteq> q"
      using that ingest_local [OF ok(1) Some] answers cs(1)
      by (cases ?out) (auto simp: local_step_def same_elsewhere_def phase_def ended_def)
    then show ?thesis
      using q Some Ingest cs(1) count answers roots(1) \<open>insert q (tn_completed_roots st) \<subseteq> R\<close>
      by (cases "r = q") (auto simp: steps_to_def split: if_splits)
  qed
qed

lemma phase_op_Done [simp]: "phase_op op r Done = Done"
proof -
  have "phase_step k Done = Done" for k by (cases k) simp_all
  then show ?thesis by (cases op) (simp_all add: un_pend_def)
qed

lemma fold_phase_Done: "fold (\<lambda>op. phase_op op r) ops Done = Done"
  by (induction ops) simp_all

lemma run_trace_phase:
  assumes "trace_ok st" "\<forall>op \<in> set ops. op_total op" "tn_completed_roots st \<union> \<Union> (op_roots ` set ops) \<subseteq> R" "finite R"
    and "card R \<le> COMPLETED_ROOT_RETENTION_LIMIT"
  shows "phase (fst (run_trace ops st)) r = fold (\<lambda>op. phase_op op r) ops (phase st r) \<and>
    length (commands_of_root r (snd (run_trace ops st))) =
      (if phase st r \<noteq> Done \<and> phase (fst (run_trace ops st)) r = Done then 1 else 0)"
  using assms(1-3)
proof (induction ops arbitrary: st)
  case (Cons op ops)
  obtain st' cs where step: "trace_step op st = (st', cs)" by fastforce
  obtain st'' cs' where run: "run_trace ops st' = (st'', cs')" by fastforce
  have one: "phase st' r = phase_op op r (phase st r) \<and> tn_completed_roots st' \<subseteq> R \<and>
      length (commands_of_root r cs) = (if phase st r \<noteq> Done \<and> phase st' r = Done then 1 else 0)"
    using trace_step_phase [OF Cons.prems(1) _ _ assms(4,5) step] Cons.prems(2,3) by auto
  have rest: "phase st'' r = fold (\<lambda>op. phase_op op r) ops (phase st' r) \<and>
      length (commands_of_root r cs') = (if phase st' r \<noteq> Done \<and> phase st'' r = Done then 1 else 0)"
    using Cons.IH [of st'] trace_step_ok [OF Cons.prems(1), of op] Cons.prems(2,3) one step run by auto
  show ?case using one rest step run by (auto simp: commands_of_root_def fold_phase_Done)
qed (simp add: commands_of_root_def)

text \<open>Sweeping a root that is pending leaves the exit that was deferred for it.\<close>

lemma swept_root_keeps_deferred_exit:
  assumes "tn_pending st r \<noteq> None"
  shows "tn_deferred_exits (fst (sweep_orphans_for_roots [r] st)) r = tn_deferred_exits st r"
  using assms by (auto simp: remove_pending_root_def)

section \<open>Roots do not influence each other\<close>

text \<open>The part of the state that belongs to one root. A handler of an event of the root commutes with
  taking this part, and a handler of an event of another root does not change it.\<close>

definition only :: "str \<Rightarrow> TraceNormalizerState \<Rightarrow> TraceNormalizerState" where
  "only q st = \<lparr>tn_pending = tn_pending st |` {q}, tn_deferred_exits = tn_deferred_exits st |` {q},
     tn_completed_roots = tn_completed_roots st \<inter> {q},
     tn_completed_root_order = filter (\<lambda>r. r = q) (tn_completed_root_order st),
     tn_sid_to_worktree = tn_sid_to_worktree st |` {q}, tn_sid_to_family = tn_sid_to_family st |` {q},
     tn_prestart_root_cmd_names = tn_prestart_root_cmd_names st |` {q}\<rparr>"

lemma only_select [simp]:
  "tn_pending (only q st) q = tn_pending st q" "tn_deferred_exits (only q st) q = tn_deferred_exits st q"
  "tn_sid_to_worktree (only q st) q = tn_sid_to_worktree st q" "tn_sid_to_family (only q st) q = tn_sid_to_family st q"
  "tn_prestart_root_cmd_names (only q st) q = tn_prestart_root_cmd_names st q"
  "q \<in> tn_completed_roots (only q st) \<longleftrightarrow> q \<in> tn_completed_roots st"
  by (simp_all add: only_def)

lemma restrict_upd: "m(q := x) |` {q} = (m |` {q})(q := x)"
  by (auto simp: restrict_map_def)

lemma only_update_pending: "update_pending q f (only q st) = only q (update_pending q f st)"
  by (cases "tn_pending st q") (simp_all add: update_pending_def only_def restrict_upd)

lemma only_remove_deferred: "remove_deferred q (only q st) = only q (remove_deferred q st)"
  by (simp add: remove_deferred_def only_def restrict_upd)

lemma only_forget_sid: "forget_sid q (only q st) = only q (forget_sid q st)"
  by (simp add: forget_sid_def only_def restrict_upd)

lemma only_insert_pending: "insert_pending env payload q t (only q st) = only q (insert_pending env payload q t st)"
  by (simp add: insert_pending_def Let_def only_def restrict_upd split: option.split)

lemma only_retarget_root: "retarget_root env payload q repo (only q st) = only q (retarget_root env payload q repo st)"
proof -
  have "(only q st)\<lparr>tn_sid_to_worktree := (tn_sid_to_worktree (only q st))(q \<mapsto> repo), tn_sid_to_family :=
      (case f of Some key \<Rightarrow> (tn_sid_to_family (only q st))(q \<mapsto> key) | None \<Rightarrow> tn_sid_to_family (only q st))\<rparr> =
    only q (st\<lparr>tn_sid_to_worktree := (tn_sid_to_worktree st)(q \<mapsto> repo), tn_sid_to_family :=
      (case f of Some key \<Rightarrow> (tn_sid_to_family st)(q \<mapsto> key) | None \<Rightarrow> tn_sid_to_family st)\<rparr>)" for f
    by (simp add: only_def restrict_upd split: option.split)
  then show ?thesis by (simp add: retarget_root_def Let_def only_update_pending)
qed

lemma only_mark_completed:
  assumes "card (insert q (tn_completed_roots st)) \<le> COMPLETED_ROOT_RETENTION_LIMIT"
  shows "mark_completed_root q (only q st) = only q (mark_completed_root q st)"
proof -
  have "insert q (tn_completed_roots (only q st)) = {q}" by (auto simp: only_def)
  then have "card (insert q (tn_completed_roots (only q st))) \<le> COMPLETED_ROOT_RETENTION_LIMIT"
    by (simp only: card_1_singleton_iff) (simp add: COMPLETED_ROOT_RETENTION_LIMIT_def)
  then show ?thesis using assms by (simp add: mark_completed_within) (auto simp: only_def)
qed

lemma only_complete_pending: "complete_pending env (only q st) q x t pending = complete_pending env st q x t pending"
  by (simp add: complete_pending_def)

lemma only_finalize:
  assumes "card (insert q (tn_completed_roots st)) \<le> COMPLETED_ROOT_RETENTION_LIMIT"
  shows "finalize_root_exit env q x t (only q st) = map_prod (only q) id (finalize_root_exit env q x t st)"
proof -
  have remove: "(only q st)\<lparr>tn_pending := (tn_pending (only q st))(q := None)\<rparr> = only q (st\<lparr>tn_pending := (tn_pending st)(q := None)\<rparr>)"
    by (simp add: only_def restrict_upd)
  have mark: "mark_completed_root q (only q (st\<lparr>tn_pending := (tn_pending st)(q := None)\<rparr>)) =
      only q (mark_completed_root q (st\<lparr>tn_pending := (tn_pending st)(q := None)\<rparr>))"
    using assms by (simp add: only_mark_completed)
  show ?thesis
    unfolding finalize_root_exit_def Let_def remove only_complete_pending only_select mark only_forget_sid
    by (simp split: option.split sum.split)
qed

lemma only_refresh: "refresh_pending_mutation_capture env (only q st) q = refresh_pending_mutation_capture env st q"
  by (simp add: refresh_pending_mutation_capture_def)

lemma only_handle_start:
  assumes "card (insert q (tn_completed_roots st)) \<le> COMPLETED_ROOT_RETENTION_LIMIT"
  shows "handle_start env payload sid q t (only q st) = map_prod (only q) id (handle_start env payload sid q t st)"
proof -
  have "finalize_root_exit env q x u (only q (remove_deferred q (insert_pending env payload q t st))) =
      map_prod (only q) id (finalize_root_exit env q x u (remove_deferred q (insert_pending env payload q t st)))" for x u
    using assms by (intro only_finalize) simp
  then show ?thesis
    unfolding handle_start_def Let_def is_completed_root_def only_select only_insert_pending only_remove_deferred
    by (simp split: option.split)
qed

lemma only_handle_exit:
  assumes "card (insert q (tn_completed_roots st)) \<le> COMPLETED_ROOT_RETENTION_LIMIT"
  shows "handle_exit env payload sid q t b (only q st) = map_prod (only q) id (handle_exit env payload sid q t b st)"
proof -
  let ?st = "update_pending q (merge_reflog_start_offsets_from_payload env payload) st"
  have "finalize_root_exit env q x u (only q (remove_deferred q ?st)) =
      map_prod (only q) id (finalize_root_exit env q x u (remove_deferred q ?st))" for x u
    using assms by (intro only_finalize) simp
  moreover have "(only q ?st)\<lparr>tn_deferred_exits := (tn_deferred_exits (only q ?st))(q \<mapsto> d)\<rparr> =
      only q (?st\<lparr>tn_deferred_exits := (tn_deferred_exits ?st)(q \<mapsto> d)\<rparr>)" for d
    by (simp add: only_def restrict_upd)
  ultimately show ?thesis
    unfolding handle_exit_def Let_def is_completed_root_def only_select only_update_pending only_remove_deferred by simp
qed

lemma only_handle_def_repo: "handle_def_repo env payload q (only q st) = map_prod (only q) id (handle_def_repo env payload q st)"
  unfolding handle_def_repo_def Let_def def_repo_target_def prefer_def_repo_target_def already_saw_def_repo_def with_result_def
    only_select only_update_pending only_retarget_root only_refresh
  by (simp split: option.split)

lemma only_handle_cmd_name: "handle_cmd_name env payload sid q (only q st) = map_prod (only q) id (handle_cmd_name env payload sid q st)"
proof -
  have "(only q st)\<lparr>tn_prestart_root_cmd_names := (tn_prestart_root_cmd_names (only q st))(q \<mapsto> cmd)\<rparr> =
      only q (st\<lparr>tn_prestart_root_cmd_names := (tn_prestart_root_cmd_names st)(q \<mapsto> cmd)\<rparr>)" for cmd
    by (simp add: only_def restrict_upd)
  then show ?thesis
    unfolding handle_cmd_name_def Let_def with_result_def only_select only_update_pending only_refresh
    by (cases "tn_pending st q") (simp_all split: option.split)
qed

lemma only_ingest:
  assumes "payload_root env payload = Some q" "card (insert q (tn_completed_roots st)) \<le> COMPLETED_ROOT_RETENTION_LIMIT"
  shows "ingest_payload env payload (only q st) = map_prod (only q) id (ingest_payload env payload st)"
proof -
  obtain sid where sid: "payload_str env payload ''sid'' = Some sid" "q = root_sid_of sid"
    using assms(1) by (auto simp: payload_root_def)
  show ?thesis
    unfolding ingest_payload_def sid(1) option.case Let_def sid(2) [symmetric] is_completed_root_def only_select
      only_handle_start [OF assms(2)] only_handle_exit [OF assms(2)] only_handle_def_repo only_handle_cmd_name
    by (simp split: option.split)
qed

lemma only_elsewhere:
  assumes "trace_ok st" "payload_root env payload \<noteq> Some r" "finite R" "card R \<le> COMPLETED_ROOT_RETENTION_LIMIT"
    and "tn_completed_roots st \<union> set_option (payload_root env payload) \<subseteq> R"
  shows "only r (fst (ingest_payload env payload st)) = only r st"
proof -
  let ?st = "fst (ingest_payload env payload st)"
  have order: "tn_completed_root_order ?st = last_roots (tn_completed_root_order st @ answered_root (snd (ingest_payload env payload st)))"
      "tn_completed_roots ?st = set (tn_completed_root_order ?st)"
    using ingest_ok [OF assms(1), of env payload] by (simp_all add: trace_ok_def)
  show ?thesis
  proof (cases "payload_root env payload")
    case None
    then show ?thesis by (simp add: ingest_no_root)
  next
    case (Some q)
    then have q: "q \<noteq> r" "insert q (tn_completed_roots st) \<subseteq> R" using assms(2,5) by auto
    have local: "local_step q st (ingest_payload env payload st)" by (rule ingest_local [OF assms(1) Some])
    show ?thesis
    proof (cases "q \<in> tn_completed_roots st")
      case True
      then show ?thesis using ingest_completed [OF Some] by simp
    next
      case False
      let ?ans = "answered_root (snd (ingest_payload env payload st))"
      have ans: "set ?ans \<subseteq> {q}" "length ?ans \<le> 1"
        using local by (auto simp: local_step_def answered_root_def split: prod.splits sum.splits option.splits)
      have st: "tn_completed_roots st = set (tn_completed_root_order st)" "distinct (tn_completed_root_order st)"
        using assms(1) by (simp_all add: trace_ok_def)
      have "Suc (length (tn_completed_root_order st)) = card (insert q (tn_completed_roots st))"
        using False st by (simp add: distinct_card)
      then have "length (tn_completed_root_order st @ ?ans) \<le> COMPLETED_ROOT_RETENTION_LIMIT"
        using card_mono [OF assms(3) q(2)] assms(4) ans(2) by simp
      then have "tn_completed_root_order ?st = tn_completed_root_order st @ ?ans" using order(1) by (simp add: last_roots_within)
      moreover have "filter (\<lambda>x. x = r) ?ans = []" using ans(1) q(1) by (auto simp: filter_empty_conv)
      moreover have "tn_completed_roots ?st \<inter> {r} = tn_completed_roots st \<inter> {r}"
        using calculation(1) order(2) st(1) ans(1) q(1) by auto
      moreover have "same_elsewhere q st ?st" using local by (auto simp: local_step_def split: prod.splits)
      then have "tn_pending ?st |` {r} = tn_pending st |` {r}" "tn_deferred_exits ?st |` {r} = tn_deferred_exits st |` {r}"
        "tn_sid_to_worktree ?st |` {r} = tn_sid_to_worktree st |` {r}" "tn_sid_to_family ?st |` {r} = tn_sid_to_family st |` {r}"
        "tn_prestart_root_cmd_names ?st |` {r} = tn_prestart_root_cmd_names st |` {r}"
        using q(1) by (auto simp: same_elsewhere_def restrict_map_def)
      ultimately show ?thesis by (simp add: only_def)
    qed
  qed
qed

lemma completed_within:
  assumes "trace_ok st"
  shows "tn_completed_roots (fst (ingest_payload env payload st)) \<subseteq> tn_completed_roots st \<union> set_option (payload_root env payload) \<and>
    set (map nc_root_sid (snd (trace_step (Ingest env payload) st))) \<subseteq> set_option (payload_root env payload)"
proof -
  let ?ans = "answered_root (snd (ingest_payload env payload st))"
  have commands: "map nc_root_sid (snd (trace_step (Ingest env payload) st)) = ?ans"
    by (simp add: answered_root_commands split: prod.split)
  have ans: "set ?ans \<subseteq> set_option (payload_root env payload)"
  proof (cases "payload_root env payload")
    case None
    then show ?thesis using ingest_no_root [OF None, of st] by (simp add: answered_root_nil)
  next
    case (Some q)
    then show ?thesis
      using ingest_local [OF assms Some] by (auto simp: local_step_def answered_root_def split: prod.splits sum.splits option.splits)
  qed
  have "tn_completed_roots (fst (ingest_payload env payload st)) = set (last_roots (tn_completed_root_order st @ ?ans))"
    using ingest_ok [OF assms, of env payload] by (simp add: trace_ok_def)
  moreover have "set (last_roots xs) \<subseteq> set xs" for xs by (simp add: last_roots_def set_drop_subset)
  ultimately show ?thesis using ans commands assms unfolding trace_ok_def by fastforce
qed

lemma run_trace_only:
  assumes "trace_ok st" "trace_ok st'" "only r st = only r st'"
    and "\<forall>(env, payload) \<in> set events. set_option (payload_root env payload) \<subseteq> R" "finite R" "card R \<le> COMPLETED_ROOT_RETENTION_LIMIT"
    and "tn_completed_roots st \<subseteq> R" "tn_completed_roots st' \<subseteq> R"
  shows "commands_of_root r (snd (run_trace (map (case_prod Ingest) events) st)) =
    snd (run_trace (map (case_prod Ingest) (filter (\<lambda>(env, payload). payload_root env payload = Some r) events)) st')"
  using assms(1-4,7,8)
proof (induction events arbitrary: st st')
  case (Cons event events)
  obtain env payload where event: "event = (env, payload)" by fastforce
  let ?s = "fst (ingest_payload env payload st)" and ?c = "snd (trace_step (Ingest env payload) st)"
  have roots: "set_option (payload_root env payload) \<subseteq> R" using Cons.prems(4) event by auto
  have ok: "trace_ok ?s" using ingest_ok [OF Cons.prems(1), of env payload] by simp
  have within: "tn_completed_roots (fst (ingest_payload env payload u)) \<subseteq> R" "set (map nc_root_sid (snd (trace_step (Ingest env payload) u))) \<subseteq> set_option (payload_root env payload)"
    if "trace_ok u" "tn_completed_roots u \<subseteq> R" for u
    using that roots completed_within [of u env payload] by auto
  have step: "run_trace (map (case_prod Ingest) (event # events)) st =
      (fst (run_trace (map (case_prod Ingest) events) ?s), ?c @ snd (run_trace (map (case_prod Ingest) events) ?s))"
    by (simp add: event split: prod.split)
  show ?case
  proof (cases "payload_root env payload = Some r")
    case False
    have "only r ?s = only r st'"
      using only_elsewhere [OF Cons.prems(1) False assms(5,6)] roots Cons.prems(3,5) by simp
    then have "commands_of_root r (snd (run_trace (map (case_prod Ingest) events) ?s)) =
        snd (run_trace (map (case_prod Ingest) (filter (\<lambda>(env, payload). payload_root env payload = Some r) events)) st')"
      using Cons.IH [OF ok Cons.prems(2)] Cons.prems(4,6) within(1) [OF Cons.prems(1,5)] by simp
    moreover have "commands_of_root r ?c = []"
      using within(2) [OF Cons.prems(1,5)] False by (auto simp: commands_of_root_def filter_empty_conv)
    ultimately show ?thesis using False step by (simp add: event commands_of_root_def)
  next
    case True
    let ?s' = "fst (ingest_payload env payload st')"
    have card: "card (insert r (tn_completed_roots u)) \<le> COMPLETED_ROOT_RETENTION_LIMIT" if "tn_completed_roots u \<subseteq> R" for u
      using that roots True card_mono [OF assms(5), of "insert r (tn_completed_roots u)"] assms(6) by simp
    have "map_prod (only r) id (ingest_payload env payload st) = map_prod (only r) id (ingest_payload env payload st')"
      using only_ingest [OF True card [OF Cons.prems(5)]] only_ingest [OF True card [OF Cons.prems(6)]] Cons.prems(3) by simp
    then have same: "only r ?s = only r ?s'" "snd (ingest_payload env payload st) = snd (ingest_payload env payload st')"
      by (cases "ingest_payload env payload st"; cases "ingest_payload env payload st'"; simp)+
    have ok': "trace_ok ?s'" using ingest_ok [OF Cons.prems(2), of env payload] by simp
    have "commands_of_root r (snd (run_trace (map (case_prod Ingest) events) ?s)) =
        snd (run_trace (map (case_prod Ingest) (filter (\<lambda>(env, payload). payload_root env payload = Some r) events)) ?s')"
      using Cons.IH [OF ok ok' same(1)] Cons.prems(4) within(1) [OF Cons.prems(1,5)] within(1) [OF Cons.prems(2,6)] by simp
    moreover have "commands_of_root r ?c = ?c"
      using within(2) [OF Cons.prems(1,5)] True by (auto simp: commands_of_root_def filter_id_conv)
    moreover have "snd (trace_step (Ingest env payload) st') = ?c"
      using same(2) by (cases "ingest_payload env payload st"; cases "ingest_payload env payload st'") simp
    ultimately show ?thesis using True step by (simp add: event commands_of_root_def split: prod.splits)
  qed
qed (simp add: commands_of_root_def)

section \<open>Properties\<close>

text \<open>C14. The trace normalizer refines the abstract machine of each root. After any interleaving of
  events of at most 16384 commands, with sweeps in between, and as long as the backend answers, the
  phase of a root is what its own events make of it; and exactly one command has come out for every root
  whose start and end were both seen, in whichever order, and none for any other.\<close>

theorem trace_refines_phases:
  assumes "\<forall>op \<in> set ops. op_total op" "card (\<Union> (op_roots ` set ops)) \<le> COMPLETED_ROOT_RETENTION_LIMIT"
  shows "phase (fst (run_trace ops TraceNormalizer_new)) r = fold (\<lambda>op. phase_op op r) ops Idle \<and>
    length (commands_of_root r (snd (run_trace ops TraceNormalizer_new))) =
      (if fold (\<lambda>op. phase_op op r) ops Idle = Done then 1 else 0)"
proof -
  have "finite (\<Union> (op_roots ` set ops))" by (auto simp: op_roots_def split: trace_op.split)
  moreover have "phase TraceNormalizer_new r = Idle"
    by (simp add: phase_def ended_def TraceNormalizer_new_def)
  ultimately show ?thesis
    using run_trace_phase [OF trace_ok_new assms(1) _ _ assms(2), of r] by (simp add: TraceNormalizer_new_def)
qed

text \<open>Events for the examples: objects with texts and numbers, on a machine with one repository.\<close>

datatype sample_value = Text str | Number u64 | Object "(str \<times> sample_value) list"

definition sample_env :: "sample_value TraceEnv" where
  "sample_env = \<lparr>te_json = \<lparr>js_get = (\<lambda>v key. case v of Object members \<Rightarrow> map_of members key | _ \<Rightarrow> None),
       js_as_str = (\<lambda>v. case v of Text s \<Rightarrow> Some s | _ \<Rightarrow> None),
       js_as_u64 = (\<lambda>v. case v of Number n \<Rightarrow> Some n | _ \<Rightarrow> None),
       js_as_i64 = (\<lambda>v. case v of Number n \<Rightarrow> Some n | _ \<Rightarrow> None),
       js_as_array = (\<lambda>v. None), js_as_object = (\<lambda>v. case v of Object members \<Rightarrow> Some members | _ \<Rightarrow> None)\<rparr>,
     te_fs = sample_fs,
     te_backend = \<lparr>gb_resolve_primary_command = (\<lambda>_ _. Inr None), gb_resolve_invocation = (\<lambda>_ _. Inr None),
       gb_clone_target = clone_target, gb_init_target = init_target\<rparr>,
     te_rfc3339_to_unix_nanos = (\<lambda>_. None), te_seconds_as_nanos = (\<lambda>_. None), te_now = 0\<rparr>"

definition sample_event :: "str \<Rightarrow> str \<Rightarrow> sample_value" where
  "sample_event event sid = Object [(''event'', Text event), (''sid'', Text sid), (''cwd'', Text ''/r'')]"

definition sample_ops :: "sample_value trace_op list" where
  "sample_ops = [Ingest sample_env (sample_event ''atexit'' ''a''), Ingest sample_env (sample_event ''start'' ''b''),
     Ingest sample_env (sample_event ''cmd_name'' ''a/1''), Ingest sample_env (sample_event ''start'' ''a'')]"

theorem trace_refines_phases_witness:
  "length (commands_of_root ''a'' (snd (run_trace sample_ops TraceNormalizer_new))) = 1 \<and>
   phase (fst (run_trace sample_ops TraceNormalizer_new)) ''b'' = Started"
proof -
  have total: "\<forall>op \<in> set sample_ops. op_total op"
    by (simp add: sample_ops_def op_total_def total_backend_def sample_env_def)
  have "\<Union> (op_roots ` set sample_ops) = {''a'', ''b''}" by code_simp
  then have small: "card (\<Union> (op_roots ` set sample_ops)) \<le> COMPLETED_ROOT_RETENTION_LIMIT"
    by (simp add: COMPLETED_ROOT_RETENTION_LIMIT_def)
  have "fold (\<lambda>op. phase_op op ''a'') sample_ops Idle = Done" "fold (\<lambda>op. phase_op op ''b'') sample_ops Idle = Started"
    by code_simp+
  then show ?thesis using trace_refines_phases [OF total small] by simp
qed

text \<open>C16. After any sequence of events and sweeps, errors of the backend included, the memory of
  completed roots is the roots of the last 16384 commands given, without repetition: no root gives two
  commands within that many. Nothing is left in any table for a completed root, and every pending
  command is kept under its own root.\<close>

theorem completed_roots_remembered:
  "trace_ok (fst (run_trace ops TraceNormalizer_new)) \<and>
   tn_completed_root_order (fst (run_trace ops TraceNormalizer_new)) =
     last_roots (map nc_root_sid (snd (run_trace ops TraceNormalizer_new)))"
  using run_trace_ok [OF trace_ok_new] by (simp add: TraceNormalizer_new_def)

text \<open>C15. Commands do not influence each other: of the events of at most 16384 commands, however they
  are interleaved, the normalizer gives for a root the very commands that it gives on the events of
  that root alone.\<close>

theorem roots_independent:
  assumes "card (\<Union> (op_roots ` case_prod Ingest ` set events)) \<le> COMPLETED_ROOT_RETENTION_LIMIT"
  shows "commands_of_root r (snd (run_trace (map (case_prod Ingest) events) TraceNormalizer_new)) =
    snd (run_trace (map (case_prod Ingest) (filter (\<lambda>(env, payload). payload_root env payload = Some r) events)) TraceNormalizer_new)"
proof (rule run_trace_only [OF trace_ok_new trace_ok_new refl _ _ assms])
  show "finite (\<Union> (op_roots ` case_prod Ingest ` set events))" by (auto simp: op_roots_def)
  show "\<forall>(env, payload) \<in> set events. set_option (payload_root env payload) \<subseteq> \<Union> (op_roots ` case_prod Ingest ` set events)"
    by (force simp: op_roots_def)
qed (simp_all add: TraceNormalizer_new_def)

theorem roots_independent_witness:
  "commands_of_root ''a'' (snd (run_trace (map (case_prod Ingest)
      [(sample_env, sample_event ''start'' ''a''), (sample_env, sample_event ''start'' ''b''), (sample_env, sample_event ''atexit'' ''a'')])
      TraceNormalizer_new)) =
   snd (run_trace (map (case_prod Ingest)
      [(sample_env, sample_event ''start'' ''a''), (sample_env, sample_event ''atexit'' ''a'')]) TraceNormalizer_new)"
proof -
  let ?events = "[(sample_env, sample_event ''start'' ''a''), (sample_env, sample_event ''start'' ''b''), (sample_env, sample_event ''atexit'' ''a'')]"
  have roots: "payload_root sample_env (sample_event e ''a'') = Some ''a''" "payload_root sample_env (sample_event e ''b'') = Some ''b''" for e
    by (simp_all add: payload_root_def payload_str_def sample_env_def sample_event_def root_sid_of_def)
  then have "\<Union> (op_roots ` case_prod Ingest ` set ?events) = {''a'', ''b''}" by (auto simp: op_roots_def)
  then have "card (\<Union> (op_roots ` case_prod Ingest ` set ?events)) \<le> COMPLETED_ROOT_RETENTION_LIMIT"
    by (simp only:) (simp add: COMPLETED_ROOT_RETENTION_LIMIT_def)
  from roots_independent [OF this, of "''a''"] show ?thesis using roots by simp
qed

end
