(* ===== verification/Reflog.thy ===== *)
theory Reflog
  imports Repo_State
begin

text \<open>
  The reading of reference logs (\<open>src/daemon/ref_cursor.rs\<close>, the readers): the records of a log from a
  byte offset on, and the record that ends at an offset, which is searched backwards in chunks of 8192
  bytes. The bytes of a log may be invalid UTF-8; the replacement of invalid sequences
  (\<open>String::from_utf8_lossy\<close>) is an argument. Shown: the backward reader finds exactly the record of the
  line that ends at the offset, whatever the chunks cut; a log that grows keeps its records; and reading
  from the end of a record gives the records after it.
\<close>

section \<open>Records\<close>

record ReflogRecord =
  rl_old :: str
  rl_new :: str
  rl_message :: str
  rl_timestamp_secs :: "int option"
  rl_start_offset :: nat
  rl_end_offset :: nat

text \<open>\<open>str::parse::<i64>\<close> and \<open>str::parse::<usize>\<close>.\<close>

fun digits_value :: "nat \<Rightarrow> str \<Rightarrow> nat option" where
  "digits_value acc [] = Some acc"
| "digits_value acc (c # cs) = (case digit_val c of None \<Rightarrow> None | Some d \<Rightarrow> digits_value (acc * 10 + d) cs)"

definition parse_usize :: "str \<Rightarrow> nat option" where
  "parse_usize s =
     (let body = (case s of c # cs \<Rightarrow> if c = CHR ''+'' then cs else s | [] \<Rightarrow> [])
      in if body = [] then None
         else case digits_value 0 body of None \<Rightarrow> None | Some n \<Rightarrow> if n < 2 ^ 64 then Some n else None)"

definition parse_i64 :: "str \<Rightarrow> int option" where
  "parse_i64 s =
     (let (sign, body) = (case s of
             c # cs \<Rightarrow> if c = CHR ''+'' then (1, cs) else if c = CHR ''-'' then (-1, cs) else (1, s)
           | [] \<Rightarrow> (1, []))
      in if body = [] then None
         else case digits_value 0 body of
                None \<Rightarrow> None
              | Some n \<Rightarrow> let v = sign * int n in if - (2 ^ 63) \<le> v \<and> v < 2 ^ 63 then Some v else None)"

definition parse_reflog_timestamp_secs :: "str \<Rightarrow> int option" where
  "parse_reflog_timestamp_secs head =
     (case rev (split_whitespace head) of
        timezone # secs # _ \<Rightarrow> parse_i64 secs
      | _ \<Rightarrow> None)"

definition parse_reflog_line :: "str \<Rightarrow> nat \<Rightarrow> nat \<Rightarrow> ReflogRecord option" where
  "parse_reflog_line line start_offset end_offset =
     (let (head, message) = (case split_once [CHR 0x09] line of Some parts \<Rightarrow> parts | None \<Rightarrow> (line, []))
      in case split_whitespace head of
           old # new # _ \<Rightarrow>
             (let old = trim old; new = trim new
              in if \<not> is_valid_git_oid old \<or> \<not> is_valid_git_oid new then None
                 else Some \<lparr>rl_old = old, rl_new = new, rl_message = message,
                            rl_timestamp_secs = parse_reflog_timestamp_secs head,
                            rl_start_offset = start_offset, rl_end_offset = end_offset\<rparr>)
         | _ \<Rightarrow> None)"

definition trim_line_end :: "str \<Rightarrow> str" where
  "trim_line_end line = rev (dropWhile (\<lambda>c. c = carriage_return \<or> c = newline) (rev line))"

section \<open>Reading forwards\<close>

text \<open>A log on disk: not there, with an error that hides even its length, with a length but an error on reading,
  or with its bytes. \<open>metadata_len\<close> is what \<open>fs::metadata\<close> says of it, \<open>Inr None\<close> for \<open>ErrorKind::NotFound\<close>.\<close>

datatype file_content = Missing | Unreadable str | LengthOnly nat str | Content str

fun metadata_len :: "file_content \<Rightarrow> str + nat option" where
  "metadata_len Missing = Inr None"
| "metadata_len (Unreadable err) = Inl err"
| "metadata_len (LengthOnly len err) = Inr (Some len)"
| "metadata_len (Content bytes) = Inr (Some (length bytes))"

fun record_loop :: "(str \<Rightarrow> str) \<Rightarrow> nat \<Rightarrow> str list \<Rightarrow> ReflogRecord list" where
  "record_loop lossy offset [] = []"
| "record_loop lossy offset (raw_line # raw_lines) =
     (let line_start = offset; offset = offset + length raw_line
      in if \<not> ends_with raw_line [newline] then record_loop lossy offset raw_lines
         else case parse_reflog_line (trim_line_end (lossy raw_line)) line_start offset of
                None \<Rightarrow> record_loop lossy offset raw_lines
              | Some entry \<Rightarrow>
                  (if rl_end_offset entry > line_start then [entry] else []) @ record_loop lossy offset raw_lines)"

definition records_from :: "(str \<Rightarrow> str) \<Rightarrow> str \<Rightarrow> nat option \<Rightarrow> ReflogRecord list" where
  "records_from lossy bytes start_offset =
     (let start = (case start_offset of Some offset \<Rightarrow> if offset > length bytes then 0 else offset | None \<Rightarrow> 0)
      in record_loop lossy start (split_inclusive (drop start bytes)))"

definition read_reflog_records :: "(str \<Rightarrow> str) \<Rightarrow> file_content \<Rightarrow> nat option \<Rightarrow> str + ReflogRecord list" where
  "read_reflog_records lossy content start_offset =
     (case content of
        Missing \<Rightarrow> Inr []
      | Unreadable err \<Rightarrow> Inl err
      | LengthOnly _ err \<Rightarrow> Inl err
      | Content bytes \<Rightarrow> Inr (records_from lossy bytes start_offset))"

section \<open>Reading backwards\<close>

fun last_index :: "('a \<Rightarrow> bool) \<Rightarrow> 'a list \<Rightarrow> nat option" where
  "last_index P [] = None"
| "last_index P (x # xs) =
     (case last_index P xs of Some i \<Rightarrow> Some (Suc i) | None \<Rightarrow> if P x then Some 0 else None)"

definition record_of_line :: "(str \<Rightarrow> str) \<Rightarrow> str \<Rightarrow> nat \<Rightarrow> nat \<Rightarrow> ReflogRecord option" where
  "record_of_line lossy line line_start end_offset =
     (case parse_reflog_line (trim_line_end (lossy line)) line_start end_offset of
        Some record \<Rightarrow> if rl_end_offset record > line_start then Some record else None
      | None \<Rightarrow> None)"

definition CHUNK :: nat where "CHUNK = 8192"

definition search_end :: "nat \<Rightarrow> nat \<Rightarrow> str \<Rightarrow> nat" where
  "search_end end_offset cursor chunk =
     (if cursor = end_offset \<and> ends_with chunk [newline] then length chunk - 1 else length chunk)"

function backward_loop :: "(str \<Rightarrow> str) \<Rightarrow> str \<Rightarrow> nat \<Rightarrow> nat \<Rightarrow> str \<Rightarrow> ReflogRecord option" where
  "backward_loop lossy bytes end_offset cursor suffix =
     (let chunk_start = cursor - CHUNK;
          chunk = take (cursor - chunk_start) (drop chunk_start bytes)
      in case last_index (\<lambda>byte. byte = newline) (take (search_end end_offset cursor chunk) chunk) of
           Some index \<Rightarrow> record_of_line lossy (drop (index + 1) chunk @ suffix) (chunk_start + index + 1) end_offset
         | None \<Rightarrow>
             if chunk_start = 0 then record_of_line lossy (chunk @ suffix) 0 end_offset
             else backward_loop lossy bytes end_offset chunk_start (chunk @ suffix))"
  by pat_completeness auto
termination
proof (relation "measure (\<lambda>(_, _, _, cursor, _). cursor)")
  fix lossy :: "str \<Rightarrow> str" and bytes suffix chunk :: str and e cursor s :: nat
  assume "s = cursor - CHUNK" "s \<noteq> 0"
  then show "((lossy, bytes, e, s, chunk @ suffix), (lossy, bytes, e, cursor, suffix)) \<in> measure (\<lambda>(_, _, _, cursor, _). cursor)"
    by (simp add: CHUNK_def)
qed simp

declare backward_loop.simps [simp del]

definition record_ending_at :: "(str \<Rightarrow> str) \<Rightarrow> str \<Rightarrow> nat \<Rightarrow> ReflogRecord option" where
  "record_ending_at lossy bytes end_offset =
     (if end_offset = 0 then None
      else if end_offset > length bytes then None
      else if bytes ! (end_offset - 1) \<noteq> newline then None
      else backward_loop lossy bytes end_offset end_offset [])"

definition read_reflog_record_ending_at :: "(str \<Rightarrow> str) \<Rightarrow> file_content \<Rightarrow> nat \<Rightarrow> str + ReflogRecord option" where
  "read_reflog_record_ending_at lossy content end_offset =
     (if end_offset = 0 then Inr None
      else case content of
             Missing \<Rightarrow> Inr None
           | Unreadable err \<Rightarrow> Inl err
           | LengthOnly _ err \<Rightarrow> Inl err
           | Content bytes \<Rightarrow> Inr (record_ending_at lossy bytes end_offset))"

section \<open>The backward reader finds the last line\<close>

text \<open>Where the line that ends at an offset starts: behind the newline before, or at the beginning.\<close>

definition line_start_before :: "str \<Rightarrow> nat \<Rightarrow> nat" where
  "line_start_before bytes e =
     (case last_index (\<lambda>byte. byte = newline) (take (e - 1) bytes) of Some i \<Rightarrow> i + 1 | None \<Rightarrow> 0)"

lemma last_index_append:
  "last_index P (xs @ ys) = (case last_index P ys of Some i \<Rightarrow> Some (length xs + i) | None \<Rightarrow> last_index P xs)"
  by (induction xs) (auto split: option.splits)

lemma last_index_less: "last_index P xs = Some i \<Longrightarrow> i < length xs"
  by (induction xs arbitrary: i) (auto split: option.splits if_splits)

lemma last_index_None: "last_index P xs = None \<longleftrightarrow> (\<forall>x \<in> set xs. \<not> P x)"
  by (induction xs) (auto split: option.splits)

lemma last_index_last: "last_index P xs = Some i \<Longrightarrow> P (xs ! i) \<and> (\<forall>x \<in> set (drop (Suc i) xs). \<not> P x)"
  by (induction xs arbitrary: i) (auto simp: last_index_None split: option.splits if_splits)

lemma segment_append: "a \<le> b \<Longrightarrow> b \<le> c \<Longrightarrow> drop a (take b xs) @ drop b (take c xs) = drop a (take c xs)"
proof -
  assume le: "a \<le> b" "b \<le> c"
  have "drop a (take c xs) = take (b - a) (drop a (take c xs)) @ drop (b - a) (drop a (take c xs))"
    by (rule append_take_drop_id [symmetric])
  also have "take (b - a) (drop a (take c xs)) = drop a (take b xs)" using le by (simp add: take_drop min_def)
  also have "drop (b - a) (drop a (take c xs)) = drop b (take c xs)" using le by simp
  finally show ?thesis by simp
qed

lemma segment_rest: "a \<le> b \<Longrightarrow> drop a (take b xs) @ drop b xs = drop a xs"
  using segment_append [of a b "max b (length xs)" xs] by simp

text \<open>The invariant of the backward search: the bytes read so far hold no newline but the last.\<close>

lemma backward_loop_spec:
  fixes bytes :: str and e :: nat
  defines "pre \<equiv> take (e - 1) bytes" and "P \<equiv> \<lambda>byte. byte = newline"
  assumes e: "0 < e" "e \<le> length bytes" "bytes ! (e - 1) = newline"
    and cursor: "cursor \<le> e" "0 < cursor" and "last_index P (drop cursor pre) = None"
  shows "backward_loop lossy bytes e cursor (drop cursor (take e bytes)) =
    record_of_line lossy (drop (line_start_before bytes e) (take e bytes)) (line_start_before bytes e) e"
  using cursor assms(8)
proof (induction cursor rule: less_induct)
  case (less cursor)
  define s where "s = cursor - CHUNK"
  define chunk where "chunk = take (cursor - s) (drop s bytes)"
  define stop where "stop = search_end e cursor chunk"
  let ?region = "drop s (take cursor pre)"
  have s: "s < cursor" using less.prems(2) by (simp add: s_def CHUNK_def)
  have chunk: "chunk = drop s (take cursor bytes)" by (simp add: chunk_def drop_take)
  have whole: "chunk @ drop cursor (take e bytes) = drop s (take e bytes)"
    using segment_append [of s cursor e bytes] s less.prems(1) by (simp add: chunk)
  have region: "take stop chunk = ?region"
  proof (cases "cursor = e")
    case True
    have "take e bytes = pre @ [newline]"
      using e take_Suc_conv_app_nth [of "e - 1" bytes] by (simp add: pre_def)
    then have "chunk = drop s pre @ [newline]" using True s e by (simp add: chunk pre_def)
    moreover have "take cursor pre = pre" using True by (simp add: pre_def)
    ultimately show ?thesis using True by (simp add: stop_def search_end_def ends_with_def)
  next
    case False
    then have "cursor \<le> e - 1" using less.prems(1) by simp
    then have "take cursor pre = take cursor bytes" by (simp add: pre_def min_def)
    then show ?thesis using False by (simp add: stop_def search_end_def chunk)
  qed
  have "pre = take s pre @ ?region @ drop cursor pre"
    using s by (simp add: segment_rest)
  then have "last_index P pre = last_index P (take s pre @ ?region @ drop cursor pre)" by (rule arg_cong)
  moreover have "length (take s pre) = s" using s less.prems(1) e(2) by (simp add: pre_def)
  ultimately have found: "last_index P pre = (case last_index P ?region of Some i \<Rightarrow> Some (s + i) | None \<Rightarrow> last_index P (take s pre))"
    unfolding last_index_append less.prems(3) by (simp only: option.case split: option.split)
  have step: "backward_loop lossy bytes e cursor (drop cursor (take e bytes)) =
      (case last_index P ?region of
         Some index \<Rightarrow> record_of_line lossy (drop (index + 1) chunk @ drop cursor (take e bytes)) (s + index + 1) e
       | None \<Rightarrow> if s = 0 then record_of_line lossy (drop s (take e bytes)) 0 e
                 else backward_loop lossy bytes e s (drop s (take e bytes)))"
    unfolding region [symmetric] whole [symmetric]
    by (subst backward_loop.simps)
      (simp only: Let_def s_def [symmetric] chunk_def [symmetric] stop_def [symmetric] P_def [symmetric])
  show ?case
  proof (cases "last_index P ?region")
    case (Some i)
    then have "i < length chunk" using last_index_less [OF Some] by (simp add: chunk pre_def split: if_splits)
    then have "drop (i + 1) chunk @ drop cursor (take e bytes) = drop (s + i + 1) (take e bytes)"
      using arg_cong [OF whole, of "drop (i + 1)"] by (simp add: ac_simps)
    moreover have "line_start_before bytes e = s + i + 1"
      using found Some by (simp add: line_start_before_def pre_def P_def)
    ultimately show ?thesis using Some step by simp
  next
    case None
    show ?thesis
    proof (cases "s = 0")
      case True
      then have "line_start_before bytes e = 0" using found None by (simp add: line_start_before_def pre_def P_def)
      then show ?thesis using None step True by simp
    next
      case False
      have "drop s pre = ?region @ drop cursor pre"
        using s by (simp add: segment_rest)
      then have "last_index P (drop s pre) = None"
        using None less.prems(3) by (simp add: last_index_append)
      then show ?thesis using less.IH [of s] s False less.prems(1) None step by simp
    qed
  qed
qed

lemma record_ending_at_spec:
  "record_ending_at lossy bytes e =
     (if 0 < e \<and> e \<le> length bytes \<and> bytes ! (e - 1) = newline
      then record_of_line lossy (drop (line_start_before bytes e) (take e bytes)) (line_start_before bytes e) e else None)"
  using backward_loop_spec [of e bytes e lossy] by (auto simp: record_ending_at_def)

lemma record_ending_at_grows: "e \<le> length bytes \<Longrightarrow> record_ending_at lossy (bytes @ added) e = record_ending_at lossy bytes e"
  by (auto simp: record_ending_at_spec line_start_before_def nth_append)

section \<open>Forward and backward reading agree\<close>

text \<open>A boundary of lines: nothing before it, or a newline.\<close>

definition at_line_start :: "str \<Rightarrow> bool" where
  "at_line_start pre = (pre = [] \<or> last pre = newline)"

lemma split_inclusive_append: "at_line_start pre \<Longrightarrow> split_inclusive (pre @ rest) = split_inclusive pre @ split_inclusive rest"
proof (induction pre)
  case (Cons c pre)
  show ?case
  proof (cases "pre = []")
    case True
    then show ?thesis using Cons.prems by (simp add: at_line_start_def)
  next
    case False
    then have "split_inclusive pre \<noteq> []" by (cases pre) (auto split: list.splits)
    moreover have "at_line_start pre" using Cons.prems False by (simp add: at_line_start_def)
    ultimately show ?thesis using Cons.IH by (cases "split_inclusive pre") auto
  qed
qed simp

lemma record_loop_append:
  "record_loop lossy off (ls @ ms) = record_loop lossy off ls @ record_loop lossy (off + length (concat ls)) ms"
  by (induction ls arbitrary: off) (auto simp: Let_def add.assoc split: option.splits)

lemma parse_reflog_line_offsets:
  "parse_reflog_line line a b = Some r \<Longrightarrow> rl_start_offset r = a \<and> rl_end_offset r = b"
  by (auto simp: parse_reflog_line_def Let_def split: option.splits list.splits if_splits prod.splits)

lemma record_loop_line:
  "record_loop lossy off [line] = (if ends_with line [newline] then
     (case record_of_line lossy line off (off + length line) of Some r \<Rightarrow> [r] | None \<Rightarrow> []) else [])"
  by (auto simp: record_of_line_def Let_def split: option.splits)

lemma record_of_line_offsets:
  "record_of_line lossy line a b = Some r \<Longrightarrow> rl_start_offset r = a \<and> rl_end_offset r = b \<and> a < b"
  by (auto simp: record_of_line_def dest: parse_reflog_line_offsets split: option.splits if_splits)

lemma record_loop_Cons:
  "record_loop lossy off (l # ls) = record_loop lossy off [l] @ record_loop lossy (off + length l) ls"
  using record_loop_append [of lossy off "[l]" ls] by simp

lemma ends_with_newline: "ends_with l [newline] \<Longrightarrow> \<exists>m. l = m @ [newline]"
  unfolding ends_with_def by (metis append_take_drop_id)

lemma record_loop_line_range:
  assumes "r \<in> set (record_loop lossy off [l])"
  shows "rl_start_offset r = off \<and> rl_end_offset r = off + length l \<and> (\<exists>m. l = m @ [newline])"
proof (cases "ends_with l [newline]")
  case True
  then have "record_of_line lossy l off (off + length l) = Some r"
    using assms unfolding record_loop_line by (cases "record_of_line lossy l off (off + length l)") auto
  then show ?thesis using record_of_line_offsets ends_with_newline [OF True] by blast
qed (use assms in \<open>simp only: record_loop_line if_False, simp\<close>)

lemma record_loop_range:
  "r \<in> set (record_loop lossy off ls) \<Longrightarrow>
     off \<le> rl_start_offset r \<and> rl_start_offset r < rl_end_offset r \<and> rl_end_offset r \<le> off + length (concat ls) \<and>
     concat ls ! (rl_end_offset r - off - 1) = newline"
proof (induction ls arbitrary: off)
  case (Cons l ls)
  consider "r \<in> set (record_loop lossy off [l])" | "r \<in> set (record_loop lossy (off + length l) ls)"
    using Cons.prems unfolding record_loop_Cons [of lossy off l ls] by auto
  then show ?case
  proof cases
    case 1
    from record_loop_line_range [OF this] show ?thesis by (auto simp: nth_append)
  next
    case 2
    from Cons.IH [OF this] show ?thesis by (auto simp: nth_append)
  qed
qed simp

lemma concat_split_inclusive: "concat (split_inclusive s) = s"
  by (induction s) (auto split: list.splits)

text \<open>The records of a log, cut at a boundary of lines.\<close>

lemma records_cut:
  assumes "at_line_start pre"
  shows "records_from lossy (pre @ rest) None = records_from lossy pre None @ records_from lossy (pre @ rest) (Some (length pre))"
  using split_inclusive_append [OF assms, of rest]
  by (simp add: records_from_def record_loop_append concat_split_inclusive)

lemma records_from_range:
  assumes "r \<in> set (records_from lossy bytes (Some off))" "off \<le> length bytes"
  shows "off \<le> rl_start_offset r \<and> rl_start_offset r < rl_end_offset r \<and> rl_end_offset r \<le> length bytes \<and> bytes ! (rl_end_offset r - 1) = newline"
  using record_loop_range [of r lossy off "split_inclusive (drop off bytes)"] assms
  by (auto simp: records_from_def concat_split_inclusive nth_drop)

lemma records_from_None: "records_from lossy bytes None = records_from lossy bytes (Some 0)"
  by (simp add: records_from_def)

text \<open>A log cut around one line.\<close>

lemma records_around:
  assumes "at_line_start pre" "newline \<notin> set l"
  shows "records_from lossy (pre @ (l @ [newline]) @ rest) None =
    records_from lossy pre None @
    (case record_of_line lossy (l @ [newline]) (length pre) (length pre + length l + 1) of Some r \<Rightarrow> [r] | None \<Rightarrow> []) @
    records_from lossy (pre @ (l @ [newline]) @ rest) (Some (length pre + length l + 1))"
proof -
  have "split_inclusive (pre @ (l @ [newline]) @ rest) = split_inclusive pre @ [l @ [newline]] @ split_inclusive rest"
    using split_inclusive_append [OF assms(1), of "(l @ [newline]) @ rest"] split_inclusive_line [OF assms(2), of rest] by simp
  moreover have "record_loop lossy (length pre) ([l @ [newline]] @ split_inclusive rest) =
      record_loop lossy (length pre) [l @ [newline]] @ record_loop lossy (length pre + length l + 1) (split_inclusive rest)"
    by (subst record_loop_append) simp
  ultimately show ?thesis
    by (simp add: records_from_def record_loop_append concat_split_inclusive record_loop_line ends_with_def del: record_loop.simps)
qed

lemma line_start_before_line:
  assumes "at_line_start pre" "newline \<notin> set l"
  shows "line_start_before (pre @ (l @ [newline]) @ rest) (length pre + length l + 1) = length pre"
proof -
  have "last_index (\<lambda>b. b = newline) (pre @ l) = (if pre = [] then None else Some (length pre - 1))"
  proof -
    have "last_index (\<lambda>b. b = newline) l = None" using assms(2) by (auto simp: last_index_None)
    moreover have "last_index (\<lambda>b. b = newline) pre = Some (length pre - 1)" if "pre \<noteq> []"
      using that assms(1) append_butlast_last_id [OF that]
        last_index_append [of "\<lambda>b. b = newline" "butlast pre" "[last pre]"] by (simp add: at_line_start_def)
    ultimately show ?thesis by (simp add: last_index_append)
  qed
  then show ?thesis by (simp add: line_start_before_def)
qed

lemma line_ending_at:
  assumes "0 < e" "e \<le> length bytes" "bytes ! (e - 1) = newline"
  obtains pre l rest where "bytes = pre @ (l @ [newline]) @ rest" "at_line_start pre" "newline \<notin> set l" "e = length pre + length l + 1"
proof -
  have cut: "bytes = take (e - 1) bytes @ [newline] @ drop e bytes"
    using assms id_take_nth_drop [of "e - 1" bytes] by simp
  obtain pre l where pre: "take (e - 1) bytes = pre @ l" "at_line_start pre" "newline \<notin> set l"
  proof (cases "newline \<in> set (take (e - 1) bytes)")
    case True
    then obtain ys zs where "take (e - 1) bytes = ys @ newline # zs" "newline \<notin> set zs" by (meson split_list_last)
    then show thesis using that [of "ys @ [newline]" zs] by (simp add: at_line_start_def)
  next
    case False
    then show thesis using that [of "[]"] by (simp add: at_line_start_def)
  qed
  have "e = length pre + length l + 1" using arg_cong [OF pre(1), of length] assms by simp
  moreover have "bytes = pre @ (l @ [newline]) @ drop e bytes" using cut pre(1) by simp
  ultimately show thesis using that pre(2,3) by blast
qed

lemma find_is_filter: "find P xs = (case filter P xs of [] \<Rightarrow> None | x # _ \<Rightarrow> Some x)"
  by (induction xs) auto

text \<open>The record that ends at an offset is the one of the forward reading, and there is one at most.\<close>

lemma records_end_unique:
  fixes pre l rest :: str
  assumes "at_line_start pre" "newline \<notin> set l"
  defines "bytes \<equiv> pre @ (l @ [newline]) @ rest" and "e \<equiv> length pre + length l + 1"
  shows "filter (\<lambda>r. rl_end_offset r = e) (records_from lossy bytes None) =
    (case record_ending_at lossy bytes e of Some r \<Rightarrow> [r] | None \<Rightarrow> [])"
proof -
  have before: "filter (\<lambda>r. rl_end_offset r = e) (records_from lossy pre None) = []"
    using records_from_range [of _ lossy pre 0] by (fastforce simp: records_from_None e_def filter_empty_conv)
  have after: "filter (\<lambda>r. rl_end_offset r = e) (records_from lossy bytes (Some e)) = []"
    using records_from_range [of _ lossy bytes e] by (fastforce simp: bytes_def e_def filter_empty_conv)
  have start: "line_start_before bytes e = length pre"
    unfolding bytes_def e_def by (rule line_start_before_line [OF assms(1,2)])
  have "record_ending_at lossy bytes e = record_of_line lossy (l @ [newline]) (length pre) e"
    unfolding record_ending_at_spec start by (simp add: bytes_def e_def nth_append)
  then show ?thesis
    using before after record_of_line_offsets [of lossy "l @ [newline]" "length pre" e]
    unfolding bytes_def e_def records_around [OF assms(1,2)]
    by (auto split: option.split)
qed

lemma record_ending_at_find:
  assumes "0 < e"
  shows "record_ending_at lossy bytes e = find (\<lambda>r. rl_end_offset r = e) (records_from lossy bytes None)"
proof (cases "e \<le> length bytes \<and> bytes ! (e - 1) = newline")
  case True
  then obtain pre l rest where "bytes = pre @ (l @ [newline]) @ rest" "at_line_start pre" "newline \<notin> set l" "e = length pre + length l + 1"
    using line_ending_at assms by blast
  then have "filter (\<lambda>r. rl_end_offset r = e) (records_from lossy bytes None) =
      (case record_ending_at lossy bytes e of Some r \<Rightarrow> [r] | None \<Rightarrow> [])"
    using records_end_unique by blast
  then show ?thesis by (simp add: find_is_filter split: option.split)
next
  case False
  then have "rl_end_offset r \<noteq> e" if "r \<in> set (records_from lossy bytes None)" for r
    using records_from_range [of r lossy bytes 0] that by (auto simp: records_from_None)
  then have "find (\<lambda>r. rl_end_offset r = e) (records_from lossy bytes None) = None" by (simp add: find_None_iff)
  moreover have "record_ending_at lossy bytes e = None" using False by (auto simp: record_ending_at_spec)
  ultimately show ?thesis by simp
qed

text \<open>
  C23. Reading backwards is reading forwards: for every log and every offset, searching the record that ends
  at the offset from its end, in chunks of 8192 bytes, gives what reading the whole log and looking for
  the record with this end offset gives, also when chunks cut lines, when a line cannot be parsed, and when
  the offset is not the end of a line (\<open>read_reflog_record_ending_at\<close>, \<open>read_reflog_records\<close>).
\<close>

theorem record_ending_at_is_find:
  "read_reflog_record_ending_at lossy content e =
     (if e = 0 then Inr None
      else map_sum id (find (\<lambda>r. rl_end_offset r = e)) (read_reflog_records lossy content None))"
  by (cases content)
    (auto simp: read_reflog_record_ending_at_def read_reflog_records_def record_ending_at_find)

end
