(* ===== verification/Cursor_Args.thy ===== *)
theory Cursor_Args
  imports Reflog
begin

text \<open>
  What the reference cursor reads from a command line and from the message of a log entry
  (\<open>src/daemon/ref_cursor.rs\<close>, the free functions): the subject a commit will be logged with, the sources
  of a cherry-pick or a revert, the target of a reset, the references \<open>update-ref\<close> and \<open>branch\<close> move, the
  action names of \<open>pull\<close> and \<open>rebase\<close>, and the window of time a command ran in. A \<open>HashSet\<close> of messages or
  object identifiers is the list of its elements.
\<close>

section \<open>Rust helpers\<close>

definition strip_suffix :: "str \<Rightarrow> str \<Rightarrow> str option" where
  "strip_suffix s p = (if ends_with s p then Some (take (length s - length p) s) else None)"

definition is_ascii_whitespace :: "char \<Rightarrow> bool" where
  "is_ascii_whitespace c = (c \<in> {CHR '' '', CHR 0x09, CHR 0x0A, CHR 0x0C, CHR 0x0D})"

definition strip_command :: "str \<Rightarrow> str list \<Rightarrow> str list" where
  "strip_command name args = (case args of arg # rest \<Rightarrow> if arg = name then rest else args | [] \<Rightarrow> [])"

section \<open>Commit and reset\<close>

definition commit_subject :: "str \<Rightarrow> str option" where
  "commit_subject message =
     map_option (\<lambda>line. rev (dropWhile is_ascii_whitespace (rev line))) (find (\<lambda>line. trim line \<noteq> []) (str_lines message))"

fun commit_subject_loop :: "str list \<Rightarrow> str option" where
  "commit_subject_loop [] = None"
| "commit_subject_loop (arg # rest) =
     (if arg = ''-m'' \<or> arg = ''--message''
      then (case rest of value # _ \<Rightarrow> commit_subject value | [] \<Rightarrow> None)
      else if starts_with arg ''--message='' then Option.bind (strip_prefix arg ''--message='') commit_subject
      else if starts_with arg ''-m'' \<and> length arg > 2 then commit_subject (drop 2 arg)
      else if arg = ''--'' then None
      else commit_subject_loop rest)"

definition commit_subject_from_args :: "str list \<Rightarrow> str option" where
  "commit_subject_from_args args = commit_subject_loop (strip_command ''commit'' args)"

definition commit_reflog_messages :: "str list \<Rightarrow> bool \<Rightarrow> str list" where
  "commit_reflog_messages args amend =
     (case commit_subject_from_args args of
        None \<Rightarrow> []
      | Some subject \<Rightarrow>
          map (\<lambda>mode. mode @ '' '' @ subject)
            (if amend then [''commit (amend):'']
             else [''commit:'', ''commit (initial):'', ''commit (merge):'', ''commit (cherry-pick):'', ''commit (revert):'']))"

fun reset_target_loop :: "str list \<Rightarrow> str option" where
  "reset_target_loop [] = None"
| "reset_target_loop (arg # rest) =
     (if arg = ''--'' then None
      else if arg = ''--pathspec-from-file'' then (case rest of _ # rest' \<Rightarrow> reset_target_loop rest' | [] \<Rightarrow> None)
      else if starts_with arg ''--pathspec-from-file='' then reset_target_loop rest
      else if starts_with arg ''-'' then reset_target_loop rest
      else Some arg)"

definition reset_target_arg :: "str list \<Rightarrow> str option" where
  "reset_target_arg args = reset_target_loop (strip_command ''reset'' args)"

definition reset_reflog_messages :: "str list \<Rightarrow> str list" where
  "reset_reflog_messages args =
     (case reset_target_arg args of None \<Rightarrow> [] | Some target \<Rightarrow> [''reset: moving to '' @ target])"

section \<open>Sources of a cherry-pick or a revert\<close>

definition control_flag :: "str \<Rightarrow> bool" where
  "control_flag arg = (arg \<in> {''--abort'', ''--continue'', ''--quit'', ''--skip''})"

fun cherry_pick_source_loop :: "str list \<Rightarrow> str list \<Rightarrow> str list" where
  "cherry_pick_source_loop sources [] = sources"
| "cherry_pick_source_loop sources (arg # rest) =
     (if arg = ''--'' then sources @ rest
      else if control_flag arg then []
      else if arg \<in> {''-m'', ''--mainline'', ''-X'', ''--strategy-option'', ''--strategy''}
      then (case rest of _ # rest' \<Rightarrow> cherry_pick_source_loop sources rest' | [] \<Rightarrow> sources)
      else if starts_with arg ''--mainline='' \<or> starts_with arg ''--strategy='' \<or>
              starts_with arg ''--strategy-option='' \<or> arg = ''--gpg-sign'' \<or> starts_with arg ''--gpg-sign='' \<or>
              starts_with arg ''-m'' \<or> starts_with arg ''-X'' \<or> starts_with arg ''-S''
      then cherry_pick_source_loop sources rest
      else if starts_with arg ''-'' then cherry_pick_source_loop sources rest
      else cherry_pick_source_loop (if arg \<noteq> [] then sources @ [arg] else sources) rest)"

definition cherry_pick_source_args :: "str list \<Rightarrow> str list" where
  "cherry_pick_source_args args = cherry_pick_source_loop [] (strip_command ''cherry-pick'' args)"

fun revert_source_loop :: "str list \<Rightarrow> str list \<Rightarrow> str list" where
  "revert_source_loop sources [] = sources"
| "revert_source_loop sources (arg # rest) =
     (if arg = ''--'' then sources @ rest
      else if control_flag arg then []
      else if arg = ''-m'' \<or> arg = ''--mainline''
      then (case rest of _ # rest' \<Rightarrow> revert_source_loop sources rest' | [] \<Rightarrow> sources)
      else if starts_with arg ''--mainline='' \<or> arg = ''--gpg-sign'' \<or> starts_with arg ''--gpg-sign='' \<or>
              starts_with arg ''-S''
      then revert_source_loop sources rest
      else if arg \<in> {''-n'', ''--no-commit'', ''--no-edit'', ''-e'', ''--edit''} then revert_source_loop sources rest
      else if starts_with arg ''-'' then revert_source_loop sources rest
      else revert_source_loop (if arg \<noteq> [] then sources @ [arg] else sources) rest)"

definition revert_source_args :: "str list \<Rightarrow> str list" where
  "revert_source_args args = revert_source_loop [] (strip_command ''revert'' args)"

definition cherry_pick_source_is_range :: "str \<Rightarrow> bool" where
  "cherry_pick_source_is_range source = (split_once ''..'' source \<noteq> None)"

definition split_revision_suffix :: "str \<Rightarrow> str \<times> str" where
  "split_revision_suffix expr =
     (takeWhile (\<lambda>ch. ch \<noteq> CHR ''~'' \<and> ch \<noteq> CHR ''^'') expr, dropWhile (\<lambda>ch. ch \<noteq> CHR ''~'' \<and> ch \<noteq> CHR ''^'') expr)"

definition non_zero_ref :: "(str \<rightharpoonup> str) \<Rightarrow> str \<Rightarrow> str option" where
  "non_zero_ref refs name = (case refs name of Some oid \<Rightarrow> if valid_non_zero_oid oid then Some oid else None | None \<Rightarrow> None)"

definition resolve_ref_from_state :: "str \<Rightarrow> (str \<rightharpoonup> str) \<Rightarrow> str option" where
  "resolve_ref_from_state name refs =
     (if name = ''HEAD'' \<or> name = ''@'' then non_zero_ref refs ''HEAD''
      else case non_zero_ref refs name of
             Some value \<Rightarrow> Some value
           | None \<Rightarrow>
               (case List.map_filter (non_zero_ref refs)
                       [''refs/heads/'' @ name, ''refs/remotes/'' @ name, ''refs/tags/'' @ name] of
                  value # _ \<Rightarrow> Some value
                | [] \<Rightarrow> None))"

definition is_hex_oid_prefix :: "str \<Rightarrow> bool" where
  "is_hex_oid_prefix value = (4 \<le> length value \<and> length value \<le> 64 \<and> list_all is_ascii_hexdigit value)"

definition concretize_revision_expr :: "str \<Rightarrow> (str \<rightharpoonup> str) \<Rightarrow> str option" where
  "concretize_revision_expr expr refs =
     (if expr = [] then refs ''HEAD''
      else if is_valid_git_oid expr \<or> is_hex_oid_prefix expr then Some expr
      else case resolve_ref_from_state expr refs of
             Some oid \<Rightarrow> Some oid
           | None \<Rightarrow>
               (let (base, suffix) = split_revision_suffix expr
                in if suffix = [] then None
                   else map_option (\<lambda>base_oid. base_oid @ suffix)
                          (if base = [] then refs ''HEAD''
                           else if is_valid_git_oid base \<or> is_hex_oid_prefix base then Some base
                           else resolve_ref_from_state base refs)))"

definition resolve_cherry_pick_source_from_state :: "str \<Rightarrow> (str \<rightharpoonup> str) \<Rightarrow> str option" where
  "resolve_cherry_pick_source_from_state source refs =
     (if cherry_pick_source_is_range source then None
      else case concretize_revision_expr source refs of
             Some oid \<Rightarrow> if valid_non_zero_oid oid then Some oid else None
           | None \<Rightarrow> None)"

fun resolve_sources_loop :: "(str \<rightharpoonup> str) \<Rightarrow> str list \<Rightarrow> str list \<Rightarrow> str list option" where
  "resolve_sources_loop refs out [] = Some out"
| "resolve_sources_loop refs out (source # sources) =
     (case resolve_cherry_pick_source_from_state source refs of
        None \<Rightarrow> None
      | Some oid \<Rightarrow> resolve_sources_loop refs (if oid \<in> set out then out else out @ [oid]) sources)"

definition resolve_cherry_pick_source_oids_from_sources :: "FamilyState \<Rightarrow> str list \<Rightarrow> str list option" where
  "resolve_cherry_pick_source_oids_from_sources state sources = resolve_sources_loop (fs_refs state) [] sources"

section \<open>Pull and rebase\<close>

definition pull_reflog_action :: "NormalizedCommand \<Rightarrow> str" where
  "pull_reflog_action cmd =
     (let parsed = parse_git_cli_args (normalized_args (nc_raw_argv cmd));
          args = (if pg_command parsed = Some ''pull'' then pg_command_args parsed
                  else if nc_invoked_command cmd = Some ''pull'' then nc_invoked_args cmd
                  else command_args cmd);
          args = strip_command ''pull'' args
      in if args = [] then ''pull'' else join '' '' (''pull'' # args))"

definition pull_reflog_message_prefixes :: "str \<Rightarrow> str list" where
  "pull_reflog_message_prefixes action =
     (if action = ''pull'' then [''pull:'', ''pull (''] else [action @ '':'', action @ '' ''])"

definition action_state :: "str \<Rightarrow> str option" where
  "action_state rest =
     (case split_once ''('' rest of
        None \<Rightarrow> None
      | Some (_, after_open) \<Rightarrow> map_option fst (split_once ''):'' after_open))"

definition pull_reflog_action_state :: "str \<Rightarrow> str \<Rightarrow> str option" where
  "pull_reflog_action_state message action = Option.bind (strip_prefix message action) action_state"

definition pull_reflog_action_is :: "str \<Rightarrow> str \<Rightarrow> str \<Rightarrow> bool" where
  "pull_reflog_action_is message action expected = (pull_reflog_action_state message action = Some expected)"

definition starts_new_command :: "str option \<Rightarrow> bool" where
  "starts_new_command action =
     (action \<in> Some ` {''start'', ''continue'', ''skip'', ''abort'', ''quit'', ''finish''})"

definition pull_reflog_action_starts_new_command :: "str \<Rightarrow> str \<Rightarrow> bool" where
  "pull_reflog_action_starts_new_command message action = starts_new_command (pull_reflog_action_state message action)"

definition rebase_reflog_action :: "str \<Rightarrow> str option" where
  "rebase_reflog_action message = Option.bind (strip_prefix message ''rebase'') action_state"

definition rebase_reflog_action_is :: "str \<Rightarrow> str \<Rightarrow> bool" where
  "rebase_reflog_action_is message expected = (rebase_reflog_action message = Some expected)"

definition rebase_reflog_action_starts_new_command :: "str \<Rightarrow> bool" where
  "rebase_reflog_action_starts_new_command message = starts_new_command (rebase_reflog_action message)"

definition rebase_command_args :: "NormalizedCommand \<Rightarrow> str list" where
  "rebase_command_args cmd = strip_command ''rebase'' (command_args cmd)"

definition rebase_start_checkout_target_from_args :: "str list \<Rightarrow> str option" where
  "rebase_start_checkout_target_from_args args =
     (let summary = summarize_rebase_args args
      in if rb_is_control_mode summary then None
         else case rb_onto_spec summary of Some spec \<Rightarrow> Some spec | None \<Rightarrow> get_arg (rb_positionals summary) 0)"

definition rebase_start_message_targets :: "str \<Rightarrow> str \<Rightarrow> bool" where
  "rebase_start_message_targets message target = (strip_prefix message ''rebase (start): checkout '' = Some target)"

definition rebase_finish_returns_to_branch :: "str \<Rightarrow> str \<Rightarrow> bool" where
  "rebase_finish_returns_to_branch message branch_ref = (message = ''rebase (finish): returning to '' @ branch_ref)"

definition rebase_finish_returned_branch :: "str \<Rightarrow> str option" where
  "rebase_finish_returned_branch message = strip_prefix message ''rebase (finish): returning to ''"

definition rebase_branch_finish_message_is :: "str \<Rightarrow> str \<Rightarrow> bool" where
  "rebase_branch_finish_message_is message branch_ref = starts_with message (''rebase (finish): '' @ branch_ref)"

definition pull_finish_returned_branch :: "str \<Rightarrow> str \<Rightarrow> str option" where
  "pull_finish_returned_branch message action = strip_prefix message (action @ '' (finish): returning to '')"

section \<open>Updates of references\<close>

record UpdateRefSpec =
  us_reference :: str
  us_new_oid :: str
  us_old_oid :: "str option"

definition zero_oid :: str where
  "zero_oid = replicate 40 (CHR ''0'')"

text \<open>The scan of the arguments: \<open>Inr None\<close> for the modes whose updates are not on the command line.\<close>

fun update_ref_loop :: "bool \<Rightarrow> str list \<Rightarrow> str list \<Rightarrow> str + (bool \<times> str list) option" where
  "update_ref_loop delete posargs [] = Inr (Some (delete, posargs))"
| "update_ref_loop delete posargs (arg # rest) =
     (if arg = ''update-ref'' then update_ref_loop delete posargs rest
      else if arg = ''--stdin'' \<or> arg = ''--batch-updates'' then Inr None
      else if arg = ''-d'' \<or> arg = ''--delete'' then update_ref_loop True posargs rest
      else if arg = ''-m'' \<or> arg = ''--message''
      then (case rest of
              [] \<Rightarrow> Inl ''update-ref -m requires a message argument''
            | _ # rest' \<Rightarrow> update_ref_loop delete posargs rest')
      else if arg = ''--create-reflog'' \<or> arg = ''--no-deref'' then update_ref_loop delete posargs rest
      else if starts_with arg ''--message='' then update_ref_loop delete posargs rest
      else if starts_with arg ''-''
      then Inl (''trace2 cursor does not support update-ref option '' @ [CHR 0x27] @ arg @ [CHR 0x27])
      else update_ref_loop delete (posargs @ [arg]) rest)"

definition update_ref_spec :: "str \<Rightarrow> str \<Rightarrow> str option \<Rightarrow> UpdateRefSpec" where
  "update_ref_spec reference new_oid old_oid = \<lparr>us_reference = reference, us_new_oid = new_oid, us_old_oid = old_oid\<rparr>"

definition parse_update_ref_spec :: "str list \<Rightarrow> str + UpdateRefSpec option" where
  "parse_update_ref_spec args =
     (case update_ref_loop False [] args of
        Inl err \<Rightarrow> Inl err
      | Inr None \<Rightarrow> Inr None
      | Inr (Some (delete, posargs)) \<Rightarrow>
          if delete
          then (case posargs of
                  [reference] \<Rightarrow> Inr (Some (update_ref_spec reference zero_oid None))
                | [reference, old_oid] \<Rightarrow> Inr (Some (update_ref_spec reference zero_oid (Some old_oid)))
                | _ \<Rightarrow> Inl ''update-ref delete requires <ref> [<old-oid>]'')
          else (case posargs of
                  [reference, new_oid] \<Rightarrow> Inr (Some (update_ref_spec reference new_oid None))
                | [reference, new_oid, old_oid] \<Rightarrow> Inr (Some (update_ref_spec reference new_oid (Some old_oid)))
                | _ \<Rightarrow> Inl ''update-ref requires <ref> <new-oid> [<old-oid>]''))"

definition direct_update_ref_change_from_argv :: "UpdateRefSpec \<Rightarrow> RefChange option" where
  "direct_update_ref_change_from_argv spec =
     (case us_old_oid spec of
        None \<Rightarrow> None
      | Some old \<Rightarrow>
          if \<not> is_valid_git_oid old \<or> \<not> is_valid_git_oid (us_new_oid spec) then None
          else Some \<lparr>rc_reference = us_reference spec, rc_old = old, rc_new = us_new_oid spec\<rparr>)"

section \<open>Branches\<close>

datatype BranchCommandSpec =
  CreateOrReset str
| Delete "str list"
| Rename "str option" str
| Copy "str option" str
| NoBranchChange

datatype BranchLifecycleKind = LifecycleRename | LifecycleCopy

record BranchFlags =
  bf_delete :: bool
  bf_remote_delete :: bool
  bf_rename :: bool
  bf_copy :: bool
  bf_list_only :: bool
  bf_config_only :: bool
  bf_positionals :: "str list"

definition no_branch_flags :: BranchFlags where
  "no_branch_flags = \<lparr>bf_delete = False, bf_remote_delete = False, bf_rename = False, bf_copy = False,
     bf_list_only = False, bf_config_only = False, bf_positionals = []\<rparr>"

definition apply_branch_short_option :: "char \<Rightarrow> BranchFlags \<Rightarrow> BranchFlags" where
  "apply_branch_short_option flag fl =
     (if flag \<in> {CHR ''d'', CHR ''D''} then fl\<lparr>bf_delete := True\<rparr>
      else if flag = CHR ''r'' then fl\<lparr>bf_remote_delete := True, bf_list_only := True\<rparr>
      else if flag \<in> {CHR ''m'', CHR ''M''} then fl\<lparr>bf_rename := True\<rparr>
      else if flag \<in> {CHR ''c'', CHR ''C''} then fl\<lparr>bf_copy := True\<rparr>
      else if flag = CHR ''a'' then fl\<lparr>bf_list_only := True\<rparr>
      else fl)"

definition apply_branch_short_options :: "str \<Rightarrow> BranchFlags \<Rightarrow> BranchFlags" where
  "apply_branch_short_options value fl = fold apply_branch_short_option (dropWhile (\<lambda>c. c = CHR ''-'') value) fl"

definition branch_short_option_value_width :: "str \<Rightarrow> nat" where
  "branch_short_option_value_width value = (if value = ''-u'' then 2 else 1)"

text \<open>One argument of \<open>git branch\<close>: the flags after it and the number of arguments it takes.\<close>

definition branch_step :: "str \<Rightarrow> BranchFlags \<Rightarrow> BranchFlags \<times> nat" where
  "branch_step arg fl =
     (if arg \<in> {''-d'', ''-D'', ''--delete''} then (fl\<lparr>bf_delete := True\<rparr>, 1)
      else if arg \<in> {''-m'', ''-M'', ''--move''} then (fl\<lparr>bf_rename := True\<rparr>, 1)
      else if arg \<in> {''-c'', ''-C'', ''--copy''} then (fl\<lparr>bf_copy := True\<rparr>, 1)
      else if arg \<in> {''-r'', ''--remotes''} then (fl\<lparr>bf_remote_delete := True, bf_list_only := True\<rparr>, 1)
      else if arg \<in> {''-a'', ''--all'', ''--list'', ''--show-current'', ''--contains'', ''--no-contains'', ''--merged'', ''--no-merged''}
      then (fl\<lparr>bf_list_only := True\<rparr>, 1)
      else if arg \<in> {''--unset-upstream'', ''--edit-description'', ''--set-upstream''} then (fl\<lparr>bf_config_only := True\<rparr>, 1)
      else if arg \<in> {''-u'', ''--set-upstream-to''} then (fl\<lparr>bf_config_only := True\<rparr>, 2)
      else if arg \<in> {''--points-at'', ''--sort'', ''--format''} then (fl\<lparr>bf_list_only := True\<rparr>, 2)
      else if arg \<in> {''--color'', ''--column'', ''--abbrev''} then (fl, 2)
      else if arg \<in> {''--track'', ''--no-track'', ''--create-reflog'', ''--no-create-reflog'', ''--recurse-submodules'',
        ''--no-color'', ''--no-column'', ''--no-abbrev'', ''--quiet'', ''-q'', ''--verbose'', ''-v'', ''-vv'', ''-f'', ''--force'', ''-l''}
      then (fl, 1)
      else if starts_with arg ''--set-upstream-to='' then (fl\<lparr>bf_config_only := True\<rparr>, 1)
      else if list_ex (starts_with arg) [''--points-at='', ''--sort='', ''--format='', ''--contains='', ''--no-contains='',
        ''--merged='', ''--no-merged='']
      then (fl\<lparr>bf_list_only := True\<rparr>, 1)
      else if list_ex (starts_with arg) [''--track='', ''--color='', ''--column='', ''--abbrev=''] then (fl, 1)
      else if starts_with arg ''--'' then (fl, 1)
      else if starts_with arg ''-'' then (apply_branch_short_options arg fl, branch_short_option_value_width arg)
      else (fl\<lparr>bf_positionals := bf_positionals fl @ [arg]\<rparr>, 1))"

lemma branch_step_width: "snd (branch_step arg fl) = 1 \<or> snd (branch_step arg fl) = 2"
  by (simp add: branch_step_def branch_short_option_value_width_def)

function branch_args_loop :: "BranchFlags \<Rightarrow> str list \<Rightarrow> BranchFlags" where
  "branch_args_loop fl [] = fl"
| "branch_args_loop fl (arg # rest) =
     (if arg = ''--'' then fl\<lparr>bf_positionals := bf_positionals fl @ rest\<rparr>
      else branch_args_loop (fst (branch_step arg fl)) (drop (snd (branch_step arg fl)) (arg # rest)))"
  by pat_completeness auto
termination
proof (relation "measure (\<lambda>(fl, args). length args)")
  fix fl arg and rest :: "str list"
  show "((fst (branch_step arg fl), drop (snd (branch_step arg fl)) (arg # rest)), (fl, arg # rest)) \<in> measure (\<lambda>(fl, args). length args)"
    using branch_step_width [of arg fl] by auto
qed simp

definition branch_ref_name :: "str \<Rightarrow> bool \<Rightarrow> str option" where
  "branch_ref_name name remote =
     (let trimmed = trim name
      in if trimmed = [] \<or> trimmed = ''--'' \<or> starts_with trimmed ''-'' then None
         else if starts_with trimmed ''refs/heads/'' \<or> starts_with trimmed ''refs/remotes/'' then Some trimmed
         else if starts_with trimmed ''refs/'' then None
         else Some ((if remote then ''refs/remotes/'' else ''refs/heads/'') @ trimmed))"

text \<open>The two forms of a rename or a copy: with one name the current branch is the source.\<close>

definition relocation_spec :: "(str option \<Rightarrow> str \<Rightarrow> BranchCommandSpec) \<Rightarrow> str list \<Rightarrow> BranchCommandSpec" where
  "relocation_spec spec posargs =
     (case posargs of
        [new_name] \<Rightarrow> (case branch_ref_name new_name False of Some new_reference \<Rightarrow> spec None new_reference | None \<Rightarrow> NoBranchChange)
      | [old_name, new_name] \<Rightarrow>
          (case (branch_ref_name old_name False, branch_ref_name new_name False) of
             (Some old_reference, Some new_reference) \<Rightarrow> spec (Some old_reference) new_reference
           | _ \<Rightarrow> NoBranchChange)
      | _ \<Rightarrow> NoBranchChange)"

definition parse_branch_command_spec :: "str list \<Rightarrow> BranchCommandSpec" where
  "parse_branch_command_spec args =
     (let fl = branch_args_loop no_branch_flags (strip_command ''branch'' args); posargs = bf_positionals fl
      in if bf_delete fl
         then (let references = List.map_filter (\<lambda>name. branch_ref_name name (bf_remote_delete fl)) posargs
               in if references = [] then NoBranchChange else Delete references)
         else if bf_rename fl then relocation_spec Rename posargs
         else if bf_copy fl then relocation_spec Copy posargs
         else if bf_config_only fl \<or> bf_list_only fl then NoBranchChange
         else case posargs of
                name # _ \<Rightarrow> (case branch_ref_name name False of Some reference \<Rightarrow> CreateOrReset reference | None \<Rightarrow> NoBranchChange)
              | [] \<Rightarrow> NoBranchChange)"

definition parse_branch_lifecycle_message :: "BranchLifecycleKind \<Rightarrow> str \<Rightarrow> (str \<times> str) option" where
  "parse_branch_lifecycle_message kind message =
     Option.bind
       (strip_prefix message
          (case kind of LifecycleRename \<Rightarrow> ''Branch: renamed '' | LifecycleCopy \<Rightarrow> ''Branch: copied ''))
       (split_once '' to '')"

definition branch_arg_to_ref :: "str \<Rightarrow> str" where
  "branch_arg_to_ref branch = (if starts_with branch ''refs/'' then branch else ''refs/heads/'' @ branch)"

section \<open>Stash and checkout\<close>

definition checkout_is_path_checkout :: "NormalizedCommand \<Rightarrow> bool" where
  "checkout_is_path_checkout cmd =
     (let args = command_args cmd
      in list_ex (\<lambda>arg. arg = ''--'') args \<or>
         list_ex (\<lambda>arg. starts_with arg ''--pathspec'' \<or> arg = ''--ours'' \<or> arg = ''--theirs'') args)"

fun stash_message_loop :: "str list \<Rightarrow> str option" where
  "stash_message_loop [] = None"
| "stash_message_loop (arg # rest) =
     (if arg = ''-m'' \<or> arg = ''--message''
      then (case rest of value # _ \<Rightarrow> if value \<noteq> [] then Some value else None | [] \<Rightarrow> None)
      else case strip_prefix arg ''--message='' of
             Some value \<Rightarrow> if value \<noteq> [] then Some value else None
           | None \<Rightarrow> stash_message_loop rest)"

definition stash_push_message_from_args :: "str list \<Rightarrow> str \<Rightarrow> str option" where
  "stash_push_message_from_args args kind =
     (if kind = ''save''
      then (let message = join '' '' (filter (\<lambda>arg. \<not> starts_with arg ''-'') (drop 1 args))
            in if message \<noteq> [] then Some message else None)
      else stash_message_loop (drop (if kind = ''push'' then 1 else 0) args))"

definition stash_reflog_message_matches :: "str \<Rightarrow> str \<Rightarrow> bool" where
  "stash_reflog_message_matches reflog_message stash_message =
     (reflog_message = stash_message \<or>
      (case strip_suffix reflog_message stash_message of Some prefix \<Rightarrow> ends_with prefix '': '' | None \<Rightarrow> False))"

definition stash_entry_index :: "str \<Rightarrow> nat option" where
  "stash_entry_index target =
     Option.bind (Option.bind (strip_prefix target (''stash@'' @ ''{'')) (\<lambda>value. strip_suffix value ''}'')) parse_usize"

definition stash_target_index :: "str option \<Rightarrow> nat option" where
  "stash_target_index target =
     (let target = (case target of Some t \<Rightarrow> t | None \<Rightarrow> (''stash@'' @ ''{0}''))
      in if target = ''stash'' \<or> target = ''refs/stash'' then Some 0 else stash_entry_index target)"

section \<open>Which commands, and when they ran\<close>

definition command_uses_ref_cursor :: "str \<Rightarrow> bool" where
  "command_uses_ref_cursor primary =
     (primary \<in> set [''commit'', ''revert'', ''reset'', ''checkout'', ''switch'', ''merge'', ''cherry-pick'', ''rebase'',
        ''pull'', ''branch'', ''stash'', ''update-ref''])"

definition command_can_move_refs_on_nonzero :: "str option \<Rightarrow> bool" where
  "command_can_move_refs_on_nonzero primary =
     (primary \<in> Some ` set [''checkout'', ''switch'', ''stash'', ''rebase'', ''pull'', ''branch'', ''cherry-pick''])"

definition command_can_clamp_non_authoritative_cold_seed :: "NormalizedCommand \<Rightarrow> bool" where
  "command_can_clamp_non_authoritative_cold_seed cmd = (nc_primary_command cmd = Some ''cherry-pick'')"

definition message_matches :: "str \<Rightarrow> str list \<Rightarrow> bool" where
  "message_matches message prefixes = (prefixes = [] \<or> list_ex (starts_with message) prefixes)"

definition oids_differ :: "str \<Rightarrow> str \<Rightarrow> bool" where
  "oids_differ old new = (is_valid_git_oid old \<and> is_valid_git_oid new \<and> old \<noteq> new)"

record ReflogTimestampWindow =
  tw_start_secs :: int
  tw_end_secs :: int

definition window_contains :: "ReflogTimestampWindow \<Rightarrow> int \<Rightarrow> bool" where
  "window_contains window timestamp_secs = (tw_start_secs window \<le> timestamp_secs \<and> timestamp_secs \<le> tw_end_secs window)"

definition unix_nanos_to_reflog_secs :: "nat \<Rightarrow> int" where
  "unix_nanos_to_reflog_secs value =
     (let secs = int (value div 1000000000) in if secs < 2 ^ 63 then secs else 2 ^ 63 - 1)"

definition reflog_timestamp_window :: "NormalizedCommand \<Rightarrow> ReflogTimestampWindow" where
  "reflog_timestamp_window cmd =
     (let start = max (- (2 ^ 63)) (unix_nanos_to_reflog_secs (nc_started_at_ns cmd) - 1);
          stop = min (2 ^ 63 - 1) (unix_nanos_to_reflog_secs (nc_finished_at_ns cmd) + 1)
      in \<lparr>tw_start_secs = min start stop, tw_end_secs = max start stop\<rparr>)"

section \<open>What the parsers show\<close>

lemma strip_prefix_Some: "strip_prefix m p = Some s \<longleftrightarrow> m = p @ s"
  by (auto simp: strip_prefix_def starts_with_def) (metis append_take_drop_id)

text \<open>The message git writes for an action is recognised as that action, whatever follows it.\<close>

lemma split_once_at: "split_once (c # cs) (pre @ (c # cs) @ rest) = Some (pre, rest)" if "c \<notin> set pre"
  using that by (induction pre) (auto simp: starts_with_def)

lemma rebase_message_action:
  assumes "CHR '')'' \<notin> set action"
  shows "rebase_reflog_action (''rebase ('' @ action @ ''): '' @ rest) = Some action"
proof -
  have "split_once ''('' ('' ('' @ action @ ''): '' @ rest) = Some ('' '', action @ ''): '' @ rest)"
    by (simp add: starts_with_def)
  moreover have "split_once ''):'' (action @ ''): '' @ rest) = Some (action, '' '' @ rest)"
    using split_once_at [OF assms, of "'':''" "'' '' @ rest"] by simp
  ultimately have "action_state ('' ('' @ action @ ''): '' @ rest) = Some action"
    by (simp add: action_state_def)
  then show ?thesis
    using strip_prefix_append [of "''rebase''" "'' ('' @ action @ ''): '' @ rest"] by (simp add: rebase_reflog_action_def)
qed

lemma lifecycle_message_parsed:
  assumes "CHR '' '' \<notin> set old"
  shows "parse_branch_lifecycle_message LifecycleRename (''Branch: renamed '' @ old @ '' to '' @ new) = Some (old, new)"
  using split_once_at [OF assms, of "''to ''" new] strip_prefix_append [of "''Branch: renamed ''" "old @ '' to '' @ new"]
  by (simp add: parse_branch_lifecycle_message_def)

lemma reflog_window_contains_start:
  "nc_started_at_ns cmd \<le> nc_finished_at_ns cmd \<Longrightarrow> nc_started_at_ns cmd \<le> t \<Longrightarrow> t \<le> nc_finished_at_ns cmd \<Longrightarrow>
     window_contains (reflog_timestamp_window cmd) (unix_nanos_to_reflog_secs t)"
  using div_le_mono [of "nc_started_at_ns cmd" t 1000000000] div_le_mono [of t "nc_finished_at_ns cmd" 1000000000]
  by (auto simp: window_contains_def reflog_timestamp_window_def unix_nanos_to_reflog_secs_def Let_def)

end
