(* ===== verification/Ref_Cursor.thy ===== *)
theory Ref_Cursor
  imports Cursor_Args "HOL-Library.AList"
begin

text \<open>
  The cursor the daemon keeps over the reference logs of a family (\<open>src/daemon/ref_cursor.rs\<close>, the state
  and its primitives): how far each log has been read in order, which later entries have been consumed
  out of order, and the anchors that tell whether a log is still the one that was read. The files are
  read through a record of queries, one snapshot per command; an operation takes the cursor to the cursor
  after it and a result, \<open>Inl\<close> an error. Offsets are natural numbers, a \<open>HashSet\<close> or \<open>HashMap\<close> that the
  code asks for emptiness is a list.
\<close>

section \<open>State\<close>

record CursorEntry =
  ce_key :: str
  ce_path :: str
  ce_reference :: str
  ce_old :: str
  ce_new :: str
  ce_message :: str
  ce_timestamp_secs :: "int option"
  ce_start_offset :: nat
  ce_end_offset :: nat

record ReflogAnchor =
  ra_old :: str
  ra_new :: str
  ra_message :: str
  ra_end_offset :: nat

record RefCursor =
  cu_family :: FamilyKey
  cu_offsets :: "str \<rightharpoonup> nat"
  cu_anchors :: "str \<rightharpoonup> ReflogAnchor"
  cu_consumed_offsets :: "str \<rightharpoonup> nat list"
  cu_consumed_anchors :: "str \<rightharpoonup> (nat \<times> ReflogAnchor) list"
  cu_command_start_hints :: "str \<rightharpoonup> nat"
  cu_stash_stack :: "str list"
  cu_pending_cherry_pick_source_oids :: "str list"

definition RefCursor_new :: "FamilyKey \<Rightarrow> RefCursor" where
  "RefCursor_new family =
     \<lparr>cu_family = family, cu_offsets = Map.empty, cu_anchors = Map.empty, cu_consumed_offsets = Map.empty,
      cu_consumed_anchors = Map.empty, cu_command_start_hints = Map.empty, cu_stash_stack = [],
      cu_pending_cherry_pick_source_oids = []\<rparr>"

definition anchor_of_entry :: "CursorEntry \<Rightarrow> ReflogAnchor" where
  "anchor_of_entry entry =
     \<lparr>ra_old = ce_old entry, ra_new = ce_new entry, ra_message = ce_message entry, ra_end_offset = ce_end_offset entry\<rparr>"

definition anchor_of_record :: "ReflogRecord \<Rightarrow> ReflogAnchor" where
  "anchor_of_record rec =
     \<lparr>ra_old = rl_old rec, ra_new = rl_new rec, ra_message = rl_message rec, ra_end_offset = rl_end_offset rec\<rparr>"

text \<open>The entries of the directory of logs: \<open>fs::read_dir\<close> with the type of each entry.\<close>

datatype log_tree = LogDir "(str \<times> log_tree) list" | LogDirError str | LogFile | LogOther

text \<open>What the cursor asks of the system: paths, the content of a log, the replacement of invalid UTF-8, the tree of logs, the names in the directory of working logs, and the orders in
  which the maps of a command and of the state are iterated.\<close>

record LogEnv =
  le_fs :: FileSystem
  le_read :: "str \<Rightarrow> file_content"
  le_lossy :: "str \<Rightarrow> str"
  le_tree :: "str \<Rightarrow> log_tree option"
  le_working_logs :: "str \<Rightarrow> str list"
  le_offset_keys :: "(str \<rightharpoonup> u64) \<Rightarrow> str list"
  le_ref_keys :: "(str \<rightharpoonup> str) \<Rightarrow> str list"

section \<open>Operations that may fail\<close>

type_synonym 'a cursor_op = "RefCursor \<Rightarrow> RefCursor \<times> (str + 'a)"

definition ok :: "'a \<Rightarrow> 'a cursor_op" where
  "ok x c = (c, Inr x)"

definition lift_result :: "str + 'a \<Rightarrow> 'a cursor_op" where
  "lift_result r c = (c, r)"

text \<open>The operator \<open>?\<close>: an error ends the operation, with the cursor as it is.\<close>

definition bind_op :: "'a cursor_op \<Rightarrow> ('a \<Rightarrow> 'b cursor_op) \<Rightarrow> 'b cursor_op" where
  "bind_op m f c = (case m c of (c', Inl err) \<Rightarrow> (c', Inl err) | (c', Inr x) \<Rightarrow> f x c')"

lemma bind_op_simps [simp]:
  "bind_op (ok x) f c = f x c"
  "bind_op (lift_result (Inr x)) f c = f x c"
  "bind_op (lift_result (Inl err)) f c = (c, Inl err)"
  by (simp_all add: bind_op_def ok_def lift_result_def)

section \<open>Keys and paths\<close>

definition common_key :: "str \<Rightarrow> str" where
  "common_key reference = ''common:'' @ reference"

definition head_key :: "LogEnv \<Rightarrow> str \<Rightarrow> str" where
  "head_key env git_dir =
     ''worktree:'' @ (case canonicalize (le_fs env) git_dir of Some p \<Rightarrow> p | None \<Rightarrow> git_dir) @ '':HEAD''"

definition logs_path :: "str \<Rightarrow> str \<Rightarrow> str" where
  "logs_path dir reference = path_join (path_join dir ''logs'') reference"

definition reflog_reference_and_path_for_key :: "str \<Rightarrow> str \<Rightarrow> (str \<times> str) option" where
  "reflog_reference_and_path_for_key common_dir key =
     (case strip_prefix key ''common:'' of
        Some reference \<Rightarrow> Some (reference, logs_path common_dir reference)
      | None \<Rightarrow>
          (case Option.bind (strip_prefix key ''worktree:'') (\<lambda>value. strip_suffix value '':HEAD'') of
             Some git_dir \<Rightarrow> Some (''HEAD'', logs_path git_dir ''HEAD'')
           | None \<Rightarrow> None))"

definition reflog_path_for_key :: "RefCursor \<Rightarrow> str \<Rightarrow> str option" where
  "reflog_path_for_key c key =
     (case strip_prefix key ''common:'' of
        Some reference \<Rightarrow> Some (logs_path (cu_family c) reference)
      | None \<Rightarrow>
          (case Option.bind (strip_prefix key ''worktree:'') (\<lambda>value. strip_suffix value '':HEAD'') of
             Some git_dir \<Rightarrow> Some (logs_path git_dir ''HEAD'')
           | None \<Rightarrow> None))"

text \<open>\<open>current_worktree_branch_ref\<close> and the git directory of the worktree of a command.\<close>

definition current_worktree_branch_ref :: "LogEnv \<Rightarrow> NormalizedCommand \<Rightarrow> FamilyState \<Rightarrow> str option" where
  "current_worktree_branch_ref env cmd state =
     (case nc_worktree cmd of
        None \<Rightarrow> None
      | Some worktree \<Rightarrow>
          (let canonical = (case canonicalize (le_fs env) worktree of Some p \<Rightarrow> p | None \<Rightarrow> worktree);
               found = (case fs_worktrees state canonical of Some w \<Rightarrow> Some w | None \<Rightarrow> fs_worktrees state worktree)
           in Option.bind found wt_branch))"

definition git_dir_of :: "LogEnv \<Rightarrow> str option \<Rightarrow> str option" where
  "git_dir_of env worktree = Option.bind worktree (git_dir_for_worktree (le_fs env))"

section \<open>Entries\<close>

definition entry_of_record :: "str \<Rightarrow> str \<Rightarrow> str \<Rightarrow> ReflogRecord \<Rightarrow> CursorEntry" where
  "entry_of_record key path reference rec =
     \<lparr>ce_key = key, ce_path = path, ce_reference = reference, ce_old = rl_old rec, ce_new = rl_new rec,
      ce_message = rl_message rec, ce_timestamp_secs = rl_timestamp_secs rec,
      ce_start_offset = rl_start_offset rec, ce_end_offset = rl_end_offset rec\<rparr>"

definition read_reflog_entries_including_noops ::
  "LogEnv \<Rightarrow> str \<Rightarrow> str \<Rightarrow> str \<Rightarrow> nat option \<Rightarrow> str + CursorEntry list" where
  "read_reflog_entries_including_noops env key path reference start_offset =
     map_sum id (map (entry_of_record key path reference))
       (read_reflog_records (le_lossy env) (le_read env path) start_offset)"

definition read_reflog_entries :: "LogEnv \<Rightarrow> str \<Rightarrow> str \<Rightarrow> str \<Rightarrow> nat option \<Rightarrow> str + CursorEntry list" where
  "read_reflog_entries env key path reference start_offset =
     map_sum id (\<lambda>records. map (entry_of_record key path reference) (filter (\<lambda>rec. rl_old rec \<noteq> rl_new rec) records))
       (read_reflog_records (le_lossy env) (le_read env path) start_offset)"

definition entry_to_ref_change :: "CursorEntry \<Rightarrow> RefChange" where
  "entry_to_ref_change entry = \<lparr>rc_reference = ce_reference entry, rc_old = ce_old entry, rc_new = ce_new entry\<rparr>"

definition dedup_ref_changes :: "RefChange list \<Rightarrow> RefChange list" where
  "dedup_ref_changes changes = rev (remdups (rev changes))"

section \<open>Expected transitions\<close>

record ExpectedTransition =
  et_old_oids :: "str list"
  et_new_oid :: "str option"
  et_messages :: "str list"

definition any_transition :: ExpectedTransition where
  "any_transition = \<lparr>et_old_oids = [], et_new_oid = None, et_messages = []\<rparr>"

definition with_reflog_messages :: "ExpectedTransition \<Rightarrow> str list \<Rightarrow> ExpectedTransition" where
  "with_reflog_messages expected messages = expected\<lparr>et_messages := messages\<rparr>"

definition without_reflog_message_constraint :: "ExpectedTransition \<Rightarrow> ExpectedTransition" where
  "without_reflog_message_constraint expected = expected\<lparr>et_messages := []\<rparr>"

definition without_old_oid_constraint :: "ExpectedTransition \<Rightarrow> ExpectedTransition" where
  "without_old_oid_constraint expected = expected\<lparr>et_old_oids := []\<rparr>"

definition working_log_base_oids :: "LogEnv \<Rightarrow> str \<Rightarrow> str list" where
  "working_log_base_oids env worktree =
     List.map_filter
       (\<lambda>name. if name = ''initial'' then Some zero_oid else if valid_non_zero_oid name then Some name else None)
       (map (le_lossy env) (le_working_logs env worktree))"

definition from_state_and_working_logs :: "LogEnv \<Rightarrow> NormalizedCommand \<Rightarrow> FamilyState \<Rightarrow> ExpectedTransition" where
  "from_state_and_working_logs env cmd state =
     \<lparr>et_old_oids =
        List.map_filter (non_zero_ref (fs_refs state)) [''HEAD''] @
        List.map_filter (non_zero_ref (fs_refs state))
          (filter (\<lambda>reference. starts_with reference ''refs/heads/'') (le_ref_keys env (fs_refs state))) @
        (case nc_worktree cmd of Some worktree \<Rightarrow> working_log_base_oids env worktree | None \<Rightarrow> []),
      et_new_oid = None, et_messages = []\<rparr>"

definition transition_matches :: "ExpectedTransition \<Rightarrow> CursorEntry \<Rightarrow> bool" where
  "transition_matches expected entry =
     (if \<not> oids_differ (ce_old entry) (ce_new entry) then False
      else if et_messages expected \<noteq> [] \<and> ce_message entry \<notin> set (et_messages expected) then False
      else if et_old_oids expected \<noteq> [] \<and> ce_old entry \<notin> set (et_old_oids expected) then False
      else case et_new_oid expected of Some new_oid \<Rightarrow> ce_new entry = new_oid | None \<Rightarrow> True)"

definition matches_span_boundary :: "ExpectedTransition \<Rightarrow> CursorEntry \<Rightarrow> bool" where
  "matches_span_boundary expected entry =
     (if \<not> oids_differ (ce_old entry) (ce_new entry) then False
      else if et_messages expected \<noteq> [] \<and> ce_message entry \<notin> set (et_messages expected) then False
      else if et_old_oids expected \<noteq> [] \<and> ce_old entry \<notin> set (et_old_oids expected) \<and>
              ce_new entry \<notin> set (et_old_oids expected) then False
      else case et_new_oid expected of Some new_oid \<Rightarrow> ce_new entry = new_oid | None \<Rightarrow> True)"

section \<open>The cursor of one log\<close>

definition entry_consumed :: "RefCursor \<Rightarrow> CursorEntry \<Rightarrow> bool" where
  "entry_consumed c entry =
     ((case cu_consumed_offsets c (ce_key entry) of Some offsets \<Rightarrow> ce_end_offset entry \<in> set offsets | None \<Rightarrow> False) \<and>
      (case cu_consumed_anchors c (ce_key entry) of
         Some anchors \<Rightarrow> map_of anchors (ce_end_offset entry) = Some (anchor_of_entry entry)
       | None \<Rightarrow> False))"

definition clear_ref_cursor :: "str \<Rightarrow> RefCursor \<Rightarrow> RefCursor" where
  "clear_ref_cursor key c =
     c\<lparr>cu_offsets := (cu_offsets c)(key := None), cu_anchors := (cu_anchors c)(key := None),
       cu_consumed_offsets := (cu_consumed_offsets c)(key := None),
       cu_consumed_anchors := (cu_consumed_anchors c)(key := None)\<rparr>"

definition record_ending_in :: "LogEnv \<Rightarrow> str \<Rightarrow> nat \<Rightarrow> str + ReflogRecord option" where
  "record_ending_in env path = read_reflog_record_ending_at (le_lossy env) (le_read env path)"

definition reflog_start_offset :: "LogEnv \<Rightarrow> str \<Rightarrow> str \<Rightarrow> nat option cursor_op" where
  "reflog_start_offset env key path c =
     (case cu_offsets c key of
        None \<Rightarrow> (c, Inr None)
      | Some offset \<Rightarrow>
          if offset = 0 then (c, Inr (Some 0))
          else case metadata_len (le_read env path) of
                 Inl err \<Rightarrow> (c, Inl err)
               | Inr None \<Rightarrow> (clear_ref_cursor key c, Inr None)
               | Inr (Some len) \<Rightarrow>
                   if offset > len then (clear_ref_cursor key c, Inr None)
                   else case cu_anchors c key of
                          None \<Rightarrow> (c, Inr (Some offset))
                        | Some anchor \<Rightarrow>
                            (case record_ending_in env path offset of
                               Inl err \<Rightarrow> (c, Inl err)
                             | Inr rec \<Rightarrow>
                                 if map_option anchor_of_record rec \<noteq> Some anchor then (clear_ref_cursor key c, Inr None)
                                 else (c, Inr (Some offset))))"

text \<open>Setting the anchor of a cursor to the record that ends at an offset.\<close>

definition anchor_at :: "LogEnv \<Rightarrow> str \<Rightarrow> str \<Rightarrow> nat \<Rightarrow> unit cursor_op" where
  "anchor_at env key path offset c =
     (case record_ending_in env path offset of
        Inl err \<Rightarrow> (c, Inl err)
      | Inr rec \<Rightarrow> (c\<lparr>cu_anchors := (cu_anchors c)(key := map_option anchor_of_record rec)\<rparr>, Inr ()))"

definition initialize_reflog_cursor :: "LogEnv \<Rightarrow> str \<Rightarrow> nat \<Rightarrow> unit cursor_op" where
  "initialize_reflog_cursor env key offset c =
     (let c = c\<lparr>cu_offsets := (cu_offsets c)(key \<mapsto> offset),
                cu_consumed_offsets := (cu_consumed_offsets c)(key := None),
                cu_consumed_anchors := (cu_consumed_anchors c)(key := None)\<rparr>
      in if offset = 0 then (c\<lparr>cu_anchors := (cu_anchors c)(key := None)\<rparr>, Inr ())
         else case reflog_path_for_key c key of
                None \<Rightarrow> (c\<lparr>cu_anchors := (cu_anchors c)(key := None)\<rparr>, Inr ())
              | Some path \<Rightarrow> anchor_at env key path offset c)"

definition reflog_has_records_after_offset :: "LogEnv \<Rightarrow> RefCursor \<Rightarrow> str \<Rightarrow> nat \<Rightarrow> str + bool" where
  "reflog_has_records_after_offset env c key offset =
     (case reflog_path_for_key c key of
        None \<Rightarrow> Inr False
      | Some path \<Rightarrow>
          (case metadata_len (le_read env path) of
             Inl err \<Rightarrow> Inl err
           | Inr None \<Rightarrow> Inr False
           | Inr (Some len) \<Rightarrow>
               if offset \<ge> len then Inr False
               else map_sum id (\<lambda>records. records \<noteq> []) (read_reflog_records (le_lossy env) (le_read env path) (Some offset))))"

definition command_start_offset_is_authoritative :: "LogEnv \<Rightarrow> RefCursor \<Rightarrow> str \<Rightarrow> nat \<Rightarrow> str + bool" where
  "command_start_offset_is_authoritative env c key offset =
     (case cu_offsets c key of
        None \<Rightarrow> if starts_with key ''common:'' then Inr True else reflog_has_records_after_offset env c key offset
      | Some existing \<Rightarrow>
          if existing \<ge> offset then Inr False else reflog_has_records_after_offset env c key offset)"

definition ref_tip_at_cursor_start :: "RefCursor \<Rightarrow> str \<Rightarrow> str option" where
  "ref_tip_at_cursor_start c key =
     (case cu_anchors c key of
        Some anchor \<Rightarrow> if valid_non_zero_oid (ra_new anchor) then Some (ra_new anchor) else None
      | None \<Rightarrow> None)"

text \<open>The entries consumed from the front: \<open>retain\<close> drops what the cursor has passed.\<close>

definition retain_offsets :: "nat \<Rightarrow> nat list \<Rightarrow> nat list option" where
  "retain_offsets advanced_to offsets =
     (let kept = filter (\<lambda>offset. offset > advanced_to) offsets in if kept = [] then None else Some kept)"

definition retain_anchors :: "nat \<Rightarrow> (nat \<times> ReflogAnchor) list \<Rightarrow> (nat \<times> ReflogAnchor) list option" where
  "retain_anchors advanced_to anchors =
     (let kept = filter (\<lambda>(offset, _). offset > advanced_to) anchors in if kept = [] then None else Some kept)"

definition compact_consumed_entries :: "LogEnv \<Rightarrow> str \<Rightarrow> str \<Rightarrow> str \<Rightarrow> unit cursor_op" where
  "compact_consumed_entries env key path reference c =
     (let start = cu_offsets c key; from = (case start of Some s \<Rightarrow> s | None \<Rightarrow> 0)
      in case read_reflog_entries env key path reference start of
           Inl err \<Rightarrow> (c, Inl err)
         | Inr entries \<Rightarrow>
             (let consumed = takeWhile (entry_consumed c) entries
              in if consumed = [] \<or> \<not> ce_end_offset (last consumed) > from then (c, Inr ())
                 else let advanced_to = ce_end_offset (last consumed)
                      in (c\<lparr>cu_offsets := (cu_offsets c)(key \<mapsto> advanced_to),
                            cu_anchors := (cu_anchors c)(key \<mapsto> anchor_of_entry (last consumed)),
                            cu_consumed_offsets :=
                              (cu_consumed_offsets c)(key := Option.bind (cu_consumed_offsets c key) (retain_offsets advanced_to)),
                            cu_consumed_anchors :=
                              (cu_consumed_anchors c)(key := Option.bind (cu_consumed_anchors c key) (retain_anchors advanced_to))\<rparr>,
                          Inr ())))"

definition mark_consumed :: "CursorEntry \<Rightarrow> RefCursor \<Rightarrow> RefCursor" where
  "mark_consumed entry c =
     (let offsets = (case cu_consumed_offsets c (ce_key entry) of Some xs \<Rightarrow> xs | None \<Rightarrow> []);
          anchors = (case cu_consumed_anchors c (ce_key entry) of Some xs \<Rightarrow> xs | None \<Rightarrow> [])
      in c\<lparr>cu_consumed_offsets := (cu_consumed_offsets c)(ce_key entry \<mapsto> List.insert (ce_end_offset entry) offsets),
           cu_consumed_anchors :=
             (cu_consumed_anchors c)(ce_key entry \<mapsto> AList.update (ce_end_offset entry) (anchor_of_entry entry) anchors)\<rparr>)"

definition consume_entry :: "LogEnv \<Rightarrow> CursorEntry \<Rightarrow> unit cursor_op" where
  "consume_entry env entry c =
     compact_consumed_entries env (ce_key entry) (ce_path entry) (ce_reference entry) (mark_consumed entry c)"

definition advance_cursor_to_entry :: "CursorEntry \<Rightarrow> RefCursor \<Rightarrow> RefCursor" where
  "advance_cursor_to_entry entry c =
     c\<lparr>cu_offsets := (cu_offsets c)(ce_key entry \<mapsto> ce_end_offset entry),
       cu_anchors := (cu_anchors c)(ce_key entry \<mapsto> anchor_of_entry entry),
       cu_consumed_offsets := (cu_consumed_offsets c)(ce_key entry := None),
       cu_consumed_anchors := (cu_consumed_anchors c)(ce_key entry := None)\<rparr>"

definition common_ref_log_len :: "LogEnv \<Rightarrow> RefCursor \<Rightarrow> str \<Rightarrow> str + nat option" where
  "common_ref_log_len env c reference = metadata_len (le_read env (logs_path (cu_family c) reference))"

definition sync_common_ref_cursor_to_log_end_after_rewrite :: "LogEnv \<Rightarrow> str \<Rightarrow> unit cursor_op" where
  "sync_common_ref_cursor_to_log_end_after_rewrite env reference c =
     (let key = common_key reference; path = logs_path (cu_family c) reference
      in case metadata_len (le_read env path) of
           Inr (Some len) \<Rightarrow>
             anchor_at env key path len
               (c\<lparr>cu_offsets := (cu_offsets c)(key \<mapsto> len),
                  cu_consumed_offsets := (cu_consumed_offsets c)(key := None),
                  cu_consumed_anchors := (cu_consumed_anchors c)(key := None)\<rparr>)
         | Inr None \<Rightarrow> (clear_ref_cursor key c, Inr ())
         | Inl err \<Rightarrow> (c, Inl err))"

text \<open>Among the entries that match a command: the first at or after its hint, else the last before it.\<close>

fun select_loop :: "nat \<Rightarrow> CursorEntry option \<Rightarrow> CursorEntry list \<Rightarrow> CursorEntry option" where
  "select_loop hint latest_before_hint [] = latest_before_hint"
| "select_loop hint latest_before_hint (entry # entries) =
     (if ce_start_offset entry \<ge> hint then Some entry else select_loop hint (Some entry) entries)"

definition first_entry :: "'a list \<Rightarrow> 'a option" where
  "first_entry xs = (case xs of x # _ \<Rightarrow> Some x | [] \<Rightarrow> None)"

definition select_candidate_with_hint :: "RefCursor \<Rightarrow> str \<Rightarrow> CursorEntry list \<Rightarrow> CursorEntry option" where
  "select_candidate_with_hint c key candidates =
     (case cu_command_start_hints c key of
        None \<Rightarrow> first_entry candidates
      | Some hint \<Rightarrow> select_loop hint None candidates)"

section \<open>The entries of a log\<close>

definition log_entries :: "(str \<Rightarrow> str) \<Rightarrow> str \<Rightarrow> str \<Rightarrow> str \<Rightarrow> str \<Rightarrow> nat option \<Rightarrow> CursorEntry list" where
  "log_entries lossy bytes key path reference start =
     map (entry_of_record key path reference) (filter (\<lambda>rec. rl_old rec \<noteq> rl_new rec) (records_from lossy bytes start))"

lemma read_reflog_entries_Content:
  "le_read env path = Content bytes \<Longrightarrow>
     read_reflog_entries env key path reference start = Inr (log_entries (le_lossy env) bytes key path reference start)"
  by (simp add: read_reflog_entries_def read_reflog_records_def log_entries_def)

text \<open>Records follow each other; a boundary of lines cuts their list.\<close>

lemma record_loop_sorted: "sorted_wrt (\<lambda>r r'. rl_end_offset r \<le> rl_start_offset r') (record_loop lossy off ls)"
proof (induction ls arbitrary: off)
  case (Cons l ls)
  have "rl_end_offset r \<le> rl_start_offset r'"
    if "r \<in> set (record_loop lossy off [l])" "r' \<in> set (record_loop lossy (off + length l) ls)" for r r'
    using record_loop_line_range [OF that(1)] record_loop_range [OF that(2)] by simp
  moreover have "sorted_wrt (\<lambda>r r'. rl_end_offset r \<le> rl_start_offset r') (record_loop lossy off [l])"
    unfolding record_loop_line by (simp split: option.split)
  ultimately show ?case using Cons unfolding record_loop_Cons [of lossy off l ls] sorted_wrt_append by blast
qed simp

lemma records_from_cut:
  assumes "s \<le> a" "a \<le> length bytes" "at_line_start (take a bytes)"
  shows "records_from lossy bytes (Some s) =
    record_loop lossy s (split_inclusive (drop s (take a bytes))) @ records_from lossy bytes (Some a)"
proof -
  have rest: "drop s bytes = drop s (take a bytes) @ drop a bytes" using segment_rest [OF assms(1), of bytes] by simp
  have "at_line_start (drop s (take a bytes))"
    using assms by (cases "s < a") (auto simp: at_line_start_def last_drop)
  then show ?thesis
    using assms by (simp add: records_from_def rest split_inclusive_append record_loop_append concat_split_inclusive)
qed

lemma log_entries_fields:
  assumes "x \<in> set (log_entries lossy bytes key path reference start)"
  shows "ce_key x = key" "ce_path x = path" "ce_reference x = reference" "ce_start_offset x < ce_end_offset x"
    "ce_end_offset x \<le> length bytes"
proof -
  obtain s where s: "records_from lossy bytes start = records_from lossy bytes (Some s)" "s \<le> length bytes"
  proof (cases start)
    case (Some t)
    then show thesis using that [of "if t > length bytes then 0 else t"] by (simp add: records_from_def split: if_splits)
  qed (use that [of 0] records_from_None in simp)
  obtain r where "r \<in> set (records_from lossy bytes (Some s))" "x = entry_of_record key path reference r"
    using assms s by (auto simp: log_entries_def)
  then show "ce_key x = key" "ce_path x = path" "ce_reference x = reference" "ce_start_offset x < ce_end_offset x"
    "ce_end_offset x \<le> length bytes"
    using records_from_range [of r lossy bytes s] s(2) by (auto simp: entry_of_record_def)
qed

lemma log_entries_sorted: "sorted_wrt (\<lambda>x y. ce_end_offset x \<le> ce_start_offset y) (log_entries lossy bytes key path reference start)"
  using record_loop_sorted sorted_wrt_filter
  by (fastforce simp: log_entries_def sorted_wrt_map entry_of_record_def records_from_def Let_def)

lemma sorted_wrt_pair: "sorted_wrt P xs \<Longrightarrow> x \<in> set xs \<Longrightarrow> y \<in> set xs \<Longrightarrow> x = y \<or> P x y \<or> P y x"
  by (induction xs) auto

lemma log_entries_inj:
  assumes "x \<in> set (log_entries lossy bytes key path reference start)" "y \<in> set (log_entries lossy bytes key path reference start)"
    "ce_end_offset x = ce_end_offset y"
  shows "x = y"
proof (rule ccontr)
  assume "x \<noteq> y"
  then have "ce_end_offset x \<le> ce_start_offset y \<or> ce_end_offset y \<le> ce_start_offset x"
    using sorted_wrt_pair [OF log_entries_sorted assms(1,2)] by blast
  then show False using log_entries_fields(4) [OF assms(1)] log_entries_fields(4) [OF assms(2)] assms(3) by linarith
qed

lemma log_entries_aligned:
  assumes "s \<le> a" "a \<le> length bytes" "at_line_start (take a bytes)"
  shows "log_entries lossy bytes key path reference (Some a) =
      filter (\<lambda>x. a \<le> ce_start_offset x) (log_entries lossy bytes key path reference (Some s))"
    "x \<in> set (log_entries lossy bytes key path reference (Some s)) \<Longrightarrow> a \<le> ce_start_offset x \<or> ce_end_offset x \<le> a"
proof -
  let ?pre = "record_loop lossy s (split_inclusive (drop s (take a bytes)))"
  have pre: "rl_start_offset r < a" "rl_end_offset r \<le> a" if "r \<in> set ?pre" for r
    using record_loop_range [OF that] assms by (auto simp: concat_split_inclusive)
  have post: "a \<le> rl_start_offset r" if "r \<in> set (records_from lossy bytes (Some a))" for r
    using records_from_range [OF that] assms by simp
  have late: "filter (\<lambda>r. a \<le> rl_start_offset r) (records_from lossy bytes (Some s)) = records_from lossy bytes (Some a)"
    unfolding records_from_cut [OF assms] filter_append
    using pre post by (simp add: filter_empty_conv not_le)
  have "filter P (filter Q xs) = filter Q (filter P xs)" for P Q and xs :: "ReflogRecord list"
    by (simp add: conj_commute)
  moreover have "filter (\<lambda>x. a \<le> ce_start_offset x) (map (entry_of_record key path reference) xs) =
      map (entry_of_record key path reference) (filter (\<lambda>r. a \<le> rl_start_offset r) xs)" for xs
    by (simp add: filter_map comp_def entry_of_record_def)
  ultimately show "log_entries lossy bytes key path reference (Some a) =
      filter (\<lambda>x. a \<le> ce_start_offset x) (log_entries lossy bytes key path reference (Some s))"
    unfolding log_entries_def late [symmetric] by presburger
  show "a \<le> ce_start_offset x \<or> ce_end_offset x \<le> a" if x: "x \<in> set (log_entries lossy bytes key path reference (Some s))"
  proof -
    obtain r where r: "r \<in> set (records_from lossy bytes (Some s))" "x = entry_of_record key path reference r"
      using x by (auto simp: log_entries_def)
    then have "a \<le> rl_start_offset r \<or> rl_end_offset r \<le> a"
      unfolding records_from_cut [OF assms] using pre post by auto
    then show ?thesis by (simp add: r(2) entry_of_record_def)
  qed
qed

section \<open>Consuming an entry\<close>

text \<open>An entry is taken when the cursor has passed it or when it has been consumed ahead of the cursor.\<close>

definition taken :: "RefCursor \<Rightarrow> CursorEntry \<Rightarrow> bool" where
  "taken c entry =
     ((case cu_offsets c (ce_key entry) of Some offset \<Rightarrow> ce_end_offset entry \<le> offset | None \<Rightarrow> False) \<or>
      entry_consumed c entry)"

lemma map_of_update: "map_of (AList.update k v xs) k' = (if k' = k then Some v else map_of xs k')"
  by (simp add: update_conv')

lemma entry_consumed_mark:
  "entry_consumed (mark_consumed entry c) x =
     (if ce_key x = ce_key entry \<and> ce_end_offset x = ce_end_offset entry
      then anchor_of_entry x = anchor_of_entry entry else entry_consumed c x)"
  by (auto simp: entry_consumed_def mark_consumed_def Let_def map_of_update split: option.splits)

lemma mark_consumed_offsets [simp]:
  "cu_offsets (mark_consumed entry c) = cu_offsets c" "cu_anchors (mark_consumed entry c) = cu_anchors c"
  "cu_family (mark_consumed entry c) = cu_family c" "cu_command_start_hints (mark_consumed entry c) = cu_command_start_hints c"
  by (simp_all add: mark_consumed_def Let_def)

lemma map_of_retained: "map_of (filter (\<lambda>(offset, _). offset > a) xs) k = (if k > a then map_of xs k else None)"
  by (induction xs) auto

text \<open>Compaction, with the cursor as it was or advanced over the consumed entries at the front.\<close>

definition advanced :: "str \<Rightarrow> CursorEntry \<Rightarrow> RefCursor \<Rightarrow> RefCursor" where
  "advanced key entry c =
     (let advanced_to = ce_end_offset entry
      in c\<lparr>cu_offsets := (cu_offsets c)(key \<mapsto> advanced_to),
           cu_anchors := (cu_anchors c)(key \<mapsto> anchor_of_entry entry),
           cu_consumed_offsets :=
             (cu_consumed_offsets c)(key := Option.bind (cu_consumed_offsets c key) (retain_offsets advanced_to)),
           cu_consumed_anchors :=
             (cu_consumed_anchors c)(key := Option.bind (cu_consumed_anchors c key) (retain_anchors advanced_to))\<rparr>)"

lemma advanced_sel [simp]:
  "cu_offsets (advanced key entry c) = (cu_offsets c)(key \<mapsto> ce_end_offset entry)"
  "cu_anchors (advanced key entry c) = (cu_anchors c)(key \<mapsto> anchor_of_entry entry)"
  "cu_family (advanced key entry c) = cu_family c" "cu_command_start_hints (advanced key entry c) = cu_command_start_hints c"
  by (simp_all add: advanced_def Let_def)

lemma entry_consumed_advanced:
  "entry_consumed (advanced key entry c) x =
     (entry_consumed c x \<and> (ce_key x = key \<longrightarrow> ce_end_offset entry < ce_end_offset x))"
  by (cases "cu_consumed_offsets c key"; cases "cu_consumed_anchors c key")
    (auto simp: entry_consumed_def advanced_def Let_def retain_offsets_def retain_anchors_def map_of_retained
       filter_empty_conv split: option.splits if_splits dest!: map_of_SomeD)

lemma compact_cases:
  fixes c :: RefCursor and key reference :: str
  assumes "le_read env path = Content bytes"
  defines "consumed \<equiv> takeWhile (entry_consumed c) (log_entries (le_lossy env) bytes key path reference (cu_offsets c key))"
    and "from \<equiv> (case cu_offsets c key of Some s \<Rightarrow> s | None \<Rightarrow> 0)"
  obtains
    (same) "compact_consumed_entries env key path reference c = (c, Inr ())"
      "consumed = [] \<or> ce_end_offset (last consumed) \<le> from"
  | (moved) "consumed \<noteq> []" "from < ce_end_offset (last consumed)"
      "compact_consumed_entries env key path reference c = (advanced key (last consumed) c, Inr ())"
  by (cases "consumed = [] \<or> ce_end_offset (last consumed) \<le> from")
    (auto simp: compact_consumed_entries_def read_reflog_entries_Content [OF assms(1)] consumed_def [symmetric] from_def [symmetric]
       advanced_def Let_def)

lemma sorted_takeWhile_front:
  assumes "sorted_wrt (\<lambda>x y. f x < f y) xs" "x \<in> set xs" "takeWhile P xs \<noteq> []" "(f x :: nat) \<le> f (last (takeWhile P xs))"
  shows "x \<in> set (takeWhile P xs)"
proof (rule ccontr)
  assume "x \<notin> set (takeWhile P xs)"
  then have "x \<in> set (dropWhile P xs)" using assms(2) by (metis UnE set_append takeWhile_dropWhile_id)
  then have "f (last (takeWhile P xs)) < f x"
    using assms(1,3) last_in_set sorted_wrt_append [of "\<lambda>x y. f x < f y" "takeWhile P xs" "dropWhile P xs"] by fastforce
  then show False using assms(4) by simp
qed

lemma log_entries_sorted_ends: "sorted_wrt (\<lambda>x y. ce_end_offset x < ce_end_offset y) (log_entries lossy bytes key path reference start)"
  using log_entries_sorted by (rule sorted_wrt_mono_rel [rotated]) (use log_entries_fields(4) in fastforce)

text \<open>The cursor of a log stands at a boundary of lines of it.\<close>

definition line_aligned :: "str \<Rightarrow> nat option \<Rightarrow> bool" where
  "line_aligned bytes start = (case start of None \<Rightarrow> True | Some s \<Rightarrow> s \<le> length bytes \<and> at_line_start (take s bytes))"

lemma aligned_end:
  assumes "x \<in> set (log_entries lossy bytes key path reference start)"
  shows "at_line_start (take (ce_end_offset x) bytes)"
proof -
  obtain s r where "r \<in> set (records_from lossy bytes (Some s))" "s \<le> length bytes" "x = entry_of_record key path reference r"
  proof (cases start)
    case (Some t)
    then show thesis using that [of _ "if t > length bytes then 0 else t"] assms
      by (auto simp: log_entries_def records_from_def split: if_splits)
  qed (use that [of _ 0] assms in \<open>auto simp: log_entries_def records_from_None\<close>)
  then have "0 < ce_end_offset x" "ce_end_offset x \<le> length bytes" "bytes ! (ce_end_offset x - 1) = newline"
    using records_from_range [of r lossy bytes s] by (auto simp: entry_of_record_def)
  then show ?thesis by (subst at_line_start_def, subst last_conv_nth) auto
qed

text \<open>The entries a search considers are the entries of the log that the cursor has not passed.\<close>

lemma log_entries_from_cursor:
  assumes "line_aligned bytes (cu_offsets c key)"
  shows "set (log_entries lossy bytes key path reference (cu_offsets c key)) =
    {x \<in> set (log_entries lossy bytes key path reference None).
       case cu_offsets c key of Some s \<Rightarrow> s < ce_end_offset x | None \<Rightarrow> True}"
proof (cases "cu_offsets c key")
  case (Some s)
  then have "s \<le> length bytes" "at_line_start (take s bytes)" using assms by (auto simp: line_aligned_def)
  note cut = log_entries_aligned [where s = 0, OF _ this]
  have "log_entries lossy bytes key path reference None = log_entries lossy bytes key path reference (Some 0)"
    by (simp add: log_entries_def records_from_None)
  moreover have "s \<le> ce_start_offset x \<longleftrightarrow> s < ce_end_offset x" if "x \<in> set (log_entries lossy bytes key path reference (Some 0))" for x
    using cut(2) [OF _ that] log_entries_fields(4) [OF that] by auto
  ultimately show ?thesis using Some cut(1) by auto
qed simp

text \<open>Consuming an entry of the log takes it, and nothing else of the log.\<close>

lemma consume_entry_takes:
  assumes log: "le_read env path = Content bytes" and al: "line_aligned bytes (cu_offsets c key)"
    and entry: "entry \<in> set (log_entries (le_lossy env) bytes key path reference None)" "\<not> taken c entry"
  obtains c' where "consume_entry env entry c = (c', Inr ())" "line_aligned bytes (cu_offsets c' key)"
    "\<And>x. x \<in> set (log_entries (le_lossy env) bytes key path reference None) \<Longrightarrow> taken c' x \<longleftrightarrow> taken c x \<or> x = entry"
proof -
  let ?all = "log_entries (le_lossy env) bytes key path reference None" and ?c1 = "mark_consumed entry c"
  let ?E = "log_entries (le_lossy env) bytes key path reference (cu_offsets c key)"
  note fields = log_entries_fields [OF entry(1)]
  have marked: "taken ?c1 x \<longleftrightarrow> taken c x \<or> x = entry" if "x \<in> set ?all" for x
    using log_entries_inj [OF that entry(1)] log_entries_fields(1) [OF that] fields(1) entry(2)
    by (auto simp: taken_def entry_consumed_mark)
  have op: "consume_entry env entry c = compact_consumed_entries env key path reference ?c1"
    by (simp add: consume_entry_def fields)
  from log show thesis
  proof (cases rule: compact_cases [where key = key and reference = reference and c = ?c1])
    case same
    then show ?thesis using that [of ?c1] op marked al by simp
  next
    case moved
    let ?consumed = "takeWhile (entry_consumed ?c1) ?E"
    let ?last = "last ?consumed"
    have moved': "?consumed \<noteq> []" "consume_entry env entry c = (advanced key ?last ?c1, Inr ())"
      "(case cu_offsets c key of Some s \<Rightarrow> s | None \<Rightarrow> 0) < ce_end_offset ?last"
      using moved op by simp_all
    have last: "?last \<in> set ?E" "entry_consumed ?c1 ?last"
      using last_in_set [OF moved'(1)] set_takeWhileD by fastforce+
    have front: "taken ?c1 x" if x: "x \<in> set ?all" and "ce_end_offset x \<le> ce_end_offset ?last" for x
    proof (cases "x \<in> set ?E")
      case True
      have "x \<in> set ?consumed"
        using sorted_takeWhile_front [OF log_entries_sorted_ends True moved'(1) that(2)] .
      then show ?thesis using set_takeWhileD by (fastforce simp: taken_def)
    next
      case False
      then show ?thesis using log_entries_from_cursor [OF al] x log_entries_fields(1) [OF x]
        by (auto simp: taken_def split: option.splits)
    qed
    have "taken (advanced key ?last ?c1) x \<longleftrightarrow> taken ?c1 x" if x: "x \<in> set ?all" for x
      using front [OF x] moved'(3) log_entries_fields(1) [OF x]
      by (auto simp: taken_def entry_consumed_advanced split: option.splits)
    then show ?thesis
      using that [of "advanced key ?last ?c1"] moved'(2) marked aligned_end [OF last(1)] log_entries_fields(5) [OF last(1)]
      by (simp add: line_aligned_def)
  qed
qed

section \<open>A cursor that fits its log\<close>

definition anchored :: "(str \<Rightarrow> str) \<Rightarrow> str \<Rightarrow> RefCursor \<Rightarrow> str \<Rightarrow> bool" where
  "anchored lossy bytes c key =
     (case (cu_offsets c key, cu_anchors c key) of
        (Some s, Some anchor) \<Rightarrow> s = 0 \<or> map_option anchor_of_record (record_ending_at lossy bytes s) = Some anchor
      | _ \<Rightarrow> True)"

definition within :: "str \<Rightarrow> nat option \<Rightarrow> bool" where
  "within bytes start = (case start of None \<Rightarrow> True | Some s \<Rightarrow> s \<le> length bytes)"

lemma aligned_within: "line_aligned bytes start \<Longrightarrow> within bytes start"
  by (auto simp: line_aligned_def within_def split: option.splits)

lemma clear_ref_cursor_sel [simp]:
  "cu_offsets (clear_ref_cursor key c) = (cu_offsets c)(key := None)"
  "cu_anchors (clear_ref_cursor key c) = (cu_anchors c)(key := None)"
  "cu_family (clear_ref_cursor key c) = cu_family c"
  "cu_command_start_hints (clear_ref_cursor key c) = cu_command_start_hints c"
  by (simp_all add: clear_ref_cursor_def)

text \<open>The search starts at the cursor when it fits the log, and from the beginning, without it, otherwise.\<close>

lemma reflog_start_offset_Content:
  assumes "le_read env path = Content bytes"
  shows "reflog_start_offset env key path c =
    (if within bytes (cu_offsets c key) \<and> anchored (le_lossy env) bytes c key then (c, Inr (cu_offsets c key))
     else (clear_ref_cursor key c, Inr None))"
  using assms
  by (auto simp: reflog_start_offset_def record_ending_in_def read_reflog_record_ending_at_def within_def anchored_def
      split: option.splits)

lemma reflog_start_offset_fits:
  assumes "le_read env path = Content bytes" "reflog_start_offset env key path c = (c1, r)"
  shows "r = Inr (cu_offsets c1 key)" "within bytes (cu_offsets c1 key)" "anchored (le_lossy env) bytes c1 key"
  using assms(2) unfolding reflog_start_offset_Content [OF assms(1)]
  by (auto simp: within_def anchored_def split: if_splits)

lemma record_ending_at_own_end:
  assumes "r \<in> set (records_from lossy bytes None)"
  shows "record_ending_at lossy bytes (rl_end_offset r) = Some r"
proof -
  have sorted: "sorted_wrt (\<lambda>r r'. rl_end_offset r \<le> rl_start_offset r') (records_from lossy bytes None)"
    by (simp add: records_from_def record_loop_sorted)
  have range: "rl_start_offset x < rl_end_offset x" if "x \<in> set (records_from lossy bytes None)" for x
    using that records_from_range [of x lossy bytes 0] by (simp add: records_from_None)
  have "x = r" if "x \<in> set (records_from lossy bytes None)" "rl_end_offset x = rl_end_offset r" for x
    using sorted_wrt_pair [OF sorted that(1) assms] range [OF that(1)] range [OF assms] that(2) by auto
  moreover have "find (\<lambda>x. rl_end_offset x = rl_end_offset r) (records_from lossy bytes None) \<noteq> None"
    using assms by (auto simp: find_None_iff)
  ultimately have "find (\<lambda>x. rl_end_offset x = rl_end_offset r) (records_from lossy bytes None) = Some r"
    by (auto simp: find_Some_iff) (metis nth_mem)
  then show ?thesis using record_ending_at_find [of "rl_end_offset r" lossy bytes] range [OF assms] by simp
qed

lemma entry_anchors_its_end:
  assumes "x \<in> set (log_entries lossy bytes key path reference None)"
  shows "map_option anchor_of_record (record_ending_at lossy bytes (ce_end_offset x)) = Some (anchor_of_entry x)"
  using assms record_ending_at_own_end
  by (auto simp: log_entries_def entry_of_record_def anchor_of_record_def anchor_of_entry_def)

lemma log_entries_subset:
  "line_aligned bytes (cu_offsets c key) \<Longrightarrow> x \<in> set (log_entries lossy bytes key path reference (cu_offsets c key)) \<Longrightarrow>
     x \<in> set (log_entries lossy bytes key path reference None)"
  using log_entries_from_cursor by blast

lemma consume_entry_anchored:
  assumes log: "le_read env path = Content bytes" and al: "line_aligned bytes (cu_offsets c key)"
    and anch: "anchored (le_lossy env) bytes c key"
    and entry: "ce_key entry = key" "ce_path entry = path" "ce_reference entry = reference"
  shows "anchored (le_lossy env) bytes (fst (consume_entry env entry c)) key"
proof -
  have op: "consume_entry env entry c = compact_consumed_entries env key path reference (mark_consumed entry c)"
    by (simp add: consume_entry_def entry)
  from log show ?thesis
  proof (cases rule: compact_cases [where key = key and reference = reference and c = "mark_consumed entry c"])
    case same
    then show ?thesis using op anch by (simp add: anchored_def)
  next
    case moved
    let ?E = "log_entries (le_lossy env) bytes key path reference (cu_offsets c key)"
    let ?last = "last (takeWhile (entry_consumed (mark_consumed entry c)) ?E)"
    have "?last \<in> set ?E" using last_in_set [OF moved(1)] set_takeWhileD by fastforce
    then have "?last \<in> set (log_entries (le_lossy env) bytes key path reference None)"
      by (rule log_entries_subset [OF al])
    then show ?thesis using op moved(3) entry_anchors_its_end by (simp add: anchored_def)
  qed
qed

end
