(* ===== verification/Cursor_Search.thy ===== *)
theory Cursor_Search
  imports Ref_Cursor
begin

text \<open>
  The searches of the reference cursor and the loops that consume entries
  (\<open>src/daemon/ref_cursor.rs\<close>): the entry of a command among the entries not yet consumed, the spans a rebase,
  a pull or a cherry-pick leaves in the log of \<open>HEAD\<close>, the references whose logs show the same
  transition, and the clamping of the offset a command started at to the command's own entry. The loops
  end: a span moves forward in its log, and draining a log consumes one more of its entries each time.
\<close>

section \<open>Discovering logs\<close>

fun discover_entries :: "(str \<Rightarrow> str) \<Rightarrow> str \<Rightarrow> (str \<times> log_tree) list \<Rightarrow> str + str list" where
  "discover_entries lossy current [] = Inr []"
| "discover_entries lossy current ((name, tree) # entries) =
     (let relative = (if current = [] then name else current @ ''/'' @ name)
      in case tree of
           LogDir children \<Rightarrow>
             (case discover_entries lossy relative children of
                Inl err \<Rightarrow> Inl err
              | Inr refs \<Rightarrow> map_sum id (\<lambda>later. refs @ later) (discover_entries lossy current entries))
         | LogDirError err \<Rightarrow> Inl err
         | LogFile \<Rightarrow>
             (let reference = map (\<lambda>c. if c = CHR 0x5C then CHR ''/'' else c) (lossy relative)
              in map_sum id
                   (\<lambda>later. if reference = ''ORIG_HEAD'' \<or> starts_with reference ''refs/'' then reference # later else later)
                   (discover_entries lossy current entries))
         | LogOther \<Rightarrow> discover_entries lossy current entries)"

definition discover_reflog_refs :: "LogEnv \<Rightarrow> str \<Rightarrow> str + str list" where
  "discover_reflog_refs env logs =
     (case le_tree env logs of
        None \<Rightarrow> Inr []
      | Some (LogDir entries) \<Rightarrow> discover_entries (le_lossy env) [] entries
      | Some (LogDirError err) \<Rightarrow> Inl err
      | Some _ \<Rightarrow> Inl ''Not a directory'')"

definition discover_common_refs :: "LogEnv \<Rightarrow> RefCursor \<Rightarrow> str + str list" where
  "discover_common_refs env c =
     map_sum id (\<lambda>refs. remdups_adj (sort refs)) (discover_reflog_refs env (path_join (cu_family c) ''logs''))"

definition capture_reflog_start_offsets_for_worktree :: "LogEnv \<Rightarrow> str \<Rightarrow> str \<rightharpoonup> nat" where
  "capture_reflog_start_offsets_for_worktree env worktree =
     (let len = (\<lambda>path. case metadata_len (le_read env path) of Inr (Some len) \<Rightarrow> Some len | _ \<Rightarrow> None);
          offsets = (case git_dir_for_worktree (le_fs env) worktree of
                       None \<Rightarrow> Map.empty
                     | Some git_dir \<Rightarrow> Map.empty(head_key env git_dir := len (logs_path git_dir ''HEAD'')))
      in case common_dir_for_worktree (le_fs env) worktree of
           None \<Rightarrow> offsets
         | Some common_dir \<Rightarrow>
             (case discover_reflog_refs env (path_join common_dir ''logs'') of
                Inl err \<Rightarrow> offsets
              | Inr refs \<Rightarrow>
                  fold (\<lambda>reference offsets. if reference = ''HEAD'' then offsets
                          else case len (logs_path common_dir reference) of
                                 Some l \<Rightarrow> offsets(common_key reference \<mapsto> l)
                               | None \<Rightarrow> offsets) refs offsets))"

fun start_refs_loop :: "LogEnv \<Rightarrow> FamilyKey \<Rightarrow> (str \<rightharpoonup> u64) \<Rightarrow> (str \<rightharpoonup> str) \<Rightarrow> str list \<Rightarrow> str + (str \<rightharpoonup> str)" where
  "start_refs_loop env family offsets refs [] = Inr refs"
| "start_refs_loop env family offsets refs (key # keys) =
     (case offsets key of
        None \<Rightarrow> start_refs_loop env family offsets refs keys
      | Some offset \<Rightarrow>
          if offset = 0 then start_refs_loop env family offsets refs keys
          else case reflog_reference_and_path_for_key family key of
                 None \<Rightarrow> start_refs_loop env family offsets refs keys
               | Some (reference, path) \<Rightarrow>
                   (case record_ending_in env path (unat offset) of
                      Inl err \<Rightarrow> Inl err
                    | Inr None \<Rightarrow> start_refs_loop env family offsets refs keys
                    | Inr (Some rec) \<Rightarrow>
                        start_refs_loop env family offsets
                          (if valid_non_zero_oid (rl_new rec) then refs(reference \<mapsto> rl_new rec) else refs) keys))"

definition refs_at_reflog_start_offsets :: "LogEnv \<Rightarrow> FamilyKey \<Rightarrow> (str \<rightharpoonup> u64) \<Rightarrow> str + (str \<rightharpoonup> str)" where
  "refs_at_reflog_start_offsets env family offsets =
     start_refs_loop env family offsets Map.empty (le_offset_keys env offsets)"

section \<open>Searching one log\<close>

definition find_entry_in_log_with_hint ::
  "LogEnv \<Rightarrow> str \<Rightarrow> str \<Rightarrow> str \<Rightarrow> ExpectedTransition \<Rightarrow> str list \<Rightarrow> bool \<Rightarrow> CursorEntry option cursor_op" where
  "find_entry_in_log_with_hint env key path reference expected message_prefixes use_hint =
     bind_op (reflog_start_offset env key path) (\<lambda>start.
     bind_op (lift_result (read_reflog_entries env key path reference start)) (\<lambda>entries c.
       let candidates = filter (\<lambda>entry. \<not> entry_consumed c entry \<and> transition_matches expected entry \<and>
                                 message_matches (ce_message entry) message_prefixes) entries
       in (c, Inr (if use_hint then select_candidate_with_hint c key candidates else first_entry candidates))))"

definition find_entry_in_log ::
  "LogEnv \<Rightarrow> str \<Rightarrow> str \<Rightarrow> str \<Rightarrow> ExpectedTransition \<Rightarrow> str list \<Rightarrow> CursorEntry option cursor_op" where
  "find_entry_in_log env key path reference expected message_prefixes =
     find_entry_in_log_with_hint env key path reference expected message_prefixes True"

text \<open>The log of \<open>HEAD\<close> of a worktree: nothing is found when there is no worktree or no git directory.\<close>

definition in_head_log :: "LogEnv \<Rightarrow> str option \<Rightarrow> 'a \<Rightarrow> (str \<Rightarrow> str \<Rightarrow> 'a cursor_op) \<Rightarrow> 'a cursor_op" where
  "in_head_log env worktree absent search =
     (case git_dir_of env worktree of
        None \<Rightarrow> ok absent
      | Some git_dir \<Rightarrow> search (head_key env git_dir) (logs_path git_dir ''HEAD''))"

definition find_head_entry :: "LogEnv \<Rightarrow> str option \<Rightarrow> str list \<Rightarrow> ExpectedTransition \<Rightarrow> CursorEntry option cursor_op" where
  "find_head_entry env worktree message_prefixes expected =
     in_head_log env worktree None (\<lambda>key path. find_entry_in_log env key path ''HEAD'' expected message_prefixes)"

definition find_head_entry_without_hint ::
  "LogEnv \<Rightarrow> str option \<Rightarrow> str list \<Rightarrow> ExpectedTransition \<Rightarrow> CursorEntry option cursor_op" where
  "find_head_entry_without_hint env worktree message_prefixes expected =
     in_head_log env worktree None
       (\<lambda>key path. find_entry_in_log_with_hint env key path ''HEAD'' expected message_prefixes False)"

definition find_head_entry_after ::
  "LogEnv \<Rightarrow> RefCursor \<Rightarrow> str option \<Rightarrow> nat \<Rightarrow> str list \<Rightarrow> ExpectedTransition \<Rightarrow> str + CursorEntry option" where
  "find_head_entry_after env c worktree start_offset message_prefixes expected =
     (case git_dir_of env worktree of
        None \<Rightarrow> Inr None
      | Some git_dir \<Rightarrow>
          map_sum id (find (\<lambda>entry. \<not> entry_consumed c entry \<and> transition_matches expected entry \<and>
                              message_matches (ce_message entry) message_prefixes))
            (read_reflog_entries env (head_key env git_dir) (logs_path git_dir ''HEAD'') ''HEAD'' (Some start_offset)))"

text \<open>The first entry of a log, from the cursor on, that is not consumed and satisfies a condition.\<close>

definition find_unconsumed :: "LogEnv \<Rightarrow> str \<Rightarrow> str \<Rightarrow> str \<Rightarrow> (CursorEntry \<Rightarrow> bool) \<Rightarrow> CursorEntry option cursor_op" where
  "find_unconsumed env key path reference P =
     bind_op (reflog_start_offset env key path) (\<lambda>start.
     bind_op (lift_result (read_reflog_entries env key path reference start)) (\<lambda>entries c.
       (c, Inr (find (\<lambda>entry. \<not> entry_consumed c entry \<and> P entry) entries))))"

definition find_rebase_start_entry :: "LogEnv \<Rightarrow> NormalizedCommand \<Rightarrow> ExpectedTransition \<Rightarrow> CursorEntry option cursor_op" where
  "find_rebase_start_entry env cmd expected =
     in_head_log env (nc_worktree cmd) None (\<lambda>key path.
       let target = rebase_start_checkout_target_from_args (rebase_command_args cmd)
       in find_unconsumed env key path ''HEAD''
            (\<lambda>entry. rebase_reflog_action_is (ce_message entry) ''start'' \<and> matches_span_boundary expected entry \<and>
               (case target of None \<Rightarrow> True | Some t \<Rightarrow> rebase_start_message_targets (ce_message entry) t)))"

definition find_pull_start_entry :: "LogEnv \<Rightarrow> NormalizedCommand \<Rightarrow> ExpectedTransition \<Rightarrow> str \<Rightarrow> CursorEntry option cursor_op" where
  "find_pull_start_entry env cmd expected action =
     in_head_log env (nc_worktree cmd) None (\<lambda>key path.
       find_unconsumed env key path ''HEAD''
         (\<lambda>entry. pull_reflog_action_is (ce_message entry) action ''start'' \<and> matches_span_boundary expected entry))"

definition find_common_ref_entry :: "LogEnv \<Rightarrow> str \<Rightarrow> ExpectedTransition \<Rightarrow> str list \<Rightarrow> CursorEntry option cursor_op" where
  "find_common_ref_entry env reference expected message_prefixes c =
     find_entry_in_log env (common_key reference) (logs_path (cu_family c) reference) reference expected message_prefixes c"

definition find_common_ref_entry_without_hint ::
  "LogEnv \<Rightarrow> str \<Rightarrow> ExpectedTransition \<Rightarrow> str list \<Rightarrow> CursorEntry option cursor_op" where
  "find_common_ref_entry_without_hint env reference expected message_prefixes c =
     find_entry_in_log_with_hint env (common_key reference) (logs_path (cu_family c) reference) reference expected
       message_prefixes False c"

definition find_stash_push_entry :: "LogEnv \<Rightarrow> str list \<Rightarrow> str \<Rightarrow> CursorEntry option cursor_op" where
  "find_stash_push_entry env stash_args kind c =
     (let expected_message = stash_push_message_from_args stash_args kind
      in find_unconsumed env (common_key ''refs/stash'') (logs_path (cu_family c) ''refs/stash'') ''refs/stash''
           (\<lambda>entry. case expected_message of None \<Rightarrow> True | Some message \<Rightarrow> stash_reflog_message_matches (ce_message entry) message) c)"

text \<open>The start of the first span at or after the hint, else of the last one before it. A span is a chain of
  matching entries, of at most \<open>limit\<close>.\<close>

fun span_start_loop ::
  "RefCursor \<Rightarrow> str list \<Rightarrow> ExpectedTransition \<Rightarrow> nat \<Rightarrow> nat option \<Rightarrow> CursorEntry list \<Rightarrow> CursorEntry option \<Rightarrow>
     CursorEntry list \<Rightarrow> CursorEntry option" where
  "span_start_loop c message_prefixes expected limit hint contiguous latest_before_hint [] = latest_before_hint"
| "span_start_loop c message_prefixes expected limit hint contiguous latest_before_hint (entry # entries) =
     (if entry_consumed c entry \<or> \<not> message_matches (ce_message entry) message_prefixes
      then span_start_loop c message_prefixes expected limit hint [] latest_before_hint entries
      else let contiguous = (if contiguous \<noteq> [] \<and> ce_new (last contiguous) \<noteq> ce_old entry then [] else contiguous) @ [entry];
               contiguous = drop (length contiguous - limit) contiguous
           in case (if transition_matches expected entry then contiguous else []) of
                [] \<Rightarrow> span_start_loop c message_prefixes expected limit hint contiguous latest_before_hint entries
              | candidate # _ \<Rightarrow>
                  (case hint of
                     None \<Rightarrow> Some candidate
                   | Some h \<Rightarrow>
                       if ce_start_offset candidate \<ge> h then Some candidate
                       else span_start_loop c message_prefixes expected limit hint contiguous (Some candidate) entries))"

definition find_head_span_start_entry ::
  "LogEnv \<Rightarrow> str option \<Rightarrow> str list \<Rightarrow> ExpectedTransition \<Rightarrow> nat \<Rightarrow> CursorEntry option cursor_op" where
  "find_head_span_start_entry env worktree message_prefixes expected limit =
     in_head_log env worktree None (\<lambda>key path.
       bind_op (reflog_start_offset env key path) (\<lambda>start.
       bind_op (lift_result (read_reflog_entries env key path ''HEAD'' start)) (\<lambda>entries c.
         (c, Inr (span_start_loop c message_prefixes expected limit (cu_command_start_hints c key) [] None entries)))))"

definition in_window :: "NormalizedCommand \<Rightarrow> CursorEntry \<Rightarrow> bool" where
  "in_window cmd entry =
     (case ce_timestamp_secs entry of
        Some timestamp \<Rightarrow> window_contains (reflog_timestamp_window cmd) timestamp
      | None \<Rightarrow> False)"

definition find_head_entry_in_command_window ::
  "LogEnv \<Rightarrow> NormalizedCommand \<Rightarrow> str list \<Rightarrow> ExpectedTransition \<Rightarrow> CursorEntry option cursor_op" where
  "find_head_entry_in_command_window env cmd message_prefixes expected =
     in_head_log env (nc_worktree cmd) None (\<lambda>key path.
       bind_op (reflog_start_offset env key path) (\<lambda>start.
       bind_op (lift_result (read_reflog_entries env key path ''HEAD'' start)) (\<lambda>entries c.
         let candidates = filter (\<lambda>entry. \<not> entry_consumed c entry \<and> transition_matches expected entry \<and>
                                   message_matches (ce_message entry) message_prefixes \<and> in_window cmd entry) entries
         in (c, Inr (if cu_command_start_hints c key \<noteq> None then select_candidate_with_hint c key candidates
                     else case candidates of [entry] \<Rightarrow> Some entry | _ \<Rightarrow> None)))))"

definition find_commit_head_entry ::
  "LogEnv \<Rightarrow> NormalizedCommand \<Rightarrow> str list \<Rightarrow> ExpectedTransition \<Rightarrow> CursorEntry option cursor_op" where
  "find_commit_head_entry env cmd message_prefixes expected =
     bind_op (find_head_entry env (nc_worktree cmd) message_prefixes expected) (\<lambda>found.
       case found of
         Some entry \<Rightarrow> ok (Some entry)
       | None \<Rightarrow>
           if et_messages expected = [] then ok None
           else find_head_entry_in_command_window env cmd message_prefixes (without_reflog_message_constraint expected))"

text \<open>The entries of a reference with a given transition in the time of the command: after the cursor, or
  anywhere in the log when there is none after it.\<close>

definition direct_ref_transition_entries ::
  "LogEnv \<Rightarrow> NormalizedCommand \<Rightarrow> str \<Rightarrow> str \<Rightarrow> str \<Rightarrow> CursorEntry list cursor_op" where
  "direct_ref_transition_entries env cmd reference old new c =
     (case (if reference = ''HEAD''
            then map_option (\<lambda>git_dir. (head_key env git_dir, logs_path git_dir ''HEAD'')) (git_dir_of env (nc_worktree cmd))
            else Some (common_key reference, logs_path (cu_family c) reference)) of
        None \<Rightarrow> (c, Inr [])
      | Some (key, path) \<Rightarrow>
          (let matches_command = (\<lambda>c entry. \<not> entry_consumed c entry \<and> ce_old entry = old \<and> ce_new entry = new \<and> in_window cmd entry)
           in bind_op (reflog_start_offset env key path) (\<lambda>start.
              bind_op (lift_result (read_reflog_entries env key path reference start)) (\<lambda>entries c.
                if filter (matches_command c) entries \<noteq> [] then (c, Inr (filter (matches_command c) entries))
                else bind_op (lift_result (read_reflog_entries env key path reference None)) (\<lambda>entries c.
                       (c, Inr (filter (matches_command c) entries))) c)) c))"

definition find_direct_ref_transition_entry ::
  "LogEnv \<Rightarrow> NormalizedCommand \<Rightarrow> str \<Rightarrow> str \<Rightarrow> str \<Rightarrow> CursorEntry option cursor_op" where
  "find_direct_ref_transition_entry env cmd reference old new =
     bind_op (direct_ref_transition_entries env cmd reference old new) (\<lambda>entries. ok (first_entry entries))"

section \<open>Clamping the offset a command started at\<close>

datatype ColdSeedMatchSpec =
  SingleEntry ExpectedTransition "str list"
| HeadSpan ExpectedTransition "str list" nat
| PullSpan str ExpectedTransition
| RebaseSpan ExpectedTransition

definition MAX_USIZE :: nat where "MAX_USIZE = 2 ^ 64 - 1"

definition CHERRY_PICK_REFLOG_PREFIXES :: "str list" where
  "CHERRY_PICK_REFLOG_PREFIXES = [''cherry-pick:'', ''commit (cherry-pick):'']"

definition commit_prefixes :: "bool \<Rightarrow> str list" where
  "commit_prefixes amend = (if amend then [''commit (amend):''] else [''commit'', ''commit (initial):''])"

definition is_no_commit :: "str list \<Rightarrow> bool" where
  "is_no_commit args = list_ex (\<lambda>arg. arg = ''--no-commit'' \<or> arg = ''-n'') args"

definition is_abort_or_quit :: "str list \<Rightarrow> bool" where
  "is_abort_or_quit args = list_ex (\<lambda>arg. arg = ''--abort'' \<or> arg = ''--quit'') args"

definition cold_seed_match_spec :: "RefCursor \<Rightarrow> NormalizedCommand \<Rightarrow> ColdSeedMatchSpec option" where
  "cold_seed_match_spec c cmd =
     (let args = command_args cmd
      in case nc_primary_command cmd of
           None \<Rightarrow> None
         | Some primary \<Rightarrow>
             if primary = ''commit''
             then (let amend = list_ex (\<lambda>arg. arg = ''--amend'') args
                   in Some (SingleEntry (with_reflog_messages any_transition (commit_reflog_messages args amend)) (commit_prefixes amend)))
             else if primary = ''pull'' then Some (PullSpan (pull_reflog_action cmd) any_transition)
             else if primary = ''rebase'' then Some (RebaseSpan any_transition)
             else if primary = ''cherry-pick''
             then if is_abort_or_quit args \<or> is_no_commit args then None
                  else let source_args = cherry_pick_source_args args;
                           limit = (if list_ex cherry_pick_source_is_range source_args then MAX_USIZE
                                    else if source_args = [] then max (length (cu_pending_cherry_pick_source_oids c)) 1
                                    else max (length source_args) 1)
                       in Some (HeadSpan any_transition CHERRY_PICK_REFLOG_PREFIXES limit)
             else None)"

definition find_last :: "('a \<Rightarrow> bool) \<Rightarrow> 'a list \<Rightarrow> 'a option" where
  "find_last P xs = find P (rev xs)"

definition clamp_seed_to_entry_containing_offset :: "CursorEntry list \<Rightarrow> nat \<Rightarrow> str list \<Rightarrow> nat option" where
  "clamp_seed_to_entry_containing_offset entries offset message_prefixes =
     (if list_ex (\<lambda>entry. ce_start_offset entry \<ge> offset \<and> message_matches (ce_message entry) message_prefixes) entries then None
      else map_option ce_start_offset
             (find_last (\<lambda>entry. ce_start_offset entry < offset \<and> offset \<le> ce_end_offset entry \<and>
                           message_matches (ce_message entry) message_prefixes) entries))"

fun head_span_loop ::
  "nat \<Rightarrow> str list \<Rightarrow> ExpectedTransition \<Rightarrow> nat \<Rightarrow> CursorEntry list \<Rightarrow> nat option \<Rightarrow> CursorEntry list \<Rightarrow> nat option" where
  "head_span_loop offset message_prefixes expected limit contiguous latest_before_offset [] = latest_before_offset"
| "head_span_loop offset message_prefixes expected limit contiguous latest_before_offset (entry # entries) =
     (if \<not> message_matches (ce_message entry) message_prefixes
      then head_span_loop offset message_prefixes expected limit [] latest_before_offset entries
      else let contiguous = (if contiguous \<noteq> [] \<and> ce_new (last contiguous) \<noteq> ce_old entry then [] else contiguous) @ [entry];
               contiguous = drop (length contiguous - limit) contiguous
           in case (if transition_matches expected entry then contiguous else []) of
                [] \<Rightarrow> head_span_loop offset message_prefixes expected limit contiguous latest_before_offset entries
              | candidate # _ \<Rightarrow>
                  if ce_start_offset candidate \<ge> offset then None
                  else head_span_loop offset message_prefixes expected limit contiguous (Some (ce_start_offset candidate)) entries)"

definition head_span_start_near_offset :: "CursorEntry list \<Rightarrow> nat \<Rightarrow> str list \<Rightarrow> ExpectedTransition \<Rightarrow> nat \<Rightarrow> nat option" where
  "head_span_start_near_offset entries offset message_prefixes expected limit =
     head_span_loop offset message_prefixes expected limit [] None entries"

text \<open>Whether the span that starts at an entry reaches an offset: the entries after the start.\<close>

fun span_covers_offset :: "(str \<Rightarrow> bool) \<Rightarrow> nat \<Rightarrow> CursorEntry list \<Rightarrow> bool" where
  "span_covers_offset starts_new offset [] = True"
| "span_covers_offset starts_new offset (entry # entries) =
     (if ce_start_offset entry \<ge> offset then True
      else if starts_new (ce_message entry) then offset \<le> ce_end_offset entry
      else span_covers_offset starts_new offset entries)"

fun last_covering :: "(CursorEntry \<Rightarrow> CursorEntry list \<Rightarrow> bool) \<Rightarrow> CursorEntry list \<Rightarrow> CursorEntry option" where
  "last_covering P [] = None"
| "last_covering P (entry # entries) =
     (case last_covering P entries of Some e \<Rightarrow> Some e | None \<Rightarrow> if P entry entries then Some entry else None)"

definition span_start_containing_offset ::
  "(str \<Rightarrow> bool) \<Rightarrow> (str \<Rightarrow> bool) \<Rightarrow> CursorEntry list \<Rightarrow> nat \<Rightarrow> ExpectedTransition \<Rightarrow> nat option" where
  "span_start_containing_offset is_start starts_new entries offset expected =
     (if list_ex (\<lambda>entry. ce_start_offset entry \<ge> offset \<and> is_start (ce_message entry)) entries then None
      else map_option ce_start_offset
             (last_covering (\<lambda>entry after. ce_start_offset entry < offset \<and> is_start (ce_message entry) \<and>
                               matches_span_boundary expected entry \<and> span_covers_offset starts_new offset after) entries))"

definition pull_span_start_containing_offset :: "CursorEntry list \<Rightarrow> nat \<Rightarrow> str \<Rightarrow> ExpectedTransition \<Rightarrow> nat option" where
  "pull_span_start_containing_offset entries offset action expected =
     span_start_containing_offset (\<lambda>message. pull_reflog_action_is message action ''start'')
       (\<lambda>message. pull_reflog_action_starts_new_command message action) entries offset expected"

definition rebase_span_start_containing_offset :: "CursorEntry list \<Rightarrow> nat \<Rightarrow> ExpectedTransition \<Rightarrow> nat option" where
  "rebase_span_start_containing_offset entries offset expected =
     span_start_containing_offset (\<lambda>message. rebase_reflog_action_is message ''start'')
       rebase_reflog_action_starts_new_command entries offset expected"

definition key_reference :: "str \<Rightarrow> str" where
  "key_reference key = (case strip_prefix key ''common:'' of Some reference \<Rightarrow> reference | None \<Rightarrow> ''HEAD'')"

definition or_offset :: "nat \<Rightarrow> nat option \<Rightarrow> nat" where
  "or_offset offset found = (case found of Some s \<Rightarrow> s | None \<Rightarrow> offset)"

definition clamp_seed_to_pull_span_entry ::
  "LogEnv \<Rightarrow> str \<Rightarrow> str \<Rightarrow> nat \<Rightarrow> str \<Rightarrow> ExpectedTransition \<Rightarrow> str + nat" where
  "clamp_seed_to_pull_span_entry env key path offset action expected =
     map_sum id (\<lambda>entries. or_offset offset
         (if starts_with key ''common:''
          then clamp_seed_to_entry_containing_offset entries offset (pull_reflog_message_prefixes action)
          else pull_span_start_containing_offset entries offset action expected))
       (read_reflog_entries_including_noops env key path (key_reference key) None)"

definition clamp_seed_to_rebase_span_entry :: "LogEnv \<Rightarrow> str \<Rightarrow> str \<Rightarrow> nat \<Rightarrow> ExpectedTransition \<Rightarrow> str + nat" where
  "clamp_seed_to_rebase_span_entry env key path offset expected =
     map_sum id (\<lambda>entries. or_offset offset
         (if starts_with key ''common:'' then clamp_seed_to_entry_containing_offset entries offset [''rebase'']
          else rebase_span_start_containing_offset entries offset expected))
       (read_reflog_entries_including_noops env key path (key_reference key) None)"

definition earliest_own :: "CursorEntry list \<Rightarrow> nat \<Rightarrow> ExpectedTransition \<Rightarrow> str list \<Rightarrow> nat option" where
  "earliest_own entries offset expected prefixes =
     (case map ce_start_offset
             (filter (\<lambda>entry. ce_start_offset entry < offset \<and> transition_matches expected entry \<and>
                        message_matches (ce_message entry) prefixes) entries) of
        [] \<Rightarrow> None
      | s # ss \<Rightarrow> Some (fold min ss s))"

definition clamp_seed_to_own_entry :: "LogEnv \<Rightarrow> RefCursor \<Rightarrow> str \<Rightarrow> nat \<Rightarrow> NormalizedCommand \<Rightarrow> str + nat" where
  "clamp_seed_to_own_entry env c key offset cmd =
     (if offset = 0 then Inr 0
      else case reflog_path_for_key c key of
             None \<Rightarrow> Inr offset
           | Some path \<Rightarrow>
               (case cold_seed_match_spec c cmd of
                  None \<Rightarrow> Inr offset
                | Some (SingleEntry expected prefixes) \<Rightarrow>
                    map_sum id (\<lambda>entries. or_offset offset (earliest_own entries offset expected prefixes))
                      (read_reflog_entries env key path (key_reference key) None)
                | Some (HeadSpan expected prefixes limit) \<Rightarrow>
                    if limit = 0 then Inr offset
                    else map_sum id (\<lambda>entries. or_offset offset (head_span_start_near_offset entries offset prefixes expected limit))
                           (read_reflog_entries env key path (key_reference key) None)
                | Some (PullSpan action expected) \<Rightarrow> clamp_seed_to_pull_span_entry env key path offset action expected
                | Some (RebaseSpan expected) \<Rightarrow> clamp_seed_to_rebase_span_entry env key path offset expected))"

text \<open>The offsets captured when a command arrives: a hint where there is a cursor, the place of a new
  cursor, clamped, where there is none.\<close>

definition insert_hint :: "str \<Rightarrow> nat \<Rightarrow> RefCursor \<Rightarrow> RefCursor" where
  "insert_hint key offset c = c\<lparr>cu_command_start_hints := (cu_command_start_hints c)(key \<mapsto> offset)\<rparr>"

definition initialize_key :: "LogEnv \<Rightarrow> NormalizedCommand \<Rightarrow> str \<Rightarrow> nat \<Rightarrow> unit cursor_op" where
  "initialize_key env cmd key offset c =
     (if cu_offsets c key \<noteq> None then (insert_hint key offset c, Inr ())
      else bind_op (lift_result (command_start_offset_is_authoritative env c key offset)) (\<lambda>authoritative.
             if authoritative
             then bind_op (lift_result (clamp_seed_to_own_entry env c key offset cmd)) (\<lambda>seed c.
                    initialize_reflog_cursor env key seed (if seed \<noteq> offset then insert_hint key offset c else c))
             else if command_can_clamp_non_authoritative_cold_seed cmd
             then bind_op (lift_result (clamp_seed_to_own_entry env c key offset cmd)) (\<lambda>seed c.
                    if seed \<noteq> offset then initialize_reflog_cursor env key seed (insert_hint key offset c) else (c, Inr ()))
             else ok ()) c)"

fun initialize_keys :: "LogEnv \<Rightarrow> NormalizedCommand \<Rightarrow> str list \<Rightarrow> unit cursor_op" where
  "initialize_keys env cmd [] = ok ()"
| "initialize_keys env cmd (key # keys) =
     (case nc_reflog_start_offsets cmd key of
        None \<Rightarrow> initialize_keys env cmd keys
      | Some offset \<Rightarrow> bind_op (initialize_key env cmd key (unat offset)) (\<lambda>_. initialize_keys env cmd keys))"

definition initialize_from_command_reflog_start_offsets :: "LogEnv \<Rightarrow> NormalizedCommand \<Rightarrow> unit cursor_op" where
  "initialize_from_command_reflog_start_offsets env cmd c =
     initialize_keys env cmd (le_offset_keys env (nc_reflog_start_offsets cmd)) (c\<lparr>cu_command_start_hints := Map.empty\<rparr>)"

definition head_cursor_initialized :: "LogEnv \<Rightarrow> RefCursor \<Rightarrow> str option \<Rightarrow> bool" where
  "head_cursor_initialized env c worktree =
     (case git_dir_of env worktree of None \<Rightarrow> False | Some git_dir \<Rightarrow> cu_offsets c (head_key env git_dir) \<noteq> None)"

definition head_expected_transition :: "LogEnv \<Rightarrow> RefCursor \<Rightarrow> NormalizedCommand \<Rightarrow> FamilyState \<Rightarrow> ExpectedTransition" where
  "head_expected_transition env c cmd state =
     (let expected = from_state_and_working_logs env cmd state
      in if head_cursor_initialized env c (nc_worktree cmd) then without_old_oid_constraint expected else expected)"

end
