(* ===== verification/Cursor_Loops.thy ===== *)
theory Cursor_Loops
  imports Cursor_Search
begin

text \<open>
  The loops of the reference cursor (\<open>src/daemon/ref_cursor.rs\<close>) with their termination. A span is followed
  through the log of \<open>HEAD\<close> by entries that each start where the last one ended, so it moves towards the end of
  the log. Draining a log takes its first unconsumed entry until none is left: each round takes an
  entry of the log for good, also when the cursor stood inside a line, which the anchors then show and
  which makes the search start again from the beginning once.
\<close>

section \<open>Spans\<close>

definition from_oid :: "str \<Rightarrow> ExpectedTransition" where
  "from_oid old = \<lparr>et_old_oids = [old], et_new_oid = None, et_messages = []\<rparr>"

definition transition :: "str \<Rightarrow> str \<Rightarrow> ExpectedTransition" where
  "transition old new = \<lparr>et_old_oids = [old], et_new_oid = Some new, et_messages = []\<rparr>"

definition span_left :: "LogEnv \<Rightarrow> str option \<Rightarrow> nat \<Rightarrow> nat" where
  "span_left env worktree next_start =
     (case git_dir_of env worktree of
        None \<Rightarrow> 0
      | Some git_dir \<Rightarrow>
          (case le_read env (logs_path git_dir ''HEAD'') of
             Content bytes \<Rightarrow> if next_start > length bytes then length bytes + 1 else length bytes - next_start
           | _ \<Rightarrow> 0))"

lemma log_entries_from_start:
  assumes "x \<in> set (log_entries lossy bytes key path reference (Some s))" "s \<le> length bytes"
  shows "s \<le> ce_start_offset x"
  using assms records_from_range [of _ lossy bytes s] by (auto simp: log_entries_def entry_of_record_def)

lemma find_head_entry_after_progress:
  assumes "find_head_entry_after env c worktree s prefixes expected = Inr (Some x)"
  shows "span_left env worktree (ce_end_offset x) < span_left env worktree s"
proof -
  obtain git_dir where dir: "git_dir_of env worktree = Some git_dir"
    using assms by (auto simp: find_head_entry_after_def split: option.splits)
  let ?path = "logs_path git_dir ''HEAD''"
  obtain bytes where bytes: "le_read env ?path = Content bytes"
    using assms dir
    by (cases "le_read env ?path") (auto simp: find_head_entry_after_def read_reflog_entries_def read_reflog_records_def)
  have "x \<in> set (log_entries (le_lossy env) bytes (head_key env git_dir) ?path ''HEAD'' (Some s))"
    using assms dir by (auto simp: find_head_entry_after_def read_reflog_entries_Content [OF bytes] find_Some_iff)
  note x = log_entries_fields(4,5) [OF this] log_entries_from_start [OF this]
  show ?thesis using x by (auto simp: span_left_def dir bytes)
qed

text \<open>The loops of \<open>consume_rebase_transition\<close>, \<open>consume_pull_head_span_for_action\<close> and
  \<open>consume_head_span_for_command_limited\<close>: which messages stop the span before their entry, which end it
  with their entry, and how many entries it may have.\<close>

function head_span_walk ::
  "LogEnv \<Rightarrow> str option \<Rightarrow> str list \<Rightarrow> (str \<Rightarrow> bool) \<Rightarrow> (str \<Rightarrow> bool) \<Rightarrow> nat option \<Rightarrow> bool \<Rightarrow> str \<Rightarrow> nat \<Rightarrow>
     RefChange list \<Rightarrow> (str \<times> RefChange list) cursor_op" where
  "head_span_walk env worktree prefixes stops finishes limit consumed_finish new next_start changes c =
     (if consumed_finish \<or> (case limit of Some n \<Rightarrow> \<not> length changes < n | None \<Rightarrow> False) then (c, Inr (new, changes))
      else case find_head_entry_after env c worktree next_start prefixes (from_oid new) of
             Inl err \<Rightarrow> (c, Inl err)
           | Inr None \<Rightarrow> (c, Inr (new, changes))
           | Inr (Some entry) \<Rightarrow>
               if stops (ce_message entry) then (c, Inr (new, changes))
               else case consume_entry env entry c of
                      (c', Inl err) \<Rightarrow> (c', Inl err)
                    | (c', Inr _) \<Rightarrow>
                        head_span_walk env worktree prefixes stops finishes limit (finishes (ce_message entry)) (ce_new entry)
                          (ce_end_offset entry) (changes @ [entry_to_ref_change entry]) c')"
  by pat_completeness auto
termination
  by (relation "measure (\<lambda>(env, worktree, _, _, _, _, _, _, next_start, _). span_left env worktree next_start)")
    (auto dest: find_head_entry_after_progress)

declare head_span_walk.simps [simp del]

definition rebase_span :: "LogEnv \<Rightarrow> str option \<Rightarrow> CursorEntry \<Rightarrow> (str \<times> RefChange list) cursor_op" where
  "rebase_span env worktree first =
     head_span_walk env worktree [''rebase''] (\<lambda>message. rebase_reflog_action_is message ''start'')
       (\<lambda>message. rebase_reflog_action_is message ''finish'') None (rebase_reflog_action_is (ce_message first) ''finish'')
       (ce_new first) (ce_end_offset first) [entry_to_ref_change first]"

definition limited_span :: "LogEnv \<Rightarrow> str option \<Rightarrow> str list \<Rightarrow> nat \<Rightarrow> CursorEntry \<Rightarrow> (str \<times> RefChange list) cursor_op" where
  "limited_span env worktree message_prefixes limit first =
     head_span_walk env worktree message_prefixes (\<lambda>message. False) (\<lambda>message. False) (Some limit) False
       (ce_new first) (ce_end_offset first) [entry_to_ref_change first]"

definition pull_span :: "LogEnv \<Rightarrow> str option \<Rightarrow> str list \<Rightarrow> str \<Rightarrow> CursorEntry \<Rightarrow> (str \<times> RefChange list) cursor_op" where
  "pull_span env worktree message_prefixes action first =
     head_span_walk env worktree message_prefixes (\<lambda>message. pull_reflog_action_starts_new_command message action)
       (\<lambda>message. pull_reflog_action_is message action ''finish'') None
       (pull_reflog_action_state (ce_message first) action = None \<or> pull_reflog_action_is (ce_message first) action ''finish'')
       (ce_new first) (ce_end_offset first) [entry_to_ref_change first]"

section \<open>Draining a log\<close>

text \<open>What is left to take of a log. A cursor inside a line counts more than the whole log.\<close>

definition left_to_drain :: "LogEnv \<Rightarrow> str \<Rightarrow> str \<Rightarrow> str \<Rightarrow> RefCursor \<Rightarrow> nat" where
  "left_to_drain env key path reference c =
     (case le_read env path of
        Content bytes \<Rightarrow>
          (let c1 = fst (reflog_start_offset env key path c);
               all = log_entries (le_lossy env) bytes key path reference None
           in if line_aligned bytes (cu_offsets c1 key) then length (filter (\<lambda>x. \<not> taken c1 x) all)
              else Suc (length all) +
                length (filter (\<lambda>x. \<not> entry_consumed c1 x) (log_entries (le_lossy env) bytes key path reference (cu_offsets c1 key))))
      | _ \<Rightarrow> 0)"

lemma length_filter_remove:
  assumes "x \<in> set xs" "P x" "\<And>y. y \<in> set xs \<Longrightarrow> Q y \<Longrightarrow> P y \<and> y \<noteq> x"
  shows "length (filter Q xs) < length (filter P xs)"
proof -
  have Q: "filter Q (filter P xs) = filter Q xs" using assms(3) by (auto intro!: filter_cong)
  have "length (filter Q (filter P xs)) < length (filter P xs)"
    using assms by (intro length_filter_less [of x]) auto
  then show ?thesis by (simp only: Q)
qed

lemma aligned_drain_progress:
  assumes log: "le_read env path = Content bytes" and al: "line_aligned bytes (cu_offsets c key)"
    and anch: "anchored (le_lossy env) bytes c key"
    and x: "x \<in> set (log_entries (le_lossy env) bytes key path reference (cu_offsets c key))" "\<not> entry_consumed c x"
  shows "left_to_drain env key path reference (fst (consume_entry env x c)) <
    length (filter (\<lambda>x. \<not> taken c x) (log_entries (le_lossy env) bytes key path reference None))"
proof -
  let ?all = "log_entries (le_lossy env) bytes key path reference None"
  have x': "x \<in> set ?all" "\<not> taken c x"
    using log_entries_from_cursor [OF al] x log_entries_fields(1) [OF x(1)] by (auto simp: taken_def split: option.splits)
  obtain c' where c': "consume_entry env x c = (c', Inr ())" "line_aligned bytes (cu_offsets c' key)"
    "\<And>y. y \<in> set ?all \<Longrightarrow> taken c' y \<longleftrightarrow> taken c y \<or> y = x"
    using consume_entry_takes [OF log al x'] by blast
  have "anchored (le_lossy env) bytes c' key"
    using consume_entry_anchored [OF log al anch log_entries_fields(1-3) [OF x(1)]] c'(1) by simp
  then have "left_to_drain env key path reference c' = length (filter (\<lambda>x. \<not> taken c' x) ?all)"
    using c'(2) aligned_within by (simp add: left_to_drain_def log reflog_start_offset_Content)
  also have "\<dots> < length (filter (\<lambda>x. \<not> taken c x) ?all)"
    using x' c'(3) by (intro length_filter_remove [of x]) auto
  finally show ?thesis by (simp add: c'(1))
qed

lemma unaligned_drain_progress:
  assumes log: "le_read env path = Content bytes" and fits: "within bytes (cu_offsets c key)" "anchored (le_lossy env) bytes c key"
    and al: "\<not> line_aligned bytes (cu_offsets c key)"
    and x: "x \<in> set (log_entries (le_lossy env) bytes key path reference (cu_offsets c key))" "\<not> entry_consumed c x"
  shows "left_to_drain env key path reference (fst (consume_entry env x c)) <
    Suc (length (log_entries (le_lossy env) bytes key path reference None)) +
    length (filter (\<lambda>x. \<not> entry_consumed c x) (log_entries (le_lossy env) bytes key path reference (cu_offsets c key)))"
proof -
  let ?E = "log_entries (le_lossy env) bytes key path reference (cu_offsets c key)" and ?c1 = "mark_consumed x c"
  have op: "consume_entry env x c = compact_consumed_entries env key path reference ?c1"
    by (simp add: consume_entry_def log_entries_fields(1-3) [OF x(1)])
  from log show ?thesis
  proof (cases rule: compact_cases [where key = key and reference = reference and c = ?c1])
    case same
    have "within bytes (cu_offsets ?c1 key)" "anchored (le_lossy env) bytes ?c1 key" using fits by (simp_all add: anchored_def)
    then have "left_to_drain env key path reference ?c1 = Suc (length (log_entries (le_lossy env) bytes key path reference None)) +
        length (filter (\<lambda>x. \<not> entry_consumed ?c1 x) ?E)"
      using al by (simp add: left_to_drain_def log reflog_start_offset_Content)
    moreover have "length (filter (\<lambda>x. \<not> entry_consumed ?c1 x) ?E) < length (filter (\<lambda>x. \<not> entry_consumed c x) ?E)"
      using x log_entries_inj [OF _ x(1)] log_entries_fields(1)
      by (intro length_filter_remove [of x]) (auto simp: entry_consumed_mark split: if_splits)
    ultimately show ?thesis using op same(1) by simp
  next
    case moved
    let ?last = "last (takeWhile (entry_consumed ?c1) ?E)"
    have "?last \<in> set ?E" using last_in_set [OF moved(1)] set_takeWhileD by fastforce
    then have "line_aligned bytes (Some (ce_end_offset ?last))"
      using aligned_end log_entries_fields(5) by (simp add: line_aligned_def)
    then have "line_aligned bytes (cu_offsets (fst (reflog_start_offset env key path (advanced key ?last ?c1))) key)"
      using aligned_within by (simp add: reflog_start_offset_Content [OF log]) (simp add: line_aligned_def)
    then have "left_to_drain env key path reference (advanced key ?last ?c1) \<le> length (log_entries (le_lossy env) bytes key path reference None)"
      by (simp add: left_to_drain_def log)
    then show ?thesis using op moved(3) by simp
  qed
qed

lemma first_entry_filter: "first_entry (filter P xs) = Some x \<Longrightarrow> x \<in> set xs \<and> P x"
  by (induction xs) (auto simp: first_entry_def split: if_splits)

lemma drain_progress:
  assumes found: "find_entry_in_log_with_hint env key path reference expected prefixes False c = (c1, Inr (Some x))"
  shows "left_to_drain env key path reference (fst (consume_entry env x c1)) < left_to_drain env key path reference c"
proof -
  obtain bytes where log: "le_read env path = Content bytes"
    using found
    by (cases "le_read env path")
      (auto simp: find_entry_in_log_with_hint_def bind_op_def lift_result_def read_reflog_entries_def read_reflog_records_def
        first_entry_def split: prod.splits sum.splits)
  obtain c' r where start: "reflog_start_offset env key path c = (c', r)" by fastforce
  note fits = reflog_start_offset_fits [OF log start]
  have x: "c' = c1" "x \<in> set (log_entries (le_lossy env) bytes key path reference (cu_offsets c1 key))" "\<not> entry_consumed c1 x"
    using found fits(1)
    by (auto simp: find_entry_in_log_with_hint_def bind_op_def lift_result_def start read_reflog_entries_Content [OF log] Let_def
        dest!: first_entry_filter)
  show ?thesis
  proof (cases "line_aligned bytes (cu_offsets c1 key)")
    case True
    then show ?thesis
      using aligned_drain_progress [OF log True _ x(2,3)] fits(3) x(1) start by (simp add: left_to_drain_def log)
  next
    case False
    then show ?thesis
      using unaligned_drain_progress [OF log _ _ False x(2,3)] fits(2,3) x(1) start by (simp add: left_to_drain_def log)
  qed
qed

lemma drain_progress_to:
  "find_entry_in_log_with_hint env key path reference expected prefixes False c = (c1, Inr (Some x)) \<Longrightarrow>
     consume_entry env x c1 = (c2, r) \<Longrightarrow> left_to_drain env key path reference c2 < left_to_drain env key path reference c"
  using drain_progress by (metis fst_conv)

text \<open>The loops of \<open>enrich_update_ref\<close>: every entry of a log that is left.\<close>

function drain_log :: "LogEnv \<Rightarrow> str \<Rightarrow> str \<Rightarrow> str \<Rightarrow> RefChange list \<Rightarrow> RefChange list cursor_op" where
  "drain_log env key path reference changes c =
     (case find_entry_in_log_with_hint env key path reference any_transition [] False c of
        (c1, Inl err) \<Rightarrow> (c1, Inl err)
      | (c1, Inr None) \<Rightarrow> (c1, Inr changes)
      | (c1, Inr (Some entry)) \<Rightarrow>
          (case consume_entry env entry c1 of
             (c2, Inl err) \<Rightarrow> (c2, Inl err)
           | (c2, Inr _) \<Rightarrow> drain_log env key path reference (changes @ [entry_to_ref_change entry]) c2))"
  by pat_completeness auto
termination
  by (relation "measure (\<lambda>(env, key, path, reference, changes, c). left_to_drain env key path reference c)")
    (auto dest!: sym [of "(_, _)"] dest: drain_progress_to)

declare drain_log.simps [simp del]

end
