(* ===== verification/Cursor_Commands.thy ===== *)
theory Cursor_Commands
  imports Cursor_Loops
begin

text \<open>
  How the reference cursor enriches a command with the reference changes it made
  (\<open>src/daemon/ref_cursor.rs\<close>, \<open>enrich_command\<close> and the handlers of the commands). A handler takes the command to
  the command with its changes; a failing operation leaves the cursor as it was when it failed.
\<close>

section \<open>Consuming what belongs to one entry\<close>

fun consume_refs_loop :: "LogEnv \<Rightarrow> str \<Rightarrow> str \<Rightarrow> RefChange list \<Rightarrow> str list \<Rightarrow> RefChange list cursor_op" where
  "consume_refs_loop env old new changes [] = ok changes"
| "consume_refs_loop env old new changes (reference # refs) =
     (if reference = ''HEAD'' \<or> reference = ''ORIG_HEAD'' \<or> reference = ''refs/stash''
      then consume_refs_loop env old new changes refs
      else bind_op (find_common_ref_entry env reference (transition old new) []) (\<lambda>found.
             case found of
               None \<Rightarrow> consume_refs_loop env old new changes refs
             | Some entry \<Rightarrow>
                 bind_op (consume_entry env entry) (\<lambda>_.
                   consume_refs_loop env old new (changes @ [entry_to_ref_change entry]) refs)))"

definition consume_common_refs_matching_transition ::
  "LogEnv \<Rightarrow> str \<Rightarrow> str \<Rightarrow> RefChange list \<Rightarrow> RefChange list cursor_op" where
  "consume_common_refs_matching_transition env old new changes c =
     bind_op (lift_result (discover_common_refs env c)) (consume_refs_loop env old new changes) c"

definition set_ref_changes :: "NormalizedCommand \<Rightarrow> RefChange list \<Rightarrow> NormalizedCommand" where
  "set_ref_changes cmd changes = cmd\<lparr>nc_ref_changes := dedup_ref_changes changes\<rparr>"

definition consume_head_entry_for_command :: "LogEnv \<Rightarrow> NormalizedCommand \<Rightarrow> CursorEntry \<Rightarrow> NormalizedCommand cursor_op" where
  "consume_head_entry_for_command env cmd entry =
     bind_op (consume_entry env entry) (\<lambda>_.
     bind_op (consume_common_refs_matching_transition env (ce_old entry) (ce_new entry) [entry_to_ref_change entry]) (\<lambda>changes.
     ok (set_ref_changes cmd changes)))"

definition consume_head_transition_for_command ::
  "LogEnv \<Rightarrow> NormalizedCommand \<Rightarrow> str list \<Rightarrow> ExpectedTransition \<Rightarrow> NormalizedCommand cursor_op" where
  "consume_head_transition_for_command env cmd message_prefixes expected =
     bind_op (find_head_entry env (nc_worktree cmd) message_prefixes expected) (\<lambda>found.
       case found of None \<Rightarrow> ok cmd | Some entry \<Rightarrow> consume_head_entry_for_command env cmd entry)"

definition consume_finish_branch_ref ::
  "LogEnv \<Rightarrow> str option \<Rightarrow> str \<Rightarrow> FamilyState \<Rightarrow> str list \<Rightarrow> (str \<Rightarrow> str option) \<Rightarrow> RefChange list \<Rightarrow> RefChange list cursor_op" where
  "consume_finish_branch_ref env worktree new state message_prefixes branch_from_message changes =
     in_head_log env worktree changes (\<lambda>key path.
       bind_op (reflog_start_offset env key path) (\<lambda>start.
       bind_op (lift_result (read_reflog_entries_including_noops env key path ''HEAD'' start)) (\<lambda>entries.
         case find (\<lambda>entry. ce_new entry = new \<and> branch_from_message (ce_message entry) \<noteq> None) entries of
           None \<Rightarrow> ok changes
         | Some finish \<Rightarrow>
             (case branch_from_message (ce_message finish) of
                None \<Rightarrow> ok changes
              | Some branch_ref \<Rightarrow>
                  (\<lambda>c. bind_op
                     (find_common_ref_entry env branch_ref
                        \<lparr>et_old_oids = List.map_filter (non_zero_ref (fs_refs state)) [branch_ref], et_new_oid = Some new, et_messages = []\<rparr>
                        message_prefixes)
                     (\<lambda>found. case found of
                        None \<Rightarrow> ok changes
                      | Some entry \<Rightarrow> bind_op (consume_entry env entry) (\<lambda>_. ok (changes @ [entry_to_ref_change entry])))
                     (advance_cursor_to_entry finish c))))))"

definition consume_rebase_finish_branch_ref ::
  "LogEnv \<Rightarrow> str option \<Rightarrow> str \<Rightarrow> FamilyState \<Rightarrow> RefChange list \<Rightarrow> RefChange list cursor_op" where
  "consume_rebase_finish_branch_ref env worktree new state =
     consume_finish_branch_ref env worktree new state [''rebase''] rebase_finish_returned_branch"

definition consume_pull_finish_branch_ref ::
  "LogEnv \<Rightarrow> str option \<Rightarrow> str \<Rightarrow> FamilyState \<Rightarrow> str \<Rightarrow> str list \<Rightarrow> RefChange list \<Rightarrow> RefChange list cursor_op" where
  "consume_pull_finish_branch_ref env worktree new state action message_prefixes =
     consume_finish_branch_ref env worktree new state message_prefixes (\<lambda>message. pull_finish_returned_branch message action)"

section \<open>Commits, cherry-picks and reverts\<close>

definition has_amend :: "str list \<Rightarrow> bool" where
  "has_amend args = list_ex (\<lambda>arg. arg = ''--amend'') args"

definition enrich_commit :: "LogEnv \<Rightarrow> NormalizedCommand \<Rightarrow> FamilyState \<Rightarrow> NormalizedCommand cursor_op" where
  "enrich_commit env cmd state c =
     (let args = command_args cmd; amend = has_amend args;
          expected = with_reflog_messages (without_old_oid_constraint (head_expected_transition env c cmd state))
            (commit_reflog_messages args amend)
      in bind_op (find_commit_head_entry env cmd (commit_prefixes amend) expected) (\<lambda>found.
           case found of None \<Rightarrow> ok cmd | Some entry \<Rightarrow> consume_head_entry_for_command env cmd entry) c)"

definition consume_head_span_for_command_limited ::
  "LogEnv \<Rightarrow> NormalizedCommand \<Rightarrow> str list \<Rightarrow> ExpectedTransition \<Rightarrow> nat \<Rightarrow> NormalizedCommand cursor_op" where
  "consume_head_span_for_command_limited env cmd message_prefixes expected limit =
     (if limit = 0 then ok cmd
      else bind_op (find_head_span_start_entry env (nc_worktree cmd) message_prefixes expected limit) (\<lambda>found.
        case found of
          None \<Rightarrow> ok cmd
        | Some first \<Rightarrow>
            bind_op (consume_entry env first) (\<lambda>_.
            bind_op (limited_span env (nc_worktree cmd) message_prefixes limit first) (\<lambda>(new, changes).
            bind_op (consume_common_refs_matching_transition env (ce_old first) new changes) (\<lambda>changes.
            ok (set_ref_changes cmd changes))))))"

definition set_pending :: "str list \<Rightarrow> RefCursor \<Rightarrow> RefCursor" where
  "set_pending oids c = c\<lparr>cu_pending_cherry_pick_source_oids := oids\<rparr>"

definition head_changes :: "NormalizedCommand \<Rightarrow> nat" where
  "head_changes cmd = length (filter (\<lambda>change. rc_reference change = ''HEAD'') (nc_ref_changes cmd))"

definition enrich_cherry_pick :: "LogEnv \<Rightarrow> NormalizedCommand \<Rightarrow> FamilyState \<Rightarrow> NormalizedCommand cursor_op" where
  "enrich_cherry_pick env cmd state c =
     (let args = command_args cmd
      in if is_abort_or_quit args then (set_pending [] c, Inr cmd)
         else
           let is_continue = list_ex (\<lambda>arg. arg = ''--continue'') args;
               is_skip = list_ex (\<lambda>arg. arg = ''--skip'') args;
               pending = cu_pending_cherry_pick_source_oids c;
               c = (if is_skip \<and> pending \<noteq> [] then set_pending (tl pending) c else c);
               source_args = (if is_continue \<or> is_skip then [] else cherry_pick_source_args args);
               explicit_sources =
                 (if is_continue \<or> is_skip then Some [] else resolve_cherry_pick_source_oids_from_sources state source_args);
               unresolved_explicit_sources = (source_args \<noteq> [] \<and> explicit_sources = None);
               explicit_sources = (case explicit_sources of Some sources \<Rightarrow> sources | None \<Rightarrow> []);
               cmd = cmd\<lparr>nc_cherry_pick_source_oids :=
                 (if explicit_sources = [] \<and> \<not> unresolved_explicit_sources then cu_pending_cherry_pick_source_oids c
                  else explicit_sources)\<rparr>
           in if nc_exit_code cmd \<noteq> 0 \<and> unresolved_explicit_sources then (c, Inr cmd)
              else if is_no_commit args then (c, Inr cmd)
              else
                let source_limit =
                  (if unresolved_explicit_sources then MAX_USIZE else max (length (nc_cherry_pick_source_oids cmd)) 1)
                in bind_op
                     (consume_head_span_for_command_limited env cmd CHERRY_PICK_REFLOG_PREFIXES
                        (head_expected_transition env c cmd state) source_limit)
                     (\<lambda>cmd c.
                        (if nc_exit_code cmd \<noteq> 0
                         then set_pending (drop (head_changes cmd) (nc_cherry_pick_source_oids cmd)) c
                         else if is_continue \<or> is_skip \<or> nc_cherry_pick_source_oids cmd \<noteq> [] \<or> head_changes cmd > 0
                         then set_pending [] c else c, Inr cmd)) c)"

definition enrich_revert :: "LogEnv \<Rightarrow> NormalizedCommand \<Rightarrow> FamilyState \<Rightarrow> NormalizedCommand cursor_op" where
  "enrich_revert env cmd state c =
     (let args = command_args cmd
      in if is_abort_or_quit args then (c, Inr cmd)
         else
           let is_continue = list_ex (\<lambda>arg. arg = ''--continue'') args;
               is_skip = list_ex (\<lambda>arg. arg = ''--skip'') args;
               source_args = (if is_continue \<or> is_skip then [] else revert_source_args args);
               explicit_sources =
                 (if source_args = [] then Some [] else resolve_cherry_pick_source_oids_from_sources state source_args);
               unresolved_explicit_sources = (source_args \<noteq> [] \<and> explicit_sources = None);
               cmd = cmd\<lparr>nc_revert_source_oids := (case explicit_sources of Some sources \<Rightarrow> sources | None \<Rightarrow> [])\<rparr>
           in if is_no_commit args then (c, Inr cmd)
              else
                let source_limit = (if unresolved_explicit_sources then MAX_USIZE else max (length (nc_revert_source_oids cmd)) 1)
                in consume_head_span_for_command_limited env cmd [''revert:'']
                     (head_expected_transition env c cmd state) source_limit c)"

section \<open>Branches\<close>

record BranchLifecycleRecord =
  bl_old_reference :: str
  bl_oid :: str

text \<open>The first entry that records the rename or copy to the reference; consumed entries are not skipped.\<close>

definition lifecycle_source :: "BranchLifecycleKind \<Rightarrow> str \<Rightarrow> CursorEntry \<Rightarrow> str option" where
  "lifecycle_source kind reference entry =
     (case parse_branch_lifecycle_message kind (ce_message entry) of
        Some (old_reference, new_reference) \<Rightarrow> if new_reference = reference then Some old_reference else None
      | None \<Rightarrow> None)"

definition consume_branch_lifecycle_record ::
  "LogEnv \<Rightarrow> str \<Rightarrow> BranchLifecycleKind \<Rightarrow> BranchLifecycleRecord option cursor_op" where
  "consume_branch_lifecycle_record env reference kind c =
     (let path = logs_path (cu_family c) reference; key = common_key reference
      in bind_op (reflog_start_offset env key path) (\<lambda>start.
         bind_op (lift_result (read_reflog_entries env key path reference start)) (\<lambda>entries.
           case find (\<lambda>entry. lifecycle_source kind reference entry \<noteq> None) entries of
             None \<Rightarrow> ok None
           | Some entry \<Rightarrow>
               bind_op (consume_entry env entry) (\<lambda>_.
                 ok (map_option (\<lambda>old_reference. \<lparr>bl_old_reference = old_reference, bl_oid = ce_new entry\<rparr>)
                      (lifecycle_source kind reference entry))))) c)"

definition enrich_branch_relocation ::
  "LogEnv \<Rightarrow> FamilyState \<Rightarrow> BranchLifecycleKind \<Rightarrow> str option \<Rightarrow> str \<Rightarrow> RefChange list \<Rightarrow> RefChange list cursor_op" where
  "enrich_branch_relocation env state kind old_reference new_reference changes =
     bind_op (consume_branch_lifecycle_record env new_reference kind) (\<lambda>lifecycle c.
       let source_reference = (case old_reference of Some r \<Rightarrow> Some r | None \<Rightarrow> map_option bl_old_reference lifecycle);
           source_oid = (case Option.bind source_reference (fs_refs state) of Some oid \<Rightarrow> Some oid | None \<Rightarrow> map_option bl_oid lifecycle)
       in case source_oid of
            None \<Rightarrow> (c, Inr changes)
          | Some source_oid \<Rightarrow>
              if \<not> valid_non_zero_oid source_oid then (c, Inr changes)
              else
                let (c, changes) =
                      (case source_reference of
                         Some source_reference \<Rightarrow>
                           if kind = LifecycleRename \<and> source_reference \<noteq> new_reference
                           then (clear_ref_cursor (common_key source_reference) c,
                                 changes @ [\<lparr>rc_reference = source_reference, rc_old = source_oid, rc_new = zero_oid\<rparr>])
                           else (c, changes)
                       | None \<Rightarrow> (c, changes));
                    new_old = (case non_zero_ref (fs_refs state) new_reference of Some oid \<Rightarrow> oid | None \<Rightarrow> zero_oid)
                in (c, Inr (if new_old \<noteq> source_oid
                            then changes @ [\<lparr>rc_reference = new_reference, rc_old = new_old, rc_new = source_oid\<rparr>] else changes)))"

fun delete_branches :: "FamilyState \<Rightarrow> RefChange list \<Rightarrow> str list \<Rightarrow> RefCursor \<Rightarrow> RefCursor \<times> RefChange list" where
  "delete_branches state changes [] c = (c, changes)"
| "delete_branches state changes (reference # references) c =
     delete_branches state
       (case non_zero_ref (fs_refs state) reference of
          Some old \<Rightarrow> changes @ [\<lparr>rc_reference = reference, rc_old = old, rc_new = zero_oid\<rparr>]
        | None \<Rightarrow> changes)
       references (clear_ref_cursor (common_key reference) c)"

definition enrich_branch :: "LogEnv \<Rightarrow> NormalizedCommand \<Rightarrow> FamilyState \<Rightarrow> NormalizedCommand cursor_op" where
  "enrich_branch env cmd state =
     bind_op
       (case parse_branch_command_spec (command_args cmd) of
          CreateOrReset reference \<Rightarrow>
            bind_op (find_common_ref_entry env reference any_transition [''branch:'']) (\<lambda>found.
              case found of
                None \<Rightarrow> ok []
              | Some entry \<Rightarrow> bind_op (consume_entry env entry) (\<lambda>_. ok [entry_to_ref_change entry]))
        | Delete references \<Rightarrow> (\<lambda>c. let (c, changes) = delete_branches state [] references c in (c, Inr changes))
        | Rename old_reference new_reference \<Rightarrow>
            enrich_branch_relocation env state LifecycleRename old_reference new_reference []
        | Copy old_reference new_reference \<Rightarrow>
            enrich_branch_relocation env state LifecycleCopy old_reference new_reference []
        | NoBranchChange \<Rightarrow> ok [])
       (\<lambda>changes. ok (set_ref_changes cmd changes))"

section \<open>Direct updates of references\<close>

fun drain_refs :: "LogEnv \<Rightarrow> RefChange list \<Rightarrow> str list \<Rightarrow> RefChange list cursor_op" where
  "drain_refs env changes [] = ok changes"
| "drain_refs env changes (reference # refs) =
     (if reference = ''HEAD'' \<or> reference = ''ORIG_HEAD'' then drain_refs env changes refs
      else bind_op
             (\<lambda>c. drain_log env (common_key reference) (logs_path (cu_family c) reference) reference changes c)
             (\<lambda>changes. drain_refs env changes refs))"

definition update_refs_from_logs :: "LogEnv \<Rightarrow> NormalizedCommand \<Rightarrow> RefChange list cursor_op" where
  "update_refs_from_logs env cmd =
     bind_op (in_head_log env (nc_worktree cmd) [] (\<lambda>key path. drain_log env key path ''HEAD'' []))
       (\<lambda>changes c. bind_op (lift_result (discover_common_refs env c)) (drain_refs env changes) c)"

fun timestamp_matches :: "LogEnv \<Rightarrow> NormalizedCommand \<Rightarrow> str \<Rightarrow> str \<Rightarrow> int \<Rightarrow> CursorEntry list \<Rightarrow> str list \<Rightarrow> CursorEntry list cursor_op" where
  "timestamp_matches env cmd old new timestamp matches [] = ok matches"
| "timestamp_matches env cmd old new timestamp matches (reference # refs) =
     (if reference = ''ORIG_HEAD'' \<or> reference = ''refs/stash'' then timestamp_matches env cmd old new timestamp matches refs
      else bind_op (direct_ref_transition_entries env cmd reference old new) (\<lambda>entries.
             timestamp_matches env cmd old new timestamp
               (matches @ filter (\<lambda>entry. ce_timestamp_secs entry = Some timestamp) entries) refs))"

definition consume_unique_direct_common_ref_matching_timestamp ::
  "LogEnv \<Rightarrow> NormalizedCommand \<Rightarrow> str \<Rightarrow> str \<Rightarrow> int \<Rightarrow> RefChange list \<Rightarrow> RefChange list cursor_op" where
  "consume_unique_direct_common_ref_matching_timestamp env cmd old new timestamp changes c =
     bind_op (lift_result (discover_common_refs env c)) (\<lambda>refs.
     bind_op (timestamp_matches env cmd old new timestamp [] refs) (\<lambda>matches.
       case matches of
         [entry] \<Rightarrow> bind_op (consume_entry env entry) (\<lambda>_. ok (changes @ [entry_to_ref_change entry]))
       | _ \<Rightarrow> ok changes)) c"

text \<open>Consuming an entry when there is one, and publishing its change.\<close>

definition consume_if_found :: "LogEnv \<Rightarrow> RefChange list \<Rightarrow> CursorEntry option \<Rightarrow> RefChange list cursor_op" where
  "consume_if_found env changes found =
     (case found of
        None \<Rightarrow> ok changes
      | Some entry \<Rightarrow> bind_op (consume_entry env entry) (\<lambda>_. ok (changes @ [entry_to_ref_change entry])))"

definition at_timestamp :: "int \<Rightarrow> CursorEntry list \<Rightarrow> CursorEntry option" where
  "at_timestamp timestamp = find (\<lambda>entry. ce_timestamp_secs entry = Some timestamp)"

definition update_head_ref :: "LogEnv \<Rightarrow> NormalizedCommand \<Rightarrow> FamilyState \<Rightarrow> RefChange \<Rightarrow> RefChange list cursor_op" where
  "update_head_ref env cmd state change =
     (let old = rc_old change; new = rc_new change
      in bind_op (find_direct_ref_transition_entry env cmd ''HEAD'' old new) (\<lambda>found.
           case found of
             None \<Rightarrow> consume_common_refs_matching_transition env old new [change]
           | Some head \<Rightarrow>
               bind_op (consume_entry env head) (\<lambda>_.
                 case ce_timestamp_secs head of
                   None \<Rightarrow> ok [change]
                 | Some timestamp \<Rightarrow>
                     (case current_worktree_branch_ref env cmd state of
                        Some branch \<Rightarrow>
                          bind_op (direct_ref_transition_entries env cmd branch old new) (\<lambda>entries.
                            consume_if_found env [change] (at_timestamp timestamp entries))
                      | None \<Rightarrow> consume_unique_direct_common_ref_matching_timestamp env cmd old new timestamp [change]))))"

definition update_branch_ref ::
  "LogEnv \<Rightarrow> NormalizedCommand \<Rightarrow> FamilyState \<Rightarrow> str \<Rightarrow> RefChange \<Rightarrow> RefChange list cursor_op" where
  "update_branch_ref env cmd state reference change =
     (let old = rc_old change; new = rc_new change
      in bind_op (find_direct_ref_transition_entry env cmd reference old new) (\<lambda>found.
           case found of
             None \<Rightarrow> ok [change]
           | Some branch \<Rightarrow>
               bind_op (consume_entry env branch) (\<lambda>_.
                 case current_worktree_branch_ref env cmd state of
                   Some current_branch \<Rightarrow>
                     if current_branch = reference
                     then bind_op
                            (find_head_entry env (nc_worktree cmd) []
                               \<lparr>et_old_oids = [old, zero_oid], et_new_oid = Some new, et_messages = []\<rparr>)
                            (\<lambda>head.
                               bind_op (case head of Some head \<Rightarrow> consume_entry env head | None \<Rightarrow> ok ()) (\<lambda>_.
                                 ok [change, \<lparr>rc_reference = ''HEAD'', rc_old = old, rc_new = new\<rparr>]))
                     else ok [change]
                 | None \<Rightarrow>
                     (case ce_timestamp_secs branch of
                        None \<Rightarrow> ok [change]
                      | Some timestamp \<Rightarrow>
                          bind_op (direct_ref_transition_entries env cmd ''HEAD'' old new) (\<lambda>entries.
                            consume_if_found env [change] (at_timestamp timestamp entries))))))"

definition spec_transition :: "UpdateRefSpec \<Rightarrow> ExpectedTransition" where
  "spec_transition spec =
     \<lparr>et_old_oids = (case us_old_oid spec of Some oid \<Rightarrow> [oid] | None \<Rightarrow> []), et_new_oid = Some (us_new_oid spec), et_messages = []\<rparr>"

definition update_ref_by_spec :: "LogEnv \<Rightarrow> NormalizedCommand \<Rightarrow> FamilyState \<Rightarrow> UpdateRefSpec \<Rightarrow> RefChange list cursor_op" where
  "update_ref_by_spec env cmd state spec =
     (if us_reference spec = ''HEAD''
      then (case direct_update_ref_change_from_argv spec of
              Some change \<Rightarrow> update_head_ref env cmd state change
            | None \<Rightarrow>
                bind_op (find_head_entry env (nc_worktree cmd) [] (spec_transition spec)) (\<lambda>found.
                  case found of
                    None \<Rightarrow> ok []
                  | Some entry \<Rightarrow>
                      bind_op (consume_entry env entry) (\<lambda>_.
                        consume_common_refs_matching_transition env (ce_old entry) (ce_new entry) [entry_to_ref_change entry])))
      else
        case direct_update_ref_change_from_argv spec of
          Some change \<Rightarrow> update_branch_ref env cmd state (us_reference spec) change
        | None \<Rightarrow>
            bind_op (find_common_ref_entry env (us_reference spec) (spec_transition spec) []) (\<lambda>found.
              case found of
                None \<Rightarrow> ok []
              | Some entry \<Rightarrow>
                  bind_op (consume_entry env entry) (\<lambda>_.
                  bind_op (find_head_entry env (nc_worktree cmd) [] (transition (ce_old entry) (ce_new entry))) (\<lambda>head.
                    consume_if_found env [entry_to_ref_change entry] head))))"

definition enrich_update_ref :: "LogEnv \<Rightarrow> NormalizedCommand \<Rightarrow> FamilyState \<Rightarrow> NormalizedCommand cursor_op" where
  "enrich_update_ref env cmd state =
     bind_op (lift_result (parse_update_ref_spec (command_args cmd))) (\<lambda>spec.
     bind_op (case spec of None \<Rightarrow> update_refs_from_logs env cmd | Some spec \<Rightarrow> update_ref_by_spec env cmd state spec) (\<lambda>changes.
     ok (set_ref_changes cmd changes)))"

section \<open>The stash\<close>

definition resolve_stash_index :: "LogEnv \<Rightarrow> RefCursor \<Rightarrow> nat \<Rightarrow> str + str option" where
  "resolve_stash_index env c index =
     (case get_arg (cu_stash_stack c) index of
        Some oid \<Rightarrow> Inr (Some oid)
      | None \<Rightarrow>
          (let path = logs_path (cu_family c) ''refs/stash''; key = common_key ''refs/stash'';
               cursor = (case cu_offsets c key of Some offset \<Rightarrow> offset | None \<Rightarrow> 2 ^ 64 - 1)
           in map_sum id
                (\<lambda>entries. get_arg (rev (map ce_new (filter (\<lambda>entry. valid_non_zero_oid (ce_new entry))
                   (filter (\<lambda>entry. ce_end_offset entry \<le> cursor) entries)))) index)
                (read_reflog_entries env key path ''refs/stash'' (Some 0))))"

definition resolve_stash_target_at_cursor :: "LogEnv \<Rightarrow> RefCursor \<Rightarrow> str option \<Rightarrow> str + str option" where
  "resolve_stash_target_at_cursor env c target =
     (let target = (case target of Some t \<Rightarrow> t | None \<Rightarrow> (''stash@'' @ ''{0}''))
      in if is_valid_git_oid target then Inr (Some target)
         else case stash_entry_index (if target = ''stash'' \<or> target = ''refs/stash'' then (''stash@'' @ ''{0}'') else target) of
                None \<Rightarrow> Inr None
              | Some index \<Rightarrow> resolve_stash_index env c index)"

fun remove_first :: "'a \<Rightarrow> 'a list \<Rightarrow> 'a list" where
  "remove_first x [] = []"
| "remove_first x (y # ys) = (if y = x then ys else y # remove_first x ys)"

definition apply_stash_ref_entry :: "str \<Rightarrow> CursorEntry \<Rightarrow> RefCursor \<Rightarrow> RefCursor" where
  "apply_stash_ref_entry kind entry c =
     (let push = (\<lambda>stack. if valid_non_zero_oid (ce_new entry) \<and> ce_new entry \<notin> set stack then ce_new entry # stack else stack)
      in if kind = ''push'' \<or> kind = ''save'' then c\<lparr>cu_stash_stack := push (cu_stash_stack c)\<rparr>
         else if kind = ''pop'' \<or> kind = ''drop'' \<or> kind = ''branch''
         then c\<lparr>cu_stash_stack := push (remove_first (ce_old entry) (cu_stash_stack c))\<rparr>
         else c)"

definition remove_stash_from_stack :: "nat option \<Rightarrow> str \<Rightarrow> RefCursor \<Rightarrow> RefCursor" where
  "remove_stash_from_stack target_index target_oid c =
     (let stack = cu_stash_stack c
      in case target_index of
           Some index \<Rightarrow>
             if get_arg stack index = Some target_oid then c\<lparr>cu_stash_stack := take index stack @ drop (Suc index) stack\<rparr>
             else c\<lparr>cu_stash_stack := remove_first target_oid stack\<rparr>
         | None \<Rightarrow> c\<lparr>cu_stash_stack := remove_first target_oid stack\<rparr>)"

definition consume_destructive_stash_operation :: "LogEnv \<Rightarrow> str option \<Rightarrow> NormalizedCommand \<Rightarrow> NormalizedCommand cursor_op" where
  "consume_destructive_stash_operation env target cmd c =
     bind_op (lift_result (common_ref_log_len env c ''refs/stash'')) (\<lambda>log_len_after c.
       let log_was_rewritten =
             (case (cu_offsets c (common_key ''refs/stash''), log_len_after) of
                (Some cursor, Some len) \<Rightarrow> len < cursor
              | (Some _, None) \<Rightarrow> True
              | _ \<Rightarrow> False)
       in if \<not> log_was_rewritten then (c, Inr cmd)
          else
            let target_oid =
                  (case nc_stash_target_oid cmd of
                     Some oid \<Rightarrow> Some oid
                   | None \<Rightarrow> (case resolve_stash_target_at_cursor env c target of Inr found \<Rightarrow> found | Inl _ \<Rightarrow> None))
            in case target_oid of
                 None \<Rightarrow> bind_op (sync_common_ref_cursor_to_log_end_after_rewrite env ''refs/stash'') (\<lambda>_. ok cmd) c
               | Some target_oid \<Rightarrow>
                   let old_top = first_entry (cu_stash_stack c);
                       c = remove_stash_from_stack (stash_target_index target) target_oid c;
                       new_top = (case first_entry (cu_stash_stack c) of Some oid \<Rightarrow> oid | None \<Rightarrow> zero_oid);
                       cmd = (if old_top = Some target_oid
                              then cmd\<lparr>nc_ref_changes := nc_ref_changes cmd @
                                     [\<lparr>rc_reference = ''refs/stash'', rc_old = target_oid, rc_new = new_top\<rparr>]\<rparr>
                              else cmd);
                       cmd = (if nc_stash_target_oid cmd = None then cmd\<lparr>nc_stash_target_oid := Some target_oid\<rparr> else cmd)
                   in bind_op (sync_common_ref_cursor_to_log_end_after_rewrite env ''refs/stash'') (\<lambda>_. ok cmd) c) c"

definition push_change :: "CursorEntry \<Rightarrow> NormalizedCommand \<Rightarrow> NormalizedCommand" where
  "push_change entry cmd = cmd\<lparr>nc_ref_changes := nc_ref_changes cmd @ [entry_to_ref_change entry]\<rparr>"

text \<open>The three parts of a stash command: its target, the stash reference, and a move of \<open>HEAD\<close>.\<close>

definition stash_target_step :: "LogEnv \<Rightarrow> str list \<Rightarrow> str \<Rightarrow> NormalizedCommand \<Rightarrow> NormalizedCommand cursor_op" where
  "stash_target_step env stash_args kind cmd c =
     (if kind \<in> {''apply'', ''pop'', ''drop'', ''branch''}
      then bind_op (lift_result (resolve_stash_target_at_cursor env c (get_arg stash_args (if kind = ''branch'' then 2 else 1))))
             (\<lambda>target. ok (cmd\<lparr>nc_stash_target_oid := target\<rparr>)) c
      else (c, Inr cmd))"

definition stash_ref_step :: "LogEnv \<Rightarrow> str list \<Rightarrow> str \<Rightarrow> NormalizedCommand \<Rightarrow> NormalizedCommand cursor_op" where
  "stash_ref_step env stash_args kind cmd =
     (if kind \<in> {''push'', ''save''}
      then bind_op (find_stash_push_entry env stash_args kind) (\<lambda>found.
             case found of
               None \<Rightarrow> ok cmd
             | Some entry \<Rightarrow>
                 bind_op (consume_entry env entry) (\<lambda>_ c. (apply_stash_ref_entry kind entry c, Inr (push_change entry cmd))))
      else if kind \<in> {''pop'', ''drop''} then consume_destructive_stash_operation env (get_arg stash_args 1) cmd
      else ok cmd)"

definition stash_head_step :: "LogEnv \<Rightarrow> str \<Rightarrow> FamilyState \<Rightarrow> NormalizedCommand \<Rightarrow> NormalizedCommand cursor_op" where
  "stash_head_step env kind state cmd c =
     (if kind \<in> {''apply'', ''pop'', ''branch''} \<and> (kind = ''branch'' \<or> fs_refs state ''HEAD'' = None)
      then let expected = (if kind = ''branch'' then head_expected_transition env c cmd state else any_transition)
           in bind_op (find_head_entry env (nc_worktree cmd) [] expected) (\<lambda>found.
                case found of
                  None \<Rightarrow> ok cmd
                | Some head \<Rightarrow>
                    if message_matches (ce_message head) [''reset:'', ''checkout:'']
                    then bind_op (consume_entry env head) (\<lambda>_. ok (push_change head cmd))
                    else ok cmd) c
      else (c, Inr cmd))"

definition enrich_stash :: "LogEnv \<Rightarrow> NormalizedCommand \<Rightarrow> FamilyState \<Rightarrow> NormalizedCommand cursor_op" where
  "enrich_stash env cmd state =
     (let stash_args = strip_command ''stash'' (command_args cmd);
          kind = (case get_arg stash_args 0 of Some k \<Rightarrow> k | None \<Rightarrow> ''push'')
      in bind_op (stash_target_step env stash_args kind cmd) (\<lambda>cmd.
         bind_op (stash_ref_step env stash_args kind cmd) (\<lambda>cmd.
         stash_head_step env kind state cmd)))"

section \<open>Rebase and pull\<close>

definition original_head_for_explicit_rebase_branch :: "LogEnv \<Rightarrow> str \<Rightarrow> str option \<Rightarrow> str option cursor_op" where
  "original_head_for_explicit_rebase_branch env branch_ref finished_new c =
     (let path = logs_path (cu_family c) branch_ref; key = common_key branch_ref
      in bind_op (reflog_start_offset env key path) (\<lambda>start.
         bind_op (lift_result (read_reflog_entries env key path branch_ref start)) (\<lambda>entries c.
           let finish = Option.bind finished_new (\<lambda>finished_new.
                 find_last (\<lambda>entry. ce_new entry = finished_new \<and> rebase_branch_finish_message_is (ce_message entry) branch_ref \<and>
                              valid_non_zero_oid (ce_old entry)) entries)
           in (c, Inr (case finish of
                         Some entry \<Rightarrow> Some (ce_old entry)
                       | None \<Rightarrow>
                           (case find_last (\<lambda>entry. valid_non_zero_oid (ce_new entry)) entries of
                              Some entry \<Rightarrow> Some (ce_new entry)
                            | None \<Rightarrow> ref_tip_at_cursor_start c key))))) c)"

definition latest_rebase_finish_for_branch :: "CursorEntry list \<Rightarrow> str \<Rightarrow> CursorEntry option" where
  "latest_rebase_finish_for_branch entries branch_ref =
     find_last (\<lambda>entry. rebase_finish_returns_to_branch (ce_message entry) branch_ref) entries"

definition rebase_start_marker_for_explicit_branch :: "CursorEntry list \<Rightarrow> str \<Rightarrow> CursorEntry option" where
  "rebase_start_marker_for_explicit_branch entries branch_ref =
     (case Option.bind (latest_rebase_finish_for_branch entries branch_ref) (\<lambda>finish.
             find_last (\<lambda>entry. ce_end_offset entry < ce_end_offset finish \<and> rebase_reflog_action_is (ce_message entry) ''start'') entries) of
        Some start \<Rightarrow> Some start
      | None \<Rightarrow> find_last (\<lambda>entry. rebase_reflog_action_is (ce_message entry) ''start'') entries)"

definition consume_failed_explicit_branch_rebase_start :: "LogEnv \<Rightarrow> NormalizedCommand \<Rightarrow> NormalizedCommand option cursor_op" where
  "consume_failed_explicit_branch_rebase_start env cmd =
     (case explicit_rebase_branch_arg (rebase_command_args cmd) of
        None \<Rightarrow> ok None
      | Some branch_arg \<Rightarrow>
          in_head_log env (nc_worktree cmd) None (\<lambda>key path.
            let branch_ref = branch_arg_to_ref branch_arg
            in bind_op (reflog_start_offset env key path) (\<lambda>start.
               bind_op (lift_result (read_reflog_entries_including_noops env key path ''HEAD'' start)) (\<lambda>head_entries.
                 case rebase_start_marker_for_explicit_branch head_entries branch_ref of
                   None \<Rightarrow> ok None
                 | Some start_marker \<Rightarrow>
                     let finish_new = Option.bind (latest_rebase_finish_for_branch head_entries branch_ref)
                           (\<lambda>finish. if ce_end_offset finish > ce_end_offset start_marker then Some (ce_new finish) else None)
                     in bind_op (original_head_for_explicit_rebase_branch env branch_ref finish_new) (\<lambda>original_head c.
                          (advance_cursor_to_entry start_marker c,
                           Inr (Some (set_ref_changes cmd
                             (entry_to_ref_change start_marker #
                              (case original_head of
                                 Some oid \<Rightarrow> [\<lparr>rc_reference = branch_ref, rc_old = oid, rc_new = oid\<rparr>]
                               | None \<Rightarrow> []))))))))))"

definition consume_rebase_span :: "LogEnv \<Rightarrow> NormalizedCommand \<Rightarrow> FamilyState \<Rightarrow> CursorEntry \<Rightarrow> NormalizedCommand cursor_op" where
  "consume_rebase_span env cmd state first =
     bind_op (consume_entry env first) (\<lambda>_.
       if nc_exit_code cmd \<noteq> 0 then ok (cmd\<lparr>nc_ref_changes := [entry_to_ref_change first]\<rparr>)
       else bind_op (rebase_span env (nc_worktree cmd) first) (\<lambda>(new, changes).
            bind_op (consume_common_refs_matching_transition env (ce_old first) new changes) (\<lambda>changes.
            bind_op (consume_rebase_finish_branch_ref env (nc_worktree cmd) new state changes) (\<lambda>changes.
            ok (set_ref_changes cmd changes)))))"

definition consume_successful_rebase :: "LogEnv \<Rightarrow> NormalizedCommand \<Rightarrow> FamilyState \<Rightarrow> NormalizedCommand cursor_op" where
  "consume_successful_rebase env cmd state c =
     (let expected = head_expected_transition env c cmd state
      in bind_op (find_rebase_start_entry env cmd expected) (\<lambda>started.
         bind_op (case started of
                    Some entry \<Rightarrow> ok (Some entry)
                  | None \<Rightarrow> find_head_entry_without_hint env (nc_worktree cmd) [''rebase''] expected) (\<lambda>found.
           case found of None \<Rightarrow> ok cmd | Some first \<Rightarrow> consume_rebase_span env cmd state first)) c)"

definition consume_rebase_transition :: "LogEnv \<Rightarrow> NormalizedCommand \<Rightarrow> FamilyState \<Rightarrow> NormalizedCommand cursor_op" where
  "consume_rebase_transition env cmd state =
     bind_op (if nc_exit_code cmd \<noteq> 0 then consume_failed_explicit_branch_rebase_start env cmd else ok None) (\<lambda>handled.
       case handled of
         Some cmd \<Rightarrow> ok cmd
       | None \<Rightarrow>
           if nc_exit_code cmd \<noteq> 0 \<and> rebase_has_control_mode (rebase_command_args cmd) then ok cmd
           else consume_successful_rebase env cmd state)"

definition consume_pull_head_span_for_action ::
  "LogEnv \<Rightarrow> NormalizedCommand \<Rightarrow> FamilyState \<Rightarrow> str list \<Rightarrow> ExpectedTransition \<Rightarrow> str \<Rightarrow> NormalizedCommand cursor_op" where
  "consume_pull_head_span_for_action env cmd state message_prefixes expected action =
     bind_op (find_pull_start_entry env cmd expected action) (\<lambda>started.
     bind_op (case started of
                Some entry \<Rightarrow> ok (Some entry)
              | None \<Rightarrow> find_head_entry_without_hint env (nc_worktree cmd) message_prefixes expected) (\<lambda>found.
       case found of
         None \<Rightarrow> ok cmd
       | Some first \<Rightarrow>
           bind_op (consume_entry env first) (\<lambda>_.
           bind_op (pull_span env (nc_worktree cmd) message_prefixes action first) (\<lambda>(new, changes).
           bind_op (consume_common_refs_matching_transition env (ce_old first) new changes) (\<lambda>changes.
           bind_op (consume_pull_finish_branch_ref env (nc_worktree cmd) new state action message_prefixes changes) (\<lambda>changes.
           ok (set_ref_changes cmd changes)))))))"

definition consume_pull_transition :: "LogEnv \<Rightarrow> NormalizedCommand \<Rightarrow> FamilyState \<Rightarrow> NormalizedCommand cursor_op" where
  "consume_pull_transition env cmd state c =
     (let action = pull_reflog_action cmd
      in consume_pull_head_span_for_action env cmd state (pull_reflog_message_prefixes action)
           (head_expected_transition env c cmd state) action c)"

section \<open>Every command\<close>

definition reset_expected :: "LogEnv \<Rightarrow> RefCursor \<Rightarrow> NormalizedCommand \<Rightarrow> FamilyState \<Rightarrow> ExpectedTransition" where
  "reset_expected env c cmd state =
     (let expected = head_expected_transition env c cmd state; reset_messages = reset_reflog_messages (command_args cmd)
      in if reset_messages \<noteq> [] then with_reflog_messages (without_old_oid_constraint expected) reset_messages else expected)"

definition enrich_primary :: "LogEnv \<Rightarrow> str \<Rightarrow> NormalizedCommand \<Rightarrow> FamilyState \<Rightarrow> NormalizedCommand cursor_op" where
  "enrich_primary env primary cmd state c =
     (let head_transition = (\<lambda>prefixes. consume_head_transition_for_command env cmd prefixes (head_expected_transition env c cmd state) c)
      in if primary = ''commit'' then enrich_commit env cmd state c
         else if primary = ''revert'' then enrich_revert env cmd state c
         else if primary = ''reset'' then consume_head_transition_for_command env cmd [''reset:''] (reset_expected env c cmd state) c
         else if primary = ''checkout''
         then if checkout_is_path_checkout cmd then (c, Inr cmd) else head_transition [''checkout:'']
         else if primary = ''switch'' then head_transition [''checkout:'', ''switch:'']
         else if primary = ''merge'' then head_transition [''merge'']
         else if primary = ''cherry-pick'' then enrich_cherry_pick env cmd state c
         else if primary = ''rebase'' then consume_rebase_transition env cmd state c
         else if primary = ''pull'' then consume_pull_transition env cmd state c
         else if primary = ''branch'' then enrich_branch env cmd state c
         else if primary = ''stash'' then enrich_stash env cmd state c
         else if primary = ''update-ref'' then enrich_update_ref env cmd state c
         else (c, Inr cmd))"

definition enrich_command ::
  "LogEnv \<Rightarrow> RefCursor \<Rightarrow> NormalizedCommand \<Rightarrow> FamilyState \<Rightarrow> RefCursor \<times> (str + NormalizedCommand \<times> (str \<rightharpoonup> str))" where
  "enrich_command env c cmd state =
     (let cmd = cmd\<lparr>nc_ref_changes := []\<rparr>
      in bind_op (initialize_from_command_reflog_start_offsets env cmd) (\<lambda>_ c.
         bind_op (lift_result (refs_at_reflog_start_offsets env (cu_family c) (nc_reflog_start_offsets cmd))) (\<lambda>command_start_refs.
           if nc_exit_code cmd \<noteq> 0 \<and> \<not> command_can_move_refs_on_nonzero (nc_primary_command cmd)
           then ok (cmd, command_start_refs)
           else case nc_primary_command cmd of
                  None \<Rightarrow> ok (cmd, command_start_refs)
                | Some primary \<Rightarrow>
                    if \<not> command_uses_ref_cursor primary then ok (cmd, command_start_refs)
                    else bind_op (enrich_primary env primary cmd state) (\<lambda>cmd.
                           ok (if nc_ref_changes cmd \<noteq> [] then cmd\<lparr>nc_confidence := High\<rparr> else cmd, command_start_refs))) c) c)"

end
