(* ===== verification/Cursor_Properties.thy ===== *)
theory Cursor_Properties
  imports Cursor_Commands Family_Actors
begin

text \<open>
  What the reference cursor guarantees. An operation on one log leaves the cursors of the others alone; a
  command that moves \<open>HEAD\<close> once takes one entry of the log of \<open>HEAD\<close> that no command had taken; over a log
  that only grows, no entry is credited to two such commands; and draining a log publishes every
  entry that was left, once and in order.
\<close>

section \<open>Frames\<close>

definition same_cursor :: "str \<Rightarrow> RefCursor \<Rightarrow> RefCursor \<Rightarrow> bool" where
  "same_cursor key c c' =
     (cu_offsets c' key = cu_offsets c key \<and> cu_anchors c' key = cu_anchors c key \<and>
      cu_consumed_offsets c' key = cu_consumed_offsets c key \<and> cu_consumed_anchors c' key = cu_consumed_anchors c key \<and>
      cu_family c' = cu_family c)"

lemma same_cursor_refl [simp]: "same_cursor key c c"
  by (simp add: same_cursor_def)

lemma same_cursor_trans: "same_cursor key c c' \<Longrightarrow> same_cursor key c' c'' \<Longrightarrow> same_cursor key c c''"
  by (simp add: same_cursor_def)

lemma same_cursor_taken: "same_cursor (ce_key x) c c' \<Longrightarrow> taken c' x = taken c x"
  by (simp add: same_cursor_def taken_def entry_consumed_def)

lemma same_cursor_anchored: "same_cursor key c c' \<Longrightarrow> anchored lossy bytes c' key = anchored lossy bytes c key"
  by (simp add: same_cursor_def anchored_def)

lemma same_cursor_offsets: "same_cursor key c c' \<Longrightarrow> cu_offsets c' key = cu_offsets c key"
  by (simp add: same_cursor_def)

definition leaves :: "str \<Rightarrow> 'a cursor_op \<Rightarrow> bool" where
  "leaves key m = (\<forall>c. same_cursor key c (fst (m c)))"

lemma leavesD: "leaves key m \<Longrightarrow> m c = (c', r) \<Longrightarrow> same_cursor key c c'"
  by (metis fst_conv leaves_def)

lemma leaves_ok [simp]: "leaves key (ok x)" and leaves_lift [simp]: "leaves key (lift_result r)"
  by (simp_all add: leaves_def ok_def lift_result_def)

lemma leaves_bind:
  assumes "leaves key m" "\<And>c c' x. m c = (c', Inr x) \<Longrightarrow> leaves key (f x)"
  shows "leaves key (bind_op m f)"
  unfolding leaves_def
proof
  fix c
  obtain c' r where m: "m c = (c', r)" by fastforce
  then have "same_cursor key c c'" using assms(1) by (rule leavesD [rotated])
  then show "same_cursor key c (fst (bind_op m f c))"
    using assms(2) m by (cases r) (auto simp: bind_op_def leaves_def intro: same_cursor_trans)
qed

lemma leaves_start: "k \<noteq> key \<Longrightarrow> leaves key (reflog_start_offset env k path)"
  by (auto simp: leaves_def reflog_start_offset_def clear_ref_cursor_def same_cursor_def split: option.splits sum.splits)

lemma leaves_consume: "ce_key entry \<noteq> key \<Longrightarrow> leaves key (consume_entry env entry)"
  by (auto simp: leaves_def consume_entry_def compact_consumed_entries_def mark_consumed_def same_cursor_def Let_def
      split: sum.splits)

lemma leaves_anchor_at: "k \<noteq> key \<Longrightarrow> leaves key (anchor_at env k path offset)"
  by (auto simp: leaves_def anchor_at_def same_cursor_def split: sum.splits)

lemma leaves_search:
  assumes "k \<noteq> key"
  shows "leaves key (find_entry_in_log_with_hint env k path reference expected prefixes use_hint)"
  unfolding find_entry_in_log_with_hint_def
  by (intro leaves_bind leaves_start assms leaves_lift) (simp add: leaves_def Let_def)

section \<open>What a search finds\<close>

lemma select_loop_mem: "select_loop hint latest xs = Some x \<Longrightarrow> x \<in> set xs \<or> latest = Some x"
  by (induction hint latest xs rule: select_loop.induct) (auto split: if_splits)

lemma select_candidate_mem: "select_candidate_with_hint c key xs = Some x \<Longrightarrow> x \<in> set xs"
  by (auto simp: select_candidate_with_hint_def first_entry_def dest: select_loop_mem split: option.splits list.splits)

lemma search_found:
  assumes "find_entry_in_log_with_hint env k path reference expected prefixes use_hint c = (c', Inr (Some x))"
  obtains bytes where "le_read env path = Content bytes" "reflog_start_offset env k path c = (c', Inr (cu_offsets c' k))"
    "x \<in> set (log_entries (le_lossy env) bytes k path reference (cu_offsets c' k))" "\<not> entry_consumed c' x"
    "transition_matches expected x"
proof -
  obtain bytes where log: "le_read env path = Content bytes"
    using assms
    by (cases "le_read env path")
      (auto simp: find_entry_in_log_with_hint_def bind_op_def lift_result_def read_reflog_entries_def read_reflog_records_def
        first_entry_def Let_def dest: select_candidate_mem split: prod.splits sum.splits if_splits)
  obtain c1 r where start: "reflog_start_offset env k path c = (c1, r)" by fastforce
  note fits = reflog_start_offset_fits [OF log start]
  have "x \<in> set (filter (\<lambda>entry. \<not> entry_consumed c' entry \<and> transition_matches expected entry \<and>
      message_matches (ce_message entry) prefixes) (log_entries (le_lossy env) bytes k path reference (cu_offsets c' k)))"
    and "c1 = c'"
    using assms fits(1)
    by (auto simp: find_entry_in_log_with_hint_def bind_op_def lift_result_def start read_reflog_entries_Content [OF log] Let_def
        dest!: first_entry_filter select_candidate_mem split: if_splits)
  then show thesis using that [OF log] start fits(1) by auto
qed

lemma search_found_fields:
  assumes "find_entry_in_log_with_hint env k path reference expected prefixes use_hint c = (c', Inr (Some x))"
  shows "ce_key x = k" "ce_path x = path" "ce_reference x = reference"
  using search_found [OF assms] log_entries_fields(1-3) by metis+

text \<open>A cursor that fits its log, and its entries.\<close>

definition in_log :: "LogEnv \<Rightarrow> str \<Rightarrow> str \<Rightarrow> RefCursor \<Rightarrow> bool" where
  "in_log env key path c =
     (case le_read env path of
        Content bytes \<Rightarrow> cu_offsets c key \<noteq> None \<and> line_aligned bytes (cu_offsets c key) \<and> anchored (le_lossy env) bytes c key
      | _ \<Rightarrow> False)"

definition entries_of_log :: "LogEnv \<Rightarrow> str \<Rightarrow> str \<Rightarrow> str \<Rightarrow> CursorEntry list" where
  "entries_of_log env key path reference =
     (case le_read env path of Content bytes \<Rightarrow> log_entries (le_lossy env) bytes key path reference None | _ \<Rightarrow> [])"

lemma in_log_same: "same_cursor key c c' \<Longrightarrow> in_log env key path c \<Longrightarrow> in_log env key path c'"
  by (auto simp: in_log_def same_cursor_anchored same_cursor_offsets split: file_content.splits)

lemma in_log_start: "in_log env key path c \<Longrightarrow> reflog_start_offset env key path c = (c, Inr (cu_offsets c key))"
  by (auto simp: in_log_def reflog_start_offset_Content aligned_within split: file_content.splits)

lemma search_in_log:
  assumes "in_log env key path c" "find_entry_in_log_with_hint env key path reference expected prefixes use_hint c = (c', Inr (Some x))"
  shows "c' = c" "x \<in> set (entries_of_log env key path reference)" "\<not> taken c x" "transition_matches expected x"
proof -
  from assms(2) obtain bytes where log: "le_read env path = Content bytes" and c': "reflog_start_offset env key path c = (c', Inr (cu_offsets c' key))"
    and x: "x \<in> set (log_entries (le_lossy env) bytes key path reference (cu_offsets c' key))" "\<not> entry_consumed c' x"
    and matches: "transition_matches expected x"
    by (rule search_found)
  show "c' = c" using c' in_log_start [OF assms(1)] by simp
  show "transition_matches expected x" by (rule matches)
  have "line_aligned bytes (cu_offsets c key)" using assms(1) log by (simp add: in_log_def)
  note from_cursor = log_entries_from_cursor [OF this, of "le_lossy env" path reference]
  show "x \<in> set (entries_of_log env key path reference)" "\<not> taken c x"
    using x from_cursor log_entries_fields(1) [OF x(1)] \<open>c' = c\<close>
    by (auto simp: entries_of_log_def log taken_def split: option.splits)
qed

lemma search_in_log_none:
  assumes "in_log env key path c" "find_entry_in_log_with_hint env key path reference expected prefixes use_hint c = (c', r)"
  shows "c' = c"
  using assms(2) in_log_start [OF assms(1)]
  by (auto simp: find_entry_in_log_with_hint_def bind_op_def lift_result_def Let_def split: sum.splits)

lemma consume_entry_keeps:
  assumes log: "le_read env (ce_path x) = Content bytes" and "ce_end_offset y \<noteq> ce_end_offset x" "taken c y"
  shows "taken (fst (consume_entry env x c)) y"
proof -
  have marked: "taken (mark_consumed x c) y" using assms(2,3) by (auto simp: taken_def entry_consumed_mark)
  from log show ?thesis
  proof (cases rule: compact_cases [where key = "ce_key x" and reference = "ce_reference x" and c = "mark_consumed x c"])
    case same
    then show ?thesis using marked by (simp add: consume_entry_def)
  next
    case moved
    then show ?thesis using marked moved(2)
      by (auto simp: consume_entry_def taken_def entry_consumed_advanced split: option.splits)
  qed
qed

lemma consume_in_log:
  assumes "in_log env key path c" "x \<in> set (entries_of_log env key path reference)" "\<not> taken c x"
  obtains c' where "consume_entry env x c = (c', Inr ())" "in_log env key path c'"
    "\<And>y. y \<in> set (entries_of_log env key path reference) \<Longrightarrow> taken c' y \<longleftrightarrow> taken c y \<or> y = x"
    "\<And>y. ce_end_offset y \<noteq> ce_end_offset x \<Longrightarrow> taken c y \<Longrightarrow> taken c' y"
proof -
  obtain bytes where log: "le_read env path = Content bytes" and al: "line_aligned bytes (cu_offsets c key)"
    and anch: "anchored (le_lossy env) bytes c key" and some: "cu_offsets c key \<noteq> None"
    using assms(1) by (auto simp: in_log_def split: file_content.splits)
  have x: "x \<in> set (log_entries (le_lossy env) bytes key path reference None)"
    using assms(2) by (simp add: entries_of_log_def log)
  obtain c' where c': "consume_entry env x c = (c', Inr ())" "line_aligned bytes (cu_offsets c' key)"
    "\<And>y. y \<in> set (log_entries (le_lossy env) bytes key path reference None) \<Longrightarrow> taken c' y \<longleftrightarrow> taken c y \<or> y = x"
    using consume_entry_takes [OF log al x assms(3)] by blast
  have "anchored (le_lossy env) bytes c' key"
    using consume_entry_anchored [OF log al anch log_entries_fields(1-3) [OF x]] c'(1) by simp
  moreover have "cu_offsets c' key \<noteq> None"
    using c'(1) some by (auto simp: consume_entry_def compact_consumed_entries_def Let_def split: sum.splits if_splits)
  moreover have "taken c' y" if "ce_end_offset y \<noteq> ce_end_offset x" "taken c y" for y
    using consume_entry_keeps [OF _ that, of env bytes] log log_entries_fields(2) [OF x] c'(1) by simp
  ultimately show thesis using that [OF c'(1)] c'(2,3) by (simp add: in_log_def entries_of_log_def log)
qed

section \<open>Commands that move HEAD once\<close>

text \<open>The logs of other references have other keys.\<close>

lemma common_key_not_head [simp]: "common_key reference \<noteq> head_key env git_dir" "head_key env git_dir \<noteq> common_key reference"
  by (simp_all add: common_key_def head_key_def)

lemma leaves_common_search: "leaves (head_key env' dir) (find_common_ref_entry env reference expected prefixes)"
  unfolding leaves_def find_common_ref_entry_def find_entry_in_log_def
  using leaves_search [of "common_key reference" "head_key env' dir"] by (simp add: leaves_def)

lemma common_search_fields:
  "find_common_ref_entry env reference expected prefixes c = (c', Inr (Some x)) \<Longrightarrow> ce_key x = common_key reference \<and> ce_reference x = reference"
  unfolding find_common_ref_entry_def find_entry_in_log_def by (simp add: search_found_fields)

lemma leaves_consume_refs: "leaves (head_key env' dir) (consume_refs_loop env old new changes refs)"
proof (induction refs arbitrary: changes)
  case (Cons reference refs)
  show ?case
    by (auto intro!: leaves_bind leaves_common_search leaves_consume Cons dest!: common_search_fields split: option.split)
qed simp

lemma leaves_common_refs: "leaves (head_key env' dir) (consume_common_refs_matching_transition env old new changes)"
proof -
  have "leaves (head_key env' dir) (bind_op (lift_result (discover_common_refs env c)) (consume_refs_loop env old new changes))" for c
    by (intro leaves_bind leaves_lift leaves_consume_refs)
  then show ?thesis by (simp add: leaves_def consume_common_refs_matching_transition_def)
qed

lemma consume_refs_changes:
  "consume_refs_loop env old new changes refs c = (c', Inr out) \<Longrightarrow>
     \<exists>added. out = changes @ added \<and> (\<forall>change \<in> set added. rc_reference change \<noteq> ''HEAD'')"
proof (induction refs arbitrary: changes c)
  case (Cons reference refs)
  show ?case
  proof (cases "reference = ''HEAD'' \<or> reference = ''ORIG_HEAD'' \<or> reference = ''refs/stash''")
    case True
    then show ?thesis using Cons by simp
  next
    case False
    obtain c1 r where find: "find_common_ref_entry env reference (transition old new) [] c = (c1, r)" by fastforce
    with Cons.prems False obtain found where r: "r = Inr found" by (cases r) (auto simp: bind_op_def)
    show ?thesis
    proof (cases found)
      case None
      then show ?thesis using Cons find r False by (simp add: bind_op_def)
    next
      case (Some x)
      have "rc_reference (entry_to_ref_change x) = reference"
        using common_search_fields find r Some by (simp add: entry_to_ref_change_def)
      moreover obtain c2 where "consume_refs_loop env old new (changes @ [entry_to_ref_change x]) refs c2 = (c', Inr out)"
        using Cons.prems find r Some False by (auto simp: bind_op_def split: prod.splits sum.splits)
      ultimately show ?thesis using Cons.IH False by fastforce
    qed
  qed
qed (simp add: ok_def)

lemma common_refs_changes:
  "consume_common_refs_matching_transition env old new changes c = (c', Inr out) \<Longrightarrow>
     \<exists>added. out = changes @ added \<and> (\<forall>change \<in> set added. rc_reference change \<noteq> ''HEAD'')"
  by (auto simp: consume_common_refs_matching_transition_def bind_op_def lift_result_def split: sum.splits dest: consume_refs_changes)

lemma set_dedup [simp]: "set (dedup_ref_changes changes) = set changes"
  by (simp add: dedup_ref_changes_def)

text \<open>What a command takes of the log of \<open>HEAD\<close>: entries of the log, not taken before.\<close>

definition takes :: "LogEnv \<Rightarrow> str \<Rightarrow> str \<Rightarrow> str \<Rightarrow> RefCursor \<Rightarrow> RefCursor \<Rightarrow> CursorEntry list \<Rightarrow> bool" where
  "takes env key path reference c c' es =
     (in_log env key path c' \<and> set es \<subseteq> set (entries_of_log env key path reference) \<and> distinct es \<and>
      (\<forall>x \<in> set es. \<not> taken c x) \<and>
      (\<forall>x \<in> set (entries_of_log env key path reference). taken c' x \<longleftrightarrow> taken c x \<or> x \<in> set es) \<and>
      (\<forall>y. ce_key y = key \<longrightarrow> (\<forall>x \<in> set es. ce_end_offset y \<noteq> ce_end_offset x) \<longrightarrow> taken c y \<longrightarrow> taken c' y))"

lemma entries_of_log_key: "x \<in> set (entries_of_log env key path reference) \<Longrightarrow> ce_key x = key"
  by (auto simp: entries_of_log_def dest: log_entries_fields(1) split: file_content.splits)

lemma takes_none: "in_log env key path c \<Longrightarrow> same_cursor key c c' \<Longrightarrow> takes env key path reference c c' []"
  by (auto simp: takes_def in_log_same same_cursor_taken entries_of_log_key)

lemma takes_then_same:
  "takes env key path reference c c1 es \<Longrightarrow> same_cursor key c1 c2 \<Longrightarrow> takes env key path reference c c2 es"
  by (auto simp: takes_def in_log_same same_cursor_taken entries_of_log_key)

definition publishes :: "NormalizedCommand \<Rightarrow> CursorEntry list \<Rightarrow> bool" where
  "publishes cmd es = ({change \<in> set (nc_ref_changes cmd). rc_reference change = ''HEAD''} = entry_to_ref_change ` set es)"

lemma consume_head_entry_takes:
  assumes "in_log env (head_key env dir) path c" "x \<in> set (entries_of_log env (head_key env dir) path ''HEAD'')" "\<not> taken c x"
    "consume_head_entry_for_command env cmd x c = (c', r)"
  shows "takes env (head_key env dir) path ''HEAD'' c c' [x] \<and> (case r of Inr cmd' \<Rightarrow> publishes cmd' [x] | Inl _ \<Rightarrow> True)"
proof -
  let ?key = "head_key env dir"
  obtain c1 where c1: "consume_entry env x c = (c1, Inr ())" "in_log env ?key path c1"
    "\<And>y. y \<in> set (entries_of_log env ?key path ''HEAD'') \<Longrightarrow> taken c1 y \<longleftrightarrow> taken c y \<or> y = x"
    "\<And>y. ce_end_offset y \<noteq> ce_end_offset x \<Longrightarrow> taken c y \<Longrightarrow> taken c1 y"
    using consume_in_log [OF assms(1-3)] by blast
  then have takes1: "takes env ?key path ''HEAD'' c c1 [x]" using assms(2,3) by (simp add: takes_def)
  obtain c2 r2 where c2: "consume_common_refs_matching_transition env (ce_old x) (ce_new x) [entry_to_ref_change x] c1 = (c2, r2)" by fastforce
  have "same_cursor ?key c1 c2" using leaves_common_refs c2 by (rule leavesD)
  moreover have "c' = c2" "r2 = Inr changes \<Longrightarrow> r = Inr (set_ref_changes cmd changes)" "r2 = Inl err \<Longrightarrow> r = Inl err" for changes err
    using assms(4) c1(1) c2 by (auto simp: consume_head_entry_for_command_def bind_op_def ok_def split: sum.splits)
  moreover have "publishes (set_ref_changes cmd changes) [x]" if "r2 = Inr changes" for changes
  proof -
    have "rc_reference (entry_to_ref_change x) = ''HEAD''"
      using assms(2) log_entries_fields(3) by (auto simp: entries_of_log_def entry_to_ref_change_def split: file_content.splits)
    then show ?thesis
      using common_refs_changes c2 that by (fastforce simp: publishes_def set_ref_changes_def)
  qed
  ultimately show ?thesis using takes_then_same [OF takes1] by (cases r2) auto
qed

lemma window_in_log:
  assumes "in_log env (head_key env dir) (logs_path dir ''HEAD'') c" "git_dir_of env (nc_worktree cmd) = Some dir"
    "find_head_entry_in_command_window env cmd prefixes expected c = (c', r)"
  shows "c' = c" "r = Inr (Some x) \<Longrightarrow> x \<in> set (entries_of_log env (head_key env dir) (logs_path dir ''HEAD'') ''HEAD'') \<and> \<not> taken c x"
proof -
  let ?key = "head_key env dir" and ?path = "logs_path dir ''HEAD''"
  obtain bytes where log: "le_read env ?path = Content bytes" and al: "line_aligned bytes (cu_offsets c ?key)"
    using assms(1) by (auto simp: in_log_def split: file_content.splits)
  define candidates where "candidates = filter (\<lambda>entry. \<not> entry_consumed c entry \<and> transition_matches expected entry \<and>
      message_matches (ce_message entry) prefixes \<and> in_window cmd entry)
    (log_entries (le_lossy env) bytes ?key ?path ''HEAD'' (cu_offsets c ?key))"
  have "find_head_entry_in_command_window env cmd prefixes expected c = (c, Inr (if cu_command_start_hints c ?key \<noteq> None then select_candidate_with_hint c ?key candidates
      else case candidates of [entry] \<Rightarrow> Some entry | _ \<Rightarrow> None))"
    using in_log_start [OF assms(1)] assms(2)
    by (simp add: find_head_entry_in_command_window_def in_head_log_def bind_op_def lift_result_def
        read_reflog_entries_Content [OF log] candidates_def Let_def)
  then have res: "(c', r) = (c, Inr (if cu_command_start_hints c ?key \<noteq> None then select_candidate_with_hint c ?key candidates
      else case candidates of [entry] \<Rightarrow> Some entry | _ \<Rightarrow> None))"
    using assms(3) by simp
  then show "c' = c" by simp
  assume "r = Inr (Some x)"
  then have "x \<in> set candidates"
    using res by (auto dest: select_candidate_mem [OF sym] split: if_splits list.splits)
  then show "x \<in> set (entries_of_log env ?key ?path ''HEAD'') \<and> \<not> taken c x"
    using log_entries_from_cursor [OF al, of "le_lossy env" ?path "''HEAD''"]
    by (auto simp: candidates_def entries_of_log_def log taken_def log_entries_fields(1) split: option.splits)
qed

lemma head_search_in_log:
  assumes "in_log env (head_key env dir) (logs_path dir ''HEAD'') c" "git_dir_of env worktree = Some dir"
    "find_head_entry env worktree prefixes expected c = (c', r)"
  shows "c' = c" "r = Inr (Some x) \<Longrightarrow> x \<in> set (entries_of_log env (head_key env dir) (logs_path dir ''HEAD'') ''HEAD'') \<and> \<not> taken c x"
  using search_in_log [OF assms(1)] search_in_log_none [OF assms(1)] assms(2,3)
  by (auto simp: find_head_entry_def in_head_log_def find_entry_in_log_def)

lemma commit_search_in_log:
  assumes "in_log env (head_key env dir) (logs_path dir ''HEAD'') c" "git_dir_of env (nc_worktree cmd) = Some dir"
    "find_commit_head_entry env cmd prefixes expected c = (c', r)"
  shows "c' = c" "r = Inr (Some x) \<Longrightarrow> x \<in> set (entries_of_log env (head_key env dir) (logs_path dir ''HEAD'') ''HEAD'') \<and> \<not> taken c x"
proof -
  obtain c1 r1 where first: "find_head_entry env (nc_worktree cmd) prefixes expected c = (c1, r1)" by fastforce
  note found = head_search_in_log [OF assms(1,2) first]
  obtain c2 r2 where second:
    "find_head_entry_in_command_window env cmd prefixes (without_reflog_message_constraint expected) c = (c2, r2)" by fastforce
  note window = window_in_log [OF assms(1,2) second]
  show "c' = c" using assms(3) first second found(1) window(1)
    by (auto simp: find_commit_head_entry_def bind_op_def ok_def split: sum.splits option.splits if_splits)
  show "x \<in> set (entries_of_log env (head_key env dir) (logs_path dir ''HEAD'') ''HEAD'') \<and> \<not> taken c x" if "r = Inr (Some x)"
    using assms(3) first second found window that
    by (auto simp: find_commit_head_entry_def bind_op_def ok_def split: sum.splits option.splits if_splits)
qed

text \<open>Searching, then consuming what was found for the command.\<close>

definition takes_at_most_one ::
  "LogEnv \<Rightarrow> str \<Rightarrow> RefCursor \<Rightarrow> RefCursor \<times> (str + NormalizedCommand) \<Rightarrow> bool" where
  "takes_at_most_one env dir c result =
     (\<exists>es. length es \<le> 1 \<and> takes env (head_key env dir) (logs_path dir ''HEAD'') ''HEAD'' c (fst result) es \<and>
       (case snd result of Inr cmd' \<Rightarrow> publishes cmd' es | Inl _ \<Rightarrow> True))"

lemma search_then_consume:
  assumes log: "in_log env (head_key env dir) (logs_path dir ''HEAD'') c" and "nc_ref_changes cmd = []"
    and search: "\<And>c' r x. m c = (c', r) \<Longrightarrow> c' = c \<and>
      (r = Inr (Some x) \<longrightarrow> x \<in> set (entries_of_log env (head_key env dir) (logs_path dir ''HEAD'') ''HEAD'') \<and> \<not> taken c x)"
  shows "takes_at_most_one env dir c
    (bind_op m (\<lambda>found. case found of None \<Rightarrow> ok cmd | Some entry \<Rightarrow> consume_head_entry_for_command env cmd entry) c)"
proof -
  obtain r where m: "m c = (c, r)" using search by (metis prod.exhaust)
  have none: "takes env (head_key env dir) (logs_path dir ''HEAD'') ''HEAD'' c c []" using takes_none [OF log] by simp
  show ?thesis
  proof (cases "\<exists>x. r = Inr (Some x)")
    case False
    then show ?thesis
      using none assms(2) m
      by (auto simp: takes_at_most_one_def bind_op_def ok_def publishes_def intro!: exI [of _ "[]"] split: sum.splits option.splits)
  next
    case True
    then obtain x where x: "r = Inr (Some x)" by blast
    obtain c' r' where consumed: "consume_head_entry_for_command env cmd x c = (c', r')" by fastforce
    from consume_head_entry_takes [OF log _ _ consumed] search [OF m] x
    have "takes env (head_key env dir) (logs_path dir ''HEAD'') ''HEAD'' c c' [x] \<and> (case r' of Inr cmd' \<Rightarrow> publishes cmd' [x] | Inl _ \<Rightarrow> True)"
      by blast
    then show ?thesis using m x consumed by (auto simp: takes_at_most_one_def bind_op_def intro!: exI [of _ "[x]"])
  qed
qed

definition moves_head_once :: "str \<Rightarrow> bool" where
  "moves_head_once primary = (primary \<in> {''commit'', ''reset'', ''checkout'', ''switch'', ''merge''})"

lemma head_transition_takes:
  assumes "in_log env (head_key env dir) (logs_path dir ''HEAD'') c" "git_dir_of env (nc_worktree cmd) = Some dir" "nc_ref_changes cmd = []"
  shows "takes_at_most_one env dir c (consume_head_transition_for_command env cmd prefixes expected c)"
  unfolding consume_head_transition_for_command_def
  by (rule search_then_consume [OF assms(1,3)]) (use head_search_in_log [OF assms(1,2)] in blast)

lemma commit_takes:
  assumes "in_log env (head_key env dir) (logs_path dir ''HEAD'') c" "git_dir_of env (nc_worktree cmd) = Some dir" "nc_ref_changes cmd = []"
  shows "takes_at_most_one env dir c (enrich_commit env cmd state c)"
  unfolding enrich_commit_def Let_def
  by (rule search_then_consume [OF assms(1,3)]) (use commit_search_in_log [OF assms(1,2)] in blast)

lemma enrich_primary_takes:
  assumes "moves_head_once primary" "in_log env (head_key env dir) (logs_path dir ''HEAD'') c"
    "git_dir_of env (nc_worktree cmd) = Some dir" "nc_ref_changes cmd = []"
  shows "takes_at_most_one env dir c (enrich_primary env primary cmd state c)"
proof -
  have "takes_at_most_one env dir c (c, Inr cmd)"
    using takes_none [OF assms(2)] assms(4) by (auto simp: takes_at_most_one_def publishes_def intro!: exI [of _ "[]"])
  then show ?thesis
    using assms(1) commit_takes [OF assms(2-4)] head_transition_takes [OF assms(2-4)]
    by (auto simp: enrich_primary_def moves_head_once_def Let_def)
qed

text \<open>A cursor that exists is not moved by the offsets that come with a command.\<close>

lemma initialize_key_same:
  assumes "cu_offsets c key \<noteq> None"
  shows "same_cursor key c (fst (initialize_key env cmd k offset c))"
proof (cases "cu_offsets c k = None")
  case False
  then show ?thesis by (simp add: initialize_key_def insert_hint_def same_cursor_def)
next
  case True
  with assms have "k \<noteq> key" by auto
  then have init: "leaves key (initialize_reflog_cursor env k seed)" for seed
    using leaves_anchor_at [of k key env]
    by (auto simp: leaves_def initialize_reflog_cursor_def Let_def same_cursor_def split: option.split)
  have hint: "same_cursor key c' (insert_hint k offset c')" for c' by (simp add: insert_hint_def same_cursor_def)
  have hinted: "leaves key (\<lambda>c'. initialize_reflog_cursor env k seed (insert_hint k offset c'))" for seed
    using same_cursor_trans [OF hint] init by (auto simp: leaves_def)
  then have seeded: "leaves key (\<lambda>c'. initialize_reflog_cursor env k seed (if seed \<noteq> offset then insert_hint k offset c' else c'))"
    "leaves key (\<lambda>c'. if seed \<noteq> offset then initialize_reflog_cursor env k seed (insert_hint k offset c') else (c', Inr ()))" for seed
    using init by (cases "seed = offset"; simp add: leaves_def)+
  have "leaves key (bind_op (lift_result (command_start_offset_is_authoritative env c k offset)) (\<lambda>authoritative.
      if authoritative
      then bind_op (lift_result (clamp_seed_to_own_entry env c k offset cmd)) (\<lambda>seed c.
             initialize_reflog_cursor env k seed (if seed \<noteq> offset then insert_hint k offset c else c))
      else if command_can_clamp_non_authoritative_cold_seed cmd
      then bind_op (lift_result (clamp_seed_to_own_entry env c k offset cmd)) (\<lambda>seed c.
             if seed \<noteq> offset then initialize_reflog_cursor env k seed (insert_hint k offset c) else (c, Inr ()))
      else ok ()))"
    using seeded by (auto intro!: leaves_bind)
  then show ?thesis using True by (simp add: initialize_key_def leaves_def)
qed

lemma initialize_keys_same:
  "cu_offsets c key \<noteq> None \<Longrightarrow> same_cursor key c (fst (initialize_keys env cmd keys c))"
proof (induction keys arbitrary: c)
  case (Cons k keys)
  show ?case
  proof (cases "nc_reflog_start_offsets cmd k")
    case (Some offset)
    obtain c1 r where step: "initialize_key env cmd k (unat offset) c = (c1, r)" by fastforce
    then have same: "same_cursor key c c1" using initialize_key_same [OF Cons.prems, of env cmd k "unat offset"] by simp
    then have "same_cursor key c1 (fst (initialize_keys env cmd keys c1))"
      using Cons by (simp add: same_cursor_offsets)
    then show ?thesis using Some step same by (auto simp: bind_op_def split: sum.splits intro: same_cursor_trans)
  qed (use Cons in simp)
qed (simp add: ok_def)

lemma initialize_from_command_same:
  assumes "cu_offsets c key \<noteq> None"
  shows "same_cursor key c (fst (initialize_from_command_reflog_start_offsets env cmd c))"
  using initialize_keys_same [of "c\<lparr>cu_command_start_hints := Map.empty\<rparr>" key env cmd] assms
  by (simp add: initialize_from_command_reflog_start_offsets_def same_cursor_def)

lemma takes_after_same:
  "same_cursor key c c1 \<Longrightarrow> takes env key path reference c1 c2 es \<Longrightarrow> takes env key path reference c c2 es"
proof -
  assume same: "same_cursor key c c1" and takes: "takes env key path reference c1 c2 es"
  have eq: "ce_key x = key \<Longrightarrow> taken c1 x = taken c x" for x using same_cursor_taken same by blast
  show ?thesis
    using takes unfolding takes_def by (auto simp: eq entries_of_log_key subset_iff) (use eq entries_of_log_key in blast)
qed

definition takes_for_command ::
  "LogEnv \<Rightarrow> str \<Rightarrow> RefCursor \<Rightarrow> RefCursor \<times> (str + NormalizedCommand \<times> (str \<rightharpoonup> str)) \<Rightarrow> CursorEntry list \<Rightarrow> bool" where
  "takes_for_command env dir c result es =
     (length es \<le> 1 \<and> takes env (head_key env dir) (logs_path dir ''HEAD'') ''HEAD'' c (fst result) es \<and>
      (case snd result of Inr (cmd', _) \<Rightarrow> publishes cmd' es | Inl _ \<Rightarrow> True))"

lemma publishes_confidence: "publishes (cmd\<lparr>nc_confidence := conf\<rparr>) es = publishes cmd es"
  by (simp add: publishes_def)

lemma enrich_command_takes:
  assumes primary: "nc_primary_command cmd = Some primary" "moves_head_once primary"
    and log: "in_log env (head_key env dir) (logs_path dir ''HEAD'') c" and dir: "git_dir_of env (nc_worktree cmd) = Some dir"
  shows "\<exists>es. takes_for_command env dir c (enrich_command env c cmd state) es"
proof -
  let ?key = "head_key env dir" and ?path = "logs_path dir ''HEAD''" and ?cmd = "cmd\<lparr>nc_ref_changes := []\<rparr>"
  obtain c1 r1 where init: "initialize_from_command_reflog_start_offsets env ?cmd c = (c1, r1)" by fastforce
  have "cu_offsets c ?key \<noteq> None" using log by (auto simp: in_log_def split: file_content.splits)
  then have same: "same_cursor ?key c c1" using initialize_from_command_same [of c ?key env ?cmd] init by simp
  have idle: "\<exists>es. takes_for_command env dir c (c1, Inr (?cmd, refs)) es" "\<exists>es. takes_for_command env dir c (c1, Inl err) es" for refs err
    using takes_none [OF log same] by (auto simp: takes_for_command_def publishes_def intro!: exI [of _ "[]"])
  obtain c2 r2 where run: "enrich_primary env primary ?cmd state c1 = (c2, r2)" by fastforce
  obtain es where es: "length es \<le> 1" "takes env ?key ?path ''HEAD'' c c2 es" "case r2 of Inr cmd' \<Rightarrow> publishes cmd' es | Inl _ \<Rightarrow> True"
    using enrich_primary_takes [OF primary(2) in_log_same [OF same log], of ?cmd state] dir run takes_after_same [OF same]
    by (auto simp: takes_at_most_one_def)
  have ran: "\<exists>es. takes_for_command env dir c (bind_op (enrich_primary env primary ?cmd state) (\<lambda>cmd.
      ok (if nc_ref_changes cmd \<noteq> [] then cmd\<lparr>nc_confidence := High\<rparr> else cmd, refs)) c1) es" for refs
    using es run publishes_confidence
    by (auto simp: takes_for_command_def bind_op_def ok_def intro!: exI [of _ es] split: sum.splits)
  show ?thesis
  proof (cases r1)
    case (Inl err)
    then show ?thesis using idle(2) init by (simp add: enrich_command_def bind_op_def Let_def)
  next
    case (Inr u)
    then show ?thesis
      using idle ran init primary
      by (cases "refs_at_reflog_start_offsets env (cu_family c1) (nc_reflog_start_offsets ?cmd)")
        (auto simp: enrich_command_def bind_op_def [of "initialize_from_command_reflog_start_offsets env ?cmd"] Let_def ok_def)
  qed
qed

section \<open>Logs that grow\<close>

definition grows :: "str \<Rightarrow> LogEnv \<Rightarrow> LogEnv \<Rightarrow> bool" where
  "grows path env env' =
     (le_lossy env' = le_lossy env \<and>
      (\<exists>bytes added. le_read env path = Content bytes \<and> le_read env' path = Content (bytes @ added)))"

lemma last_line:
  obtains pre l where "(bytes :: str) = pre @ l" "at_line_start pre" "newline \<notin> set l"
proof (cases "newline \<in> set bytes")
  case True
  then obtain ys zs where "bytes = ys @ newline # zs" "newline \<notin> set zs" by (meson split_list_last)
  then show thesis using that [of "ys @ [newline]" zs] by (simp add: at_line_start_def)
next
  case False
  then show thesis using that [of "[]"] by (simp add: at_line_start_def)
qed

lemma split_inclusive_unterminated: "newline \<notin> set l \<Longrightarrow> split_inclusive l = (if l = [] then [] else [l])"
  by (induction l) auto

lemma records_of_unterminated: "newline \<notin> set l \<Longrightarrow> record_loop lossy off (split_inclusive l) = []"
  by (auto simp: split_inclusive_unterminated Let_def dest: ends_with_newline)

lemma records_grow:
  obtains later where "records_from lossy (bytes @ added) None = records_from lossy bytes None @ later"
proof -
  obtain pre l where pre: "bytes = pre @ l" "at_line_start pre" "newline \<notin> set l" by (rule last_line)
  have "records_from lossy bytes None = records_from lossy pre None"
    using records_cut [OF pre(2), of lossy l] records_of_unterminated [OF pre(3)] by (simp add: pre(1) records_from_def)
  then show thesis using records_cut [OF pre(2), of lossy "l @ added"] that by (simp add: pre(1))
qed

lemma entries_grow: "grows path env env' \<Longrightarrow> set (entries_of_log env key path reference) \<subseteq> set (entries_of_log env' key path reference)"
proof -
  assume "grows path env env'"
  then obtain bytes added where log: "le_lossy env' = le_lossy env" "le_read env path = Content bytes" "le_read env' path = Content (bytes @ added)"
    by (auto simp: grows_def)
  obtain later where "records_from (le_lossy env) (bytes @ added) None = records_from (le_lossy env) bytes None @ later" by (rule records_grow)
  then show ?thesis using log by (auto simp: entries_of_log_def log_entries_def)
qed

lemma in_log_grows: "grows path env env' \<Longrightarrow> in_log env key path c \<Longrightarrow> in_log env' key path c"
  by (auto simp: grows_def in_log_def line_aligned_def anchored_def record_ending_at_grows split: option.splits)

section \<open>No entry is credited twice\<close>

text \<open>A daemon enriches commands one after the other, each with the files as they are then.\<close>

type_synonym cursor_step = "LogEnv \<times> NormalizedCommand \<times> FamilyState"

fun enrich_all :: "RefCursor \<Rightarrow> cursor_step list \<Rightarrow> (str + NormalizedCommand \<times> (str \<rightharpoonup> str)) list" where
  "enrich_all c [] = []"
| "enrich_all c ((env, cmd, state) # steps) =
     snd (enrich_command env c cmd state) # enrich_all (fst (enrich_command env c cmd state)) steps"

definition head_step :: "str \<Rightarrow> str \<Rightarrow> cursor_step \<Rightarrow> bool" where
  "head_step key path step =
     (case step of (env, cmd, state) \<Rightarrow>
        (case git_dir_of env (nc_worktree cmd) of
           Some dir \<Rightarrow> head_key env dir = key \<and> logs_path dir ''HEAD'' = path
         | None \<Rightarrow> False) \<and>
        (case nc_primary_command cmd of Some primary \<Rightarrow> moves_head_once primary | None \<Rightarrow> False))"

fun log_grows :: "str \<Rightarrow> cursor_step list \<Rightarrow> bool" where
  "log_grows path (s # t # steps) = (grows path (fst s) (fst t) \<and> log_grows path (t # steps))"
| "log_grows path steps = True"

definition credited :: "str \<Rightarrow> str \<Rightarrow> cursor_step \<Rightarrow> str + NormalizedCommand \<times> (str \<rightharpoonup> str) \<Rightarrow> CursorEntry list \<Rightarrow> bool" where
  "credited key path step result es =
     (length es \<le> 1 \<and> set es \<subseteq> set (entries_of_log (fst step) key path ''HEAD'') \<and>
      (case result of Inr (cmd', _) \<Rightarrow> publishes cmd' es | Inl _ \<Rightarrow> True))"

lemma log_grows_entries:
  "log_grows path (s # steps) \<Longrightarrow> t \<in> set steps \<Longrightarrow> set (entries_of_log (fst s) key path reference) \<subseteq> set (entries_of_log (fst t) key path reference)"
proof (induction steps arbitrary: s)
  case (Cons u steps)
  then have step: "set (entries_of_log (fst s) key path reference) \<subseteq> set (entries_of_log (fst u) key path reference)"
    using entries_grow by simp
  show ?case
  proof (cases "t = u")
    case False
    then have "set (entries_of_log (fst u) key path reference) \<subseteq> set (entries_of_log (fst t) key path reference)"
      using Cons by simp
    then show ?thesis using step by (rule order_trans [rotated])
  qed (use step in simp)
qed simp

lemma entries_of_log_inj:
  "x \<in> set (entries_of_log env key path reference) \<Longrightarrow> y \<in> set (entries_of_log env key path reference) \<Longrightarrow>
     ce_end_offset x = ce_end_offset y \<Longrightarrow> x = y"
  by (cases "le_read env path") (simp_all add: entries_of_log_def log_entries_inj)

lemma credit_untaken:
  assumes "takes env key path reference c c' es" "set (entries_of_log env key path reference) \<subseteq> set (entries_of_log env' key path reference)"
    "x \<in> set (entries_of_log env' key path reference)" "\<not> taken c' x"
  shows "\<not> taken c x" "x \<notin> set es"
proof -
  have es: "set es \<subseteq> set (entries_of_log env key path reference)" using assms(1) by (simp add: takes_def)
  show "x \<notin> set es" using assms(1,4) by (auto simp: takes_def)
  show "\<not> taken c x"
  proof (cases "\<exists>y \<in> set es. ce_end_offset x = ce_end_offset y")
    case True
    then show ?thesis using entries_of_log_inj [OF assms(3)] es assms(2) \<open>x \<notin> set es\<close> by blast
  next
    case False
    then show ?thesis using assms(1,4) entries_of_log_key [OF assms(3)] by (auto simp: takes_def)
  qed
qed

lemma credit_each_once:
  assumes "\<forall>step \<in> set steps. head_step key path step" "log_grows path steps"
    "case steps of s # _ \<Rightarrow> in_log (fst s) key path c | [] \<Rightarrow> True"
  shows "\<exists>credit. list_all2 (\<lambda>(step, result) es. credited key path step result es) (zip steps (enrich_all c steps)) credit \<and>
    distinct (concat credit) \<and> (\<forall>x \<in> set (concat credit). \<not> taken c x) \<and>
    set (concat credit) \<subseteq> (\<Union>s \<in> set steps. set (entries_of_log (fst s) key path ''HEAD''))"
  using assms
proof (induction steps arbitrary: c)
  case (Cons s steps)
  obtain env cmd state where s: "s = (env, cmd, state)" by (cases s)
  obtain dir primary where dir: "git_dir_of env (nc_worktree cmd) = Some dir" "head_key env dir = key" "logs_path dir ''HEAD'' = path"
    and primary: "nc_primary_command cmd = Some primary" "moves_head_once primary"
    using Cons.prems(1) by (auto simp: head_step_def s split: option.splits)
  obtain c' r where run: "enrich_command env c cmd state = (c', r)" by fastforce
  have log: "in_log env key path c" using Cons.prems(3) by (simp add: s)
  obtain es where es: "length es \<le> 1" "takes env key path ''HEAD'' c c' es" "case r of Inr (cmd', _) \<Rightarrow> publishes cmd' es | Inl _ \<Rightarrow> True"
    using enrich_command_takes [OF primary, of env dir c state] dir log run by (auto simp: takes_for_command_def)
  have "in_log env key path c'" using es(2) by (simp add: takes_def)
  then have next_log: "case steps of t # _ \<Rightarrow> in_log (fst t) key path c' | [] \<Rightarrow> True"
    using Cons.prems(2) in_log_grows by (cases steps) (auto simp: s)
  have tail: "\<forall>step \<in> set steps. head_step key path step" "log_grows path steps"
    using Cons.prems(1,2) by (simp, cases steps) simp_all
  obtain credit where credit: "list_all2 (\<lambda>(step, result) es. credited key path step result es) (zip steps (enrich_all c' steps)) credit"
    "distinct (concat credit)" "\<And>x. x \<in> set (concat credit) \<Longrightarrow> \<not> taken c' x"
    "set (concat credit) \<subseteq> (\<Union>s \<in> set steps. set (entries_of_log (fst s) key path ''HEAD''))"
    using Cons.IH [OF tail next_log] by blast
  have later: "\<not> taken c x \<and> x \<notin> set es" if x: "x \<in> set (concat credit)" for x
  proof -
    obtain t where t: "t \<in> set steps" "x \<in> set (entries_of_log (fst t) key path ''HEAD'')" using x credit(4) by blast
    have "set (entries_of_log env key path ''HEAD'') \<subseteq> set (entries_of_log (fst t) key path ''HEAD'')"
      using log_grows_entries [OF Cons.prems(2) t(1)] by (simp add: s)
    from credit_untaken [OF es(2) this t(2) credit(3) [OF x]] show ?thesis by blast
  qed
  have "list_all2 (\<lambda>(step, result) es. credited key path step result es) (zip (s # steps) (enrich_all c (s # steps))) (es # credit)"
    using credit(1) es run by (simp add: s credited_def takes_def)
  moreover have "distinct (concat (es # credit))" using credit(2) later es(2) by (auto simp: takes_def)
  moreover have "\<forall>x \<in> set (concat (es # credit)). \<not> taken c x" using later es(2) by (auto simp: takes_def)
  moreover have "set (concat (es # credit)) \<subseteq> (\<Union>s \<in> set (s # steps). set (entries_of_log (fst s) key path ''HEAD''))"
    using credit(4) es(2) by (auto simp: takes_def s)
  ultimately show ?case by blast
qed simp

text \<open>
  C20. No entry of the log of \<open>HEAD\<close> is credited to two commands: when commits, resets, checkouts, switches and
  merges of one worktree are enriched one after the other, over a log that only grows and with a cursor
  that stands in it, each command takes at most one entry of the log as it is then, the changes of \<open>HEAD\<close> it
  publishes are those of the entries it took, and the entries taken by all commands are distinct, also when
  the offsets captured for the commands are wrong, when messages repeat and when some commands fail.
\<close>

theorem head_entries_credited_once:
  assumes "\<forall>step \<in> set steps. head_step key path step" "log_grows path steps"
    "steps \<noteq> [] \<longrightarrow> in_log (fst (hd steps)) key path c"
  shows "\<exists>credit. list_all2 (\<lambda>(step, result) es. credited key path step result es) (zip steps (enrich_all c steps)) credit \<and>
    distinct (concat credit)"
proof -
  have "case steps of s # _ \<Rightarrow> in_log (fst s) key path c | [] \<Rightarrow> True" using assms(3) by (cases steps) auto
  from credit_each_once [OF assms(1,2) this] show ?thesis by blast
qed

definition sample_env :: "str \<Rightarrow> LogEnv" where
  "sample_env bytes =
     \<lparr>le_fs = \<lparr>is_file = (\<lambda>_. True), is_dir = (\<lambda>_. True), read_to_string = (\<lambda>_. None), canonicalize = Some\<rparr>,
      le_read = (\<lambda>_. Content bytes), le_lossy = id, le_tree = (\<lambda>_. None), le_working_logs = (\<lambda>_. []),
      le_offset_keys = (\<lambda>_. []), le_ref_keys = (\<lambda>_. [])\<rparr>"

definition sample_commit :: NormalizedCommand where
  "sample_commit =
     \<lparr>nc_scope = Global, nc_family_key = None, nc_worktree = Some ''/r'', nc_root_sid = [], nc_raw_argv = [''git'', ''commit''],
      nc_primary_command = Some ''commit'', nc_invoked_command = None, nc_invoked_args = [], nc_observed_child_commands = [],
      nc_exit_code = 0, nc_started_at_ns = 0, nc_finished_at_ns = 0, nc_reflog_start_offsets = Map.empty,
      nc_stash_target_oid = None, nc_cherry_pick_source_oids = [], nc_revert_source_oids = [], nc_ref_changes = [],
      nc_confidence = Low\<rparr>"

definition sample_line :: "char \<Rightarrow> char \<Rightarrow> str" where
  "sample_line old new = replicate 40 old @ '' '' @ replicate 40 new @ '' a 1 +0'' @ [CHR 0x09] @ ''commit: m'' @ [newline]"

definition sample_steps :: "cursor_step list" where
  "sample_steps =
     [(sample_env (sample_line (CHR ''a'') (CHR ''b'')), sample_commit, FamilyState_new ''/r/.git''),
      (sample_env (sample_line (CHR ''a'') (CHR ''b'') @ sample_line (CHR ''b'') (CHR ''c'')), sample_commit, FamilyState_new ''/r/.git'')]"

definition sample_cursor :: RefCursor where
  "sample_cursor = (RefCursor_new ''/r/.git'')\<lparr>cu_offsets := [''worktree:/r/.git:HEAD'' \<mapsto> 0]\<rparr>"

lemma sample_git_dir: "git_dir_of (sample_env bytes) (nc_worktree sample_commit) = Some ''/r/.git''"
  by (simp add: git_dir_of_def sample_env_def sample_commit_def git_dir_for_worktree_def worktree_root_for_path.simps
      has_git_marker_def path_join_def is_absolute_def starts_with_def ends_with_def Let_def)

lemma sample_head_step: "head_step ''worktree:/r/.git:HEAD'' ''/r/.git/logs/HEAD'' (sample_env bytes, sample_commit, state)"
proof -
  have "head_key (sample_env bytes) ''/r/.git'' = ''worktree:/r/.git:HEAD''"
    by (simp add: head_key_def sample_env_def)
  moreover have "logs_path ''/r/.git'' ''HEAD'' = ''/r/.git/logs/HEAD''"
    by (simp add: logs_path_def path_join_def is_absolute_def starts_with_def ends_with_def)
  moreover have "nc_primary_command sample_commit = Some ''commit''" "moves_head_once ''commit''"
    by (simp_all add: sample_commit_def moves_head_once_def)
  ultimately show ?thesis by (simp add: head_step_def sample_git_dir)
qed

lemma sample_in_log: "in_log (sample_env bytes) ''worktree:/r/.git:HEAD'' path sample_cursor"
  by (simp add: in_log_def sample_env_def sample_cursor_def line_aligned_def anchored_def at_line_start_def RefCursor_new_def)

theorem head_entries_credited_once_witness:
  "\<exists>credit. list_all2 (\<lambda>(step, result) es. credited ''worktree:/r/.git:HEAD'' ''/r/.git/logs/HEAD'' step result es)
     (zip sample_steps (enrich_all sample_cursor sample_steps)) credit \<and> distinct (concat credit)"
proof (rule head_entries_credited_once)
  show "\<forall>step \<in> set sample_steps. head_step ''worktree:/r/.git:HEAD'' ''/r/.git/logs/HEAD'' step"
    by (simp add: sample_steps_def sample_head_step)
  show "log_grows ''/r/.git/logs/HEAD'' sample_steps" by (simp add: sample_steps_def grows_def sample_env_def)
  show "sample_steps \<noteq> [] \<longrightarrow> in_log (fst (hd sample_steps)) ''worktree:/r/.git:HEAD'' ''/r/.git/logs/HEAD'' sample_cursor"
    by (simp add: sample_steps_def sample_in_log)
qed

section \<open>The family actor with its cursor\<close>

text \<open>The cursor of the family actor, with the number of commands it has enriched: command number \<open>n\<close> sees the
  files as \<open>envs n\<close>.\<close>

definition family_enrich :: "(nat \<Rightarrow> LogEnv) \<Rightarrow> (nat \<times> RefCursor) enrich" where
  "family_enrich envs cursor cmd state =
     (let (n, c) = cursor; (c', result) = enrich_command (envs n) c cmd state in ((Suc n, c'), result))"

definition reply_credit :: "FamilyReply option \<Rightarrow> CursorEntry list \<Rightarrow> bool" where
  "reply_credit reply es =
     (length es \<le> 1 \<and> (case reply of Some (Applied applied) \<Rightarrow> publishes (ac_command applied) es | _ \<Rightarrow> True))"

lemma grows_entries:
  assumes "\<And>n. grows path (envs n) (envs (Suc n))"
  shows "m \<le> n \<Longrightarrow> set (entries_of_log (envs m) key path reference) \<subseteq> set (entries_of_log (envs n) key path reference)"
  using entries_grow [OF assms] by (rule lift_Suc_mono_le)

lemma apply_message_credit:
  assumes cmd: "head_step key path (envs n, cmd, fa_state actor)" and cursor: "fa_cursor actor = (n, c)"
    and log: "in_log (envs n) key path c"
    and step: "handle_msg canon (family_enrich envs) actor (Apply cmd) = (actor', reply)"
  obtains c' es where "fa_cursor actor' = (Suc n, c')" "takes (envs n) key path ''HEAD'' c c' es" "reply_credit reply es"
proof -
  obtain dir primary where dir: "git_dir_of (envs n) (nc_worktree cmd) = Some dir" "head_key (envs n) dir = key" "logs_path dir ''HEAD'' = path"
    and primary: "nc_primary_command cmd = Some primary" "moves_head_once primary"
    using cmd by (auto simp: head_step_def split: option.splits)
  obtain c' r where run: "enrich_command (envs n) c cmd (fa_state actor) = (c', r)" by fastforce
  obtain es where es: "length es \<le> 1" "takes (envs n) key path ''HEAD'' c c' es" "case r of Inr (cmd', _) \<Rightarrow> publishes cmd' es | Inl _ \<Rightarrow> True"
    using enrich_command_takes [OF primary, of "envs n" dir c "fa_state actor"] dir log run by (auto simp: takes_for_command_def)
  have enriched: "family_enrich envs (fa_cursor actor) cmd (fa_state actor) = ((Suc n, c'), r)"
    by (simp add: family_enrich_def cursor run)
  have "fa_cursor actor' = (Suc n, c')"
    using step enriched by (auto split: sum.splits prod.splits)
  moreover have "reply_credit reply es"
    using step enriched es
    by (auto simp: reply_credit_def reduce_family_command_with_ref_snapshot_def Let_def split: sum.splits prod.splits)
  ultimately show thesis using that es(2) by blast
qed

lemma other_message_cursor:
  assumes "\<And>cmd. m \<noteq> Apply cmd" "handle_msg canon (family_enrich envs) actor m = (actor', reply)"
  shows "fa_cursor actor' = fa_cursor actor" "reply_credit reply []"
  using assms by (cases m; auto simp: reply_credit_def Let_def)+

lemma actor_credits:
  assumes "\<And>n. grows path (envs n) (envs (Suc n))" "\<And>n cmd state. Apply cmd \<in> set msgs \<Longrightarrow> head_step key path (envs n, cmd, state)"
    "fa_cursor actor = (n, c)" "in_log (envs n) key path c"
  shows "\<exists>credit. list_all2 reply_credit (snd (run_actor canon (family_enrich envs) actor msgs)) credit \<and> distinct (concat credit) \<and>
    (\<forall>x \<in> set (concat credit). \<not> taken c x \<and> (\<exists>m \<ge> n. x \<in> set (entries_of_log (envs m) key path ''HEAD'')))"
  using assms(2-)
proof (induction msgs arbitrary: actor n c)
  case (Cons m msgs)
  show ?case
  proof (cases "fa_running actor")
    case False
    then show ?thesis by (auto simp: run_actor_def intro!: exI [of _ "[]"])
  next
    case True
    obtain actor' reply where step: "handle_msg canon (family_enrich envs) actor m = (actor', reply)" by fastforce
    have replies: "snd (run_actor canon (family_enrich envs) actor (m # msgs)) = reply # snd (run_actor canon (family_enrich envs) actor' msgs)"
      using True step by (simp add: run_actor_def split: prod.split)
    show ?thesis
    proof (cases "\<exists>cmd. m = Apply cmd")
      case False
      then have other: "fa_cursor actor' = (n, c)" "reply_credit reply []"
        using other_message_cursor [OF _ step] Cons.prems(2) by auto
      obtain credit where "list_all2 reply_credit (snd (run_actor canon (family_enrich envs) actor' msgs)) credit" "distinct (concat credit)"
        "\<forall>x \<in> set (concat credit). \<not> taken c x \<and> (\<exists>m \<ge> n. x \<in> set (entries_of_log (envs m) key path ''HEAD''))"
        using Cons.IH [OF _ other(1) Cons.prems(3)] Cons.prems(1) by auto
      then show ?thesis using other(2) unfolding replies by (intro exI [of _ "[] # credit"]) simp
    next
      case True
      then obtain cmd where m: "m = Apply cmd" by blast
      obtain c' es where es: "fa_cursor actor' = (Suc n, c')" "takes (envs n) key path ''HEAD'' c c' es" "reply_credit reply es"
        using apply_message_credit [OF _ Cons.prems(2,3) step [unfolded m]] Cons.prems(1) m by (metis list.set_intros(1))
      have "in_log (envs (Suc n)) key path c'"
        using in_log_grows [OF assms(1)] es(2) by (simp add: takes_def)
      then obtain credit where credit: "list_all2 reply_credit (snd (run_actor canon (family_enrich envs) actor' msgs)) credit" "distinct (concat credit)"
        "\<And>x. x \<in> set (concat credit) \<Longrightarrow> \<not> taken c' x \<and> (\<exists>m \<ge> Suc n. x \<in> set (entries_of_log (envs m) key path ''HEAD''))"
        using Cons.IH [OF _ es(1)] Cons.prems(1) by (metis list.set_intros(2))
      have later: "\<not> taken c x \<and> x \<notin> set es \<and> (\<exists>m \<ge> n. x \<in> set (entries_of_log (envs m) key path ''HEAD''))" if x: "x \<in> set (concat credit)" for x
      proof -
        obtain j where j: "Suc n \<le> j" "x \<in> set (entries_of_log (envs j) key path ''HEAD'')" using credit(3) [OF x] by blast
        have "set (entries_of_log (envs n) key path ''HEAD'') \<subseteq> set (entries_of_log (envs j) key path ''HEAD'')"
          using grows_entries [of path envs, OF assms(1)] j(1) by simp
        from credit_untaken [OF es(2) this j(2)] credit(3) [OF x] show ?thesis using j Suc_leD by blast
      qed
      have "list_all2 reply_credit (reply # snd (run_actor canon (family_enrich envs) actor' msgs)) (es # credit)" using credit(1) es(3) by simp
      moreover have "distinct (concat (es # credit))" using credit(2) later es(2) by (auto simp: takes_def)
      moreover have "\<forall>x \<in> set (concat (es # credit)). \<not> taken c x \<and> (\<exists>m \<ge> n. x \<in> set (entries_of_log (envs m) key path ''HEAD''))"
        using later es(2) by (auto simp: takes_def)
      ultimately show ?thesis unfolding replies by blast
    qed
  qed
qed (simp add: run_actor_def)

section \<open>Which entry a search chooses\<close>

lemma parse_reflog_line_oids: "parse_reflog_line line a b = Some r \<Longrightarrow> is_valid_git_oid (rl_old r) \<and> is_valid_git_oid (rl_new r)"
  by (auto simp: parse_reflog_line_def Let_def split: option.splits list.splits if_splits prod.splits)

lemma record_loop_oids: "r \<in> set (record_loop lossy off ls) \<Longrightarrow> is_valid_git_oid (rl_old r) \<and> is_valid_git_oid (rl_new r)"
  by (induction lossy off ls rule: record_loop.induct)
    (auto simp: Let_def dest: parse_reflog_line_oids split: if_splits option.splits)

lemma entries_move: "x \<in> set (entries_of_log env key path reference) \<Longrightarrow> oids_differ (ce_old x) (ce_new x)"
  using record_loop_oids
  by (auto simp: entries_of_log_def log_entries_def records_from_def entry_of_record_def oids_differ_def Let_def split: file_content.splits)

text \<open>The entries of a log that are left, in their order.\<close>

definition untaken :: "LogEnv \<Rightarrow> str \<Rightarrow> str \<Rightarrow> str \<Rightarrow> RefCursor \<Rightarrow> CursorEntry list" where
  "untaken env key path reference c = filter (\<lambda>x. \<not> taken c x) (entries_of_log env key path reference)"

lemma unconsumed_is_untaken:
  assumes "in_log env key path c" "le_read env path = Content bytes"
  shows "filter (\<lambda>x. \<not> entry_consumed c x) (log_entries (le_lossy env) bytes key path reference (cu_offsets c key)) =
    untaken env key path reference c"
proof -
  obtain s where s: "cu_offsets c key = Some s" "s \<le> length bytes" "at_line_start (take s bytes)"
    using assms by (auto simp: in_log_def line_aligned_def)
  have all: "entries_of_log env key path reference = log_entries (le_lossy env) bytes key path reference (Some 0)"
    by (simp add: entries_of_log_def assms(2) log_entries_def records_from_None)
  note cut = log_entries_aligned [where s = 0, OF _ s(2,3)]
  have "s \<le> ce_start_offset x \<and> \<not> entry_consumed c x \<longleftrightarrow> \<not> taken c x" if x: "x \<in> set (entries_of_log env key path reference)" for x
    using cut(2) [of x "le_lossy env" key path reference] x log_entries_fields(1,4) [of x "le_lossy env" bytes key path reference "Some 0"] s(1)
    by (auto simp: all taken_def)
  then show ?thesis unfolding untaken_def s(1) cut(1) [OF le0] all [symmetric] filter_filter
    by (intro filter_cong) auto
qed

lemma search_in_log_is_choice:
  assumes "in_log env key path c"
  shows "find_entry_in_log_with_hint env key path reference expected prefixes use_hint c =
    (c, Inr (let candidates = filter (\<lambda>x. transition_matches expected x \<and> message_matches (ce_message x) prefixes) (untaken env key path reference c)
             in if use_hint then select_candidate_with_hint c key candidates else first_entry candidates))"
proof -
  obtain bytes where log: "le_read env path = Content bytes" using assms by (auto simp: in_log_def split: file_content.splits)
  have "filter (\<lambda>x. \<not> entry_consumed c x \<and> transition_matches expected x \<and> message_matches (ce_message x) prefixes)
      (log_entries (le_lossy env) bytes key path reference (cu_offsets c key)) =
    filter (\<lambda>x. transition_matches expected x \<and> message_matches (ce_message x) prefixes) (untaken env key path reference c)"
    unfolding unconsumed_is_untaken [OF assms log, symmetric] filter_filter by (rule filter_cong) auto
  then show ?thesis
    using in_log_start [OF assms]
    by (simp add: find_entry_in_log_with_hint_def bind_op_def lift_result_def read_reflog_entries_Content [OF log] Let_def)
qed

lemma select_loop_spec:
  "select_loop hint latest xs =
     (case find (\<lambda>x. hint \<le> ce_start_offset x) xs of
        Some x \<Rightarrow> Some x
      | None \<Rightarrow> if xs = [] then latest else Some (last xs))"
  by (induction hint latest xs rule: select_loop.induct) (auto split: option.split)

text \<open>
  C22. Which entry a command gets: with a cursor that stands in its log, the search leaves the cursor alone
  and chooses among the entries nobody has taken that fit the expected transition and message. Without a
  captured offset it is the first of them. With one it is the first that starts at or after the offset,
  and when there is none, because the offset was captured late, the last before it
  (\<open>find_entry_in_log\<close>, \<open>select_candidate_with_hint\<close>).
\<close>

theorem search_chooses_by_hint:
  assumes "in_log env key path c"
  defines "fitting expected prefixes reference \<equiv>
    filter (\<lambda>x. transition_matches expected x \<and> message_matches (ce_message x) prefixes) (untaken env key path reference c)"
  shows "find_entry_in_log env key path reference expected prefixes c =
    (c, Inr (case cu_command_start_hints c key of
               None \<Rightarrow> first_entry (fitting expected prefixes reference)
             | Some hint \<Rightarrow>
                 (case find (\<lambda>x. hint \<le> ce_start_offset x) (fitting expected prefixes reference) of
                    Some x \<Rightarrow> Some x
                  | None \<Rightarrow> if fitting expected prefixes reference = [] then None else Some (last (fitting expected prefixes reference)))))"
  unfolding find_entry_in_log_def search_in_log_is_choice [OF assms(1)] fitting_def
  by (simp add: select_candidate_with_hint_def select_loop_spec Let_def split: option.split)

section \<open>Draining publishes what is left\<close>

lemma increasing_distinct: "sorted_wrt (\<lambda>x y. (f x :: nat) < f y) xs \<Longrightarrow> distinct xs"
  by (induction xs) auto

lemma untaken_consume:
  assumes "in_log env key path c" "untaken env key path reference c = x # xs"
  obtains c' where "consume_entry env x c = (c', Inr ())" "in_log env key path c'" "untaken env key path reference c' = xs"
proof -
  let ?all = "entries_of_log env key path reference"
  have "x \<in> set (untaken env key path reference c)" by (simp add: assms(2))
  then have x: "x \<in> set ?all" "\<not> taken c x" by (simp_all add: untaken_def)
  obtain c' where c': "consume_entry env x c = (c', Inr ())" "in_log env key path c'"
    "\<And>y. y \<in> set ?all \<Longrightarrow> taken c' y \<longleftrightarrow> taken c y \<or> y = x"
    "\<And>y. ce_end_offset y \<noteq> ce_end_offset x \<Longrightarrow> taken c y \<Longrightarrow> taken c' y"
    using consume_in_log [OF assms(1) x] by blast
  have "distinct ?all"
    by (cases "le_read env path") (simp_all add: entries_of_log_def increasing_distinct [OF log_entries_sorted_ends])
  then have "distinct (untaken env key path reference c)" by (simp add: untaken_def)
  then have "x \<notin> set xs" by (simp add: assms(2))
  then have "filter (\<lambda>y. y \<noteq> x) xs = xs" by (metis (mono_tags, lifting) filter_True)
  then have "filter (\<lambda>y. y \<noteq> x) (untaken env key path reference c) = xs" by (simp add: assms(2))
  moreover have "untaken env key path reference c' = filter (\<lambda>y. y \<noteq> x) (untaken env key path reference c)"
    unfolding untaken_def filter_filter by (rule filter_cong [OF refl]) (simp add: c'(3))
  ultimately show thesis using that c'(1,2) by simp
qed

lemma untaken_matches_any: "filter (\<lambda>x. transition_matches any_transition x \<and> message_matches (ce_message x) []) (untaken env key path reference c) =
    untaken env key path reference c"
  unfolding filter_id_conv
  by (auto simp: untaken_def transition_matches_def any_transition_def message_matches_def entries_move)

text \<open>
  C21. Draining a log is complete and exact: with a cursor that stands in its log, the loop of
  \<open>update-ref --stdin\<close> ends without error, publishes exactly the entries nobody has taken, each once and in the
  order of the log, and leaves a cursor that stands in the log with nothing left (\<open>enrich_update_ref\<close>).
\<close>

theorem drain_publishes_the_rest:
  assumes "in_log env key path c"
  shows "\<exists>c'. drain_log env key path reference changes c =
      (c', Inr (changes @ map entry_to_ref_change (untaken env key path reference c))) \<and>
    in_log env key path c' \<and> untaken env key path reference c' = []"
  using assms
proof (induction "untaken env key path reference c" arbitrary: c changes)
  case Nil
  then show ?case
    using search_in_log_is_choice [OF Nil(2), of reference any_transition "[]" False]
    unfolding untaken_matches_any Nil(1) [symmetric]
    by (subst drain_log.simps) (simp add: first_entry_def Nil(1) [symmetric])
next
  case (Cons x xs)
  obtain c1 where c1: "consume_entry env x c = (c1, Inr ())" "in_log env key path c1" "untaken env key path reference c1 = xs"
    using untaken_consume [OF Cons(3) Cons(2) [symmetric]] by blast
  have "find_entry_in_log_with_hint env key path reference any_transition [] False c = (c, Inr (Some x))"
    using search_in_log_is_choice [OF Cons(3), of reference any_transition "[]" False]
    unfolding untaken_matches_any unfolding Cons(2) [symmetric] by (simp add: first_entry_def)
  then have "drain_log env key path reference changes c = drain_log env key path reference (changes @ [entry_to_ref_change x]) c1"
    by (subst drain_log.simps) (simp add: c1(1))
  moreover have "map entry_to_ref_change (untaken env key path reference c) = entry_to_ref_change x # map entry_to_ref_change xs"
    unfolding Cons(2) [symmetric] by simp
  ultimately show ?case
    using Cons(1) [OF c1(3) [symmetric] c1(2), of "changes @ [entry_to_ref_change x]"] by (simp add: c1(3))
qed

theorem search_chooses_by_hint_witness:
  "find_entry_in_log (sample_env (sample_line (CHR ''a'') (CHR ''b''))) ''worktree:/r/.git:HEAD'' ''/r/.git/logs/HEAD'' ''HEAD'' any_transition [] sample_cursor =
     (sample_cursor, Inr (first_entry (untaken (sample_env (sample_line (CHR ''a'') (CHR ''b''))) ''worktree:/r/.git:HEAD'' ''/r/.git/logs/HEAD'' ''HEAD'' sample_cursor)))"
  using search_chooses_by_hint [OF sample_in_log]
  by (simp add: untaken_matches_any sample_cursor_def RefCursor_new_def)

theorem drain_publishes_the_rest_witness:
  "\<exists>c'. drain_log (sample_env (sample_line (CHR ''a'') (CHR ''b''))) ''worktree:/r/.git:HEAD'' ''/r/.git/logs/HEAD'' ''HEAD'' [] sample_cursor =
     (c', Inr (map entry_to_ref_change (untaken (sample_env (sample_line (CHR ''a'') (CHR ''b''))) ''worktree:/r/.git:HEAD'' ''/r/.git/logs/HEAD'' ''HEAD'' sample_cursor)))"
  using drain_publishes_the_rest [OF sample_in_log [of "sample_line (CHR ''a'') (CHR ''b'')" "''/r/.git/logs/HEAD''"], of "''HEAD''" "[]"]
  by (simp only: append_Nil) blast

section \<open>A span can take an entry again\<close>

text \<open>
  \<open>find_head_entry_after\<close> asks only whether an entry is marked as consumed, not whether the cursor has passed it, and
  compaction drops the marks of what the cursor passes. When the second of two entries was consumed first, by an
  earlier command, a span that starts at the first entry advances the cursor over both, and then finds the
  second one again.
\<close>

lemma entries_from_untaken_cursor:
  assumes "in_log env key path c" "le_read env path = Content bytes" "\<forall>x \<in> set (entries_of_log env key path reference). \<not> taken c x"
  shows "log_entries (le_lossy env) bytes key path reference (cu_offsets c key) = entries_of_log env key path reference"
proof -
  obtain s where s: "cu_offsets c key = Some s" "s \<le> length bytes" "at_line_start (take s bytes)"
    using assms(1,2) by (auto simp: in_log_def line_aligned_def)
  have all: "entries_of_log env key path reference = log_entries (le_lossy env) bytes key path reference (Some 0)"
    by (simp add: entries_of_log_def assms(2) log_entries_def records_from_None)
  note cut = log_entries_aligned [where s = 0, OF _ s(2,3)]
  have "s \<le> ce_start_offset x" if x: "x \<in> set (entries_of_log env key path reference)" for x
    using cut(2) [of x "le_lossy env" key path reference] x assms(3) entries_of_log_key [OF x] s(1)
    by (auto simp: all taken_def)
  then show ?thesis unfolding s(1) cut(1) [OF le0] all [symmetric] by (simp add: filter_id_conv)
qed

lemma span_finds_consumed_entry_again:
  assumes dir: "git_dir_of env worktree = Some dir" and log: "in_log env (head_key env dir) (logs_path dir ''HEAD'') c"
    and entries: "entries_of_log env (head_key env dir) (logs_path dir ''HEAD'') ''HEAD'' = [e1, e2]" "\<not> taken c e1" "\<not> taken c e2"
    and chain: "ce_old e2 = ce_new e1" "message_matches (ce_message e2) prefixes"
  defines "c2 \<equiv> fst (consume_entry env e1 (fst (consume_entry env e2 c)))"
  shows "taken c2 e2" "find_head_entry_after env c2 worktree (ce_end_offset e1) prefixes (from_oid (ce_new e1)) = Inr (Some e2)"
proof -
  let ?key = "head_key env dir" and ?path = "logs_path dir ''HEAD''"
  let ?E = "log_entries (le_lossy env)"
  obtain bytes where bytes: "le_read env ?path = Content bytes" using log by (auto simp: in_log_def split: file_content.splits)
  have all: "?E bytes ?key ?path ''HEAD'' None = [e1, e2]" using entries(1) by (simp add: entries_of_log_def bytes)
  have f: "e1 \<in> set (?E bytes ?key ?path ''HEAD'' None)" "e2 \<in> set (?E bytes ?key ?path ''HEAD'' None)" by (simp_all add: all)
  note f1 = log_entries_fields [OF f(1)] and f2 = log_entries_fields [OF f(2)]
  have order: "ce_end_offset e1 \<le> ce_start_offset e2"
    using log_entries_sorted [of "le_lossy env" bytes ?key ?path "''HEAD''" None] by (simp add: all)
  have start: "?E bytes ?key ?path ''HEAD'' (cu_offsets c ?key) = [e1, e2]"
    using entries_from_untaken_cursor [OF log bytes] entries by simp
  let ?m2 = "mark_consumed e2 c" and ?m1 = "mark_consumed e1 (mark_consumed e2 c)"
  have unmarked: "\<not> entry_consumed ?m2 e1" using entries(2) order f2(4) by (auto simp: entry_consumed_mark taken_def)
  have first: "fst (consume_entry env e2 c) = ?m2"
    by (simp add: consume_entry_def f2 compact_consumed_entries_def read_reflog_entries_Content [OF bytes] start unmarked)
  have marked: "entry_consumed ?m1 e1" "entry_consumed ?m1 e2" using order f2(4) by (simp_all add: entry_consumed_mark)
  have "(case cu_offsets c ?key of Some s \<Rightarrow> s | None \<Rightarrow> 0) < ce_end_offset e2"
    using entries(3) f2(1,4) by (auto simp: taken_def split: option.splits)
  then have c2: "c2 = advanced ?key e2 ?m1"
    by (simp add: c2_def first consume_entry_def [of env e1] f1 compact_consumed_entries_def read_reflog_entries_Content [OF bytes]
        start marked advanced_def Let_def)
  show "taken c2 e2" by (simp add: c2 taken_def f2)
  have forgotten: "\<not> entry_consumed c2 e2" by (simp add: c2 entry_consumed_advanced f2)
  have "?E bytes ?key ?path ''HEAD'' (Some 0) = [e1, e2]" using all by (simp add: log_entries_def records_from_None)
  then have rest: "?E bytes ?key ?path ''HEAD'' (Some (ce_end_offset e1)) = [e2]"
    using log_entries_aligned(1) [OF _ f1(5) aligned_end [OF f(1)], of 0 "le_lossy env" ?key ?path "''HEAD''"] order f1(4) by simp
  have "oids_differ (ce_old e2) (ce_new e2)" using entries_move [of e2 env ?key ?path "''HEAD''"] entries(1) by simp
  then have "transition_matches (from_oid (ce_new e1)) e2" by (simp add: transition_matches_def from_oid_def chain)
  then show "find_head_entry_after env c2 worktree (ce_end_offset e1) prefixes (from_oid (ce_new e1)) = Inr (Some e2)"
    using forgotten chain(2) by (simp add: find_head_entry_after_def dir read_reflog_entries_Content [OF bytes] rest)
qed

end
