(* ===== verification/Spec2Isabelle.thy ===== *)
theory Spec2Isabelle
  imports Note_Format Hunk_Shift Conflict_Resolution Line_Attributions Command_Classification Family_Actors Checkout_Rebase Attribution_Merge Trace_Properties Cursor_Properties
begin

text \<open>
  \<^bold>\<open>Attribution of code to its authors in git-ai\<close>

  The program records which lines of a repository an AI agent wrote and which a human wrote. An
  editor or an agent reports \<^emph>\<open>checkpoints\<close>; for each, the attribution tracker carries the
  attributions of the old text of a file to the new text. A commit condenses them to lines and
  stores them as a git note (the \<^emph>\<open>authorship log\<close>), and when history is rewritten the log is
  shifted through the diff and merged with what a conflict resolution adds. A daemon follows the git
  commands of all repositories, in order for each family of worktrees, and reacts to them. This
  development models the parts under \<open>src/src/authorship/\<close> that compute attributions, the git command
  line of \<open>src/src/git/\<close>, and the tasks of \<open>src/src/daemon/\<close> that keep the state of a family.

  \<^bold>\<open>Line ranges and the authorship log\<close>
  \<^item> \<open>Line_Range\<close>: \<open>LineRange\<close> of \<open>authorship_log.rs\<close>, at 32 bits. The locale \<open>line_range_ops\<close> is the
    interface the other components use (containment, overlap, removal, expansion) and is interpreted
    on the definitions; \<open>remove_exact\<close> and \<open>compress_lines_roundtrip\<close> are its theorems.
  \<^item> \<open>Authorship_Log\<close>: the records of a note (\<open>authorship_log.rs\<close> and
    \<open>authorship_log_serialization.rs\<close>), the models of traces and \<open>get_line_attribution\<close>. The log is a
    record with association lists for the \<open>BTreeMap\<close>s; the search of foreign notes is an argument. The
    lookup answers with the latest entry that covers the line and resolves, and dropping unreferenced
    traces changes no answer.
  \<^item> \<open>Rust_Str\<close> and \<open>Note_Format\<close>: strings as UTF-8 bytes, and the text of a note, written and read.
    The JSON codec is an argument with the law that it reads what it wrote. The round trip, the
    printed ranges, and two defects (a lone quotation mark, a path that looks like the divider).
  \<^item> \<open>Hunk_Shift\<close>: \<open>hunk_shift.rs\<close>. Shifting entries and line attributions through a diff moves every
    kept line to where the diff puts it and drops the deleted ones.
  \<^item> \<open>Conflict_Resolution\<close>: \<open>conflict_resolution.rs\<close>. The resolution fills exactly the lines the
    shifted log leaves free, and the merged log keeps a record for every entry.

  \<^bold>\<open>Diffs\<close>
  \<^item> \<open>Diff_Utils\<close>: \<open>imara_diff_utils.rs\<close>. The Myers diff of the crate is an argument; what is assumed of
    it (\<open>valid_diff\<close>: hunks in order, what is between them equal) is shown to be satisfiable by the
    diff that replaces everything. Line endings, line changes and the operations of a diff.
  \<^item> \<open>Line_Metadata\<close>: the line tables of \<open>attribution_tracker.rs\<close> and the offsets of CRLF texts.
  \<^item> \<open>Tokenizer\<close>, \<open>Byte_Ranges\<close>, \<open>Token_Diff\<close>, \<open>Diff_Computation\<close>: \<open>tokenize_non_whitespace\<close>, the
    ranges of substantive changes, the token-aligned diff and \<open>compute_diffs\<close>, whose result is a diff
    of the two texts on every path (line-aligned for AI checkpoints and for large hunks, token-aligned
    otherwise). The Unicode tables beyond ASCII are arguments, and the theorems hold for all of them.

  \<^bold>\<open>The tracker\<close>
  \<^item> \<open>Attribution_Data\<close>: \<open>Attribution\<close> (bytes) and \<open>LineAttribution\<close> (lines).
  \<^item> \<open>Move_Detection\<close>: \<open>move_detection.rs\<close>, with the hash function as an argument that is shown not to
    matter.
  \<^item> \<open>Attribution_Tracker\<close>: the catalogue of a diff, the moves of byte ranges, the transformation of
    attributions, their merge, and \<open>update_attributions\<close>. The state of the transformation loop is the
    record \<open>TransformState\<close> and every operation of a diff is one function on it.
  \<^item> \<open>Tracker_Properties\<close>: after an AI checkpoint, and after any checkpoint without moves, every kept
    byte has the authors it had and every inserted byte has one; merging attributions changes no byte;
    \<open>attribute_unattributed_ranges\<close> leaves no character uncovered; and a moved block that lost its
    indentation leaks its authors behind it.
  \<^item> \<open>Line_Attributions\<close>: the condensation of byte attributions to lines, with its sweep, and back, and
    the checkpoint kinds of \<open>working_log.rs\<close>.

  \<^bold>\<open>Virtual attributions\<close> (\<open>virtual_attribution.rs\<close>)
  \<^item> \<open>Carryover_Merge\<close>: the hunks between two contents and the in-memory three-way merge
    \<open>carryover_merge_content\<close>, which is shown to be a merge by chunks with the lines that both sides keep
    as anchors, and never to index outside its tables.
  \<^item> \<open>Checkout_Rebase\<close>: \<open>checkout_merge_rebased_content\<close>, with a defect: two insertions around a removed
    line change their order.
  \<^item> \<open>Virtual_Attribution\<close>: the record \<open>VirtualAttributions\<close>, its conversion to a log and to the INITIAL
    file, the metrics of prompts and the restriction to commits. Hash maps are maps together with an
    order of iteration as an argument; the attestations do not depend on it. The Unicode normal form of
    a path is an argument.
  \<^item> \<open>Attribution_Merge\<close>: the merge of two sets of attributions that favours the first, the stripping of
    conflict markers, and the projection of committed lines.

  \<^bold>\<open>Git command line and daemon\<close>
  \<^item> \<open>Git_Cli\<close> (\<open>git/cli_parser.rs\<close>) and \<open>Command_Classification\<close> (\<open>git/command_classification.rs\<close>):
    the parsing of the tokens after \<open>git\<close>, which prints back as the same tokens, and the decision which
    invocations only read.
  \<^item> \<open>Daemon_Domain\<close>, \<open>Command_Analyzers\<close>, \<open>Family_Reducer\<close>: the commands, events and states of
    \<open>daemon/domain.rs\<close>, the analyzers of \<open>daemon/analyzers/\<close>, where an \<open>unreachable!\<close> is an error value,
    and the reducer with its watermarks. Canonicalising a path is an argument.
  \<^item> \<open>Family_Actors\<close>: \<open>family_actor.rs\<close>, \<open>global_actor.rs\<close> and \<open>coordinator.rs\<close> as a step relation
    \<open>co_step\<close> on the tasks, their channels of 1024 messages and the replies. The locale
    \<open>sequenced_actor\<close> is what the families and the global task share; the steps of a family refine one
    task alone on the messages sent to it, its replies are numbered, its channel can always be
    emptied, and a panicked task loses its family. Enriching a command from the reference log and
    resolving a worktree to its family are arguments.
  \<^item> \<open>Repo_State\<close> (\<open>git/repo_state.rs\<close>) and \<open>Git_Backend\<close> (\<open>daemon/git_backend.rs\<close>): paths as
    \<open>std::path\<close> reads them, the walk to the enclosing worktree, the common directory of a family; the
    expansion of aliases with its cache, which ends for every finite configuration, and the words of an alias.
    The queries of the file system are the record \<open>FileSystem\<close>, reading a configuration is \<open>ConfigReader\<close>.
  \<^item> \<open>Trace_Normalizer\<close> and \<open>Trace_Properties\<close> (\<open>daemon/trace_normalizer.rs\<close>): every handler of a trace2
    event and the sweeps of abandoned roots, on the record \<open>TraceNormalizerState\<close>. The state refines one
    phase per root (\<open>trace_refines_phases\<close>), events of different roots do not influence each other, and
    the memory of completed roots holds the last 16384.

  \<^bold>\<open>The reference cursor\<close> (\<open>daemon/ref_cursor.rs\<close>). The daemon learns what a command did to the
  references from the reference logs of git.
  \<^item> \<open>Reflog\<close>: the readers of a log, forwards and backwards in chunks, and that they agree.
  \<^item> \<open>Cursor_Args\<close>: what is read from command lines and from the messages of entries.
  \<^item> \<open>Ref_Cursor\<close>: the record \<open>RefCursor\<close> and its primitives; an operation is a function from the cursor to the
    cursor and a result (\<open>cursor_op\<close>), \<open>bind_op\<close> is the operator \<open>?\<close>. The files of one command are the record
    \<open>LogEnv\<close>. An entry is \<open>taken\<close> when the cursor passed it or it was consumed ahead of the cursor; consuming takes
    that entry and no other of the log.
  \<^item> \<open>Cursor_Search\<close>, \<open>Cursor_Loops\<close>, \<open>Cursor_Commands\<close>: the searches, the loops with their termination (a
    span moves towards the end of its log; draining takes one more entry each round, whatever the cursor),
    and one function per handler up to \<open>enrich_command\<close>.
  \<^item> \<open>Cursor_Properties\<close>: frames (an operation on one log leaves the cursors of the others), the choice by the
    captured offset, draining, and that no entry is credited to two commands that move \<open>HEAD\<close> once; a span,
    in contrast, can take an entry again. Below, the same for the family actor with this cursor.

  \<^bold>\<open>Conventions\<close> \<open>u32\<close> and \<open>u64\<close> are words; byte offsets (\<open>usize\<close>) and timestamps (\<open>u128\<close>) are
  natural numbers, with the bound on the size of a text (\<open>is_text\<close>) as a hypothesis where the code
  compares with \<open>usize::MAX\<close>. A string is the list of its UTF-8 bytes. An error is \<open>Inl\<close> or None,
  and a panic that the reader of a note can reach is a value of its own. Loops are structural
  recursions or functions with a measure, so every operation is total; no fuel is used. Files that an
  operation reads are a snapshot in its arguments; a log that grows between commands is a sequence of
  snapshots.

  \<^bold>\<open>Not modelled\<close> The drivers that run git (\<open>rewrite*.rs\<close>, \<open>post_commit.rs\<close>, the parts of
  \<open>virtual_attribution.rs\<close> that read files, notes and blame, \<open>git/repository.rs\<close>), the socket server and
  the workers of the daemon, the commands, the readers of agent transcripts and the telemetry: they are
  subprocesses, files, databases and sockets around the functions above.
\<close>

section \<open>The family actor and the reference cursor\<close>



end
